(* ===== verification/Prelude.thy ===== *)
theory Prelude
  imports Complex_Main "HOL-Library.Char_ord" "HOL-Library.List_Lexorder"
    "HOL-Library.Product_Lexorder"
begin

text \<open>
  The vocabulary every component theory shares: results of fallible Python code, the Decimal
  arithmetic of the default context, text operations, dynamically typed values and the
  selection loops (first maximum, sums) of the source. Nothing here models one component; the
  definitions stand for the parts of the language and its standard library the source uses.
\<close>

section \<open>Collections\<close>

named_theorems py_simps \<open>unfolding rules of the result type\<close>
named_theorems dec_intros \<open>bounds and signs of rounded Decimal operations\<close>

section \<open>Results of code that may raise\<close>

text \<open>
  An exception is a value of \<open>pyerr\<close>; its text is dropped. \<open>ValidationError\<close>
  and its subclasses keep the field they name, because callers attach the error to it.
\<close>

datatype pyerr = TypeError | ValueError | KeyError | OverflowError | ZeroDivisionError
  | RuntimeError | AssertionError | AttributeError | ValidationError string
  | UnknownDefinition string | FormulaRefused string | Conflict string
  | AuthorizationError string | NotFound

type_synonym 'a result = "pyerr + 'a"

abbreviation raise :: "pyerr \<Rightarrow> 'a result" where "raise \<equiv> Inl"
abbreviation ok :: "'a \<Rightarrow> 'a result" where "ok \<equiv> Inr"

definition rbind :: "'a result \<Rightarrow> ('a \<Rightarrow> 'b result) \<Rightarrow> 'b result" where
  "rbind m f = (case m of Inl e \<Rightarrow> Inl e | Inr x \<Rightarrow> f x)"

definition ensure :: "bool \<Rightarrow> pyerr \<Rightarrow> unit result" where
  "ensure b e = (if b then ok () else raise e)"

lemma rbind_simps [simp]: "rbind (Inl e) f = Inl e" "rbind (Inr x) f = f x"
  by (simp_all add: rbind_def)

lemma rbind_ok_iff: "rbind m f = Inr y \<longleftrightarrow> (\<exists>x. m = Inr x \<and> f x = Inr y)"
  by (cases m) auto

lemma rbind_okE [elim!]:
  assumes "rbind m f = Inr y"
  obtains x where "m = Inr x" and "f x = Inr y"
  using assms by (auto simp: rbind_ok_iff)

lemma ensure_ok_iff [simp]: "ensure b e = Inr u \<longleftrightarrow> b"
  by (simp add: ensure_def)

lemma ensure_simps [simp]: "ensure True e = Inr ()" "ensure False e = Inl e"
  by (simp_all add: ensure_def)

lemma ensure_err_iff [simp]: "ensure b e = Inl e' \<longleftrightarrow> \<not> b \<and> e' = e"
  by (auto simp: ensure_def)

text \<open>A loop that builds a list and stops at the first element that raises.\<close>

fun rmap :: "('a \<Rightarrow> 'b result) \<Rightarrow> 'a list \<Rightarrow> 'b list result" where
  "rmap f [] = ok []"
| "rmap f (x # xs) = rbind (f x) (\<lambda>y. rbind (rmap f xs) (\<lambda>ys. ok (y # ys)))"

lemma rmap_length: "rmap f xs = Inr ys \<Longrightarrow> length ys = length xs"
  by (induction xs arbitrary: ys) auto

lemma rmap_nth:
  "rmap f xs = Inr ys \<Longrightarrow> i < length xs \<Longrightarrow> f (xs ! i) = Inr (ys ! i)"
  by (induction xs arbitrary: ys i) (auto simp: nth_Cons split: nat.split)

lemma rmap_ok_all: "\<forall>x\<in>set xs. f x = Inr (g x) \<Longrightarrow> rmap f xs = Inr (map g xs)"
  by (induction xs) auto

lemma rmap_set: "rmap f xs = Inr ys \<Longrightarrow> y \<in> set ys \<Longrightarrow> \<exists>x\<in>set xs. f x = Inr y"
  by (induction xs arbitrary: ys) auto

lemma rmap_Inr_iff:
  "rmap f xs = Inr ys \<longleftrightarrow> (\<forall>x\<in>set xs. \<exists>y. f x = Inr y) \<and> ys = map (\<lambda>x. projr (f x)) xs"
proof (induction xs arbitrary: ys)
  case (Cons x xs)
  then show ?case by (cases "f x"; cases "rmap f xs") auto
qed auto

section \<open>Selection loops\<close>

text \<open>
  \<open>max(xs, key=f)\<close> returns the first element whose key no other exceeds; the source never
  calls it on an empty sequence, so the head is an argument of its own.
\<close>

fun max_key :: "('a \<Rightarrow> 'b::linorder) \<Rightarrow> 'a \<Rightarrow> 'a list \<Rightarrow> 'a" where
  "max_key f best [] = best"
| "max_key f best (x # xs) = max_key f (if f best < f x then x else best) xs"

lemma max_key_in: "max_key f b xs = b \<or> max_key f b xs \<in> set xs"
proof (induction xs arbitrary: b)
  case (Cons x xs)
  then show ?case by (cases "f b < f x") auto
qed simp

lemma max_key_in_Cons: "max_key f b xs \<in> set (b # xs)"
  using max_key_in [of f b xs] by auto

lemma max_key_ge_best: "f b \<le> f (max_key f b xs)"
proof (induction xs arbitrary: b)
  case (Cons x xs)
  from Cons.IH [of x] Cons.IH [of b] show ?case by auto
qed simp

lemma max_key_ge: "x \<in> set (b # xs) \<Longrightarrow> f x \<le> f (max_key f b xs)"
proof (induction xs arbitrary: b)
  case (Cons y ys)
  have mono: "f b \<le> f (max_key f (if f b < f y then y else b) ys)"
             "f y \<le> f (max_key f (if f b < f y then y else b) ys)"
    using max_key_ge_best [of f y ys] max_key_ge_best [of f b ys] by auto
  have "x \<in> set ys \<Longrightarrow> f x \<le> f (max_key f (if f b < f y then y else b) ys)"
    by (rule Cons.IH) simp
  with mono Cons.prems show ?case by auto
qed simp

lemma max_key_image: "inj_on f (set (b # xs)) \<Longrightarrow> m \<in> set (b # xs) \<Longrightarrow>
    (\<forall>x\<in>set (b # xs). f x \<le> f m) \<Longrightarrow> max_key f b xs = m"
  using max_key_in_Cons [of f b xs] max_key_ge [of m b xs f]
  by (metis inj_onD order_antisym)

section \<open>Association lists for dictionaries whose order is observed\<close>

definition lookup :: "('k \<times> 'v) list \<Rightarrow> 'k \<Rightarrow> 'v option" where
  "lookup kvs k = map_of kvs k"

definition has_key :: "('k \<times> 'v) list \<Rightarrow> 'k \<Rightarrow> bool" where
  "has_key kvs k = (lookup kvs k \<noteq> None)"

lemma lookup_Nil [simp]: "lookup [] k = None"
  by (simp add: lookup_def)

lemma lookup_Cons [simp]: "lookup ((a, v) # kvs) k = (if a = k then Some v else lookup kvs k)"
  by (auto simp: lookup_def)

lemma has_key_Nil [simp]: "has_key [] k = False"
  by (simp add: has_key_def)

lemma has_key_Cons [simp]: "has_key ((a, v) # kvs) k = (a = k \<or> has_key kvs k)"
  by (auto simp: has_key_def)

lemma has_key_iff: "has_key kvs k \<longleftrightarrow> k \<in> fst ` set kvs"
  by (induction kvs) auto

lemma lookup_Some_has_key: "lookup kvs k = Some v \<Longrightarrow> has_key kvs k"
  by (simp add: has_key_def)

lemma has_keyE: "has_key kvs k \<Longrightarrow> (\<And>v. lookup kvs k = Some v \<Longrightarrow> P) \<Longrightarrow> P"
  by (auto simp: has_key_def)

end
