(* ===== verification/Decimals.thy ===== *)
theory Decimals
  imports Prelude
begin

text \<open>
  \<open>decimal.Decimal\<close> in the default context the program runs in (\<open>getcontext()\<close> is
  never changed by the modelled code): precision 28, rounding half even. A finite Decimal is
  modelled by its numeric value, a \<open>rat\<close>; every arithmetic operation computes exactly and
  rounds the result to 28 significant digits, comparisons are exact. Unary minus and
  \<open>abs\<close> round as well, as the operations of the standard library do. The exponent range of
  the context (\<open>Emin\<close>, \<open>Emax\<close>) is not modelled: no operation below overflows or
  underflows; \<open>in_exponent_range\<close> says which results the context has. Trailing zeros and the sign of zero, visible only in the printed form, are not
  part of the value.
\<close>

type_synonym decimal = rat

section \<open>Rounding\<close>

text \<open>Evaluation of \<open>floor\<close> and \<open>ceiling\<close> on rational literals, for witnesses.\<close>

lemma rat_floor_frac [simp]:
  "\<lfloor>numeral a / numeral b :: rat\<rfloor> = numeral a div numeral b"
  "\<lfloor>1 / numeral b :: rat\<rfloor> = 1 div numeral b"
  using floor_divide_of_int_eq [of "numeral a" "numeral b", where ?'a = rat]
    floor_divide_of_int_eq [of 1 "numeral b", where ?'a = rat] by simp_all

lemma rat_ceiling_frac [simp]:
  "\<lceil>numeral a / numeral b :: rat\<rceil> = - (- numeral a div numeral b)"
  using floor_divide_of_int_eq [of "- numeral a" "numeral b", where ?'a = rat]
  by (simp add: ceiling_def)

definition half_even :: "rat \<Rightarrow> int" where
  "half_even s = (let f = \<lfloor>s\<rfloor>; d = s - of_int f in
     if d < 1 / 2 then f else if 1 / 2 < d then f + 1 else if even f then f else f + 1)"

fun ndig :: "nat \<Rightarrow> nat" where
  "ndig n = (if n = 0 then 0 else Suc (ndig (n div 10)))"

declare ndig.simps [simp del]

lemma ndig_0 [simp]: "ndig 0 = 0"
  by (simp add: ndig.simps)

lemma ndig_1 [simp]: "ndig 1 = 1" "ndig (Suc 0) = 1"
  using ndig.simps [of 1] by simp_all

lemma ndig_numeral [simp]: "ndig (numeral w) = Suc (ndig (numeral w div 10))"
  by (simp add: ndig.simps [of "numeral w"])

definition dexp :: "rat \<Rightarrow> int" where
  "dexp q = (if 1 \<le> q then int (ndig (nat \<lfloor>q\<rfloor>)) - 1 else - int (ndig (nat (\<lceil>1 / q\<rceil> - 1))))"

definition pow10 :: "int \<Rightarrow> rat" where
  "pow10 e = (if 0 \<le> e then 10 ^ nat e else 1 / 10 ^ nat (- e))"

definition rnd_pos :: "rat \<Rightarrow> rat" where
  "rnd_pos q = (let e = dexp q - 27 in of_int (half_even (q / pow10 e)) * pow10 e)"

definition rnd :: "rat \<Rightarrow> rat" where
  "rnd q = (if q = 0 then 0 else if 0 < q then rnd_pos q else - rnd_pos (- q))"

lemma pow10_pos [simp]: "0 < pow10 e"
  by (simp add: pow10_def)

lemma pow10_nonzero [simp]: "pow10 e \<noteq> 0"
  using pow10_pos [of e] by linarith

lemma pow10_powi: "pow10 e = 10 powi e"
  by (simp add: pow10_def power_int_def power_one_over inverse_eq_divide)

lemma pow10_add: "pow10 (a + b) = pow10 a * pow10 b"
  by (simp add: pow10_powi power_int_add)

lemma pow10_mono: "a \<le> b \<Longrightarrow> pow10 a \<le> pow10 b"
  by (simp add: pow10_powi power_int_increasing)

lemma pow10_strict: "a < b \<Longrightarrow> pow10 a < pow10 b"
  by (simp add: pow10_powi power_int_strict_increasing)

lemma pow10_less_iff: "pow10 a < pow10 b \<longleftrightarrow> a < b"
  by (metis linorder_not_le pow10_mono pow10_strict)

lemma pow10_le_iff: "pow10 a \<le> pow10 b \<longleftrightarrow> a \<le> b"
  by (metis linorder_not_le pow10_mono pow10_strict)

lemma pow10_nat: "pow10 (int n) = 10 ^ n"
  by (simp add: pow10_def)

lemma pow10_neg_nat: "pow10 (- int n) = 1 / 10 ^ n"
  by (simp add: pow10_powi power_int_minus inverse_eq_divide)

text \<open>Zero and the normal numbers of the context: a result among them neither overflows nor underflows.\<close>

definition in_exponent_range :: "decimal \<Rightarrow> bool" where
  "in_exponent_range q \<longleftrightarrow> q = 0 \<or> pow10 (- 999999) \<le> \<bar>q\<bar> \<and> \<bar>q\<bar> < pow10 1000000"

lemma in_exponent_rangeI:
  assumes "q = 0 \<or> 1 / 10 ^ 9 \<le> \<bar>q\<bar> \<and> \<bar>q\<bar> \<le> 10 ^ 9"
  shows "in_exponent_range q"
proof -
  have "pow10 (- 999999) \<le> pow10 (- int 9)" "pow10 (int 9) < pow10 1000000" by (rule pow10_mono pow10_strict, simp)+
  then show ?thesis using assms unfolding in_exponent_range_def pow10_nat pow10_neg_nat by linarith
qed

lemma half_even_bounds: "\<lfloor>s\<rfloor> \<le> half_even s" "half_even s \<le> \<lfloor>s\<rfloor> + 1"
  by (auto simp: half_even_def Let_def)

lemma half_even_of_int [simp]: "half_even (of_int k) = k"
  by (simp add: half_even_def)

lemma half_even_mono: "s \<le> t \<Longrightarrow> half_even s \<le> half_even t"
proof (cases "\<lfloor>s\<rfloor> = \<lfloor>t\<rfloor>")
  case True
  assume "s \<le> t"
  with True show ?thesis by (auto simp: half_even_def Let_def)
next
  case False
  assume "s \<le> t"
  then have "\<lfloor>s\<rfloor> + 1 \<le> \<lfloor>t\<rfloor>" using False floor_mono [of s t] by linarith
  with half_even_bounds [of s] half_even_bounds [of t] show ?thesis by linarith
qed

lemma half_even_error: "\<bar>of_int (half_even s) - s\<bar> \<le> 1 / 2"
proof -
  define d where "d = s - of_int \<lfloor>s\<rfloor>"
  have d: "0 \<le> d" "d < 1" by (auto simp: d_def) linarith
  have s: "s = of_int \<lfloor>s\<rfloor> + d" by (simp add: d_def)
  show ?thesis
    using d by (auto simp: half_even_def Let_def d_def [symmetric]) (auto simp: d_def)
qed

lemma ndig_bounds: "0 < n \<Longrightarrow> 10 ^ (ndig n - 1) \<le> n \<and> n < 10 ^ ndig n"
proof (induction n rule: ndig.induct)
  case (1 n)
  show ?case
  proof (cases "n div 10 = 0")
    case True
    then have "n < 10" by linarith
    with 1 True show ?thesis by (simp add: ndig.simps [of n] ndig.simps [of 0])
  next
    case False
    with 1 have ih: "10 ^ (ndig (n div 10) - 1) \<le> n div 10" "n div 10 < 10 ^ ndig (n div 10)"
      by auto
    have pos: "0 < ndig (n div 10)" using False by (simp add: ndig.simps [of "n div 10"])
    have "(10::nat) ^ ndig (n div 10) = 10 * 10 ^ (ndig (n div 10) - 1)"
      using pos by (cases "ndig (n div 10)") auto
    with ih have "10 ^ ndig (n div 10) \<le> n" by linarith
    moreover from ih(2) have "n < 10 * 10 ^ ndig (n div 10)" by linarith
    ultimately show ?thesis using 1 by (simp add: ndig.simps [of n])
  qed
qed

lemma ndig_bounds_rat:
  assumes "0 < n"
  shows "(10::rat) ^ (ndig n - 1) \<le> of_nat n" and "(of_nat n :: rat) < 10 ^ ndig n"
  using ndig_bounds [OF assms] by (metis of_nat_le_iff of_nat_numeral of_nat_power,
    metis of_nat_less_iff of_nat_numeral of_nat_power)

lemma dexp_bounds:
  assumes "0 < q"
  shows "pow10 (dexp q) \<le> q" and "q < pow10 (dexp q + 1)"
proof -
  have "pow10 (dexp q) \<le> q \<and> q < pow10 (dexp q + 1)"
  proof (cases "1 \<le> q")
    case True
    define n where "n = nat \<lfloor>q\<rfloor>"
    have f: "1 \<le> \<lfloor>q\<rfloor>" using True by simp
    then have n: "0 < n" and nf: "of_nat n = (of_int \<lfloor>q\<rfloor> :: rat)" by (auto simp: n_def)
    have pos: "0 < ndig n" using n by (simp add: ndig.simps [of n])
    have e: "dexp q = int (ndig n - 1)" using True pos by (simp add: dexp_def n_def of_nat_diff)
    have e1: "dexp q + 1 = int (ndig n)" using e pos by simp
    have "pow10 (dexp q) \<le> of_int \<lfloor>q\<rfloor>"
      using ndig_bounds_rat(1) [OF n] e nf by (simp add: pow10_nat)
    then have lo: "pow10 (dexp q) \<le> q" by linarith
    have "int n < 10 ^ ndig n" using ndig_bounds [OF n] by (metis of_nat_less_iff of_nat_numeral of_nat_power)
    then have "\<lfloor>q\<rfloor> + 1 \<le> 10 ^ ndig n" using f n_def by linarith
    then have "(of_int (\<lfloor>q\<rfloor> + 1) :: rat) \<le> 10 ^ ndig n"
      by (metis of_int_le_iff of_int_numeral of_int_power)
    moreover have "q < of_int (\<lfloor>q\<rfloor> + 1)" by linarith
    ultimately have "q < pow10 (dexp q + 1)" using e1 by (simp add: pow10_nat)
    with lo show ?thesis by simp
  next
    case False
    define c where "c = \<lceil>1 / q\<rceil>"
    define m where "m = nat (c - 1)"
    define k where "k = ndig m"
    have inv: "1 < 1 / q" using False assms by simp
    then have c2: "2 \<le> c" unfolding c_def by linarith
    then have m: "0 < m" and mc: "of_nat m = (of_int c - 1 :: rat)" by (auto simp: m_def)
    have kpos: "0 < k" using m by (simp add: k_def ndig.simps [of m])
    have e: "dexp q = - int k" using False by (simp add: dexp_def c_def m_def k_def)
    have "int m < 10 ^ k" using ndig_bounds [OF m] unfolding k_def
      by (metis of_nat_less_iff of_nat_numeral of_nat_power)
    then have "c \<le> 10 ^ k" using m_def c2 by linarith
    then have "(of_int c :: rat) \<le> 10 ^ k" by (metis of_int_le_iff of_int_numeral of_int_power)
    moreover have "1 / q \<le> of_int c" unfolding c_def by linarith
    ultimately have "1 / q \<le> 10 ^ k" by linarith
    then have "1 \<le> 10 ^ k * q" using assms by (simp add: divide_le_eq mult.commute)
    then have lo: "pow10 (dexp q) \<le> q" using e by (simp add: pow10_neg_nat divide_le_eq mult.commute)
    have "10 ^ (k - 1) \<le> (of_nat m :: rat)" using ndig_bounds_rat(1) [OF m] by (simp add: k_def)
    moreover have "of_int c - 1 < 1 / q" unfolding c_def by linarith
    ultimately have "10 ^ (k - 1) < 1 / q" using mc by linarith
    then have "10 ^ (k - 1) * q < 1" using assms by (simp add: less_divide_eq)
    moreover have "dexp q + 1 = - int (k - 1)" using e kpos by simp
    ultimately have "q < pow10 (dexp q + 1)"
      by (simp add: pow10_neg_nat less_divide_eq mult.commute)
    with lo show ?thesis by simp
  qed
  then show "pow10 (dexp q) \<le> q" and "q < pow10 (dexp q + 1)" by auto
qed

section \<open>Laws of the rounding\<close>

lemma rnd_pos_scaled:
  assumes "0 < q"
  defines "e \<equiv> dexp q - 27"
  shows "10 ^ 27 \<le> half_even (q / pow10 e)" and "half_even (q / pow10 e) \<le> 10 ^ 28"
proof -
  have p27: "pow10 (dexp q) = 10 ^ 27 * pow10 e" and p28: "pow10 (dexp q + 1) = 10 ^ 28 * pow10 e"
    using pow10_add [of 27 e] pow10_add [of 28 e] pow10_nat [of 27] pow10_nat [of 28]
    by (simp_all add: e_def algebra_simps)
  have lo: "of_int (10 ^ 27) \<le> q / pow10 e"
    using dexp_bounds(1) [OF assms(1)] p27 by (simp add: le_divide_eq)
  have hi: "q / pow10 e \<le> of_int (10 ^ 28)"
    using dexp_bounds(2) [OF assms(1)] p28 by (simp add: divide_le_eq)
  from half_even_mono [OF lo] show "10 ^ 27 \<le> half_even (q / pow10 e)"
    by (simp only: half_even_of_int)
  from half_even_mono [OF hi] show "half_even (q / pow10 e) \<le> 10 ^ 28"
    by (simp only: half_even_of_int)
qed

lemma rnd_pos_bounds:
  assumes "0 < q"
  shows "pow10 (dexp q) \<le> rnd_pos q" and "rnd_pos q \<le> pow10 (dexp q + 1)"
proof -
  define e where "e = dexp q - 27"
  have p27: "pow10 (dexp q) = of_int (10 ^ 27) * pow10 e"
    and p28: "pow10 (dexp q + 1) = of_int (10 ^ 28) * pow10 e"
    using pow10_add [of 27 e] pow10_add [of 28 e] pow10_nat [of 27] pow10_nat [of 28]
    by (simp_all add: e_def algebra_simps)
  have r: "rnd_pos q = of_int (half_even (q / pow10 e)) * pow10 e"
    by (simp add: rnd_pos_def e_def Let_def)
  show "pow10 (dexp q) \<le> rnd_pos q" unfolding p27 r
    by (rule mult_right_mono) (use rnd_pos_scaled(1) [OF assms] in \<open>simp_all only: of_int_le_iff e_def\<close>, simp add: less_imp_le)
  show "rnd_pos q \<le> pow10 (dexp q + 1)" unfolding p28 r
    by (rule mult_right_mono) (use rnd_pos_scaled(2) [OF assms] in \<open>simp_all only: of_int_le_iff e_def\<close>, simp add: less_imp_le)
qed

lemma rnd_pos_pos: "0 < q \<Longrightarrow> 0 < rnd_pos q"
  using rnd_pos_bounds(1) [of q] pow10_pos [of "dexp q"] by linarith

lemma dexp_mono: "0 < q \<Longrightarrow> q \<le> r \<Longrightarrow> dexp q \<le> dexp r"
  using dexp_bounds(1) [of q] dexp_bounds(2) [of r] pow10_less_iff [of "dexp q" "dexp r + 1"]
  by linarith

lemma rnd_pos_mono:
  assumes "0 < q" and "q \<le> r"
  shows "rnd_pos q \<le> rnd_pos r"
proof (cases "dexp q = dexp r")
  case True
  define e where "e = dexp r - 27"
  have "q / pow10 e \<le> r / pow10 e"
    using assms(2) by (simp add: divide_right_mono less_imp_le)
  then have "half_even (q / pow10 e) \<le> half_even (r / pow10 e)" by (rule half_even_mono)
  then have "(of_int (half_even (q / pow10 e)) :: rat) \<le> of_int (half_even (r / pow10 e))"
    by (simp only: of_int_le_iff)
  then show ?thesis
    by (simp add: rnd_pos_def Let_def True e_def mult_right_mono less_imp_le)
next
  case False
  with dexp_mono [OF assms] have "dexp q + 1 \<le> dexp r" by linarith
  then have "pow10 (dexp q + 1) \<le> pow10 (dexp r)" by (rule pow10_mono)
  with rnd_pos_bounds(2) [OF assms(1)] rnd_pos_bounds(1) [of r] assms show ?thesis by linarith
qed

lemma rnd_zero [simp]: "rnd 0 = 0"
  by (simp add: rnd_def)

lemma rnd_pos_iff [simp]: "0 < rnd q \<longleftrightarrow> 0 < q"
  using rnd_pos_pos [of q] rnd_pos_pos [of "- q"] by (auto simp: rnd_def)

lemma rnd_neg: "rnd (- q) = - rnd q"
  by (simp add: rnd_def)

lemma rnd_neg_iff [simp]: "rnd q < 0 \<longleftrightarrow> q < 0"
  using rnd_pos_iff [of "- q"] by (simp add: rnd_neg)

lemma rnd_eq_0_iff [simp]: "rnd q = 0 \<longleftrightarrow> q = 0"
  using rnd_pos_iff [of q] rnd_neg_iff [of q] by (metis linorder_neqE_linordered_idom order_less_irrefl rnd_zero)

lemma rnd_nonneg_iff [simp]: "0 \<le> rnd q \<longleftrightarrow> 0 \<le> q"
  using rnd_neg_iff [of q] by linarith

lemma rnd_nonpos_iff [simp]: "rnd q \<le> 0 \<longleftrightarrow> q \<le> 0"
  using rnd_pos_iff [of q] by linarith

lemma rnd_mono: "q \<le> r \<Longrightarrow> rnd q \<le> rnd r"
proof -
  assume le: "q \<le> r"
  consider "0 < q" | "q \<le> 0" "0 \<le> r" | "r < 0" using le by linarith
  then show ?thesis
  proof cases
    case 1
    with le show ?thesis by (simp add: rnd_def rnd_pos_mono)
  next
    case 2
    then have "rnd q \<le> 0" "0 \<le> rnd r" by simp_all
    then show ?thesis by linarith
  next
    case 3
    with le have "rnd_pos (- r) \<le> rnd_pos (- q)" by (intro rnd_pos_mono) auto
    with 3 le show ?thesis by (simp add: rnd_def)
  qed
qed


lemma rnd_pos_exact:
  assumes "0 < c" and "c < 10 ^ 28"
  shows "rnd_pos (of_int c * pow10 e) = of_int c * pow10 e"
proof -
  define q where "q = of_int c * pow10 e"
  define d where "d = dexp q - 27"
  have q: "0 < q" using assms(1) by (simp add: q_def)
  have "(of_int c :: rat) < of_int (10 ^ 28)" using assms(2) by (simp only: of_int_less_iff)
  then have "q < of_int (10 ^ 28) * pow10 e" by (simp add: q_def)
  also have "\<dots> = pow10 (28 + e)" using pow10_add [of 28 e] pow10_nat [of 28] by simp
  finally have "pow10 (dexp q) < pow10 (28 + e)" using dexp_bounds(1) [OF q] by linarith
  then have "d \<le> e" by (simp add: d_def pow10_less_iff)
  then have "e = d + int (nat (e - d))" by simp
  then have "q = of_int c * (pow10 d * 10 ^ nat (e - d))"
    by (metis pow10_add pow10_nat q_def)
  then have "q / pow10 d = of_int (c * 10 ^ nat (e - d))" by simp
  then have "of_int (half_even (q / pow10 d)) * pow10 d = q"
    by (metis half_even_of_int nonzero_divide_eq_eq pow10_nonzero)
  then show ?thesis by (simp add: rnd_pos_def Let_def d_def q_def)
qed

lemma rnd_exact: "\<bar>c\<bar> < 10 ^ 28 \<Longrightarrow> rnd (of_int c * pow10 e) = of_int c * pow10 e"
proof -
  assume c: "\<bar>c\<bar> < 10 ^ 28"
  consider "c = 0" | "0 < c" | "c < 0" by linarith
  then show ?thesis
  proof cases
    case 2
    with c show ?thesis by (simp add: rnd_def rnd_pos_exact)
  next
    case 3
    then have "rnd_pos (of_int (- c) * pow10 e) = of_int (- c) * pow10 e"
      using c by (intro rnd_pos_exact) auto
    moreover have "of_int c * pow10 e < 0" using 3 by (simp add: mult_neg_pos)
    ultimately show ?thesis by (simp add: rnd_def)
  qed simp
qed

lemma rnd_int: "\<bar>c\<bar> < 10 ^ 28 \<Longrightarrow> rnd (of_int c) = of_int c"
  using rnd_exact [of c 0] by (simp add: pow10_def)

lemma rnd_scaled: "\<bar>c\<bar> < 10 ^ 28 \<Longrightarrow> rnd (of_int c / 10 ^ k) = of_int c / 10 ^ k"
  using rnd_exact [of c "- int k"] by (simp add: pow10_neg_nat)

lemma rnd_1 [simp]: "rnd 1 = 1"
  using rnd_int [of 1] by simp

lemma rnd_numeral: "numeral w < (10 ^ 28 :: int) \<Longrightarrow> rnd (numeral w) = numeral w"
  using rnd_int [of "numeral w"] by simp

lemma rnd_idem [simp]: "rnd (rnd q) = rnd q"
proof -
  have pos: "rnd (rnd_pos p) = rnd_pos p" if p: "0 < p" for p
  proof -
    define e where "e = dexp p - 27"
    define c where "c = half_even (p / pow10 e)"
    have r: "rnd_pos p = of_int c * pow10 e" by (simp add: rnd_pos_def Let_def c_def e_def)
    have c: "10 ^ 27 \<le> c" "c \<le> 10 ^ 28"
      using rnd_pos_scaled [OF p] by (simp_all add: c_def e_def)
    show ?thesis
    proof (cases "c = 10 ^ 28")
      case True
      then have "rnd_pos p = of_int 1 * pow10 (28 + e)"
        using pow10_add [of 28 e] pow10_nat [of 28] r by simp
      then show ?thesis using rnd_exact [of 1 "28 + e"] by simp
    next
      case False
      then have "c < 10 ^ 28" using c(2) by (rule order_neq_le_trans)
      moreover have "0 < c" using c(1) by (rule less_le_trans [rotated]) simp
      ultimately have "\<bar>c\<bar> < 10 ^ 28" by simp
      then show ?thesis using r rnd_exact [of c e] by simp
    qed
  qed
  show ?thesis
    using pos [of q] pos [of "- q"] by (cases "q = 0"; cases "0 < q") (auto simp: rnd_def rnd_neg)
qed

text \<open>The relative error of one operation.\<close>

lemma rnd_error: "\<bar>rnd q - q\<bar> \<le> \<bar>q\<bar> / (2 * 10 ^ 27)"
proof -
  have pos: "\<bar>rnd_pos p - p\<bar> \<le> p / (2 * 10 ^ 27)" if p: "0 < p" for p
  proof -
    define e where "e = dexp p - 27"
    define s where "s = p / pow10 e"
    have ps: "p = s * pow10 e" by (simp add: s_def)
    have "pow10 (dexp p) = 10 ^ 27 * pow10 e"
      using pow10_add [of 27 e] pow10_nat [of 27] by (simp add: e_def)
    then have le: "10 ^ 27 * pow10 e \<le> p" using dexp_bounds(1) [OF p] by simp
    have "rnd_pos p = of_int (half_even s) * pow10 e"
      by (simp add: rnd_pos_def Let_def e_def s_def)
    then have "rnd_pos p - p = (of_int (half_even s) - s) * pow10 e"
      using ps by (simp only: left_diff_distrib)
    then have "\<bar>rnd_pos p - p\<bar> = \<bar>of_int (half_even s) - s\<bar> * pow10 e"
      by (simp add: abs_mult less_imp_le)
    also have "\<dots> \<le> 1 / 2 * pow10 e"
      using half_even_error [of s] by (intro mult_right_mono) (auto simp: less_imp_le)
    also have "\<dots> \<le> p / (2 * 10 ^ 27)" using le by (simp add: le_divide_eq)
    finally show ?thesis .
  qed
  show ?thesis
    using pos [of q] pos [of "- q"] by (cases "q = 0"; cases "0 < q") (auto simp: rnd_def)
qed

section \<open>Decimal operations\<close>

definition dadd :: "decimal \<Rightarrow> decimal \<Rightarrow> decimal" where "dadd a b = rnd (a + b)"
definition dsub :: "decimal \<Rightarrow> decimal \<Rightarrow> decimal" where "dsub a b = rnd (a - b)"
definition dmul :: "decimal \<Rightarrow> decimal \<Rightarrow> decimal" where "dmul a b = rnd (a * b)"
definition dneg :: "decimal \<Rightarrow> decimal" where "dneg a = rnd (- a)"
definition dabs :: "decimal \<Rightarrow> decimal" where "dabs a = rnd \<bar>a\<bar>"

text \<open>Division traps: a zero divisor raises (\<open>DivisionByZero\<close>, \<open>InvalidOperation\<close>
  for zero by zero), both of them \<open>ArithmeticError\<close>s.\<close>

definition ddiv :: "decimal \<Rightarrow> decimal \<Rightarrow> decimal" where "ddiv a b = rnd (a / b)"

definition ddiv_checked :: "decimal \<Rightarrow> decimal \<Rightarrow> decimal result" where
  "ddiv_checked a b = (if b = 0 then raise ZeroDivisionError else ok (ddiv a b))"

text \<open>\<open>sum(values, Decimal(0))\<close> adds from the left, rounding at every step.\<close>

definition dsum :: "decimal list \<Rightarrow> decimal" where "dsum xs = foldl dadd 0 xs"

lemmas dec_defs = dadd_def dsub_def dmul_def ddiv_def dneg_def dabs_def

text \<open>The rounding computed on literals; used only to evaluate witnesses.\<close>

lemmas rnd_eval = rnd_def rnd_pos_def dexp_def half_even_def pow10_def Let_def

section \<open>What the clients of the arithmetic rely on\<close>

locale rounding =
  fixes r :: "rat \<Rightarrow> rat"
  assumes r_mono: "x \<le> y \<Longrightarrow> r x \<le> r y"
    and r_sign: "0 < r x \<longleftrightarrow> 0 < x"
    and r_odd: "r (- x) = - r x"
    and r_int: "\<bar>c\<bar> < 10 ^ 28 \<Longrightarrow> r (of_int c) = of_int c"
begin

lemma r_one: "r 1 = 1"
  using r_int [of 1] by simp

lemma r_zero: "r 0 = 0"
  using r_int [of 0] by simp

lemma r_nonneg: "0 \<le> x \<Longrightarrow> 0 \<le> r x"
  using r_mono [of 0 x] r_zero by simp

lemma unit_product: "0 \<le> x \<Longrightarrow> x \<le> 1 \<Longrightarrow> 0 \<le> y \<Longrightarrow> y \<le> 1 \<Longrightarrow> 0 \<le> r (x * y) \<and> r (x * y) \<le> 1"
  using r_mono [of "x * y" 1] r_nonneg [of "x * y"] r_one by (simp add: mult_le_one)

lemma unit_quotient: "0 \<le> x \<Longrightarrow> x \<le> y \<Longrightarrow> 0 < y \<Longrightarrow> 0 \<le> r (x / y) \<and> r (x / y) \<le> 1"
  using r_mono [of "x / y" 1] r_nonneg [of "x / y"] r_one by simp

lemma difference_sign: "0 < r (x - y) \<longleftrightarrow> y < x"
  using r_sign [of "x - y"] by simp

lemma product_mono: "0 \<le> z \<Longrightarrow> x \<le> y \<Longrightarrow> r (x * z) \<le> r (y * z)"
  by (intro r_mono mult_right_mono)

lemma quotient_antimono: "0 \<le> x \<Longrightarrow> 0 < y \<Longrightarrow> y \<le> z \<Longrightarrow> r (x / z) \<le> r (x / y)"
  by (intro r_mono divide_left_mono) auto

lemma sum_mono: "a \<le> b \<Longrightarrow> c \<le> d \<Longrightarrow> r (a + c) \<le> r (b + d)"
  by (intro r_mono add_mono)

end

interpretation ctx: rounding rnd
  by unfold_locales (simp_all add: rnd_mono rnd_neg rnd_int)

lemma dadd_nonneg [dec_intros]: "0 \<le> a \<Longrightarrow> 0 \<le> b \<Longrightarrow> 0 \<le> dadd a b"
  by (simp add: dadd_def)

lemma dmul_nonneg [dec_intros]: "0 \<le> a \<Longrightarrow> 0 \<le> b \<Longrightarrow> 0 \<le> dmul a b"
  by (simp add: dmul_def)

lemma ddiv_nonneg [dec_intros]: "0 \<le> a \<Longrightarrow> 0 \<le> b \<Longrightarrow> 0 \<le> ddiv a b"
  by (simp add: ddiv_def)

lemma dmul_unit [dec_intros]:
  "0 \<le> a \<Longrightarrow> a \<le> 1 \<Longrightarrow> 0 \<le> b \<Longrightarrow> b \<le> 1 \<Longrightarrow> dmul a b \<le> 1"
  using ctx.unit_product by (simp add: dmul_def)

lemma dsub_pos_iff [simp]: "0 < dsub a b \<longleftrightarrow> b < a"
  by (simp add: dsub_def)

lemma dsub_neg_iff [simp]: "dsub a b < 0 \<longleftrightarrow> a < b"
  by (simp add: dsub_def)

lemma dsub_zero_iff [simp]: "dsub a b = 0 \<longleftrightarrow> a = b"
  by (simp add: dsub_def)

lemma dsum_Nil [simp]: "dsum [] = 0"
  by (simp add: dsum_def)

lemma foldl_dadd_nonneg: "0 \<le> a \<Longrightarrow> (\<forall>x\<in>set xs. 0 \<le> x) \<Longrightarrow> 0 \<le> foldl dadd a xs"
  by (induction xs arbitrary: a) (auto intro: dec_intros)

lemma dsum_nonneg: "(\<forall>x\<in>set xs. 0 \<le> x) \<Longrightarrow> 0 \<le> dsum xs"
  unfolding dsum_def by (rule foldl_dadd_nonneg) auto

lemma foldl_dadd_mono:
  "list_all2 (\<le>) xs ys \<Longrightarrow> a \<le> b \<Longrightarrow> foldl dadd a xs \<le> foldl dadd b ys"
  by (induction arbitrary: a b rule: list_all2_induct)
    (simp_all add: dadd_def rnd_mono add_mono)

lemma dsum_mono: "list_all2 (\<le>) xs ys \<Longrightarrow> dsum xs \<le> dsum ys"
  unfolding dsum_def by (rule foldl_dadd_mono) auto

lemma foldl_dadd_pos:
  "0 \<le> a \<Longrightarrow> (\<forall>x\<in>set xs. 0 \<le> x) \<Longrightarrow> 0 < a \<or> (\<exists>x\<in>set xs. 0 < x) \<Longrightarrow> 0 < foldl dadd a xs"
proof (induction xs arbitrary: a)
  case (Cons x xs)
  have "0 \<le> dadd a x" using Cons.prems by (auto intro: dec_intros)
  moreover have "0 < dadd a x \<or> (\<exists>y\<in>set xs. 0 < y)" using Cons.prems by (auto simp: dadd_def)
  ultimately show ?case using Cons by auto
qed simp

lemma dsum_positive: "\<forall>x\<in>set xs. 0 \<le> x \<Longrightarrow> \<exists>x\<in>set xs. 0 < x \<Longrightarrow> 0 < dsum xs"
  unfolding dsum_def by (rule foldl_dadd_pos) auto

end
