(* ===== verification/Dates.thy ===== *)
theory Dates
  imports Prelude
begin

text \<open>
  \<open>datetime.date\<close> values, modelled by their proleptic Gregorian ordinal
  (\<open>date.toordinal()\<close>: 1 January of year 1 is 1), so that comparison, equality and
  \<open>(a - b).days\<close> are those of \<open>int\<close>. The constructor from year, month and day, the
  year of an ordinal, the weekday and the addition of days are the algorithms of the standard
  library; leaving the years 1 to 9999 raises \<open>OverflowError\<close>.
\<close>

type_synonym date = int

definition is_leap :: "int \<Rightarrow> bool" where
  "is_leap y = (y mod 4 = 0 \<and> (y mod 100 \<noteq> 0 \<or> y mod 400 = 0))"

definition days_before_year :: "int \<Rightarrow> int" where
  "days_before_year year = (let y = year - 1 in y * 365 + y div 4 - y div 100 + y div 400)"

definition days_before_month :: "int \<Rightarrow> int \<Rightarrow> int" where
  "days_before_month year month =
     [0, 31, 59, 90, 120, 151, 181, 212, 243, 273, 304, 334] ! nat (month - 1)
     + (if 2 < month \<and> is_leap year then 1 else 0)"

definition days_in_month :: "int \<Rightarrow> int \<Rightarrow> int" where
  "days_in_month year month =
     [31, 28, 31, 30, 31, 30, 31, 31, 30, 31, 30, 31] ! nat (month - 1)
     + (if month = 2 \<and> is_leap year then 1 else 0)"

definition min_ordinal :: date where "min_ordinal = 1"
definition max_ordinal :: date where "max_ordinal = 3652059"

definition valid_ymd :: "int \<Rightarrow> int \<Rightarrow> int \<Rightarrow> bool" where
  "valid_ymd y m d = (1 \<le> y \<and> y \<le> 9999 \<and> 1 \<le> m \<and> m \<le> 12 \<and> 1 \<le> d \<and> d \<le> days_in_month y m)"

definition ymd2ord :: "int \<Rightarrow> int \<Rightarrow> int \<Rightarrow> date" where
  "ymd2ord y m d = days_before_year y + days_before_month y m + d"

definition mk_date :: "int \<Rightarrow> int \<Rightarrow> int \<Rightarrow> date result" where
  "mk_date y m d = (if valid_ymd y m d then ok (ymd2ord y m d) else raise ValueError)"

definition year_of :: "date \<Rightarrow> int" where
  "year_of ordinal =
    (let n = ordinal - 1;
         n400 = n div 146097; n = n mod 146097;
         n100 = n div 36524; n = n mod 36524;
         n4 = n div 1461; n = n mod 1461;
         n1 = n div 365;
         year = n400 * 400 + 1 + n100 * 100 + n4 * 4 + n1
     in if n1 = 4 \<or> n100 = 4 then year - 1 else year)"

text \<open>\<open>weekday()\<close>: Monday is 0.\<close>

definition weekday :: "date \<Rightarrow> int" where
  "weekday ordinal = (ordinal + 6) mod 7"

definition add_days :: "date \<Rightarrow> int \<Rightarrow> date result" where
  "add_days d n = (let r = d + n in
     if min_ordinal \<le> r \<and> r \<le> max_ordinal then ok r else raise OverflowError)"

lemma add_days_ok: "add_days d n = Inr r \<Longrightarrow> r = d + n"
  by (auto simp: add_days_def Let_def split: if_splits)

lemma weekday_range: "0 \<le> weekday d \<and> weekday d < 7"
  by (simp add: weekday_def)

section \<open>The year of a constructed date\<close>

lemma month_cases:
  fixes m :: int
  assumes "1 \<le> m" and "m \<le> 12"
  shows "m = 1 \<or> m = 2 \<or> m = 3 \<or> m = 4 \<or> m = 5 \<or> m = 6 \<or> m = 7 \<or> m = 8 \<or> m = 9
    \<or> m = 10 \<or> m = 11 \<or> m = 12"
  using assms by presburger

lemma month_offsets:
  "days_before_month y 1 = 0"
  "days_before_month y 2 = 31"
  "days_before_month y 3 = 59 + (if is_leap y then 1 else 0)"
  "days_before_month y 4 = 90 + (if is_leap y then 1 else 0)"
  "days_before_month y 5 = 120 + (if is_leap y then 1 else 0)"
  "days_before_month y 6 = 151 + (if is_leap y then 1 else 0)"
  "days_before_month y 7 = 181 + (if is_leap y then 1 else 0)"
  "days_before_month y 8 = 212 + (if is_leap y then 1 else 0)"
  "days_before_month y 9 = 243 + (if is_leap y then 1 else 0)"
  "days_before_month y 10 = 273 + (if is_leap y then 1 else 0)"
  "days_before_month y 11 = 304 + (if is_leap y then 1 else 0)"
  "days_before_month y 12 = 334 + (if is_leap y then 1 else 0)"
  by (simp_all add: days_before_month_def)

lemma month_lengths:
  "days_in_month y 1 = 31"
  "days_in_month y 2 = 28 + (if is_leap y then 1 else 0)"
  "days_in_month y 3 = 31"
  "days_in_month y 4 = 30"
  "days_in_month y 5 = 31"
  "days_in_month y 6 = 30"
  "days_in_month y 7 = 31"
  "days_in_month y 8 = 31"
  "days_in_month y 9 = 30"
  "days_in_month y 10 = 31"
  "days_in_month y 11 = 30"
  "days_in_month y 12 = 31"
  by (simp_all add: days_in_month_def)

lemma day_of_year_bounds:
  assumes "1 \<le> m" "m \<le> 12" "1 \<le> d" "d \<le> days_in_month y m"
  shows "1 \<le> days_before_month y m + d"
    and "days_before_month y m + d \<le> (if is_leap y then 366 else 365)"
proof -
  have "1 \<le> days_before_month y m + d \<and>
    days_before_month y m + d \<le> (if is_leap y then 366 else 365)"
    using month_cases [OF assms(1,2)] assms(3,4)
    by (elim disjE) (simp_all add: month_offsets month_lengths split: if_splits)
  then show "1 \<le> days_before_month y m + d"
    and "days_before_month y m + d \<le> (if is_leap y then 366 else 365)" by simp_all
qed

lemma mod_full:
  fixes x n q :: int
  assumes "0 < x" "x \<le> n"
  shows "(n * q + x) mod n = 0 \<longleftrightarrow> x = n"
  using assms by (cases "x = n") auto

lemma divmod_eq:
  fixes x n q r :: int
  assumes "x = n * q + r" "0 \<le> r" "r < n"
  shows "x div n = q" and "x mod n = r"
  using int_div_pos_eq [OF assms] int_mod_pos_eq [OF assms] by simp_all

lemma year_of_ordinal:
  assumes "1 \<le> k" and "k \<le> (if is_leap y then 366 else 365)"
  shows "year_of (days_before_year y + k) = y"
proof -
  define z where "z = y - 1"
  define a b c d where "a = z div 400" and "b = z mod 400 div 100"
    and "c = z mod 100 div 4" and "d = z mod 4"
  have z: "z = 400 * a + 100 * b + 4 * c + d" and r: "0 \<le> b" "b < 4" "0 \<le> c" "c < 25" "0 \<le> d" "d < 4"
  proof -
    have "z mod 400 mod 100 = z mod 100" "z mod 100 mod 4 = z mod 4"
      by (simp_all add: mod_mod_cancel)
    then show "z = 400 * a + 100 * b + 4 * c + d"
      using mult_div_mod_eq [of 400 z] mult_div_mod_eq [of 100 "z mod 400"]
        mult_div_mod_eq [of 4 "z mod 100"]
      unfolding a_def b_def c_def d_def by linarith
    show "0 \<le> b" "0 \<le> c" "0 \<le> d" "d < 4"
      unfolding b_def c_def d_def by (simp_all add: pos_imp_zdiv_nonneg_iff)
    show "b < 4" using zdiv_mono1 [of "z mod 400" 399 100] by (simp add: b_def)
    show "c < 25" using zdiv_mono1 [of "z mod 100" 99 4] by (simp add: c_def)
  qed
  have q: "z div 4 = 100 * a + 25 * b + c" "z div 100 = 4 * a + b" "z div 400 = a"
  proof -
    show "z div 4 = 100 * a + 25 * b + c"
      by (rule int_div_pos_eq [where r = d]) (use z r in auto)
    show "z div 100 = 4 * a + b"
      by (rule int_div_pos_eq [where r = "4 * c + d"]) (use z r in auto)
  qed (simp add: a_def)
  have dby: "days_before_year y = 146097 * a + 36524 * b + 1461 * c + 365 * d"
    using q z by (simp add: days_before_year_def Let_def z_def [symmetric])
  have y: "y = 400 * a + 100 * b + 4 * c + d + 1" using z by (simp add: z_def)
  have leap: "is_leap y \<longleftrightarrow> d = 3 \<and> (c \<noteq> 24 \<or> b = 3)"
  proof -
    have "y mod 4 = 0 \<longleftrightarrow> d + 1 = 4"
      using mod_full [of "d + 1" 4 "100 * a + 25 * b + c"] r y by (simp add: algebra_simps)
    moreover have "y mod 100 = 0 \<longleftrightarrow> 4 * c + d + 1 = 100"
      using mod_full [of "4 * c + d + 1" 100 "4 * a + b"] r y by (simp add: algebra_simps)
    moreover have "y mod 400 = 0 \<longleftrightarrow> 100 * b + 4 * c + d + 1 = 400"
      using mod_full [of "100 * b + 4 * c + d + 1" 400 a] r y by (simp add: algebra_simps)
    ultimately show ?thesis unfolding is_leap_def using r by auto
  qed
  define j where "j = k - 1"
  have j: "0 \<le> j" "j \<le> 365" "j = 365 \<Longrightarrow> d = 3 \<and> (c \<noteq> 24 \<or> b = 3)"
    using assms leap by (auto simp: j_def split: if_splits)
  define n where "n = 146097 * a + 36524 * b + 1461 * c + 365 * d + j"
  have n: "days_before_year y + k - 1 = n" by (simp add: n_def dby j_def)
  have lt: "36524 * b + 1461 * c + 365 * d + j < 146097" using r j by (cases "j = 365") auto
  have n400: "n div 146097 = a" "n mod 146097 = 36524 * b + 1461 * c + 365 * d + j"
    using divmod_eq [of n 146097 a "36524 * b + 1461 * c + 365 * d + j"] lt r j
    by (simp_all add: n_def)
  define n' where "n' = 36524 * b + 1461 * c + 365 * d + j"
  have red: "year_of (days_before_year y + k) =
    (let n1 = n' mod 36524 mod 1461 div 365;
         year = a * 400 + 1 + n' div 36524 * 100 + n' mod 36524 div 1461 * 4 + n1
     in if n1 = 4 \<or> n' div 36524 = 4 then year - 1 else year)"
    by (simp only: year_of_def Let_def n n400 n'_def [symmetric])
  show ?thesis
  proof (cases "j = 365 \<and> c = 24")
    case True
    then have "n' = 146096" using j(3) by (simp add: n'_def)
    then show ?thesis unfolding red Let_def using True j(3) y by simp
  next
    case False
    have lt2: "1461 * c + 365 * d + j < 36524" using r j False by (cases "c = 24") auto
    have s: "n' div 36524 = b" "n' mod 36524 = 1461 * c + 365 * d + j"
      using divmod_eq [of n' 36524 b "1461 * c + 365 * d + j"] lt2 r j by (simp_all add: n'_def)
    have t: "(1461 * c + 365 * d + j) div 1461 = c" "(1461 * c + 365 * d + j) mod 1461 = 365 * d + j"
      using divmod_eq [of "1461 * c + 365 * d + j" 1461 c "365 * d + j"] r j by simp_all
    have red2: "year_of (days_before_year y + k) =
      (let n1 = (365 * d + j) div 365; year = a * 400 + 1 + b * 100 + c * 4 + n1
       in if n1 = 4 \<or> b = 4 then year - 1 else year)"
      by (simp only: red s t)
    show ?thesis
    proof (cases "j = 365")
      case True
      then have e: "(365 * d + j) div 365 = 4" using j(3) by simp
      show ?thesis unfolding red2 Let_def e using True j(3) y by simp
    next
      case False
      then have e: "(365 * d + j) div 365 = d"
        using divmod_eq(1) [of "365 * d + j" 365 d j] r j by simp
      show ?thesis unfolding red2 Let_def e using y r by simp
    qed
  qed
qed

lemma year_of_ymd2ord: "valid_ymd y m d \<Longrightarrow> year_of (ymd2ord y m d) = y"
  unfolding ymd2ord_def add.assoc
  by (rule year_of_ordinal; rule day_of_year_bounds) (simp_all only: valid_ymd_def)

lemma div_step:
  fixes y n :: int
  assumes "0 < n"
  shows "y div n = (y - 1) div n + (if y mod n = 0 then 1 else 0)"
proof (cases "y mod n = 0")
  case True
  have "(y - 1) div n = y div n - 1"
  proof (rule int_div_pos_eq)
    show "y - 1 = n * (y div n - 1) + (n - 1)"
      using True mult_div_mod_eq [of n y] by (simp add: algebra_simps)
  qed (use assms in auto)
  with True show ?thesis by simp
next
  case False
  have "(y - 1) div n = y div n"
  proof (rule int_div_pos_eq)
    show "y - 1 = n * (y div n) + (y mod n - 1)" by simp
    show "0 \<le> y mod n - 1"
      using False assms pos_mod_sign [of n y] by linarith
    show "y mod n - 1 < n" using assms pos_mod_bound [of n y] by linarith
  qed
  with False show ?thesis by simp
qed

lemma leap_step:
  fixes y :: int
  assumes "y4 = x4 + (if A then 1 else 0)" "y100 = x100 + (if B then 1 else 0)"
    "y400 = x400 + (if C then 1 else 0)" "B \<Longrightarrow> A" "C \<Longrightarrow> B"
  shows "y * 365 + y4 - y100 + y400
    = (y - 1) * 365 + x4 - x100 + x400 + (if A \<and> (\<not> B \<or> C) then 366 else 365)"
  using assms by (cases A; cases B; cases C) simp_all

lemma days_before_year_Suc:
  "days_before_year (y + 1) = days_before_year y + (if is_leap y then 366 else 365)"
proof -
  have "4 dvd (100 :: int)" "100 dvd (400 :: int)" by simp_all
  then have "y mod 100 = 0 \<Longrightarrow> y mod 4 = 0" "y mod 400 = 0 \<Longrightarrow> y mod 100 = 0"
    using dvd_trans [of 4 100 y] dvd_trans [of 100 400 y] by (simp_all only: dvd_eq_mod_eq_0)
  from leap_step [OF div_step [of 4 y] div_step [of 100 y] div_step [of 400 y] this, of y]
  show ?thesis
    by (simp only: days_before_year_def is_leap_def Let_def add_diff_cancel_right' zero_less_numeral)
qed

section \<open>Order of the years\<close>

lemma days_before_year_less: "days_before_year y + 365 * int k \<le> days_before_year (y + int k)"
proof (induction k)
  case (Suc k)
  have "days_before_year (y + int (Suc k)) = days_before_year (y + int k) + (if is_leap (y + int k) then 366 else 365)"
    using days_before_year_Suc [of "y + int k"] by (simp add: add_ac)
  with Suc show ?case by (auto split: if_splits)
qed simp

lemma days_before_year_mono: "y \<le> z \<Longrightarrow> days_before_year y \<le> days_before_year z"
  using days_before_year_less [of y "nat (z - y)"] by simp

lemma ordinal_in_year:
  assumes "1 \<le> d"
  shows "\<exists>y k. 1 \<le> y \<and> d = days_before_year y + k \<and> 1 \<le> k \<and> k \<le> (if is_leap y then 366 else 365)"
  using assms
proof (induction d rule: int_ge_induct)
  case base
  show ?case by (intro exI [of _ 1] exI [of _ 1]) (simp add: days_before_year_def)
next
  case (step d)
  then obtain y k where yk: "1 \<le> y" "d = days_before_year y + k" "1 \<le> k" "k \<le> (if is_leap y then 366 else 365)" by blast
  show ?case
  proof (cases "k = (if is_leap y then 366 else 365)")
    case True
    then show ?thesis using yk days_before_year_Suc [of y] by (intro exI [of _ "y + 1"] exI [of _ 1]) auto
  next
    case False
    then show ?thesis using yk by (intro exI [of _ y] exI [of _ "k + 1"]) auto
  qed
qed

lemma year_of_bounds:
  assumes "1 \<le> d"
  shows "1 \<le> year_of d" and "days_before_year (year_of d) < d" and "d \<le> days_before_year (year_of d + 1)"
  using ordinal_in_year [OF assms] year_of_ordinal days_before_year_Suc by (auto split: if_splits)

lemma year_of_mono:
  assumes "1 \<le> d" and "d \<le> e"
  shows "year_of d \<le> year_of e"
proof (rule ccontr)
  assume "\<not> year_of d \<le> year_of e"
  then have "days_before_year (year_of e + 1) \<le> days_before_year (year_of d)" by (intro days_before_year_mono) simp
  with year_of_bounds [of d] year_of_bounds [of e] assms show False by linarith
qed

lemma ymd2ord_bounds:
  assumes "valid_ymd y m d"
  shows "1 \<le> ymd2ord y m d" and "ymd2ord y m d \<le> max_ordinal"
proof -
  have k: "1 \<le> days_before_month y m + d" "days_before_month y m + d \<le> (if is_leap y then 366 else 365)"
    using assms day_of_year_bounds [of m d y] by (simp_all add: valid_ymd_def)
  have "days_before_year 1 \<le> days_before_year y" "days_before_year (y + 1) \<le> days_before_year 10000"
    using assms by (intro days_before_year_mono; simp add: valid_ymd_def)+
  moreover have "days_before_year 1 = 0" "days_before_year 10000 = max_ordinal"
    by (simp_all add: days_before_year_def max_ordinal_def)
  ultimately show "1 \<le> ymd2ord y m d" and "ymd2ord y m d \<le> max_ordinal"
    using k days_before_year_Suc [of y] by (auto simp: ymd2ord_def split: if_splits)
qed

section \<open>Instants\<close>

text \<open>The last microsecond of year 9999.\<close>

definition max_instant :: int where "max_instant = max_ordinal * 86400 * 1000000 - 1"

end
