(* ===== verification/Py_Values.thy ===== *)
theory Py_Values
  imports Decimals Dates "HOL-Library.Multiset"
begin

text \<open>
  Dynamically typed values. Much of the program accepts "a domain fact or an adapter row with
  the same attributes" and decides by \<open>isinstance\<close>, \<open>Mapping.get\<close> and \<open>getattr\<close> at
  run time; those functions are modelled on the closed type \<open>pyval\<close>, so that every type
  check of the source is a branch of the model. Enumerations of the program all mix in
  \<open>str\<close>, hence an enumeration member is text as well. Text is a list of code points below 256, with the
  case mapping and the white space of ASCII. A datetime is an
  instant in microseconds since the first day of year 1, aware (\<open>PDatetime\<close>, in UTC) or naive
  (\<open>PNaive\<close>). \<open>PStore\<close> is an object with a callable \<open>get\<close>, such as the threshold store.
\<close>

datatype pyval = PNone | PBool bool | PInt int | PFloat string | PDec decimal | PDecSpecial
  | PStr string | PEnum string string | PDate date | PDatetime int | PNaive int | PUuid nat
  | PList "pyval list" | PMap "(pyval \<times> pyval) list" | PObj string "(string \<times> pyval) list"
  | PStore "(string \<times> pyval) list"

section \<open>Text\<close>

definition is_space :: "char \<Rightarrow> bool" where
  "is_space c = (let n = of_char c :: nat in (9 \<le> n \<and> n \<le> 13) \<or> (28 \<le> n \<and> n \<le> 32))"

definition is_digit :: "char \<Rightarrow> bool" where
  "is_digit c = (let n = of_char c :: nat in 48 \<le> n \<and> n \<le> 57)"

definition digit_value :: "char \<Rightarrow> nat" where
  "digit_value c = of_char c - 48"

definition strip :: "string \<Rightarrow> string" where
  "strip s = rev (dropWhile is_space (rev (dropWhile is_space s)))"

definition upper_char :: "char \<Rightarrow> char" where
  "upper_char c = (let n = of_char c :: nat in if 97 \<le> n \<and> n \<le> 122 then char_of (n - 32) else c)"

definition lower_char :: "char \<Rightarrow> char" where
  "lower_char c = (let n = of_char c :: nat in if 65 \<le> n \<and> n \<le> 90 then char_of (n + 32) else c)"

definition upper :: "string \<Rightarrow> string" where "upper s = map upper_char s"
definition lower :: "string \<Rightarrow> string" where "lower s = map lower_char s"

definition replace_char :: "char \<Rightarrow> char \<Rightarrow> string \<Rightarrow> string" where
  "replace_char a b s = map (\<lambda>c. if c = a then b else c) s"

definition nat_of_digits :: "string \<Rightarrow> nat" where
  "nat_of_digits s = foldl (\<lambda>n c. 10 * n + digit_value c) 0 s"

text \<open>\<open>str(uuid)\<close>: 32 lower-case hexadecimal digits in the groups 8-4-4-4-12.\<close>

definition hex_digit :: "nat \<Rightarrow> char" where
  "hex_digit n = (''0123456789abcdef'' ! (n mod 16))"

fun hex_digits :: "nat \<Rightarrow> nat \<Rightarrow> string" where
  "hex_digits 0 n = []"
| "hex_digits (Suc k) n = hex_digits k (n div 16) @ [hex_digit n]"

definition uuid_text :: "nat \<Rightarrow> string" where
  "uuid_text u = (let h = hex_digits 32 u in
     take 8 h @ ''-'' @ take 4 (drop 8 h) @ ''-'' @ take 4 (drop 12 h) @ ''-''
     @ take 4 (drop 16 h) @ ''-'' @ drop 20 h)"

definition optional_uuid_text :: "nat option \<Rightarrow> string" where
  "optional_uuid_text i = (case i of None \<Rightarrow> ''None'' | Some u \<Rightarrow> uuid_text u)"

lemma of_char_minus_mod: "((of_char c :: nat) - k) mod 256 = of_char c - k"
  using nat_of_char_less_256 [of c] by (intro mod_less) linarith

lemma upper_char_idem [simp]: "upper_char (upper_char c) = upper_char c"
proof (cases "97 \<le> (of_char c :: nat) \<and> (of_char c :: nat) \<le> 122")
  case True
  then have "of_char (upper_char c) = (of_char c - 32 :: nat)"
    by (simp add: upper_char_def Let_def of_char_minus_mod)
  with True show ?thesis by (auto simp: upper_char_def [of "upper_char c"] Let_def)
qed (auto simp: upper_char_def Let_def)

lemma lower_char_idem [simp]: "lower_char (lower_char c) = lower_char c"
proof (cases "65 \<le> (of_char c :: nat) \<and> (of_char c :: nat) \<le> 90")
  case True
  then have "of_char (lower_char c) = (of_char c + 32 :: nat)"
    by (simp add: lower_char_def Let_def)
  with True show ?thesis by (auto simp: lower_char_def [of "lower_char c"] Let_def)
qed (auto simp: lower_char_def Let_def)

lemma upper_space: "is_space (upper_char c) = is_space c"
proof (cases "97 \<le> (of_char c :: nat) \<and> (of_char c :: nat) \<le> 122")
  case True
  then have "of_char (upper_char c) = (of_char c - 32 :: nat)"
    by (simp add: upper_char_def Let_def of_char_minus_mod)
  with True show ?thesis by (auto simp: is_space_def Let_def)
qed (auto simp: upper_char_def Let_def)

lemma lower_space: "is_space (lower_char c) = is_space c"
proof (cases "65 \<le> (of_char c :: nat) \<and> (of_char c :: nat) \<le> 90")
  case True
  then have "of_char (lower_char c) = (of_char c + 32 :: nat)"
    by (simp add: lower_char_def Let_def)
  with True show ?thesis by (auto simp: is_space_def Let_def)
qed (auto simp: lower_char_def Let_def)

lemma upper_idem [simp]: "upper (upper s) = upper s"
  by (simp add: upper_def comp_def)

lemma lower_idem [simp]: "lower (lower s) = lower s"
  by (simp add: lower_def comp_def)

lemma strip_map:
  assumes "\<And>c. is_space (f c) = is_space c"
  shows "strip (map f s) = map f (strip s)"
  by (simp add: strip_def dropWhile_map rev_map comp_def assms)

lemma strip_upper: "strip (upper s) = upper (strip s)"
  unfolding upper_def by (rule strip_map) (rule upper_space)

lemma strip_lower: "strip (lower s) = lower (strip s)"
  unfolding lower_def by (rule strip_map) (rule lower_space)

lemma dropWhile_idem_rev:
  "dropWhile P (rev (dropWhile P (rev (dropWhile P xs)))) = rev (dropWhile P (rev (dropWhile P xs)))"
proof (cases "dropWhile P xs = []")
  case False
  define ys where "ys = dropWhile P xs"
  have ne: "ys \<noteq> []" and hd: "\<not> P (hd ys)"
    using False hd_dropWhile [of P xs] by (simp_all add: ys_def)
  obtain zs where "rev ys = zs @ dropWhile P (rev ys)" by (metis takeWhile_dropWhile_id)
  then have split: "ys = rev (dropWhile P (rev ys)) @ rev zs" by (metis rev_append rev_rev_ident)
  show ?thesis unfolding ys_def [symmetric]
  proof (cases "rev (dropWhile P (rev ys))")
    case (Cons a as)
    then have "a = hd ys" using split by (metis append_Cons list.sel(1))
    with hd Cons show "dropWhile P (rev (dropWhile P (rev ys))) = rev (dropWhile P (rev ys))"
      by simp
  qed (simp only: dropWhile.simps)
next
  case True
  show ?thesis unfolding True by simp
qed

lemma strip_idem [simp]: "strip (strip s) = strip s"
  unfolding strip_def by (simp add: dropWhile_idem_rev)

lemma strip_Nil_iff: "strip s = [] \<longleftrightarrow> (\<forall>c\<in>set s. is_space c)"
proof (cases "dropWhile is_space s")
  case Nil
  then have "\<forall>c\<in>set s. is_space c" by (simp only: dropWhile_eq_Nil_conv)
  moreover have "strip s = []" unfolding strip_def Nil by simp
  ultimately show ?thesis by blast
next
  case (Cons c cs)
  then have "c \<in> set s" "\<not> is_space c" by (metis list.set_intros(1) set_dropWhileD) (metis Cons hd_dropWhile list.distinct(1) list.sel(1))
  moreover have "dropWhile is_space (rev (c # cs)) \<noteq> []" using calculation by (auto simp: dropWhile_eq_Nil_conv)
  ultimately show ?thesis using Cons by (auto simp: strip_def)
qed

section \<open>Types of values\<close>

definition text_of :: "pyval \<Rightarrow> string option" where
  "text_of v = (case v of PStr s \<Rightarrow> Some s | PEnum c s \<Rightarrow> Some s | _ \<Rightarrow> None)"

definition is_mapping :: "pyval \<Rightarrow> bool" where
  "is_mapping v = (case v of PMap kvs \<Rightarrow> True | _ \<Rightarrow> False)"

definition is_instance :: "string \<Rightarrow> pyval \<Rightarrow> bool" where
  "is_instance c v = (case v of PObj c' as \<Rightarrow> c' = c | PEnum c' s \<Rightarrow> c' = c | _ \<Rightarrow> False)"

text \<open>\<open>isinstance(v, date) and not isinstance(v, datetime)\<close>; \<open>isinstance(v, int)\<close> holds
  of booleans too.\<close>

definition date_of :: "pyval \<Rightarrow> date option" where
  "date_of v = (case v of PDate d \<Rightarrow> Some d | _ \<Rightarrow> None)"

definition plain_int :: "pyval \<Rightarrow> int option" where
  "plain_int v = (case v of PInt n \<Rightarrow> Some n | _ \<Rightarrow> None)"

definition finite_dec :: "pyval \<Rightarrow> decimal option" where
  "finite_dec v = (case v of PDec q \<Rightarrow> Some q | _ \<Rightarrow> None)"

definition uuid_of :: "pyval \<Rightarrow> nat option" where
  "uuid_of v = (case v of PUuid u \<Rightarrow> Some u | _ \<Rightarrow> None)"

section \<open>Attributes and keys\<close>

definition map_get :: "(pyval \<times> pyval) list \<Rightarrow> string \<Rightarrow> pyval option" where
  "map_get kvs k = map_option snd (find (\<lambda>kv. text_of (fst kv) = Some k) kvs)"

text \<open>\<open>getattr\<close>: the attributes of an object are its fields and properties; of the other
  values, none of the names the program reads this way exists, but \<open>value\<close> of an
  enumeration member.\<close>

definition py_attr :: "pyval \<Rightarrow> string \<Rightarrow> pyval option" where
  "py_attr v n = (case v of PObj c as \<Rightarrow> lookup as n
     | PEnum c s \<Rightarrow> (if n = ''value'' then Some (PStr s) else None) | _ \<Rightarrow> None)"

definition or_none :: "pyval option \<Rightarrow> pyval" where
  "or_none v = (case v of None \<Rightarrow> PNone | Some x \<Rightarrow> x)"

text \<open>\<open>owner.get(name)\<close> of a mapping, \<open>getattr(owner, name, None)\<close> otherwise.\<close>

definition pyfield :: "pyval \<Rightarrow> string \<Rightarrow> pyval" where
  "pyfield owner n = or_none (case owner of PMap kvs \<Rightarrow> map_get kvs n | _ \<Rightarrow> py_attr owner n)"

definition pyfield_default :: "pyval \<Rightarrow> string \<Rightarrow> pyval \<Rightarrow> pyval" where
  "pyfield_default owner n d =
     (case (case owner of PMap kvs \<Rightarrow> map_get kvs n | _ \<Rightarrow> py_attr owner n) of
        None \<Rightarrow> d | Some x \<Rightarrow> x)"

text \<open>The first of several names that is present, \<open>None\<close> included; a required one is an error when all are missing.\<close>

fun first_read :: "pyval \<Rightarrow> string list \<Rightarrow> pyval option" where
  "first_read v [] = None"
| "first_read v (n # ns) = (case (case v of PMap kvs \<Rightarrow> map_get kvs n | _ \<Rightarrow> py_attr v n) of Some x \<Rightarrow> Some x | None \<Rightarrow> first_read v ns)"

definition required_field :: "pyval \<Rightarrow> string list \<Rightarrow> pyval result" where
  "required_field v ns = (case first_read v ns of Some x \<Rightarrow> ok x | None \<Rightarrow> raise ValueError)"

definition pyopt :: "('a \<Rightarrow> pyval) \<Rightarrow> 'a option \<Rightarrow> pyval" where
  "pyopt f x = (case x of None \<Rightarrow> PNone | Some y \<Rightarrow> f y)"

lemma text_of_simps [simp]:
  "text_of (PStr s) = Some s" "text_of (PEnum c s) = Some s" "text_of PNone = None"
  "text_of (PBool b) = None" "text_of (PDec q) = None" "text_of (PInt i) = None"
  by (simp_all add: text_of_def)

lemma value_simps [simp]:
  "date_of (PDate d) = Some d" "date_of PNone = None"
  "plain_int (PInt n) = Some n" "finite_dec (PDec q) = Some q" "uuid_of (PUuid u) = Some u"
  by (simp_all add: date_of_def plain_int_def finite_dec_def uuid_of_def)

lemma pyopt_simps [simp]: "pyopt f None = PNone" "pyopt f (Some x) = f x"
  by (simp_all add: pyopt_def)

lemma pyopt_None_iff: "(\<And>x. f x \<noteq> PNone) \<Longrightarrow> pyopt f x = PNone \<longleftrightarrow> x = None"
  by (cases x) auto

lemma or_none_simps [simp]: "or_none None = PNone" "or_none (Some x) = x"
  by (simp_all add: or_none_def)

lemma py_attr_obj [simp]: "py_attr (PObj c as) n = lookup as n"
  by (simp add: py_attr_def)

lemma pyfield_obj [simp]: "pyfield (PObj c as) n = or_none (lookup as n)"
  by (simp add: pyfield_def py_attr_def)

lemma pyfield_map [simp]: "pyfield (PMap kvs) n = or_none (map_get kvs n)"
  by (simp add: pyfield_def)

lemma pyfield_none [simp]: "pyfield PNone n = PNone"
  by (simp add: pyfield_def py_attr_def)

lemma pyfield_default_obj [simp]:
  "pyfield_default (PObj c as) n d = (case lookup as n of None \<Rightarrow> d | Some x \<Rightarrow> x)"
  by (simp add: pyfield_default_def py_attr_def)

lemma is_instance_obj [simp]: "is_instance c (PObj c' as) = (c' = c)"
  "is_instance c (PEnum c' s) = (c' = c)" "is_instance c PNone = False"
  "is_instance c (PStr s) = False"
  by (auto simp: is_instance_def)

section \<open>Conversion to Decimal\<close>

text \<open>
  \<open>Decimal(text)\<close> on finite numerals: surrounding white space and underscores are ignored; an
  optional sign, digits with an optional point (a digit before or after it), an optional
  exponent. Anything else, the infinities and NaNs included, is \<open>None\<close>.
\<close>

definition span :: "('a \<Rightarrow> bool) \<Rightarrow> 'a list \<Rightarrow> 'a list \<times> 'a list" where
  "span P xs = (takeWhile P xs, dropWhile P xs)"

definition split_sign :: "string \<Rightarrow> bool \<times> string" where
  "split_sign s = (case s of c # cs \<Rightarrow>
       (if c = CHR ''-'' then (True, cs) else if c = CHR ''+'' then (False, cs) else (False, s))
     | [] \<Rightarrow> (False, []))"

definition exponent_of_text :: "string \<Rightarrow> int option" where
  "exponent_of_text s = (case s of [] \<Rightarrow> Some 0
     | c # cs \<Rightarrow> if c \<noteq> CHR ''e'' \<and> c \<noteq> CHR ''E'' then None else
         (case split_sign cs of (neg, ds) \<Rightarrow>
            if ds = [] \<or> \<not> list_all is_digit ds then None
            else Some (if neg then - int (nat_of_digits ds) else int (nat_of_digits ds))))"

definition dec_of_text :: "string \<Rightarrow> decimal option" where
  "dec_of_text s =
     (case split_sign (filter (\<lambda>c. c \<noteq> CHR ''_'') (strip s)) of (neg, t) \<Rightarrow>
      case span is_digit t of (whole, r1) \<Rightarrow>
      case (case r1 of c # cs \<Rightarrow> (if c = CHR ''.'' then span is_digit cs else ([], r1)) | [] \<Rightarrow> ([], []))
      of (decs, r2) \<Rightarrow>
      if whole = [] \<and> decs = [] then None
      else case exponent_of_text r2 of None \<Rightarrow> None
        | Some e \<Rightarrow> let q = of_nat (nat_of_digits (whole @ decs)) * pow10 (e - int (length decs))
                   in Some (if neg then - q else q))"

text \<open>
  The helper \<open>_decimal\<close> that several modules define alike: booleans and \<open>None\<close> are type
  errors, a Decimal is kept, anything else goes through its text (of a float, its \<open>repr\<close>), and
  what is not a finite number is a value error.
\<close>

definition to_decimal :: "pyval \<Rightarrow> decimal result" where
  "to_decimal v = (case v of PBool b \<Rightarrow> raise TypeError | PNone \<Rightarrow> raise TypeError
     | PDec q \<Rightarrow> ok q | PInt n \<Rightarrow> ok (of_int n)
     | PFloat s \<Rightarrow> (case dec_of_text s of None \<Rightarrow> raise ValueError | Some q \<Rightarrow> ok q)
     | PStr s \<Rightarrow> (case dec_of_text s of None \<Rightarrow> raise ValueError | Some q \<Rightarrow> ok q)
     | _ \<Rightarrow> raise ValueError)"

definition to_fraction :: "pyval \<Rightarrow> decimal result" where
  "to_fraction v = rbind (to_decimal v) (\<lambda>q. if 0 \<le> q \<and> q \<le> 1 then ok q else raise ValueError)"

lemma to_decimal_simps [simp]: "to_decimal (PDec q) = Inr q" "to_decimal PNone = Inl TypeError"
  "to_decimal (PInt n) = Inr (of_int n)" "to_decimal (PBool b) = Inl TypeError"
  by (simp_all add: to_decimal_def)

lemma to_fraction_ok: "to_fraction v = Inr q \<Longrightarrow> 0 \<le> q \<and> q \<le> 1"
  by (auto simp: to_fraction_def split: if_splits)

lemma to_fraction_PDec: "0 \<le> q \<Longrightarrow> q \<le> 1 \<Longrightarrow> to_fraction (PDec q) = Inr q"
  by (simp add: to_fraction_def)

section \<open>Numbers as text\<close>

fun digits_of_nat :: "nat \<Rightarrow> string" where
  "digits_of_nat n = (if n < 10 then [hex_digit n] else digits_of_nat (n div 10) @ [hex_digit (n mod 10)])"

declare digits_of_nat.simps [simp del]

definition int_text :: "int \<Rightarrow> string" where
  "int_text n = (if n < 0 then ''-'' @ digits_of_nat (nat (- n)) else digits_of_nat (nat n))"

definition padded :: "nat \<Rightarrow> int \<Rightarrow> string" where
  "padded width n = (let d = digits_of_nat (nat n) in replicate (width - length d) CHR ''0'' @ d)"

definition month_of :: "date \<Rightarrow> int" where
  "month_of d = (let y = year_of d; doy = d - days_before_year y in
     (case find (\<lambda>m. days_before_month y m < doy) [12, 11, 10, 9, 8, 7, 6, 5, 4, 3, 2] of
        Some m \<Rightarrow> m | None \<Rightarrow> 1))"

definition day_of :: "date \<Rightarrow> int" where
  "day_of d = d - days_before_year (year_of d) - days_before_month (year_of d) (month_of d)"

text \<open>\<open>date.isoformat()\<close>.\<close>

definition iso_date :: "date \<Rightarrow> string" where
  "iso_date d = padded 4 (year_of d) @ ''-'' @ padded 2 (month_of d) @ ''-'' @ padded 2 (day_of d)"

text \<open>\<open>date.fromisoformat\<close>: a calendar date or an ISO week date, with or without separators, the day of
  a week date optional.\<close>

definition digits_value :: "nat \<Rightarrow> string \<Rightarrow> (int \<times> string) option" where
  "digits_value n s = (if length s < n \<or> \<not> list_all is_digit (take n s) then None
     else Some (int (nat_of_digits (take n s)), drop n s))"

definition skip_dash :: "bool \<Rightarrow> string \<Rightarrow> string option" where
  "skip_dash separated s = (if \<not> separated then Some s
     else case s of [] \<Rightarrow> None | c # cs \<Rightarrow> if c = CHR ''-'' then Some cs else None)"

definition week_one_monday :: "int \<Rightarrow> date" where
  "week_one_monday y = (let first = ymd2ord y 1 1; monday = first - weekday first in
     if weekday first > 3 then monday + 7 else monday)"

definition week_date :: "int \<Rightarrow> int \<Rightarrow> int \<Rightarrow> date option" where
  "week_date y w d =
     (if \<not> (1 \<le> y \<and> y \<le> 9999) then None
      else if \<not> (1 \<le> w \<and> w \<le> 52 \<or> w = 53 \<and> (weekday (ymd2ord y 1 1) = 3 \<or> weekday (ymd2ord y 1 1) = 2 \<and> is_leap y)) then None
      else if \<not> (1 \<le> d \<and> d \<le> 7) then None
      else let r = week_one_monday y + (w - 1) * 7 + d - 1 in
        if min_ordinal \<le> r \<and> r \<le> max_ordinal then Some r else None)"

definition date_of_iso :: "string \<Rightarrow> date option" where
  "date_of_iso s =
     (if length s \<notin> {7, 8, 10} then None else
      case digits_value 4 s of None \<Rightarrow> None | Some (y, r1) \<Rightarrow>
      let separated = (case r1 of c # cs \<Rightarrow> c = CHR ''-'' | [] \<Rightarrow> False); r2 = (if separated then tl r1 else r1) in
      case r2 of [] \<Rightarrow> None | c # cs \<Rightarrow>
      if c = CHR ''W'' then
        (case digits_value 2 cs of None \<Rightarrow> None | Some (w, r3) \<Rightarrow>
         if r3 = [] then week_date y w 1 else
         case skip_dash separated r3 of None \<Rightarrow> None | Some r4 \<Rightarrow>
         case digits_value 1 r4 of None \<Rightarrow> None | Some (d, r5) \<Rightarrow>
         if r5 = [] then week_date y w d else None)
      else
        (case digits_value 2 r2 of None \<Rightarrow> None | Some (m, r3) \<Rightarrow>
         case skip_dash separated r3 of None \<Rightarrow> None | Some r4 \<Rightarrow>
         case digits_value 2 r4 of None \<Rightarrow> None | Some (d, r5) \<Rightarrow>
         if r5 = [] \<and> valid_ymd y m d then Some (ymd2ord y m d) else None))"

section \<open>Which errors a computation can raise\<close>

definition errs :: "pyerr set \<Rightarrow> 'a result \<Rightarrow> bool" where
  "errs S m = (\<forall>e. m = Inl e \<longrightarrow> e \<in> S)"

named_theorems errs_intros \<open>which errors an operation may raise\<close>

lemma errs_ok [simp, errs_intros]: "errs S (Inr x)"
  by (simp add: errs_def)

lemma errs_raise [simp]: "errs S (Inl e) \<longleftrightarrow> e \<in> S"
  by (simp add: errs_def)

lemma errs_rbind [errs_intros]:
  "errs S m \<Longrightarrow> (\<And>x. m = Inr x \<Longrightarrow> errs S (f x)) \<Longrightarrow> errs S (rbind m f)"
  by (cases m) (auto simp: errs_def)

lemma errs_ensure [errs_intros]: "e \<in> S \<Longrightarrow> errs S (ensure b e)"
  by (simp add: errs_def)

lemma errs_if [errs_intros]:
  "(b \<Longrightarrow> errs S x) \<Longrightarrow> (\<not> b \<Longrightarrow> errs S y) \<Longrightarrow> errs S (if b then x else y)"
  by simp

lemma errs_option [errs_intros]:
  "(v = None \<Longrightarrow> errs S x) \<Longrightarrow> (\<And>a. v = Some a \<Longrightarrow> errs S (f a)) \<Longrightarrow>
   errs S (case v of None \<Rightarrow> x | Some a \<Rightarrow> f a)"
  by (cases v) auto

lemma errs_rmap [errs_intros]: "(\<And>x. x \<in> set xs \<Longrightarrow> errs S (f x)) \<Longrightarrow> errs S (rmap f xs)"
  by (induction xs) (auto intro!: errs_intros)

lemma errsD: "errs S m \<Longrightarrow> m = Inl e \<Longrightarrow> e \<in> S"
  by (simp add: errs_def)

lemma errs_mono: "errs S m \<Longrightarrow> S \<subseteq> T \<Longrightarrow> errs T m"
  by (auto simp: errs_def)

text \<open>A \<open>try\<close> block that catches the errors of \<open>S\<close>.\<close>

definition catch :: "(pyerr \<Rightarrow> bool) \<Rightarrow> 'a result \<Rightarrow> 'a result \<Rightarrow> 'a result" where
  "catch S m handler = (case m of Inl e \<Rightarrow> if S e then handler else raise e | Inr x \<Rightarrow> ok x)"

lemma catch_simps [simp]: "catch S (Inr x) h = Inr x" "catch S (Inl e) h = (if S e then h else Inl e)"
  by (simp_all add: catch_def)

lemma catch_total:
  "errs {e. S e} m \<Longrightarrow> h = Inr y \<Longrightarrow> \<exists>x. catch S m h = Inr x"
  by (cases m) (auto simp: errs_def)

section \<open>Sorting\<close>

text \<open>\<open>sorted(xs, key=f)\<close> is \<open>sort_key f xs\<close>: both are stable. With
  \<open>reverse=True\<close> elements of equal key keep their order too.\<close>

definition sort_desc :: "('a \<Rightarrow> 'b::linorder) \<Rightarrow> 'a list \<Rightarrow> 'a list" where
  "sort_desc f xs = rev (sort_key f (rev xs))"

lemma set_sort_desc [simp]: "set (sort_desc f xs) = set xs"
  by (simp add: sort_desc_def)

lemma mset_sort_desc [simp]: "mset (sort_desc f xs) = mset xs"
  by (simp add: sort_desc_def)

lemma sort_desc_Nil_iff [simp]: "sort_desc f xs = [] \<longleftrightarrow> xs = []"
  by (metis set_empty set_sort_desc)

lemma sort_desc_sorted: "sorted_wrt (\<lambda>x y. f y \<le> f x) (sort_desc f xs)"
  using sorted_sort_key [of f "rev xs"]
  by (simp add: sort_desc_def sorted_wrt_rev sorted_map)

lemma sort_desc_hd_max:
  assumes "x \<in> set xs"
  shows "f x \<le> f (hd (sort_desc f xs))"
proof -
  have ne: "sort_desc f xs \<noteq> []" using assms by auto
  have "x \<in> set (sort_desc f xs)" using assms by simp
  with sort_desc_sorted [of f xs] ne show ?thesis
    by (cases "sort_desc f xs") auto
qed

lemma sort_desc_hd_in: "xs \<noteq> [] \<Longrightarrow> hd (sort_desc f xs) \<in> set xs"
  by (metis hd_in_set set_sort_desc sort_desc_Nil_iff)

end
