(* ===== verification/Covenant_Exceptions.thy ===== *)
theory Covenant_Exceptions
  imports Py_Values
begin

text \<open>
  \<open>domain/covenants/exceptions.py\<close>: financial-period labels and their chronological key,
  the facts of exceptions and waivers with the checks of their constructors, the overlap test
  of exception windows, and the two resolvers that select the exception in force for a period
  and the waiver in force on a date. Records come either as facts or as adapter rows
  (\<open>pyval\<close>).
\<close>

section \<open>Financial periods\<close>

fun first_field :: "pyval \<Rightarrow> string list \<Rightarrow> pyval option" where
  "first_field v [] = None"
| "first_field v (k # ks) = (if pyfield v k \<noteq> PNone then Some (pyfield v k) else first_field v ks)"

text \<open>A mapping is asked for its keys; the attributes asked for afterwards do not exist on it.\<close>

definition period_label_of :: "pyval \<Rightarrow> pyval" where
  "period_label_of v = (case v of PStr s \<Rightarrow> v | PEnum c s \<Rightarrow> v
     | _ \<Rightarrow> (case first_field v [''fy_label'', ''period'', ''label''] of Some c \<Rightarrow> c | None \<Rightarrow> v))"

text \<open>The pattern \<open>^FY(\d{2}|\d{4})Q[1-4]$\<close>: the year digits and the quarter.\<close>

definition is_quarter :: "char \<Rightarrow> bool" where
  "is_quarter q = (let n = of_char q :: nat in 49 \<le> n \<and> n \<le> 52)"

definition period_match :: "string \<Rightarrow> (string \<times> char) option" where
  "period_match s =
     (let year = take (length s - 4) (drop 2 s); q = last s in
      if (length s = 6 \<or> length s = 8) \<and> take 2 s = ''FY'' \<and> (\<forall>c\<in>set year. is_digit c)
         \<and> s ! (length s - 2) = CHR ''Q'' \<and> is_quarter q
      then Some (year, q) else None)"

definition normalise_period :: "pyval \<Rightarrow> string result" where
  "normalise_period value = (case text_of (period_label_of value) of None \<Rightarrow> raise TypeError
     | Some s \<Rightarrow> (let period = upper (strip s) in
         if 20 < length period \<or> period_match period = None then raise ValueError else ok period))"

definition period_key_of :: "string \<Rightarrow> (int \<times> int) option" where
  "period_key_of period = (case period_match period of None \<Rightarrow> None
     | Some (y, q) \<Rightarrow> (let year = int (nat_of_digits y);
                          year = (if length y = 2 then year + 2000 else year)
                      in Some (year, int (digit_value q))))"

definition period_key :: "pyval \<Rightarrow> (int \<times> int) result" where
  "period_key value = rbind (normalise_period value) (\<lambda>period.
     case period_key_of period of None \<Rightarrow> raise ValueError | Some k \<Rightarrow> ok k)"

definition validate_exception_window :: "pyval \<Rightarrow> pyval \<Rightarrow> (string \<times> string) result" where
  "validate_exception_window from_period to_period =
     rbind (normalise_period from_period) (\<lambda>start.
     rbind (normalise_period to_period) (\<lambda>end.
     rbind (period_key (PStr end)) (\<lambda>ke.
     rbind (period_key (PStr start)) (\<lambda>ks.
       if ke < ks then raise ValueError else ok (start, end)))))"

definition exception_windows_overlap :: "pyval \<Rightarrow> pyval \<Rightarrow> pyval \<Rightarrow> pyval \<Rightarrow> bool result" where
  "exception_windows_overlap fa ta fb tb =
     rbind (validate_exception_window fa ta) (\<lambda>(start_a, end_a).
     rbind (validate_exception_window fb tb) (\<lambda>(start_b, end_b).
     rbind (period_key (PStr start_a)) (\<lambda>sa.
     rbind (period_key (PStr end_b)) (\<lambda>eb.
     if \<not> sa \<le> eb then ok False else
     rbind (period_key (PStr start_b)) (\<lambda>sb.
     rbind (period_key (PStr end_a)) (\<lambda>ea. ok (sb \<le> ea)))))))"

section \<open>Facts\<close>

record exception_facts =
  ef_from_period :: string
  ef_to_period :: string
  ef_relaxed_threshold :: "decimal option"
  ef_id :: "nat option"
  ef_covenant_version_id :: "nat option"
  ef_approved_by_id :: "nat option"

record waiver_facts =
  wf_from_date :: date
  wf_to_date :: "date option"
  wf_scope :: "string option"
  wf_reason :: pyval
  wf_id :: "nat option"
  wf_covenant_id :: "nat option"
  wf_state :: string
  wf_approved_by_id :: "nat option"
  wf_approved :: "bool option"

definition validate_optional_uuid :: "pyval \<Rightarrow> nat option result" where
  "validate_optional_uuid v = (case v of PNone \<Rightarrow> ok None | PUuid u \<Rightarrow> ok (Some u) | _ \<Rightarrow> raise TypeError)"

definition validate_optional_decimal :: "pyval \<Rightarrow> decimal option result" where
  "validate_optional_decimal v = (case v of PNone \<Rightarrow> ok None | PDec q \<Rightarrow> ok (Some q) | _ \<Rightarrow> raise TypeError)"

definition validate_calendar_date :: "pyval \<Rightarrow> date result" where
  "validate_calendar_date v = (case date_of v of Some d \<Rightarrow> ok d | None \<Rightarrow> raise TypeError)"

text \<open>The constructors with their \<open>__post_init__\<close>.\<close>

definition make_exception :: "pyval \<Rightarrow> pyval \<Rightarrow> pyval \<Rightarrow> pyval \<Rightarrow> pyval \<Rightarrow> pyval \<Rightarrow> exception_facts result" where
  "make_exception from_p to_p relaxed i version_id approver =
     rbind (normalise_period from_p) (\<lambda>f.
     rbind (normalise_period to_p) (\<lambda>t.
     rbind (period_key (PStr t)) (\<lambda>kt.
     rbind (period_key (PStr f)) (\<lambda>kf.
     if kt < kf then raise ValueError else
     rbind (validate_optional_decimal relaxed) (\<lambda>r.
     rbind (validate_optional_uuid i) (\<lambda>i.
     rbind (validate_optional_uuid version_id) (\<lambda>v.
     rbind (validate_optional_uuid approver) (\<lambda>a.
     ok \<lparr>ef_from_period = f, ef_to_period = t, ef_relaxed_threshold = r, ef_id = i,
         ef_covenant_version_id = v, ef_approved_by_id = a\<rparr>))))))))"

definition make_waiver :: "pyval \<Rightarrow> pyval \<Rightarrow> pyval \<Rightarrow> pyval \<Rightarrow> pyval \<Rightarrow> pyval \<Rightarrow> pyval \<Rightarrow> pyval
    \<Rightarrow> pyval \<Rightarrow> waiver_facts result" where
  "make_waiver from_d to_d scope reason i covenant_id state approver approved =
     rbind (validate_calendar_date from_d) (\<lambda>f.
     rbind (if to_d = PNone then ok None else
              rbind (validate_calendar_date to_d) (\<lambda>t.
                if t < f then raise ValueError else ok (Some t))) (\<lambda>t.
     rbind (if scope = PNone then ok None else
              (case text_of scope of None \<Rightarrow> raise TypeError | Some s \<Rightarrow> ok (Some s))) (\<lambda>sc.
     rbind (case text_of state of None \<Rightarrow> raise ValueError
              | Some s \<Rightarrow> if strip s = [] then raise ValueError else ok s) (\<lambda>st.
     rbind (case approved of PNone \<Rightarrow> ok None | PBool b \<Rightarrow> ok (Some b) | _ \<Rightarrow> raise TypeError) (\<lambda>ap.
     rbind (validate_optional_uuid i) (\<lambda>i.
     rbind (validate_optional_uuid covenant_id) (\<lambda>c.
     rbind (validate_optional_uuid approver) (\<lambda>a.
     ok \<lparr>wf_from_date = f, wf_to_date = t, wf_scope = sc, wf_reason = reason, wf_id = i,
         wf_covenant_id = c, wf_state = st, wf_approved_by_id = a, wf_approved = ap\<rparr>))))))))"

definition is_approved :: "waiver_facts \<Rightarrow> bool" where
  "is_approved w = (case wf_approved w of Some b \<Rightarrow> b
     | None \<Rightarrow> lower (strip (wf_state w)) = ''approved'')"

section \<open>Facts and rows as values\<close>

definition exception_obj :: "exception_facts \<Rightarrow> pyval" where
  "exception_obj e = PObj ''ExceptionFacts''
     [(''from_period'', PStr (ef_from_period e)), (''to_period'', PStr (ef_to_period e)),
      (''relaxed_threshold'', pyopt PDec (ef_relaxed_threshold e)), (''id'', pyopt PUuid (ef_id e)),
      (''covenant_version_id'', pyopt PUuid (ef_covenant_version_id e)),
      (''approved_by_id'', pyopt PUuid (ef_approved_by_id e))]"

definition waiver_obj :: "waiver_facts \<Rightarrow> pyval" where
  "waiver_obj w = PObj ''WaiverFacts''
     [(''from_date'', PDate (wf_from_date w)), (''to_date'', pyopt PDate (wf_to_date w)),
      (''scope'', pyopt PStr (wf_scope w)), (''reason'', wf_reason w), (''id'', pyopt PUuid (wf_id w)),
      (''covenant_id'', pyopt PUuid (wf_covenant_id w)), (''state'', PStr (wf_state w)),
      (''approved_by_id'', pyopt PUuid (wf_approved_by_id w)),
      (''approved'', pyopt PBool (wf_approved w)), (''is_approved'', PBool (is_approved w))]"

definition text_or_empty :: "pyval \<Rightarrow> string" where
  "text_or_empty v = (case text_of v of Some s \<Rightarrow> s | None \<Rightarrow> [])"

text \<open>Reading an instance back: an object of the class was built by its constructor.\<close>

definition exception_of_obj :: "pyval \<Rightarrow> exception_facts" where
  "exception_of_obj v =
     \<lparr>ef_from_period = text_or_empty (pyfield v ''from_period''),
      ef_to_period = text_or_empty (pyfield v ''to_period''),
      ef_relaxed_threshold = finite_dec (pyfield v ''relaxed_threshold''),
      ef_id = uuid_of (pyfield v ''id''),
      ef_covenant_version_id = uuid_of (pyfield v ''covenant_version_id''),
      ef_approved_by_id = uuid_of (pyfield v ''approved_by_id'')\<rparr>"

definition bool_of :: "pyval \<Rightarrow> bool option" where
  "bool_of v = (case v of PBool b \<Rightarrow> Some b | _ \<Rightarrow> None)"

definition waiver_of_obj :: "pyval \<Rightarrow> waiver_facts" where
  "waiver_of_obj v =
     \<lparr>wf_from_date = (case pyfield v ''from_date'' of PDate d \<Rightarrow> d | _ \<Rightarrow> 0),
      wf_to_date = date_of (pyfield v ''to_date''), wf_scope = text_of (pyfield v ''scope''),
      wf_reason = pyfield v ''reason'', wf_id = uuid_of (pyfield v ''id''),
      wf_covenant_id = uuid_of (pyfield v ''covenant_id''),
      wf_state = text_or_empty (pyfield v ''state''),
      wf_approved_by_id = uuid_of (pyfield v ''approved_by_id''),
      wf_approved = bool_of (pyfield v ''approved'')\<rparr>"

section \<open>Reading rows\<close>

definition required_string :: "pyval \<Rightarrow> string \<Rightarrow> pyval \<Rightarrow> pyval result" where
  "required_string owner n d = (let v = pyfield_default owner n d in
     if v = PNone then raise ValueError else if text_of v = None then raise TypeError else ok v)"

definition required_date :: "pyval \<Rightarrow> string \<Rightarrow> pyval result" where
  "required_date owner n = (let v = pyfield owner n in
     if v = PNone then raise ValueError else if date_of v = None then raise TypeError else ok v)"

definition optional_string :: "pyval \<Rightarrow> string \<Rightarrow> pyval result" where
  "optional_string owner n = (let v = pyfield owner n in
     if v \<noteq> PNone \<and> text_of v = None then raise TypeError else ok v)"

definition optional_date :: "pyval \<Rightarrow> string \<Rightarrow> pyval result" where
  "optional_date owner n = (let v = pyfield owner n in
     if v \<noteq> PNone \<and> date_of v = None then raise TypeError else ok v)"

text \<open>\<open>_validate_decimal\<close> of this module raises \<open>TypeError\<close> for a non-finite Decimal too.\<close>

definition optional_decimal :: "pyval \<Rightarrow> string \<Rightarrow> pyval result" where
  "optional_decimal owner n = (let v = pyfield owner n in
     if v \<noteq> PNone \<and> finite_dec v = None then raise TypeError else ok v)"

definition optional_bool :: "pyval \<Rightarrow> string \<Rightarrow> pyval result" where
  "optional_bool owner n = (let v = pyfield owner n in
     if v \<noteq> PNone \<and> bool_of v = None then raise TypeError else ok v)"

definition optional_uuid :: "pyval \<Rightarrow> string \<Rightarrow> pyval result" where
  "optional_uuid owner n = (let v = pyfield owner n in
     if v \<noteq> PNone \<and> uuid_of v = None then raise TypeError else ok v)"

definition to_exception_facts :: "pyval \<Rightarrow> exception_facts result" where
  "to_exception_facts v = (if is_instance ''ExceptionFacts'' v then ok (exception_of_obj v) else
     rbind (required_string v ''from_period'' PNone) (\<lambda>f.
     rbind (required_string v ''to_period'' PNone) (\<lambda>t.
     rbind (optional_decimal v ''relaxed_threshold'') (\<lambda>r.
     rbind (optional_uuid v ''id'') (\<lambda>i.
     rbind (optional_uuid v ''covenant_version_id'') (\<lambda>c.
     rbind (optional_uuid v ''approved_by_id'') (\<lambda>a. make_exception f t r i c a)))))))"

definition to_waiver_facts :: "pyval \<Rightarrow> waiver_facts result" where
  "to_waiver_facts v = (if is_instance ''WaiverFacts'' v then ok (waiver_of_obj v) else
     rbind (required_date v ''from_date'') (\<lambda>f.
     rbind (optional_date v ''to_date'') (\<lambda>t.
     rbind (optional_string v ''scope'') (\<lambda>sc.
     rbind (optional_string v ''reason'') (\<lambda>re.
     rbind (optional_uuid v ''id'') (\<lambda>i.
     rbind (optional_uuid v ''covenant_id'') (\<lambda>c.
     rbind (required_string v ''state'' (PStr ''requested'')) (\<lambda>st.
     rbind (optional_uuid v ''approved_by_id'') (\<lambda>a.
     rbind (optional_bool v ''approved'') (\<lambda>ap. make_waiver f t sc re i c st a ap))))))))))"

text \<open>\<open>_related_values\<close>: the first of the names the owner carries; a name it does not
  carry is skipped, \<open>None\<close> is no value, and anything but a sequence is refused.\<close>

fun related_values :: "pyval \<Rightarrow> string list \<Rightarrow> pyval list result" where
  "related_values owner [] = ok []"
| "related_values owner (n # ns) =
     (case (case owner of PMap kvs \<Rightarrow> map_get kvs n | _ \<Rightarrow> py_attr owner n) of
        None \<Rightarrow> related_values owner ns
      | Some v \<Rightarrow> (case v of PNone \<Rightarrow> ok [] | PList xs \<Rightarrow> ok xs | _ \<Rightarrow> raise TypeError))"

section \<open>Overlap check and resolvers\<close>

fun validate_no_overlap :: "string \<Rightarrow> string \<Rightarrow> pyval list \<Rightarrow> unit result" where
  "validate_no_overlap start end [] = ok ()"
| "validate_no_overlap start end (current # rest) =
     rbind (to_exception_facts current) (\<lambda>facts.
     rbind (exception_windows_overlap (PStr start) (PStr end)
              (PStr (ef_from_period facts)) (PStr (ef_to_period facts))) (\<lambda>overlap.
     if overlap then raise ValueError else validate_no_overlap start end rest))"

definition validate_no_overlapping_exceptions :: "pyval \<Rightarrow> pyval \<Rightarrow> pyval list \<Rightarrow> unit result" where
  "validate_no_overlapping_exceptions from_p to_p existing =
     rbind (validate_exception_window from_p to_p) (\<lambda>(start, end).
       validate_no_overlap start end existing)"

fun matching_exceptions :: "nat option \<Rightarrow> int \<times> int \<Rightarrow> pyval list \<Rightarrow> exception_facts list result" where
  "matching_exceptions version_id requested [] = ok []"
| "matching_exceptions version_id requested (c # cs) =
     rbind (to_exception_facts c) (\<lambda>facts.
     if version_id \<noteq> None \<and> ef_covenant_version_id facts \<noteq> None
        \<and> ef_covenant_version_id facts \<noteq> version_id
     then matching_exceptions version_id requested cs else
     rbind (period_key (PStr (ef_from_period facts))) (\<lambda>kf.
     rbind (if kf \<le> requested then
              rbind (period_key (PStr (ef_to_period facts))) (\<lambda>kt. ok (requested \<le> kt))
            else ok False) (\<lambda>hit.
     rbind (matching_exceptions version_id requested cs) (\<lambda>rest.
       ok (if hit then facts # rest else rest)))))"

definition resolve_exception :: "pyval \<Rightarrow> pyval \<Rightarrow> exception_facts option result" where
  "resolve_exception version period =
     rbind (period_key period) (\<lambda>requested.
     rbind (optional_uuid version ''id'') (\<lambda>vid.
     rbind (related_values version [''exceptions'', ''covenant_exceptions'']) (\<lambda>candidates.
     rbind (matching_exceptions (uuid_of vid) requested candidates) (\<lambda>matching.
       case matching of [] \<Rightarrow> ok None | [e] \<Rightarrow> ok (Some e) | _ \<Rightarrow> raise ValueError))))"

fun matching_waivers :: "nat option \<Rightarrow> date \<Rightarrow> pyval list \<Rightarrow> waiver_facts list result" where
  "matching_waivers covenant_id as_of [] = ok []"
| "matching_waivers covenant_id as_of (c # cs) =
     rbind (to_waiver_facts c) (\<lambda>facts.
     rbind (matching_waivers covenant_id as_of cs) (\<lambda>rest.
       if covenant_id \<noteq> None \<and> wf_covenant_id facts \<noteq> None \<and> wf_covenant_id facts \<noteq> covenant_id
       then ok rest
       else if \<not> is_approved facts then ok rest
       else if wf_from_date facts \<le> as_of
         \<and> (case wf_to_date facts of None \<Rightarrow> True | Some t \<Rightarrow> as_of \<le> t)
       then ok (facts # rest) else ok rest))"

definition waiver_key :: "waiver_facts \<Rightarrow> date \<times> bool \<times> date \<times> string" where
  "waiver_key w = (wf_from_date w, wf_to_date w = None,
     (case wf_to_date w of None \<Rightarrow> max_ordinal | Some t \<Rightarrow> t), optional_uuid_text (wf_id w))"

definition resolve_waiver :: "pyval \<Rightarrow> pyval \<Rightarrow> waiver_facts option result" where
  "resolve_waiver covenant as_of =
     rbind (validate_calendar_date as_of) (\<lambda>d.
     rbind (optional_uuid covenant ''id'') (\<lambda>cid.
     rbind (related_values covenant [''waivers'', ''covenant_waivers'']) (\<lambda>candidates.
     rbind (matching_waivers (uuid_of cid) d candidates) (\<lambda>matching.
       if matching = [] then ok None else ok (Some (hd (sort_desc waiver_key matching)))))))"

section \<open>Lemmas\<close>

text \<open>A label of a fact is canonical when it is its own normal form.\<close>

definition canonical_period :: "string \<Rightarrow> bool" where
  "canonical_period p = (normalise_period (PStr p) = Inr p)"

definition key_of :: "string \<Rightarrow> int \<times> int" where
  "key_of p = (case period_key_of p of Some k \<Rightarrow> k | None \<Rightarrow> (0, 0))"

definition valid_exception :: "exception_facts \<Rightarrow> bool" where
  "valid_exception e = (canonical_period (ef_from_period e) \<and> canonical_period (ef_to_period e)
     \<and> key_of (ef_from_period e) \<le> key_of (ef_to_period e))"

definition in_window :: "exception_facts \<Rightarrow> int \<times> int \<Rightarrow> bool" where
  "in_window e k = (key_of (ef_from_period e) \<le> k \<and> k \<le> key_of (ef_to_period e))"

definition version_matches :: "nat option \<Rightarrow> exception_facts \<Rightarrow> bool" where
  "version_matches vid e = (vid = None \<or> ef_covenant_version_id e = None \<or> ef_covenant_version_id e = vid)"

lemma period_label_of_text [simp]: "period_label_of (PStr s) = PStr s"
  by (simp add: period_label_of_def)

lemma period_match_key: "period_match p \<noteq> None \<longleftrightarrow> period_key_of p \<noteq> None"
  by (auto simp: period_key_of_def Let_def split: option.splits prod.splits)

lemma normalise_canonical: "normalise_period v = Inr p \<Longrightarrow> canonical_period p"
  by (auto simp: normalise_period_def canonical_period_def Let_def strip_upper
      split: option.splits if_splits)

lemma period_key_canonical:
  "canonical_period p \<Longrightarrow> period_key (PStr p) = Inr (key_of p)"
  using period_match_key [of p]
  by (auto simp: canonical_period_def normalise_period_def period_key_def key_of_def Let_def
      split: option.splits if_splits)

lemma period_key_via_normal: "normalise_period v = Inr p \<Longrightarrow> period_key v = Inr (key_of p)"
  using period_key_canonical [OF normalise_canonical, of v p]
  by (simp add: period_key_def) (metis normalise_canonical canonical_period_def rbind_simps(2))

lemma window_canonical:
  "canonical_period f \<Longrightarrow> canonical_period t \<Longrightarrow>
   validate_exception_window (PStr f) (PStr t) =
     (if key_of t < key_of f then Inl ValueError else Inr (f, t))"
  by (simp add: validate_exception_window_def canonical_period_def period_key_canonical)

lemma overlap_canonical:
  assumes "canonical_period fa" "canonical_period ta" "canonical_period fb" "canonical_period tb"
    and "key_of fa \<le> key_of ta" "key_of fb \<le> key_of tb"
  shows "exception_windows_overlap (PStr fa) (PStr ta) (PStr fb) (PStr tb)
     = Inr (key_of fa \<le> key_of tb \<and> key_of fb \<le> key_of ta)"
  using assms by (auto simp: exception_windows_overlap_def window_canonical period_key_canonical dest: leD)

lemma text_or_empty_PStr [simp]: "text_or_empty (PStr s) = s"
  by (simp add: text_or_empty_def)

lemma finite_dec_pyopt [simp]: "finite_dec (pyopt PDec x) = x"
  by (cases x) (simp_all add: finite_dec_def)

lemma uuid_of_pyopt [simp]: "uuid_of (pyopt PUuid x) = x"
  by (cases x) (simp_all add: uuid_of_def)

lemma date_of_pyopt [simp]: "date_of (pyopt PDate x) = x"
  by (cases x) (simp_all add: date_of_def)

lemma text_of_pyopt [simp]: "text_of (pyopt PStr x) = x"
  by (cases x) simp_all

lemma bool_of_pyopt [simp]: "bool_of (pyopt PBool x) = x"
  by (cases x) (simp_all add: bool_of_def)

lemma exception_of_exception_obj [simp]: "exception_of_obj (exception_obj e) = e"
  by (simp add: exception_of_obj_def exception_obj_def)

lemma waiver_of_waiver_obj [simp]: "waiver_of_obj (waiver_obj w) = w"
  by (simp add: waiver_of_obj_def waiver_obj_def)

lemma to_exception_facts_obj [simp]: "to_exception_facts (exception_obj e) = Inr e"
  by (simp add: to_exception_facts_def) (simp add: exception_obj_def)

lemma to_waiver_facts_obj [simp]: "to_waiver_facts (waiver_obj w) = Inr w"
  by (simp add: to_waiver_facts_def) (simp add: waiver_obj_def)

lemma make_exception_valid: "make_exception f t r i c a = Inr e \<Longrightarrow> valid_exception e"
  by (auto simp: make_exception_def valid_exception_def normalise_canonical
      period_key_canonical [OF normalise_canonical] not_less split: if_splits)

lemma to_exception_facts_valid:
  "to_exception_facts v = Inr e \<Longrightarrow> \<not> is_instance ''ExceptionFacts'' v \<Longrightarrow> valid_exception e"
  by (auto simp: to_exception_facts_def make_exception_valid)

text \<open>On valid facts the loop of \<open>resolve_exception\<close> is a filter.\<close>

lemma matching_exceptions_facts:
  "\<forall>e\<in>set es. valid_exception e \<Longrightarrow>
   matching_exceptions vid k (map exception_obj es)
     = Inr (filter (\<lambda>e. version_matches vid e \<and> in_window e k) es)"
  by (induction es)
    (auto simp: version_matches_def in_window_def valid_exception_def period_key_canonical)

lemma validate_no_overlap_facts:
  assumes "\<forall>e\<in>set es. valid_exception e" "canonical_period f" "canonical_period t"
    "key_of f \<le> key_of t"
  shows "validate_no_overlap f t (map exception_obj es) = Inr () \<longleftrightarrow>
    (\<forall>e\<in>set es. key_of (ef_to_period e) < key_of f \<or> key_of t < key_of (ef_from_period e))"
  using assms
  by (induction es) (auto simp: valid_exception_def overlap_canonical not_le)

text \<open>The owner of a list of exceptions or waivers, as an adapter row.\<close>

definition version_row :: "nat option \<Rightarrow> exception_facts list \<Rightarrow> pyval" where
  "version_row vid es = PObj ''CovenantVersion''
     [(''id'', pyopt PUuid vid), (''exceptions'', PList (map exception_obj es))]"

definition covenant_row :: "nat option \<Rightarrow> waiver_facts list \<Rightarrow> pyval" where
  "covenant_row cid ws = PObj ''Covenant''
     [(''id'', pyopt PUuid cid), (''waivers'', PList (map waiver_obj ws))]"

lemma optional_uuid_id [simp]:
  "optional_uuid (PObj c ((''id'', pyopt PUuid i) # as)) ''id'' = Inr (pyopt PUuid i)"
  by (cases i) (simp_all add: optional_uuid_def)

lemma resolve_exception_facts:
  assumes "\<forall>e\<in>set es. valid_exception e" and "period_key p = Inr k"
  shows "resolve_exception (version_row vid es) p =
    (case filter (\<lambda>e. version_matches vid e \<and> in_window e k) es of
       [] \<Rightarrow> Inr None | [e] \<Rightarrow> Inr (Some e) | _ \<Rightarrow> Inl ValueError)"
  using assms by (simp add: resolve_exception_def version_row_def matching_exceptions_facts)

lemma filter_at_most_one_find:
  "length (filter P xs) \<le> 1 \<Longrightarrow>
   (case filter P xs of [] \<Rightarrow> Inr None | [e] \<Rightarrow> Inr (Some e) | _ \<Rightarrow> Inl x) = Inr (find P xs)"
  by (induction xs) (auto split: list.splits if_splits)

lemma filter_conj_length: "length (filter (\<lambda>x. P x \<and> Q x) xs) \<le> length (filter Q xs)"
  by (induction xs) auto

lemma accepted_disjoint:
  assumes "\<forall>e\<in>set (new # es). valid_exception e"
    and "validate_no_overlapping_exceptions (PStr (ef_from_period new)) (PStr (ef_to_period new))
      (map exception_obj es) = Inr ()"
    and "in_window new k" and "e \<in> set es"
  shows "\<not> in_window e k"
proof -
  have v: "canonical_period (ef_from_period new)" "canonical_period (ef_to_period new)"
    "key_of (ef_from_period new) \<le> key_of (ef_to_period new)"
    using assms(1) by (auto simp: valid_exception_def)
  have "validate_no_overlap (ef_from_period new) (ef_to_period new) (map exception_obj es) = Inr ()"
    using assms(2) v
    by (auto simp: validate_no_overlapping_exceptions_def window_canonical not_less split: if_splits)
  then have "key_of (ef_to_period e) < key_of (ef_from_period new)
    \<or> key_of (ef_to_period new) < key_of (ef_from_period e)"
    using validate_no_overlap_facts [of es] assms(1,4) v by auto
  then show ?thesis using assms(3) by (auto simp: in_window_def)
qed

text \<open>
  C3: the overlap check keeps the registry unambiguous. If no financial period lies in two of
  the registered windows and \<open>validate_no_overlapping_exceptions\<close> accepts a new window, then
  after adding it no period lies in two windows either, and \<open>resolve_exception\<close> does not
  raise for any period: it returns the exception in force, or \<open>None\<close> when there is none.
\<close>

theorem registered_exception_unambiguous:
  assumes valid: "\<forall>e\<in>set (new # es). valid_exception e"
    and disjoint: "\<forall>k. length (filter (\<lambda>e. in_window e k) es) \<le> 1"
    and accepted: "validate_no_overlapping_exceptions (PStr (ef_from_period new))
      (PStr (ef_to_period new)) (map exception_obj es) = Inr ()"
    and period: "period_key p = Inr k"
  shows "length (filter (\<lambda>e. in_window e k) (new # es)) \<le> 1 \<and>
    resolve_exception (version_row vid (new # es)) p
      = Inr (find (\<lambda>e. version_matches vid e \<and> in_window e k) (new # es))"
proof -
  have one: "length (filter (\<lambda>e. in_window e k) (new # es)) \<le> 1"
  proof (cases "in_window new k")
    case True
    have "filter (\<lambda>e. in_window e k) es = []"
      using accepted_disjoint [OF valid accepted True] by (simp add: filter_empty_conv)
    then show ?thesis by simp
  next
    case False
    with disjoint [THEN spec, of k] show ?thesis by simp
  qed
  have "length (filter (\<lambda>e. version_matches vid e \<and> in_window e k) (new # es)) \<le> 1"
    using filter_conj_length [of "version_matches vid" "\<lambda>e. in_window e k" "new # es"] one
    by linarith
  with one show ?thesis
    by (simp only: resolve_exception_facts [OF valid period] filter_at_most_one_find)
qed

definition demo_exception :: "string \<Rightarrow> string \<Rightarrow> exception_facts" where
  "demo_exception f t = \<lparr>ef_from_period = f, ef_to_period = t, ef_relaxed_threshold = Some 5,
     ef_id = Some 1, ef_covenant_version_id = Some 7, ef_approved_by_id = None\<rparr>"

lemmas period_eval = normalise_period_def period_match_def period_key_def period_key_of_def
  canonical_period_def key_of_def Let_def strip_def upper_def upper_char_def is_space_def
  is_digit_def is_quarter_def digit_value_def nat_of_digits_def

lemma demo_canonical:
  "canonical_period ''FY27Q1''" "canonical_period ''FY27Q2''" "canonical_period ''FY27Q4''"
  "canonical_period ''FY2026Q4''"
  "key_of ''FY27Q1'' = (2027, 1)" "key_of ''FY27Q2'' = (2027, 2)" "key_of ''FY27Q4'' = (2027, 4)"
  "key_of ''FY2026Q4'' = (2026, 4)"
  by (simp_all add: period_eval)

lemma demo_valid:
  "valid_exception (demo_exception ''FY27Q1'' ''FY27Q1'')"
  "valid_exception (demo_exception ''FY27Q2'' ''FY27Q4'')"
  by (simp_all add: valid_exception_def demo_exception_def demo_canonical)

lemma demo_key: "period_key (PStr ''FY27Q2'') = Inr (2027, 2)"
  by (simp add: period_key_canonical demo_canonical)

theorem registered_exception_unambiguous_witness:
  "resolve_exception (version_row (Some 7)
      [demo_exception ''FY27Q2'' ''FY27Q4'', demo_exception ''FY27Q1'' ''FY27Q1''])
    (PStr ''FY27Q2'') = Inr (Some (demo_exception ''FY27Q2'' ''FY27Q4''))"
proof -
  have valid: "\<forall>e\<in>set [demo_exception ''FY27Q2'' ''FY27Q4'',
    demo_exception ''FY27Q1'' ''FY27Q1'']. valid_exception e"
    by (simp add: demo_valid)
  have accepted: "validate_no_overlapping_exceptions
      (PStr (ef_from_period (demo_exception ''FY27Q2'' ''FY27Q4'')))
      (PStr (ef_to_period (demo_exception ''FY27Q2'' ''FY27Q4'')))
      (map exception_obj [demo_exception ''FY27Q1'' ''FY27Q1'']) = Inr ()"
    by (simp add: validate_no_overlapping_exceptions_def window_canonical demo_canonical
        overlap_canonical) (simp add: demo_exception_def window_canonical overlap_canonical
        demo_canonical)
  show ?thesis
    using registered_exception_unambiguous [OF valid _ accepted demo_key, of "Some 7"]
    by (simp add: in_window_def version_matches_def)
      (simp add: demo_exception_def demo_canonical)
qed

section \<open>Waivers\<close>

definition waiver_applies :: "nat option \<Rightarrow> date \<Rightarrow> waiver_facts \<Rightarrow> bool" where
  "waiver_applies cid d w = ((cid = None \<or> wf_covenant_id w = None \<or> wf_covenant_id w = cid)
     \<and> is_approved w \<and> wf_from_date w \<le> d
     \<and> (case wf_to_date w of None \<Rightarrow> True | Some t \<Rightarrow> d \<le> t))"

lemma matching_waivers_facts:
  "matching_waivers cid d (map waiver_obj ws) = Inr (filter (waiver_applies cid d) ws)"
  by (induction ws) (auto simp: waiver_applies_def)

text \<open>
  which waiver is in force. On a covenant whose waivers are facts, \<open>resolve_waiver\<close> never
  raises for a calendar date; it returns \<open>None\<close> exactly when no approved waiver of the
  covenant covers the date, and otherwise an applicable waiver that no applicable waiver
  precedes in the order (start date, open end, end date, identifier): in particular none that
  starts later applies.
\<close>

theorem resolve_waiver_latest:
  "case resolve_waiver (covenant_row cid ws) (PDate d) of
     Inl e \<Rightarrow> False
   | Inr None \<Rightarrow> (\<forall>w\<in>set ws. \<not> waiver_applies cid d w)
   | Inr (Some w) \<Rightarrow> w \<in> set ws \<and> waiver_applies cid d w
       \<and> (\<forall>w'\<in>set ws. waiver_applies cid d w' \<longrightarrow>
            waiver_key w' \<le> waiver_key w \<and> wf_from_date w' \<le> wf_from_date w)"
proof -
  define ms where "ms = filter (waiver_applies cid d) ws"
  have r: "resolve_waiver (covenant_row cid ws) (PDate d) =
      (if ms = [] then Inr None else Inr (Some (hd (sort_desc waiver_key ms))))"
    by (simp add: resolve_waiver_def covenant_row_def validate_calendar_date_def
        matching_waivers_facts ms_def)
  show ?thesis
  proof (cases "ms = []")
    case True
    then show ?thesis by (simp add: r) (simp add: ms_def filter_empty_conv)
  next
    case False
    define w where "w = hd (sort_desc waiver_key ms)"
    have "w \<in> set ms" using sort_desc_hd_in [OF False] by (simp add: w_def)
    moreover have "waiver_key w' \<le> waiver_key w" if "w' \<in> set ms" for w'
      using sort_desc_hd_max [OF that] by (simp add: w_def)
    moreover have "wf_from_date w' \<le> wf_from_date w" if "waiver_key w' \<le> waiver_key w" for w'
      using that by (auto simp: waiver_key_def less_eq_prod_def)
    ultimately show ?thesis using False by (auto simp: r w_def [symmetric]) (auto simp: ms_def)
  qed
qed

definition demo_waiver :: "date \<Rightarrow> string \<Rightarrow> waiver_facts" where
  "demo_waiver f st = \<lparr>wf_from_date = f, wf_to_date = None, wf_scope = None, wf_reason = PNone,
     wf_id = None, wf_covenant_id = None, wf_state = st, wf_approved_by_id = None, wf_approved = None\<rparr>"

lemma demo_waiver_approved:
  "is_approved (demo_waiver f '' Approved '')" "\<not> is_approved (demo_waiver f ''requested'')"
proof -
  have "lower (strip '' Approved '') = ''approved''" "lower (strip ''requested'') = ''requested''"
    by code_simp+
  then show "is_approved (demo_waiver f '' Approved '')" "\<not> is_approved (demo_waiver f ''requested'')"
    by (simp_all add: is_approved_def demo_waiver_def)
qed

theorem resolve_waiver_latest_witness:
  "resolve_waiver (covenant_row None
      [demo_waiver 10 '' Approved '', demo_waiver 20 ''requested'', demo_waiver 15 '' Approved ''])
    (PDate 30) = Inr (Some (demo_waiver 15 '' Approved ''))"
proof -
  let ?ws = "[demo_waiver 10 '' Approved '', demo_waiver 20 ''requested'', demo_waiver 15 '' Approved '']"
  have ap: "waiver_applies None 30 (demo_waiver f '' Approved '')" if "f \<le> 30" for f
    using that by (simp add: waiver_applies_def demo_waiver_approved) (simp add: demo_waiver_def)
  have na: "\<not> waiver_applies None 30 (demo_waiver f ''requested'')" for f
    by (simp add: waiver_applies_def demo_waiver_approved)
  have from_: "wf_from_date (demo_waiver f s) = f" for f s by (simp add: demo_waiver_def)
  show ?thesis
    using resolve_waiver_latest [of ?ws None 30]
    by (auto simp: ap na from_ split: sum.splits option.splits)
qed

end
