(* ===== verification/Ratio_Core.thy ===== *)
theory Ratio_Core
  imports Py_Values
begin

text \<open>
  \<open>domain/ratios/reasons.py\<close> and the building blocks of
  \<open>domain/ratios/definitions.py\<close>: the closed reason vocabulary, definitions, facility
  facts and outcomes with the checks of their constructors, the term sums and the formula
  builders. A formula is a function of the statement lines and the facility facts; the checks
  of \<open>__post_init__\<close>, the key errors of \<open>lines[code]\<close> and the division by zero are
  branches of the result type, and the lemmas show that no formula takes them.
\<close>

section \<open>Reasons\<close>

datatype reason = MISSING_LINE | ZERO_DENOMINATOR | SIGN_MEANINGLESS_DENOMINATOR
  | PERIOD_INCOMPLETE | FACILITY_FACTS_ABSENT | FORMULA_NOT_COMPUTABLE

definition reason_value :: "reason \<Rightarrow> string" where
  "reason_value r = (case r of MISSING_LINE \<Rightarrow> ''missing_line''
     | ZERO_DENOMINATOR \<Rightarrow> ''zero_denominator''
     | SIGN_MEANINGLESS_DENOMINATOR \<Rightarrow> ''sign_meaningless_denominator''
     | PERIOD_INCOMPLETE \<Rightarrow> ''period_incomplete''
     | FACILITY_FACTS_ABSENT \<Rightarrow> ''facility_facts_absent''
     | FORMULA_NOT_COMPUTABLE \<Rightarrow> ''formula_not_computable'')"

definition all_reasons :: "reason list" where
  "all_reasons = [MISSING_LINE, ZERO_DENOMINATOR, SIGN_MEANINGLESS_DENOMINATOR,
     PERIOD_INCOMPLETE, FACILITY_FACTS_ABSENT, FORMULA_NOT_COMPUTABLE]"

definition translation_key :: "reason \<Rightarrow> string" where
  "translation_key r = ''ratio.reason.'' @ reason_value r"

text \<open>\<open>NotComputableReason(text)\<close>.\<close>

definition reason_of_value :: "string \<Rightarrow> reason option" where
  "reason_of_value s = find (\<lambda>r. reason_value r = s) all_reasons"

lemma reason_of_value_inverse [simp]: "reason_of_value (reason_value r) = Some r"
  by (cases r) (simp_all add: reason_of_value_def all_reasons_def reason_value_def)

lemma all_reasons_exhaustive: "r \<in> set all_reasons"
  by (cases r) (simp_all add: all_reasons_def)

section \<open>Definitions, facts and outcomes\<close>

record ratio_definition =
  rd_code :: string
  rd_name :: string
  rd_formula_text :: string
  rd_required_lines :: "string list"
  rd_unit :: string
  rd_plausible_min :: "decimal option"
  rd_plausible_max :: "decimal option"
  rd_direction_hint :: "string option"
  rd_kind :: string

definition make_definition :: "ratio_definition \<Rightarrow> ratio_definition result" where
  "make_definition d =
     (if rd_code d = [] \<or> rd_name d = [] \<or> rd_formula_text d = [] \<or> rd_required_lines d = []
         \<or> rd_unit d = [] then raise ValueError
      else if \<not> (case rd_direction_hint d of None \<Rightarrow> True | Some h \<Rightarrow> h \<in> {''min'', ''max''})
      then raise ValueError
      else if rd_kind d \<notin> {''ratio'', ''condition''} then raise ValueError
      else case (rd_plausible_min d, rd_plausible_max d) of
          (Some lo, Some hi) \<Rightarrow> (if hi < lo then raise ValueError else ok d)
        | _ \<Rightarrow> ok d)"

record facility_facts =
  sanctioned_limit :: "decimal option"
  outstanding :: "decimal option"
  drawing_power :: "decimal option"
  promoter_shareholding_floor_pct :: "decimal option"

type_synonym lines = "(string \<times> decimal) list"
type_synonym context_values = "(string \<times> pyval) list"

record formula_outcome =
  fo_value :: "decimal option"
  fo_computable :: bool
  fo_reason :: "reason option"
  fo_inputs_used :: lines
  fo_reason_context :: context_values
  fo_outcome :: "bool option"

definition make_outcome :: "formula_outcome \<Rightarrow> formula_outcome result" where
  "make_outcome f =
     (if fo_computable f then
        if fo_value f = None \<or> fo_reason f \<noteq> None \<or> fo_reason_context f \<noteq> []
        then raise ValueError else ok f
      else if fo_value f \<noteq> None \<or> fo_reason f = None \<or> fo_outcome f \<noteq> None
      then raise ValueError else ok f)"

definition computed :: "decimal \<Rightarrow> lines \<Rightarrow> bool option \<Rightarrow> formula_outcome result" where
  "computed value used outcome = make_outcome
     \<lparr>fo_value = Some value, fo_computable = True, fo_reason = None, fo_inputs_used = used,
      fo_reason_context = [], fo_outcome = outcome\<rparr>"

definition not_computed :: "reason \<Rightarrow> lines \<Rightarrow> context_values \<Rightarrow> formula_outcome result" where
  "not_computed reason used ctx = make_outcome
     \<lparr>fo_value = None, fo_computable = False, fo_reason = Some reason, fo_inputs_used = used,
      fo_reason_context = ctx, fo_outcome = None\<rparr>"

section \<open>Terms\<close>

record fterm =
  term_code :: string
  term_sign :: int

definition plus_term :: "string \<Rightarrow> fterm" where
  "plus_term c = \<lparr>term_code = c, term_sign = 1\<rparr>"

definition minus_term :: "string \<Rightarrow> fterm" where
  "minus_term c = \<lparr>term_code = c, term_sign = -1\<rparr>"

text \<open>\<open>lines[code]\<close>\<close>

definition line :: "lines \<Rightarrow> string \<Rightarrow> decimal result" where
  "line ls c = (case lookup ls c of None \<Rightarrow> raise KeyError | Some v \<Rightarrow> ok v)"

definition sum_terms :: "lines \<Rightarrow> fterm list \<Rightarrow> decimal result" where
  "sum_terms ls ts =
     rbind (rmap (\<lambda>t. rbind (line ls (term_code t)) (\<lambda>v. ok (dmul v (of_int (term_sign t))))) ts)
       (\<lambda>vs. ok (dsum vs))"

fun terms_label_rest :: "fterm list \<Rightarrow> string" where
  "terms_label_rest [] = []"
| "terms_label_rest (t # ts) =
     (if 0 \<le> term_sign t then '' + '' @ term_code t else '' - '' @ term_code t) @ terms_label_rest ts"

fun terms_label :: "fterm list \<Rightarrow> string" where
  "terms_label [] = []"
| "terms_label (t # ts) =
     (if 0 \<le> term_sign t then term_code t else ''-'' @ term_code t) @ terms_label_rest ts"

fun join_names :: "string list \<Rightarrow> string" where
  "join_names [] = []"
| "join_names [s] = s"
| "join_names (s # t # ss) = s @ '', '' @ join_names (t # ss)"

section \<open>Outcomes that are not computable\<close>

definition missing_lines_outcome :: "string list \<Rightarrow> lines \<Rightarrow> formula_outcome result" where
  "missing_lines_outcome missing used =
     not_computed MISSING_LINE used [(''names'', PStr (join_names (sort missing)))]"

definition missing_facility_facts_outcome :: "string list \<Rightarrow> formula_outcome result" where
  "missing_facility_facts_outcome missing =
     not_computed FACILITY_FACTS_ABSENT [] [(''names'', PStr (join_names (sort missing)))]"

definition zero_denominator_outcome :: "string \<Rightarrow> lines \<Rightarrow> formula_outcome result" where
  "zero_denominator_outcome label used =
     not_computed ZERO_DENOMINATOR used [(''denominator'', PStr label)]"

text \<open>The context holds \<open>str(value)\<close>; the model keeps the value that is printed.\<close>

definition sign_meaningless_denominator_outcome :: "string \<Rightarrow> decimal \<Rightarrow> lines \<Rightarrow> formula_outcome result" where
  "sign_meaningless_denominator_outcome label value used =
     not_computed SIGN_MEANINGLESS_DENOMINATOR used
       [(''denominator'', PStr label), (''value'', PDec value)]"

section \<open>Formula builders\<close>

type_synonym formula = "lines \<Rightarrow> facility_facts option \<Rightarrow> formula_outcome result"

text \<open>\<open>tuple(dict.fromkeys(...))\<close>: the first occurrence of each code, in order.\<close>

fun first_occurrences :: "'a list \<Rightarrow> 'a list" where
  "first_occurrences [] = []"
| "first_occurrences (x # xs) = x # filter (\<lambda>y. y \<noteq> x) (first_occurrences xs)"

definition missing_in :: "lines \<Rightarrow> string list \<Rightarrow> string list" where
  "missing_in ls codes = filter (\<lambda>c. \<not> has_key ls c) codes"

definition used_in :: "lines \<Rightarrow> string list \<Rightarrow> lines" where
  "used_in ls codes = List.map_filter (\<lambda>c. map_option (Pair c) (lookup ls c)) codes"

definition make_division_formula :: "fterm list \<Rightarrow> fterm list \<Rightarrow> decimal \<Rightarrow> formula" where
  "make_division_formula numerator denominator scale = (\<lambda>ls facility.
     let codes = first_occurrences (map term_code (numerator @ denominator));
         missing = missing_in ls codes; used = used_in ls codes
     in if missing \<noteq> [] then missing_lines_outcome missing used else
        rbind (sum_terms ls denominator) (\<lambda>d.
        if d = 0 then zero_denominator_outcome (terms_label denominator) used
        else if d < 0 then sign_meaningless_denominator_outcome (terms_label denominator) d used
        else rbind (sum_terms ls numerator) (\<lambda>n.
             rbind (ddiv_checked n d) (\<lambda>q. computed (dmul q scale) used None))))"

definition make_line_read_formula :: "string \<Rightarrow> formula" where
  "make_line_read_formula code = (\<lambda>ls facility.
     if \<not> has_key ls code then missing_lines_outcome [code] [] else
     rbind (line ls code) (\<lambda>v. computed v [(code, v)] None))"

lemma computed_ok [simp]: "computed v used oc = Inr
  \<lparr>fo_value = Some v, fo_computable = True, fo_reason = None, fo_inputs_used = used,
   fo_reason_context = [], fo_outcome = oc\<rparr>"
  by (simp add: computed_def make_outcome_def)

lemma not_computed_ok [simp]: "not_computed r used ctx = Inr
  \<lparr>fo_value = None, fo_computable = False, fo_reason = Some r, fo_inputs_used = used,
   fo_reason_context = ctx, fo_outcome = None\<rparr>"
  by (simp add: not_computed_def make_outcome_def)

lemmas outcome_defs = missing_lines_outcome_def missing_facility_facts_outcome_def
  zero_denominator_outcome_def sign_meaningless_denominator_outcome_def

lemma set_first_occurrences [simp]: "set (first_occurrences xs) = set xs"
  by (induction xs) auto

lemma distinct_first_occurrences [simp]: "distinct (first_occurrences xs)"
  by (induction xs) auto

lemma line_has: "has_key ls c \<Longrightarrow> \<exists>v. lookup ls c = Some v \<and> line ls c = Inr v"
  by (auto simp: line_def elim: has_keyE)

lemma missing_in_empty [simp]: "missing_in ls cs = [] \<longleftrightarrow> (\<forall>c\<in>set cs. has_key ls c)"
  by (simp add: missing_in_def filter_empty_conv)

definition line_value :: "lines \<Rightarrow> string \<Rightarrow> decimal" where
  "line_value ls c = (case lookup ls c of None \<Rightarrow> 0 | Some v \<Rightarrow> v)"

lemma line_ok: "has_key ls c \<Longrightarrow> line ls c = Inr (line_value ls c)"
  using line_has [of ls c] by (auto simp: line_value_def)

definition terms_value :: "lines \<Rightarrow> fterm list \<Rightarrow> decimal" where
  "terms_value ls ts = dsum (map (\<lambda>t. dmul (line_value ls (term_code t)) (of_int (term_sign t))) ts)"

lemma sum_terms_ok:
  "\<forall>t\<in>set ts. has_key ls (term_code t) \<Longrightarrow> sum_terms ls ts = Inr (terms_value ls ts)"
  using rmap_ok_all [of ts "\<lambda>t. rbind (line ls (term_code t)) (\<lambda>v. ok (dmul v (of_int (term_sign t))))"
      "\<lambda>t. dmul (line_value ls (term_code t)) (of_int (term_sign t))"]
  by (simp add: sum_terms_def terms_value_def line_ok)

lemma used_in_keys: "set (used_in ls cs) = {(c, v). c \<in> set cs \<and> lookup ls c = Some v}"
  by (induction cs) (auto simp: used_in_def map_filter_simps split: option.splits)

end
