(* ===== verification/Ratio_Library.thy ===== *)
theory Ratio_Library
  imports Ratio_Core
begin

text \<open>
  The twenty-four ratio definitions (\<open>domain/ratios/definitions.py\<close>,
  \<open>conditions.py\<close>) as data with their formulas, the registry of
  \<open>domain/ratios/library.py\<close> and the dispatch of \<open>domain/ratios/compute.py\<close>. The
  lemmas show that the registry builds, that no registered formula raises, that a result is
  computable exactly when it carries a value, and that a formula reads the inputs its
  definition declares and no other.
\<close>

section \<open>Formulas of their own\<close>

definition compute_tnw_floor :: formula where
  "compute_tnw_floor = (\<lambda>ls facility. let code = ''tangible_net_worth'' in
     if \<not> has_key ls code then missing_lines_outcome [code] [] else
     rbind (line ls code) (\<lambda>v. computed v [(code, v)] None))"

definition compute_minimum_net_worth :: formula where
  "compute_minimum_net_worth = (\<lambda>ls facility.
     let codes = [''total_assets'', ''total_liabilities''];
         missing = missing_in ls codes; used = used_in ls codes
     in if missing \<noteq> [] then missing_lines_outcome missing used else
        rbind (line ls ''total_assets'') (\<lambda>a. rbind (line ls ''total_liabilities'') (\<lambda>l.
          computed (dsub a l) used None)))"

definition net_worth_plausible_min :: decimal where "net_worth_plausible_min = - 100000"
definition net_worth_plausible_max :: decimal where "net_worth_plausible_max = 2000000"
definition percentage_scale :: decimal where "percentage_scale = 100"
definition days_in_year :: decimal where "days_in_year = 365"

text \<open>The unit of money, in UTF-8.\<close>

definition rupee_sign :: string where "rupee_sign = [CHR 0xE2, CHR 0x82, CHR 0xB9]"

definition compute_working_capital_gap :: formula where
  "compute_working_capital_gap = (\<lambda>ls facility.
     let codes = [''current_assets'', ''payables'', ''other_current_liabilities''];
         missing = missing_in ls codes; used = used_in ls codes
     in if missing \<noteq> [] then missing_lines_outcome missing used else
        rbind (line ls ''current_assets'') (\<lambda>a. rbind (line ls ''payables'') (\<lambda>p.
        rbind (line ls ''other_current_liabilities'') (\<lambda>l.
          computed (dsub (dsub a p) l) used None))))"

definition compute_cash_conversion_cycle :: formula where
  "compute_cash_conversion_cycle = (\<lambda>ls facility.
     let codes = [''receivables'', ''revenue'', ''inventory'', ''cost_of_goods_sold'', ''payables''];
         missing = missing_in ls codes; used = used_in ls codes
     in if missing \<noteq> [] then missing_lines_outcome missing used else
        rbind (line ls ''revenue'') (\<lambda>revenue. rbind (line ls ''cost_of_goods_sold'') (\<lambda>cogs.
        if revenue = 0 then zero_denominator_outcome ''revenue'' used
        else if revenue < 0 then sign_meaningless_denominator_outcome ''revenue'' revenue used
        else if cogs = 0 then zero_denominator_outcome ''cost_of_goods_sold'' used
        else if cogs < 0 then
          sign_meaningless_denominator_outcome ''cost_of_goods_sold'' cogs used
        else
          rbind (rbind (line ls ''receivables'') (\<lambda>v. ddiv_checked v revenue)) (\<lambda>r.
          rbind (rbind (line ls ''inventory'') (\<lambda>v. ddiv_checked v cogs)) (\<lambda>i.
          rbind (rbind (line ls ''payables'') (\<lambda>v. ddiv_checked v cogs)) (\<lambda>p.
            computed (dsub (dadd (dmul r days_in_year) (dmul i days_in_year)) (dmul p days_in_year))
              used None))))))"

definition facility_value :: "(facility_facts \<Rightarrow> decimal option) \<Rightarrow> facility_facts option \<Rightarrow> decimal option" where
  "facility_value f facility = (case facility of None \<Rightarrow> None | Some x \<Rightarrow> f x)"

definition missing_facts :: "(string \<times> (facility_facts \<Rightarrow> decimal option)) list
    \<Rightarrow> facility_facts option \<Rightarrow> string list" where
  "missing_facts required facility =
     map fst (filter (\<lambda>(name, f). facility_value f facility = None) required)"

text \<open>\<open>assert x is not None\<close>\<close>

definition present :: "'a option \<Rightarrow> 'a result" where
  "present x = (case x of None \<Rightarrow> raise AssertionError | Some v \<Rightarrow> ok v)"

definition compute_utilisation :: formula where
  "compute_utilisation = (\<lambda>ls facility.
     let missing = missing_facts [(''sanctioned_limit'', sanctioned_limit),
                                  (''outstanding'', outstanding)] facility
     in if missing \<noteq> [] then missing_facility_facts_outcome missing else
        rbind (present (facility_value sanctioned_limit facility)) (\<lambda>limit.
        rbind (present (facility_value outstanding facility)) (\<lambda>out.
        let used = [(''facility.sanctioned_limit'', limit), (''facility.outstanding'', out)] in
        if limit = 0 then zero_denominator_outcome ''facility.sanctioned_limit'' used
        else if limit < 0 then
          sign_meaningless_denominator_outcome ''facility.sanctioned_limit'' limit used
        else rbind (ddiv_checked out limit) (\<lambda>q. computed (dmul q percentage_scale) used None))))"

definition compute_drawing_power_headroom :: formula where
  "compute_drawing_power_headroom = (\<lambda>ls facility.
     let missing = missing_facts [(''drawing_power'', drawing_power),
                                  (''outstanding'', outstanding)] facility
     in if missing \<noteq> [] then missing_facility_facts_outcome missing else
        rbind (present (facility_value drawing_power facility)) (\<lambda>dp.
        rbind (present (facility_value outstanding facility)) (\<lambda>out.
        computed (dsub dp out)
          [(''facility.drawing_power'', dp), (''facility.outstanding'', out)] None)))"

definition compute_dividend_restriction :: formula where
  "compute_dividend_restriction = (\<lambda>ls facility. let code = ''dividend_paid'' in
     if \<not> has_key ls code then not_computed MISSING_LINE [] [(''names'', PStr code)] else
     rbind (line ls code) (\<lambda>v. computed v [(code, v)] (Some (v = 0))))"

definition compute_promoter_shareholding_floor :: formula where
  "compute_promoter_shareholding_floor = (\<lambda>ls facility.
     let missing_lines = missing_in ls [''promoter_shareholding''];
         used = used_in ls [''promoter_shareholding''];
         missing = missing_facts [(''promoter_shareholding_floor_pct'',
                                   promoter_shareholding_floor_pct)] facility
     in if missing_lines \<noteq> [] then
          not_computed MISSING_LINE used [(''names'', PStr (join_names missing_lines))]
        else if missing \<noteq> [] then
          not_computed FACILITY_FACTS_ABSENT used [(''names'', PStr (join_names missing))]
        else rbind (present (facility_value promoter_shareholding_floor_pct facility)) (\<lambda>floor_pct.
             rbind (line ls ''promoter_shareholding'') (\<lambda>v.
             computed v [(''promoter_shareholding'', v),
                 (''facility.promoter_shareholding_floor_pct'', floor_pct)]
               (Some (floor_pct \<le> v)))))"

section \<open>The definitions\<close>

type_synonym ratio_entry = "ratio_definition \<times> formula"

definition leverage_coverage_entries :: "ratio_entry list" where
  "leverage_coverage_entries =
    [(\<lparr>rd_code = ''leverage_ratio'', rd_name = ''Leverage ratio'',
       rd_formula_text = ''total_debt / tangible_net_worth'',
       rd_required_lines = [''total_debt'', ''tangible_net_worth''],
       rd_unit = ''x'', rd_plausible_min = Some 0, rd_plausible_max = Some 6,
       rd_direction_hint = Some ''max'', rd_kind = ''ratio''\<rparr>,
      make_division_formula [plus_term ''total_debt'']
        [plus_term ''tangible_net_worth''] 1),
     (\<lparr>rd_code = ''dscr'', rd_name = ''Debt service coverage ratio'',
       rd_formula_text = ''cash_flow_debt_service / finance_cost'',
       rd_required_lines = [''cash_flow_debt_service'', ''finance_cost''],
       rd_unit = ''x'', rd_plausible_min = Some (- 5), rd_plausible_max = Some 20,
       rd_direction_hint = Some ''min'', rd_kind = ''ratio''\<rparr>,
      make_division_formula [plus_term ''cash_flow_debt_service'']
        [plus_term ''finance_cost''] 1),
     (\<lparr>rd_code = ''interest_coverage_ratio'', rd_name = ''Interest coverage ratio'',
       rd_formula_text = ''ebit / finance_cost'',
       rd_required_lines = [''ebit'', ''finance_cost''],
       rd_unit = ''x'', rd_plausible_min = Some (- 5), rd_plausible_max = Some 50,
       rd_direction_hint = Some ''min'', rd_kind = ''ratio''\<rparr>,
      make_division_formula [plus_term ''ebit'']
        [plus_term ''finance_cost''] 1),
     (\<lparr>rd_code = ''fixed_charge_coverage_ratio'', rd_name = ''Fixed-charge coverage ratio'',
       rd_formula_text = ''ebitda / finance_cost'',
       rd_required_lines = [''ebitda'', ''finance_cost''],
       rd_unit = ''x'', rd_plausible_min = Some 0, rd_plausible_max = Some 30,
       rd_direction_hint = Some ''min'', rd_kind = ''ratio''\<rparr>,
      make_division_formula [plus_term ''ebitda'']
        [plus_term ''finance_cost''] 1),
     (\<lparr>rd_code = ''current_ratio'', rd_name = ''Current ratio'',
       rd_formula_text = ''current_assets / current_liabilities'',
       rd_required_lines = [''current_assets'', ''current_liabilities''],
       rd_unit = ''x'', rd_plausible_min = Some 1, rd_plausible_max = Some 4,
       rd_direction_hint = Some ''min'', rd_kind = ''ratio''\<rparr>,
      make_division_formula [plus_term ''current_assets'']
        [plus_term ''current_liabilities''] 1),
     (\<lparr>rd_code = ''quick_ratio'', rd_name = ''Quick ratio'',
       rd_formula_text = ''(current_assets - inventory) / current_liabilities'',
       rd_required_lines = [''current_assets'', ''inventory'', ''current_liabilities''],
       rd_unit = ''x'', rd_plausible_min = Some (1 / 2), rd_plausible_max = Some 3,
       rd_direction_hint = Some ''min'', rd_kind = ''ratio''\<rparr>,
      make_division_formula [plus_term ''current_assets'', minus_term ''inventory'']
        [plus_term ''current_liabilities''] 1),
     (\<lparr>rd_code = ''tol_tnw'', rd_name = ''Total outside liabilities / tangible net worth'',
       rd_formula_text = ''total_liabilities / tangible_net_worth'',
       rd_required_lines = [''total_liabilities'', ''tangible_net_worth''],
       rd_unit = ''x'', rd_plausible_min = Some 0, rd_plausible_max = Some 6,
       rd_direction_hint = Some ''max'', rd_kind = ''ratio''\<rparr>,
      make_division_formula [plus_term ''total_liabilities'']
        [plus_term ''tangible_net_worth''] 1),
     (\<lparr>rd_code = ''debt_to_ebitda'', rd_name = ''Debt / EBITDA'',
       rd_formula_text = ''total_debt / ebitda'',
       rd_required_lines = [''total_debt'', ''ebitda''],
       rd_unit = ''x'', rd_plausible_min = Some 0, rd_plausible_max = Some 5,
       rd_direction_hint = Some ''max'', rd_kind = ''ratio''\<rparr>,
      make_division_formula [plus_term ''total_debt'']
        [plus_term ''ebitda''] 1)]"

definition structure_entries :: "ratio_entry list" where
  "structure_entries =
    [(\<lparr>rd_code = ''net_debt_to_ebitda'', rd_name = ''Net debt / EBITDA'',
       rd_formula_text = ''(total_debt - cash_and_bank) / ebitda'',
       rd_required_lines = [''total_debt'', ''cash_and_bank'', ''ebitda''],
       rd_unit = ''x'', rd_plausible_min = Some 0, rd_plausible_max = Some 5,
       rd_direction_hint = Some ''max'', rd_kind = ''ratio''\<rparr>,
      make_division_formula [plus_term ''total_debt'', minus_term ''cash_and_bank'']
        [plus_term ''ebitda''] 1),
     (\<lparr>rd_code = ''ebitda_margin'', rd_name = ''EBITDA margin'',
       rd_formula_text = ''ebitda / revenue * 100'',
       rd_required_lines = [''ebitda'', ''revenue''],
       rd_unit = ''%'', rd_plausible_min = Some 5, rd_plausible_max = Some 60,
       rd_direction_hint = Some ''min'', rd_kind = ''ratio''\<rparr>,
      make_division_formula [plus_term ''ebitda'']
        [plus_term ''revenue''] percentage_scale),
     (\<lparr>rd_code = ''tnw_floor'', rd_name = ''Tangible net worth floor'',
       rd_formula_text = ''tangible_net_worth'',
       rd_required_lines = [''tangible_net_worth''],
       rd_unit = rupee_sign @ '' crore'', rd_plausible_min = Some net_worth_plausible_min, rd_plausible_max = Some net_worth_plausible_max,
       rd_direction_hint = Some ''min'', rd_kind = ''ratio''\<rparr>,
      compute_tnw_floor),
     (\<lparr>rd_code = ''minimum_net_worth'', rd_name = ''Minimum net worth'',
       rd_formula_text = ''total_assets - total_liabilities'',
       rd_required_lines = [''total_assets'', ''total_liabilities''],
       rd_unit = rupee_sign @ '' crore'', rd_plausible_min = Some net_worth_plausible_min, rd_plausible_max = Some net_worth_plausible_max,
       rd_direction_hint = Some ''min'', rd_kind = ''ratio''\<rparr>,
      compute_minimum_net_worth),
     (\<lparr>rd_code = ''utilisation'', rd_name = ''Facility utilisation'',
       rd_formula_text = ''facility.outstanding / facility.sanctioned_limit * 100'',
       rd_required_lines = [''sanctioned_limit'', ''outstanding''],
       rd_unit = ''%'', rd_plausible_min = Some 0, rd_plausible_max = Some 100,
       rd_direction_hint = Some ''max'', rd_kind = ''ratio''\<rparr>,
      compute_utilisation),
     (\<lparr>rd_code = ''drawing_power_headroom'', rd_name = ''Drawing-power headroom'',
       rd_formula_text = ''facility.drawing_power - facility.outstanding'',
       rd_required_lines = [''drawing_power'', ''outstanding''],
       rd_unit = rupee_sign @ '' crore'', rd_plausible_min = Some net_worth_plausible_min, rd_plausible_max = Some net_worth_plausible_max,
       rd_direction_hint = Some ''min'', rd_kind = ''ratio''\<rparr>,
      compute_drawing_power_headroom),
     (\<lparr>rd_code = ''receivable_days'', rd_name = ''Receivable days'',
       rd_formula_text = ''receivables / revenue * 365'',
       rd_required_lines = [''receivables'', ''revenue''],
       rd_unit = ''days'', rd_plausible_min = Some 0, rd_plausible_max = Some 180,
       rd_direction_hint = Some ''max'', rd_kind = ''ratio''\<rparr>,
      make_division_formula [plus_term ''receivables'']
        [plus_term ''revenue''] days_in_year),
     (\<lparr>rd_code = ''inventory_days'', rd_name = ''Inventory days'',
       rd_formula_text = ''inventory / cost_of_goods_sold * 365'',
       rd_required_lines = [''inventory'', ''cost_of_goods_sold''],
       rd_unit = ''days'', rd_plausible_min = Some 0, rd_plausible_max = Some 180,
       rd_direction_hint = Some ''max'', rd_kind = ''ratio''\<rparr>,
      make_division_formula [plus_term ''inventory'']
        [plus_term ''cost_of_goods_sold''] days_in_year)]"

definition working_capital_entries :: "ratio_entry list" where
  "working_capital_entries =
    [(\<lparr>rd_code = ''payable_days'', rd_name = ''Payable days'',
       rd_formula_text = ''payables / cost_of_goods_sold * 365'',
       rd_required_lines = [''payables'', ''cost_of_goods_sold''],
       rd_unit = ''days'', rd_plausible_min = Some 0, rd_plausible_max = Some 180,
       rd_direction_hint = None, rd_kind = ''ratio''\<rparr>,
      make_division_formula [plus_term ''payables'']
        [plus_term ''cost_of_goods_sold''] days_in_year),
     (\<lparr>rd_code = ''cash_conversion_cycle'', rd_name = ''Cash conversion cycle'',
       rd_formula_text = ''receivables / revenue * 365''
          @ '' + inventory / cost_of_goods_sold * 365''
          @ '' - payables / cost_of_goods_sold * 365'',
       rd_required_lines = [''receivables'', ''revenue'', ''inventory'', ''cost_of_goods_sold'', ''payables''],
       rd_unit = ''days'', rd_plausible_min = Some (- 90), rd_plausible_max = Some 365,
       rd_direction_hint = Some ''max'', rd_kind = ''ratio''\<rparr>,
      compute_cash_conversion_cycle),
     (\<lparr>rd_code = ''working_capital_gap'', rd_name = ''Working-capital gap'',
       rd_formula_text = ''current_assets - payables - other_current_liabilities'',
       rd_required_lines = [''current_assets'', ''payables'', ''other_current_liabilities''],
       rd_unit = rupee_sign @ '' crore'', rd_plausible_min = Some net_worth_plausible_min, rd_plausible_max = Some net_worth_plausible_max,
       rd_direction_hint = Some ''max'', rd_kind = ''ratio''\<rparr>,
      compute_working_capital_gap),
     (\<lparr>rd_code = ''asset_cover_ratio'', rd_name = ''Asset cover ratio'',
       rd_formula_text = ''total_assets / total_debt'',
       rd_required_lines = [''total_assets'', ''total_debt''],
       rd_unit = ''x'', rd_plausible_min = Some 1, rd_plausible_max = Some 10,
       rd_direction_hint = Some ''min'', rd_kind = ''ratio''\<rparr>,
      make_division_formula [plus_term ''total_assets'']
        [plus_term ''total_debt''] 1),
     (\<lparr>rd_code = ''minimum_liquidity'', rd_name = ''Minimum liquidity'',
       rd_formula_text = ''cash_and_bank'',
       rd_required_lines = [''cash_and_bank''],
       rd_unit = rupee_sign @ '' crore'', rd_plausible_min = Some 0, rd_plausible_max = Some net_worth_plausible_max,
       rd_direction_hint = Some ''min'', rd_kind = ''ratio''\<rparr>,
      make_line_read_formula ''cash_and_bank''),
     (\<lparr>rd_code = ''maximum_capex'', rd_name = ''Maximum capital expenditure'',
       rd_formula_text = ''capex'',
       rd_required_lines = [''capex''],
       rd_unit = rupee_sign @ '' crore'', rd_plausible_min = Some 0, rd_plausible_max = Some net_worth_plausible_max,
       rd_direction_hint = Some ''max'', rd_kind = ''ratio''\<rparr>,
      make_line_read_formula ''capex'')]"

definition condition_entries :: "ratio_entry list" where
  "condition_entries =
    [(\<lparr>rd_code = ''dividend_restriction'', rd_name = ''Dividend restriction'',
       rd_formula_text = ''dividend_paid'',
       rd_required_lines = [''dividend_paid''],
       rd_unit = rupee_sign @ '' crore'', rd_plausible_min = Some 0, rd_plausible_max = None,
       rd_direction_hint = Some ''max'', rd_kind = ''condition''\<rparr>,
      compute_dividend_restriction),
     (\<lparr>rd_code = ''promoter_shareholding_floor'', rd_name = ''Promoter shareholding floor'',
       rd_formula_text = ''promoter_shareholding'',
       rd_required_lines = [''promoter_shareholding'', ''promoter_shareholding_floor_pct''],
       rd_unit = ''%'', rd_plausible_min = Some 0, rd_plausible_max = Some 100,
       rd_direction_hint = Some ''min'', rd_kind = ''condition''\<rparr>,
      compute_promoter_shareholding_floor)]"

section \<open>The registry\<close>

definition library_entries :: "ratio_entry list" where
  "library_entries = (leverage_coverage_entries @ structure_entries @ working_capital_entries)
     @ condition_entries"

text \<open>Every definition goes through its constructor; the registry then refuses a code it
  already has.\<close>

fun build_library :: "ratio_entry list \<Rightarrow> (string \<times> ratio_definition \<times> formula) list
    \<Rightarrow> (string \<times> ratio_definition \<times> formula) list result" where
  "build_library [] acc = ok acc"
| "build_library ((d, f) # es) acc =
     rbind (make_definition d) (\<lambda>d.
       if has_key acc (rd_code d) then raise ValueError
       else build_library es (acc @ [(rd_code d, d, f)]))"

definition formulas :: "(string \<times> formula) list" where
  "formulas = map (\<lambda>(d, f). (rd_code d, f)) library_entries"

section \<open>Computing a ratio\<close>

record ratio_result =
  rr_code :: string
  rr_value :: "decimal option"
  rr_computable :: bool
  rr_reason :: "reason option"
  rr_inputs_used :: lines
  rr_band_breached :: bool
  rr_reason_context :: context_values
  rr_outcome :: "bool option"

definition make_ratio_result :: "ratio_result \<Rightarrow> ratio_result result" where
  "make_ratio_result r =
     (if rr_computable r then
        if rr_value r = None \<or> rr_reason r \<noteq> None \<or> rr_reason_context r \<noteq> []
        then raise ValueError else ok r
      else if rr_value r \<noteq> None \<or> rr_reason r = None \<or> rr_band_breached r \<or> rr_outcome r \<noteq> None
      then raise ValueError else ok r)"

definition below_min :: "ratio_definition \<Rightarrow> decimal \<Rightarrow> bool" where
  "below_min d v = (case rd_plausible_min d of None \<Rightarrow> False | Some lo \<Rightarrow> v < lo)"

definition above_max :: "ratio_definition \<Rightarrow> decimal \<Rightarrow> bool" where
  "above_max d v = (case rd_plausible_max d of None \<Rightarrow> False | Some hi \<Rightarrow> hi < v)"

definition band_breached :: "ratio_definition \<Rightarrow> decimal option \<Rightarrow> bool" where
  "band_breached d value = (case value of None \<Rightarrow> False
     | Some v \<Rightarrow> if below_min d v then True else if above_max d v then True else False)"

definition compute_ratio :: "ratio_definition \<Rightarrow> lines \<Rightarrow> facility_facts option \<Rightarrow> bool
    \<Rightarrow> ratio_result result" where
  "compute_ratio d ls facility period_complete =
     (case lookup formulas (rd_code d) of None \<Rightarrow> raise (UnknownDefinition (rd_code d))
      | Some formula \<Rightarrow>
          if \<not> period_complete then make_ratio_result
            \<lparr>rr_code = rd_code d, rr_value = None, rr_computable = False,
             rr_reason = Some PERIOD_INCOMPLETE, rr_inputs_used = [], rr_band_breached = False,
             rr_reason_context = [], rr_outcome = None\<rparr>
          else rbind (formula ls facility) (\<lambda>out. make_ratio_result
            \<lparr>rr_code = rd_code d, rr_value = fo_value out, rr_computable = fo_computable out,
             rr_reason = fo_reason out, rr_inputs_used = fo_inputs_used out,
             rr_band_breached = band_breached d (fo_value out),
             rr_reason_context = fo_reason_context out, rr_outcome = fo_outcome out\<rparr>))"

section \<open>What every formula guarantees\<close>

text \<open>The named inputs are the lines among the codes that the statement has, all of them, and facility facts.\<close>

definition reads_from :: "string set \<Rightarrow> lines \<Rightarrow> lines \<Rightarrow> bool" where
  "reads_from codes ls used \<longleftrightarrow> (\<forall>c\<in>codes. \<forall>v. lookup ls c = Some v \<longrightarrow> (c, v) \<in> set used)
     \<and> (\<forall>(k, v)\<in>set used. (k \<in> codes \<and> lookup ls k = Some v) \<or> take 9 k = ''facility.'')"

definition formula_result_ok :: "string set \<Rightarrow> lines \<Rightarrow> formula_outcome result \<Rightarrow> bool" where
  "formula_result_ok codes ls r = (case r of Inl e \<Rightarrow> False | Inr out \<Rightarrow>
     make_outcome out = Inr out \<and> reads_from codes ls (fo_inputs_used out)
     \<and> (fo_reason out = Some MISSING_LINE \<longleftrightarrow> (\<exists>c\<in>codes. \<not> has_key ls c)))"

definition formula_ok :: "string set \<Rightarrow> formula \<Rightarrow> bool" where
  "formula_ok codes f \<longleftrightarrow> (\<forall>ls facility. formula_result_ok codes ls (f ls facility))
     \<and> (\<forall>ls ls' facility. (\<forall>c\<in>codes. lookup ls c = lookup ls' c) \<longrightarrow> f ls facility = f ls' facility)"

lemma formula_okI:
  assumes "\<And>ls facility. formula_result_ok codes ls (f ls facility)"
    and "\<And>ls ls' facility. (\<And>c. c \<in> codes \<Longrightarrow> lookup ls c = lookup ls' c) \<Longrightarrow> f ls facility = f ls' facility"
  shows "formula_ok codes f"
  unfolding formula_ok_def using assms by blast

lemma make_outcome_sel:
  "make_outcome \<lparr>fo_value = Some v, fo_computable = True, fo_reason = None, fo_inputs_used = used,
     fo_reason_context = [], fo_outcome = oc\<rparr> = Inr \<lparr>fo_value = Some v, fo_computable = True,
     fo_reason = None, fo_inputs_used = used, fo_reason_context = [], fo_outcome = oc\<rparr>"
  "make_outcome \<lparr>fo_value = None, fo_computable = False, fo_reason = Some r, fo_inputs_used = used,
     fo_reason_context = ctx, fo_outcome = None\<rparr> = Inr \<lparr>fo_value = None, fo_computable = False,
     fo_reason = Some r, fo_inputs_used = used, fo_reason_context = ctx, fo_outcome = None\<rparr>"
  by (simp_all add: make_outcome_def)

lemma reads_from_used [simp]: "reads_from (set cs) ls (used_in ls cs)"
  by (auto simp: reads_from_def used_in_keys)

lemma has_key_cong: "lookup ls c = lookup ls' c \<Longrightarrow> has_key ls c = has_key ls' c"
  by (simp add: has_key_def)

lemma missing_in_cong: "(\<And>c. c \<in> set cs \<Longrightarrow> lookup ls c = lookup ls' c) \<Longrightarrow>
    missing_in ls cs = missing_in ls' cs"
  by (auto simp: missing_in_def has_key_def intro: filter_cong)

lemma used_in_cong: "(\<And>c. c \<in> set cs \<Longrightarrow> lookup ls c = lookup ls' c) \<Longrightarrow>
    used_in ls cs = used_in ls' cs"
  by (induction cs) (auto simp: used_in_def map_filter_simps split: option.splits)

lemma line_cong: "lookup ls c = lookup ls' c \<Longrightarrow> line ls c = line ls' c"
  by (simp add: line_def)

lemma rmap_cong: "(\<And>x. x \<in> set xs \<Longrightarrow> f x = g x) \<Longrightarrow> rmap f xs = rmap g xs"
  by (induction xs) auto

lemma sum_terms_cong:
  assumes "\<And>t. t \<in> set ts \<Longrightarrow> lookup ls (term_code t) = lookup ls' (term_code t)"
  shows "sum_terms ls ts = sum_terms ls' ts"
proof -
  have "rmap (\<lambda>t. rbind (line ls (term_code t)) (\<lambda>v. ok (dmul v (of_int (term_sign t))))) ts
      = rmap (\<lambda>t. rbind (line ls' (term_code t)) (\<lambda>v. ok (dmul v (of_int (term_sign t))))) ts"
    by (rule rmap_cong) (simp add: line_def assms)
  then show ?thesis by (simp only: sum_terms_def)
qed

text \<open>The formulas that read a fixed list of codes and then compute.\<close>

lemma codes_formula_ok:
  assumes f: "\<And>ls facility. f ls facility =
      (if missing_in ls cs \<noteq> [] then missing_lines_outcome (missing_in ls cs) (used_in ls cs)
       else g ls (used_in ls cs))"
    and g_ok: "\<And>ls used. (\<forall>c\<in>set cs. has_key ls c) \<Longrightarrow> \<exists>out. g ls used = Inr out
      \<and> make_outcome out = Inr out \<and> fo_inputs_used out = used \<and> fo_reason out \<noteq> Some MISSING_LINE"
    and g_cong: "\<And>ls ls' used. (\<And>c. c \<in> set cs \<Longrightarrow> lookup ls c = lookup ls' c) \<Longrightarrow>
      g ls used = g ls' used"
  shows "formula_ok (set cs) f"
proof (rule formula_okI)
  fix ls facility
  show "formula_result_ok (set cs) ls (f ls facility)"
  proof (cases "\<forall>c\<in>set cs. has_key ls c")
    case True
    then obtain out where "g ls (used_in ls cs) = Inr out" "make_outcome out = Inr out"
      "fo_inputs_used out = used_in ls cs" "fo_reason out \<noteq> Some MISSING_LINE"
      using g_ok by blast
    with True show ?thesis by (simp add: f formula_result_ok_def)
  next
    case False
    then show ?thesis
      by (simp add: f missing_lines_outcome_def formula_result_ok_def make_outcome_sel)
  qed
next
  fix ls ls' :: lines and facility
  assume eq: "\<And>c. c \<in> set cs \<Longrightarrow> lookup ls c = lookup ls' c"
  have "missing_in ls cs = missing_in ls' cs" "used_in ls cs = used_in ls' cs"
    using eq by (auto intro!: missing_in_cong used_in_cong)
  with g_cong [OF eq] show "f ls facility = f ls' facility" by (simp only: f)
qed

lemma division_formula_ok:
  assumes "codes = set (map term_code (num @ den))"
  shows "formula_ok codes (make_division_formula num den scale)"
proof -
  let ?cs = "first_occurrences (map term_code (num @ den))"
  have "formula_ok (set ?cs) (make_division_formula num den scale)"
  proof (rule codes_formula_ok [where cs = ?cs and g = "\<lambda>ls used. rbind (sum_terms ls den) (\<lambda>d.
        if d = 0 then zero_denominator_outcome (terms_label den) used
        else if d < 0 then sign_meaningless_denominator_outcome (terms_label den) d used
        else rbind (sum_terms ls num) (\<lambda>n.
             rbind (ddiv_checked n d) (\<lambda>q. computed (dmul q scale) used None)))"], goal_cases)
    case (1 ls facility)
    then show ?case by (simp only: make_division_formula_def Let_def)
  next
    case (2 ls used)
    then show ?case by (simp add: sum_terms_ok outcome_defs make_outcome_sel ddiv_checked_def)
  next
    case (3 ls ls' used)
    then have "sum_terms ls den = sum_terms ls' den" "sum_terms ls num = sum_terms ls' num"
      by (auto intro!: sum_terms_cong)
    then show ?case by (simp only:)
  qed
  then show ?thesis using assms by simp
qed

lemma line_read_formula_ok: "formula_ok {code} (make_line_read_formula code)"
  by (rule formula_okI)
    (auto simp: make_line_read_formula_def outcome_defs formula_result_ok_def make_outcome_sel
      reads_from_def has_key_def line_def split: option.splits)

lemma tnw_floor_ok: "formula_ok {''tangible_net_worth''} compute_tnw_floor"
  using line_read_formula_ok [of "''tangible_net_worth''"]
  by (simp add: compute_tnw_floor_def make_line_read_formula_def Let_def)

lemma dividend_restriction_ok: "formula_ok {''dividend_paid''} compute_dividend_restriction"
  by (rule formula_okI)
    (auto simp: compute_dividend_restriction_def Let_def formula_result_ok_def
      make_outcome_sel reads_from_def has_key_def line_def split: option.splits)

lemma minimum_net_worth_ok:
  "formula_ok {''total_assets'', ''total_liabilities''} compute_minimum_net_worth"
proof -
  have "formula_ok (set [''total_assets'', ''total_liabilities'']) compute_minimum_net_worth"
    by (rule codes_formula_ok [where g = "\<lambda>ls used. rbind (line ls ''total_assets'') (\<lambda>a.
        rbind (line ls ''total_liabilities'') (\<lambda>l. computed (dsub a l) used None))"])
      (simp only: compute_minimum_net_worth_def Let_def,
       simp add: line_ok make_outcome_sel, simp add: line_def)
  then show ?thesis by simp
qed

lemma working_capital_gap_ok:
  "formula_ok {''current_assets'', ''payables'', ''other_current_liabilities''}
     compute_working_capital_gap"
proof -
  have "formula_ok (set [''current_assets'', ''payables'', ''other_current_liabilities''])
     compute_working_capital_gap"
    by (rule codes_formula_ok [where g = "\<lambda>ls used. rbind (line ls ''current_assets'') (\<lambda>a.
        rbind (line ls ''payables'') (\<lambda>p. rbind (line ls ''other_current_liabilities'') (\<lambda>l.
          computed (dsub (dsub a p) l) used None)))"])
      (simp only: compute_working_capital_gap_def Let_def,
       simp add: line_ok make_outcome_sel, simp add: line_def)
  then show ?thesis by simp
qed

lemma cash_conversion_cycle_ok:
  "formula_ok {''receivables'', ''revenue'', ''inventory'', ''cost_of_goods_sold'', ''payables''}
     compute_cash_conversion_cycle"
proof -
  have "formula_ok (set [''receivables'', ''revenue'', ''inventory'', ''cost_of_goods_sold'', ''payables''])
     compute_cash_conversion_cycle"
    by (rule codes_formula_ok [where g = "\<lambda>ls used.
        rbind (line ls ''revenue'') (\<lambda>revenue. rbind (line ls ''cost_of_goods_sold'') (\<lambda>cogs.
        if revenue = 0 then zero_denominator_outcome ''revenue'' used
        else if revenue < 0 then sign_meaningless_denominator_outcome ''revenue'' revenue used
        else if cogs = 0 then zero_denominator_outcome ''cost_of_goods_sold'' used
        else if cogs < 0 then
          sign_meaningless_denominator_outcome ''cost_of_goods_sold'' cogs used
        else
          rbind (rbind (line ls ''receivables'') (\<lambda>v. ddiv_checked v revenue)) (\<lambda>r.
          rbind (rbind (line ls ''inventory'') (\<lambda>v. ddiv_checked v cogs)) (\<lambda>i.
          rbind (rbind (line ls ''payables'') (\<lambda>v. ddiv_checked v cogs)) (\<lambda>p.
            computed (dsub (dadd (dmul r days_in_year) (dmul i days_in_year)) (dmul p days_in_year))
              used None)))))"])
      (simp only: compute_cash_conversion_cycle_def Let_def,
       simp add: line_ok make_outcome_sel outcome_defs ddiv_checked_def, simp add: line_def cong: if_cong)
  then show ?thesis by simp
qed

lemma facility_prefix: "take 9 (''facility.'' @ s) = ''facility.''"
  by simp

lemma facility_formulas_ok:
  "formula_ok {} compute_utilisation" "formula_ok {} compute_drawing_power_headroom"
  by (rule formula_okI; auto simp: compute_utilisation_def compute_drawing_power_headroom_def
      missing_facts_def Let_def present_def ddiv_checked_def outcome_defs formula_result_ok_def
      make_outcome_sel reads_from_def split: option.splits)+

lemma promoter_shareholding_floor_ok:
  "formula_ok {''promoter_shareholding''} compute_promoter_shareholding_floor"
  by (rule formula_okI)
    (auto simp: compute_promoter_shareholding_floor_def missing_facts_def Let_def present_def
      missing_in_def used_in_def map_filter_simps line_def has_key_def
      formula_result_ok_def make_outcome_sel reads_from_def split: option.splits)

section \<open>The whole library\<close>

definition facility_inputs :: "string list" where
  "facility_inputs = [''sanctioned_limit'', ''outstanding'', ''drawing_power'',
     ''promoter_shareholding_floor_pct'']"

definition statement_codes :: "ratio_definition \<Rightarrow> string list" where
  "statement_codes d = filter (\<lambda>c. c \<notin> set facility_inputs) (rd_required_lines d)"

definition entry_ok :: "ratio_entry \<Rightarrow> bool" where
  "entry_ok = (\<lambda>(d, f). make_definition d = Inr d \<and> formula_ok (set (statement_codes d)) f)"

lemma division_entry_ok:
  assumes "make_definition d = Inr d"
    and "list_all (\<lambda>c. c \<in> set (map term_code (num @ den))) (statement_codes d)"
    and "list_all (\<lambda>c. c \<in> set (statement_codes d)) (map term_code (num @ den))"
  shows "entry_ok (d, make_division_formula num den scale)"
proof -
  have "set (statement_codes d) = set (map term_code (num @ den))"
    using assms(2,3) by (auto simp: list_all_iff)
  with assms(1) division_formula_ok show ?thesis by (simp add: entry_ok_def)
qed

lemma line_read_entry_ok:
  "make_definition d = Inr d \<Longrightarrow> statement_codes d = [c] \<Longrightarrow> entry_ok (d, make_line_read_formula c)"
  by (simp add: entry_ok_def line_read_formula_ok)

lemmas entry_eval = make_definition_def statement_codes_def facility_inputs_def
  net_worth_plausible_min_def net_worth_plausible_max_def plus_term_def minus_term_def
  rupee_sign_def

lemma leverage_coverage_ok: "list_all entry_ok leverage_coverage_entries"
  unfolding leverage_coverage_entries_def list.pred_inject
  by (intro conjI TrueI division_entry_ok; simp add: entry_eval)

lemma structure_ok: "list_all entry_ok structure_entries"
  unfolding structure_entries_def list.pred_inject
  by (intro conjI TrueI division_entry_ok;
      simp add: entry_eval entry_ok_def tnw_floor_ok minimum_net_worth_ok facility_formulas_ok del: set_filter)

lemma working_capital_ok: "list_all entry_ok working_capital_entries"
  unfolding working_capital_entries_def list.pred_inject
  by (intro conjI TrueI division_entry_ok line_read_entry_ok;
      simp add: entry_eval entry_ok_def cash_conversion_cycle_ok working_capital_gap_ok del: set_filter)

lemma condition_ok: "list_all entry_ok condition_entries"
  unfolding condition_entries_def list.pred_inject
  by (intro conjI TrueI;
      simp add: entry_eval entry_ok_def dividend_restriction_ok promoter_shareholding_floor_ok del: set_filter)

lemma library_entries_ok: "e \<in> set library_entries \<Longrightarrow> entry_ok e"
  using leverage_coverage_ok structure_ok working_capital_ok condition_ok
  by (auto simp: library_entries_def list_all_iff)

lemma library_codes: "map (\<lambda>e. rd_code (fst e)) library_entries =
    [''leverage_ratio'', ''dscr'', ''interest_coverage_ratio'', ''fixed_charge_coverage_ratio'',
     ''current_ratio'', ''quick_ratio'', ''tol_tnw'', ''debt_to_ebitda'', ''net_debt_to_ebitda'',
     ''ebitda_margin'', ''tnw_floor'', ''minimum_net_worth'', ''utilisation'',
     ''drawing_power_headroom'', ''receivable_days'', ''inventory_days'', ''payable_days'',
     ''cash_conversion_cycle'', ''working_capital_gap'', ''asset_cover_ratio'',
     ''minimum_liquidity'', ''maximum_capex'', ''dividend_restriction'',
     ''promoter_shareholding_floor'']"
  by (simp add: library_entries_def leverage_coverage_entries_def structure_entries_def
      working_capital_entries_def condition_entries_def)

lemma library_codes_distinct: "distinct (map (\<lambda>e. rd_code (fst e)) library_entries)"
  unfolding library_codes by simp

lemma build_library_ok:
  "(\<And>d f. (d, f) \<in> set es \<Longrightarrow> make_definition d = Inr d) \<Longrightarrow>
   distinct (map fst acc @ map (\<lambda>e. rd_code (fst e)) es) \<Longrightarrow>
   build_library es acc = Inr (acc @ map (\<lambda>(d, f). (rd_code d, d, f)) es)"
proof (induction es arbitrary: acc)
  case (Cons e es)
  obtain d f where e: "e = (d, f)" by force
  have "make_definition d = Inr d" using Cons.prems(1) e by auto
  moreover have "\<not> has_key acc (rd_code d)" using Cons.prems(2) e by (auto simp: has_key_iff)
  moreover have "build_library es (acc @ [(rd_code d, d, f)])
      = Inr ((acc @ [(rd_code d, d, f)]) @ map (\<lambda>(d, f). (rd_code d, d, f)) es)"
    using Cons.prems e by (intro Cons.IH) auto
  ultimately show ?case using e by simp
qed simp

text \<open>
  the import of the library succeeds. Every one of the twenty-four definitions passes its
  constructor, no two share a code, and the registry built is the list of entries.
\<close>

theorem library_builds:
  "build_library library_entries [] = Inr (map (\<lambda>(d, f). (rd_code d, d, f)) library_entries)
   \<and> length library_entries = 24 \<and> distinct (map (\<lambda>e. rd_code (fst e)) library_entries)"
proof -
  have "build_library library_entries [] = Inr ([] @ map (\<lambda>(d, f). (rd_code d, d, f)) library_entries)"
    using library_entries_ok library_codes_distinct
    by (intro build_library_ok) (auto simp: entry_ok_def)
  moreover have "length library_entries = 24"
    using arg_cong [OF library_codes, of length] by simp
  ultimately show ?thesis using library_codes_distinct by simp
qed

lemma lookup_formulas: "lookup formulas c = Some f \<Longrightarrow> \<exists>d. (d, f) \<in> set library_entries \<and> rd_code d = c"
  by (auto simp: formulas_def lookup_def dest!: map_of_SomeD)

lemma lookup_formulas_ok:
  assumes "lookup formulas c = Some f"
  shows "\<exists>d. (d, f) \<in> set library_entries \<and> rd_code d = c \<and> formula_ok (set (statement_codes d)) f"
proof -
  obtain d where d: "(d, f) \<in> set library_entries" "rd_code d = c"
    using lookup_formulas [OF assms] by auto
  from library_entries_ok [OF d(1)] d show ?thesis by (auto simp: entry_ok_def)
qed

lemma registered_formula_total:
  assumes "lookup formulas c = Some f"
  shows "\<exists>out. f ls facility = Inr out \<and> make_outcome out = Inr out"
proof -
  obtain d where d: "formula_ok (set (statement_codes d)) f"
    using lookup_formulas_ok [OF assms] by (elim exE conjE)
  then have "formula_result_ok (set (statement_codes d)) ls (f ls facility)"
    unfolding formula_ok_def by (elim conjE allE)
  then show ?thesis by (simp add: formula_result_ok_def split: sum.splits)
qed

lemma has_key_formulas: "has_key formulas c \<longleftrightarrow> c \<in> set (map (\<lambda>e. rd_code (fst e)) library_entries)"
  by (force simp: formulas_def has_key_iff)

lemma make_ratio_result_outcome:
  assumes "make_outcome out = Inr out"
  shows "\<exists>r. make_ratio_result
    \<lparr>rr_code = c, rr_value = fo_value out, rr_computable = fo_computable out,
     rr_reason = fo_reason out, rr_inputs_used = fo_inputs_used out,
     rr_band_breached = band_breached d (fo_value out),
     rr_reason_context = fo_reason_context out, rr_outcome = fo_outcome out\<rparr> = Inr r
     \<and> rr_code r = c \<and> rr_value r = fo_value out \<and> rr_reason r = fo_reason out
     \<and> rr_computable r = fo_computable out \<and> rr_inputs_used r = fo_inputs_used out
     \<and> rr_band_breached r = band_breached d (fo_value out) \<and> rr_outcome r = fo_outcome out
     \<and> (rr_computable r \<longleftrightarrow> rr_value r \<noteq> None) \<and> (rr_computable r \<longleftrightarrow> rr_reason r = None)"
  using assms by (auto simp: make_outcome_def make_ratio_result_def band_breached_def split: if_splits)

text \<open>
  \<open>compute_ratio\<close> never raises for a registered code, whatever the lines, the facility
  facts and the metadata of the caller's definition, and raises \<open>UnknownDefinition\<close> with the
  code for every other. A result is computable exactly when it carries a value, and then it
  names no reason; an incomplete period yields no value.
\<close>

theorem compute_ratio_total:
  "if rd_code d \<in> set (map (\<lambda>e. rd_code (fst e)) library_entries)
   then \<exists>r. compute_ratio d ls facility period_complete = Inr r \<and> rr_code r = rd_code d
     \<and> (rr_computable r \<longleftrightarrow> rr_value r \<noteq> None) \<and> (rr_computable r \<longleftrightarrow> rr_reason r = None)
     \<and> (period_complete \<or> rr_reason r = Some PERIOD_INCOMPLETE)
   else compute_ratio d ls facility period_complete = Inl (UnknownDefinition (rd_code d))"
proof (cases "lookup formulas (rd_code d)")
  case None
  then have "rd_code d \<notin> set (map (\<lambda>e. rd_code (fst e)) library_entries)"
    using has_key_formulas [of "rd_code d"] by (simp add: has_key_def)
  with None show ?thesis by (simp add: compute_ratio_def)
next
  case (Some f)
  then have known: "rd_code d \<in> set (map (\<lambda>e. rd_code (fst e)) library_entries)"
    using has_key_formulas [of "rd_code d"] by (simp add: has_key_def)
  show ?thesis
  proof (cases period_complete)
    case True
    obtain out where out: "f ls facility = Inr out" "make_outcome out = Inr out"
      using registered_formula_total [OF Some, of ls facility] by (elim exE conjE)
    have "compute_ratio d ls facility True = make_ratio_result
      \<lparr>rr_code = rd_code d, rr_value = fo_value out, rr_computable = fo_computable out,
       rr_reason = fo_reason out, rr_inputs_used = fo_inputs_used out,
       rr_band_breached = band_breached d (fo_value out),
       rr_reason_context = fo_reason_context out, rr_outcome = fo_outcome out\<rparr>"
      using Some out(1) by (simp add: compute_ratio_def)
    with make_ratio_result_outcome [OF out(2), of "rd_code d" d] show ?thesis
      using known True by (simp only: if_True) (elim exE conjE; intro exI conjI; (assumption | simp))
  next
    case False
    with known Some show ?thesis by (simp add: compute_ratio_def make_ratio_result_def)
  qed
qed

lemma make_ratio_result_reason:
  "make_ratio_result x = Inr r \<Longrightarrow> r = x"
  by (auto simp: make_ratio_result_def split: if_splits)

text \<open>
  C4: a ratio reads the inputs its definition declares and nothing else. For a complete period and a
  registered code, the result says \<open>MISSING_LINE\<close> exactly when a declared statement line is absent;
  it names every declared line the statement has with its value, and besides them facility facts only;
  and lines that agree on the declared ones give the same result.
\<close>

theorem compute_ratio_declared_inputs:
  assumes "compute_ratio d ls facility True = Inr r"
  shows "\<exists>d'\<in>fst ` set library_entries. rd_code d' = rd_code d
    \<and> (rr_reason r = Some MISSING_LINE \<longleftrightarrow> (\<exists>c\<in>set (statement_codes d'). \<not> has_key ls c))
    \<and> reads_from (set (statement_codes d')) ls (rr_inputs_used r)
    \<and> (\<forall>ls'. (\<forall>c\<in>set (statement_codes d'). lookup ls' c = lookup ls c) \<longrightarrow>
          compute_ratio d ls' facility True = Inr r)"
proof (cases "lookup formulas (rd_code d)")
  case None
  with assms show ?thesis by (simp add: compute_ratio_def)
next
  case (Some f)
  obtain d' where d': "(d', f) \<in> set library_entries" "rd_code d' = rd_code d"
    and ok: "formula_ok (set (statement_codes d')) f"
    using lookup_formulas_ok [OF Some] by (elim exE conjE)
  have res: "formula_result_ok (set (statement_codes d')) ls (f ls facility)"
    using ok unfolding formula_ok_def by (elim conjE allE)
  have cong: "compute_ratio d ls' facility True = Inr r"
    if "\<forall>c\<in>set (statement_codes d'). lookup ls' c = lookup ls c" for ls'
  proof -
    have "f ls' facility = f ls facility"
      using ok that unfolding formula_ok_def by (elim conjE allE impE)
    with assms Some show ?thesis by (simp only: compute_ratio_def option.case)
  qed
  obtain out where out: "f ls facility = Inr out"
    using registered_formula_total [OF Some, of ls facility] by (elim exE conjE)
  have r: "rr_reason r = fo_reason out" "rr_inputs_used r = fo_inputs_used out"
    using assms Some out by (auto simp: compute_ratio_def dest!: make_ratio_result_reason)
  show ?thesis
  proof (intro bexI conjI allI impI)
    show "d' \<in> fst ` set library_entries" using d'(1) by force
    show "rr_reason r = Some MISSING_LINE \<longleftrightarrow> (\<exists>c\<in>set (statement_codes d'). \<not> has_key ls c)"
      and "reads_from (set (statement_codes d')) ls (rr_inputs_used r)"
      using res out by (simp_all only: formula_result_ok_def sum.case r)
  qed (use d'(2) cong in simp_all)
qed

definition demo_lines :: lines where
  "demo_lines = [(''total_debt'', 10), (''tangible_net_worth'', 4), (''capex'', 1)]"

lemma leverage_lookup: "lookup formulas ''leverage_ratio'' =
    Some (make_division_formula [plus_term ''total_debt''] [plus_term ''tangible_net_worth''] 1)"
  by (simp add: formulas_def library_entries_def leverage_coverage_entries_def)

lemma demo_leverage:
  "make_division_formula [plus_term ''total_debt''] [plus_term ''tangible_net_worth''] 1
     demo_lines facility = Inr \<lparr>fo_value = Some (5 / 2), fo_computable = True, fo_reason = None,
       fo_inputs_used = [(''total_debt'', 10), (''tangible_net_worth'', 4)],
       fo_reason_context = [], fo_outcome = None\<rparr>"
proof -
  have "rnd 10 = 10" "rnd 4 = 4" "rnd (10 / 4) = 5 / 2" "rnd (5 / 2) = 5 / 2"
    by (simp_all add: rnd_eval)
  then show ?thesis
    by (simp add: make_division_formula_def demo_lines_def plus_term_def missing_in_def used_in_def
        map_filter_simps Let_def sum_terms_def line_def dsum_def dadd_def dmul_def
        ddiv_checked_def ddiv_def)
qed

definition demo_definition :: ratio_definition where
  "demo_definition = \<lparr>rd_code = ''leverage_ratio'', rd_name = ''Leverage'', rd_formula_text = ''d / w'',
     rd_required_lines = [''total_debt''], rd_unit = ''x'', rd_plausible_min = Some 0,
     rd_plausible_max = Some 2, rd_direction_hint = None, rd_kind = ''ratio''\<rparr>"

lemma demo_compute: "compute_ratio demo_definition demo_lines None True = Inr
    \<lparr>rr_code = ''leverage_ratio'', rr_value = Some (5 / 2), rr_computable = True, rr_reason = None,
     rr_inputs_used = [(''total_debt'', 10), (''tangible_net_worth'', 4)], rr_band_breached = True,
     rr_reason_context = [], rr_outcome = None\<rparr>"
  by (simp add: compute_ratio_def demo_definition_def leverage_lookup demo_leverage
      make_ratio_result_def band_breached_def below_min_def above_max_def)

theorem compute_ratio_declared_inputs_witness:
  "\<exists>d'\<in>fst ` set library_entries. rd_code d' = ''leverage_ratio''
     \<and> reads_from (set (statement_codes d')) demo_lines [(''total_debt'', 10), (''tangible_net_worth'', 4)]
     \<and> (\<forall>c\<in>set (statement_codes d'). has_key demo_lines c)"
  using compute_ratio_declared_inputs [OF demo_compute]
  by (elim bexE conjE) (intro bexI conjI; simp add: demo_definition_def)

text \<open>
  accuracy of a plain quotient. For a ratio of one line to another, whose values fit the 28
  digits of the context and whose denominator is positive, the formula is computable, its value
  has the sign of the numerator, and its relative error against the exact quotient is at most
  half a unit in the twenty-eighth digit.
\<close>

theorem single_term_ratio_accuracy:
  assumes "lookup ls a = Some n" "lookup ls b = Some d" and "rnd n = n" "rnd d = d" "0 < d"
  shows "\<exists>out v. make_division_formula [plus_term a] [plus_term b] 1 ls facility = Inr out
    \<and> fo_value out = Some v \<and> \<bar>v - n / d\<bar> \<le> \<bar>n / d\<bar> / (2 * 10 ^ 27) \<and> sgn v = sgn n"
proof -
  have keys: "has_key ls a" "has_key ls b" using assms by (auto simp: has_key_def)
  have vals: "terms_value ls [plus_term a] = n" "terms_value ls [plus_term b] = d"
    using assms by (simp_all add: terms_value_def plus_term_def line_value_def dmul_def
        dsum_def dadd_def)
  have sums: "sum_terms ls [plus_term a] = Inr n" "sum_terms ls [plus_term b] = Inr d"
    using sum_terms_ok [of "[plus_term a]" ls] sum_terms_ok [of "[plus_term b]" ls] keys vals
    by (simp_all add: plus_term_def)
  have "\<exists>out. make_division_formula [plus_term a] [plus_term b] 1 ls facility = Inr out
      \<and> fo_value out = Some (rnd (n / d))"
    using keys sums assms(5)
    by (auto simp: make_division_formula_def Let_def ddiv_checked_def ddiv_def dmul_def
        plus_term_def)
  moreover have "sgn (rnd (n / d)) = sgn n"
    using assms(5) by (cases "n = 0"; cases "0 < n")
      (auto simp: sgn_if zero_less_divide_iff divide_less_0_iff)
  ultimately show ?thesis using rnd_error [of "n / d"] by auto
qed

theorem single_term_ratio_accuracy_witness:
  "\<exists>out v. make_division_formula [plus_term ''total_debt''] [plus_term ''tangible_net_worth''] 1
      demo_lines None = Inr out
    \<and> fo_value out = Some v \<and> \<bar>v - 10 / 4\<bar> \<le> \<bar>10 / 4\<bar> / (2 * 10 ^ 27) \<and> sgn v = sgn 10"
  by (rule single_term_ratio_accuracy) (simp_all add: demo_lines_def rnd_eval)

end
