(* ===== verification/Covenant_Evaluate.thy ===== *)
theory Covenant_Evaluate
  imports Covenant_Exceptions Ratio_Library
begin

text \<open>
  \<open>domain/covenants/headroom.py\<close> and \<open>domain/covenants/evaluate.py\<close>: signed headroom
  as a percentage of the threshold, and the evaluation of one covenant against one ratio. The
  boundary is inclusive on the breach side. The evaluator accepts facts or adapter rows and
  catches every error of its body; the lemmas show that it returns for every input, that its
  verdict follows one decision table, and that headroom and verdict agree on the boundary.
\<close>

section \<open>Signed headroom\<close>

definition directions :: "string list" where "directions = [''min'', ''max'']"

definition validate_decimal :: "pyval \<Rightarrow> decimal result" where
  "validate_decimal v = (case v of PDec q \<Rightarrow> ok q | PDecSpecial \<Rightarrow> raise ValueError | _ \<Rightarrow> raise TypeError)"

definition signed_headroom :: "pyval \<Rightarrow> pyval \<Rightarrow> string \<Rightarrow> decimal result" where
  "signed_headroom value threshold direction =
     rbind (validate_decimal value) (\<lambda>v.
     rbind (validate_decimal threshold) (\<lambda>t.
     if direction \<notin> set directions then raise ValueError
     else if t = 0 then raise ValueError
     else let distance = (if direction = ''min'' then dsub v t else dsub t v)
          in rbind (ddiv_checked distance (dabs t)) (\<lambda>q. ok (dmul q 100))))"

section \<open>Facts\<close>

datatype verdict = PASS | WARNING | BREACH | BREACH_CURE_OPEN | STALE | NOT_COMPUTABLE
datatype side = ABOVE | BELOW | AT

record version_facts =
  vf_threshold :: decimal
  vf_direction :: string
  vf_warning_headroom_pct :: "decimal option"
  vf_cure_days :: "int option"
  vf_id :: "nat option"
  vf_covenant_id :: "nat option"
  vf_version_no :: "int option"

text \<open>\<open>CovenantVersionFacts.__post_init__\<close>; the identifiers are not checked.\<close>

definition make_version :: "pyval \<Rightarrow> string \<Rightarrow> pyval \<Rightarrow> pyval \<Rightarrow> nat option \<Rightarrow> nat option \<Rightarrow> int option
    \<Rightarrow> version_facts result" where
  "make_version threshold direction warning cure_days i ci no =
     rbind (validate_decimal threshold) (\<lambda>t.
     if direction \<notin> set directions then raise ValueError
     else if t = 0 then raise ValueError else
     rbind (if warning = PNone then ok None else rbind (validate_decimal warning) (\<lambda>w.
              if w < 0 then raise ValueError else ok (Some w))) (\<lambda>w.
     rbind (case cure_days of PNone \<Rightarrow> ok None
              | PInt n \<Rightarrow> (if n < 0 then raise ValueError else ok (Some n))
              | _ \<Rightarrow> raise TypeError) (\<lambda>c.
     ok \<lparr>vf_threshold = t, vf_direction = direction, vf_warning_headroom_pct = w,
         vf_cure_days = c, vf_id = i, vf_covenant_id = ci, vf_version_no = no\<rparr>)))"

record period_facts =
  pf_period_label :: "string option"
  pf_is_complete :: bool
  pf_last_complete_period :: "string option"
  pf_period_id :: "nat option"
  pf_as_of_date :: "date option"
  pf_period_end :: "date option"

text \<open>The normalisation of \<open>a or b\<close> to upper-case text. The two spellings of the label
  and of the last period end up equal, so the record keeps one of each.\<close>

definition falsy :: "pyval \<Rightarrow> bool" where
  "falsy v = (case v of PNone \<Rightarrow> True | PBool b \<Rightarrow> \<not> b | PInt n \<Rightarrow> n = 0 | PDec q \<Rightarrow> q = 0
     | PFloat s \<Rightarrow> s \<in> {''0.0'', ''-0.0''}
     | PStr s \<Rightarrow> s = [] | PEnum c s \<Rightarrow> s = [] | PList xs \<Rightarrow> xs = [] | PMap kvs \<Rightarrow> kvs = [] | _ \<Rightarrow> False)"

definition py_or :: "pyval \<Rightarrow> pyval \<Rightarrow> pyval" where
  "py_or a b = (if falsy a then b else a)"

definition label_text :: "pyval \<Rightarrow> string option result" where
  "label_text v = (if v = PNone then ok None else
     case text_of v of None \<Rightarrow> raise ValueError
     | Some s \<Rightarrow> if strip s = [] then raise ValueError else ok (Some (upper (strip s))))"

definition optional_date_value :: "pyval \<Rightarrow> date option result" where
  "optional_date_value v = (if v = PNone then ok None else
     case date_of v of None \<Rightarrow> raise TypeError | Some d \<Rightarrow> ok (Some d))"

definition make_period :: "pyval \<Rightarrow> pyval \<Rightarrow> pyval \<Rightarrow> pyval \<Rightarrow> pyval \<Rightarrow> pyval \<Rightarrow> pyval \<Rightarrow> pyval
    \<Rightarrow> period_facts result" where
  "make_period period_label is_complete last_complete period_id as_of period_end fy_label last_available =
     rbind (label_text (py_or period_label fy_label)) (\<lambda>label.
     rbind (label_text (py_or last_complete last_available)) (\<lambda>last.
     rbind (case is_complete of PBool b \<Rightarrow> ok b | _ \<Rightarrow> raise TypeError) (\<lambda>c.
     rbind (optional_date_value as_of) (\<lambda>a.
     rbind (optional_date_value period_end) (\<lambda>e.
     rbind (validate_optional_uuid period_id) (\<lambda>i.
     ok \<lparr>pf_period_label = label, pf_is_complete = c, pf_last_complete_period = last,
         pf_period_id = i, pf_as_of_date = a, pf_period_end = e\<rparr>))))))"

text \<open>The property \<open>test_date\<close>.\<close>

definition period_test_date :: "period_facts \<Rightarrow> date option" where
  "period_test_date p = (case pf_as_of_date p of Some d \<Rightarrow> Some d | None \<Rightarrow> pf_period_end p)"

record comparison =
  cmp_name :: string
  cmp_value :: decimal
  cmp_observed :: decimal
  cmp_side :: side

record covenant_evaluation =
  ev_value :: "decimal option"
  ev_threshold_used :: "decimal option"
  ev_headroom_pct :: "decimal option"
  ev_verdict :: verdict
  ev_exception_applied :: "exception_facts option"
  ev_waiver_applied :: "waiver_facts option"
  ev_cure_ends_on :: "date option"
  ev_thresholds_compared :: "comparison list"
  ev_reason :: "reason option"
  ev_reason_context :: "(pyval \<times> pyval) list"
  ev_stale_reason :: "string option"

text \<open>\<open>CovenantEvaluation.__post_init__\<close>; the type of the verdict, the sides and the shape of
  a comparison are those of the model's types.\<close>

definition evaluation_ok :: "covenant_evaluation \<Rightarrow> bool" where
  "evaluation_ok e = ((ev_verdict e = NOT_COMPUTABLE \<longleftrightarrow> ev_reason e \<noteq> None)
     \<and> (ev_value e = None \<longrightarrow> ev_headroom_pct e = None))"

definition make_evaluation :: "covenant_evaluation \<Rightarrow> covenant_evaluation result" where
  "make_evaluation e =
     (if ev_verdict e = NOT_COMPUTABLE \<and> ev_reason e = None then raise ValueError
      else if ev_verdict e \<noteq> NOT_COMPUTABLE \<and> ev_reason e \<noteq> None then raise ValueError
      else if ev_value e = None \<and> ev_headroom_pct e \<noteq> None then raise ValueError else ok e)"

section \<open>Reading facts and rows\<close>

definition text_field :: "pyval \<Rightarrow> string \<Rightarrow> string result" where
  "text_field owner n = (case text_of (pyfield owner n) of None \<Rightarrow> raise TypeError
     | Some s \<Rightarrow> if strip s = [] then raise TypeError else ok (lower (strip s)))"

definition decimal_field :: "pyval \<Rightarrow> string \<Rightarrow> decimal result" where
  "decimal_field owner n = validate_decimal (pyfield owner n)"

definition safe_decimal_field :: "pyval \<Rightarrow> string \<Rightarrow> decimal option" where
  "safe_decimal_field owner n = finite_dec (pyfield owner n)"

definition optional_decimal_field :: "pyval \<Rightarrow> string \<Rightarrow> decimal option result" where
  "optional_decimal_field owner n = (let v = pyfield owner n in
     if v = PNone then ok None else rbind (validate_decimal v) (\<lambda>q. ok (Some q)))"

definition optional_non_negative_int :: "pyval \<Rightarrow> string \<Rightarrow> int option result" where
  "optional_non_negative_int owner n = (case pyfield owner n of PNone \<Rightarrow> ok None
     | PInt i \<Rightarrow> (if i < 0 then raise ValueError else ok (Some i)) | _ \<Rightarrow> raise ValueError)"

definition bool_field :: "pyval \<Rightarrow> string \<Rightarrow> bool \<Rightarrow> bool result" where
  "bool_field owner n fallback = (case pyfield owner n of PNone \<Rightarrow> ok fallback
     | PBool b \<Rightarrow> ok b | _ \<Rightarrow> raise TypeError)"

definition optional_bool_field :: "pyval \<Rightarrow> string \<Rightarrow> bool option result" where
  "optional_bool_field owner n = (case pyfield owner n of PNone \<Rightarrow> ok None
     | PBool b \<Rightarrow> ok (Some b) | _ \<Rightarrow> raise TypeError)"

text \<open>\<open>{str(key): str(item)}\<close>: the model keeps the values that are printed.\<close>

definition mapping_field :: "pyval \<Rightarrow> string \<Rightarrow> (pyval \<times> pyval) list" where
  "mapping_field owner n = (case pyfield owner n of PMap kvs \<Rightarrow> kvs | _ \<Rightarrow> [])"

fun period_date_fields :: "pyval \<Rightarrow> string list \<Rightarrow> date option result" where
  "period_date_fields period [] = ok None"
| "period_date_fields period (n # ns) = (let v = pyfield period n in
     if v = PNone then period_date_fields period ns
     else case date_of v of None \<Rightarrow> raise TypeError | Some d \<Rightarrow> ok (Some d))"

definition period_date :: "pyval \<Rightarrow> date option result" where
  "period_date period =
     rbind (period_date_fields period [''as_of_date'', ''period_end'', ''test_date'']) (\<lambda>d.
       if d \<noteq> None then ok d else ok (date_of period))"

section \<open>The parts of the decision\<close>

definition at_or_beyond_boundary :: "decimal \<Rightarrow> decimal \<Rightarrow> string \<Rightarrow> bool" where
  "at_or_beyond_boundary value threshold direction =
     (if direction = ''min'' then value \<le> threshold else threshold \<le> value)"

definition cure_configured :: "int option \<Rightarrow> date option \<Rightarrow> bool" where
  "cure_configured cure_days test_date =
     (case cure_days of None \<Rightarrow> False | Some n \<Rightarrow> 0 < n \<and> test_date \<noteq> None)"

definition breach_verdict :: "int option \<Rightarrow> date option \<Rightarrow> verdict" where
  "breach_verdict cure_days test_date =
     (if cure_configured cure_days test_date then BREACH_CURE_OPEN else BREACH)"

definition verdict_for_condition :: "bool \<Rightarrow> int option \<Rightarrow> date option \<Rightarrow> verdict" where
  "verdict_for_condition out cure_days test_date =
     (if out then PASS else breach_verdict cure_days test_date)"

definition cure_end :: "int option \<Rightarrow> date option \<Rightarrow> date option result" where
  "cure_end cure_days test_date = (case (cure_days, test_date) of
       (Some n, Some d) \<Rightarrow> (if n \<le> 0 then ok None else rbind (add_days d n) (\<lambda>e. ok (Some e)))
     | _ \<Rightarrow> ok None)"

definition warning_threshold :: "decimal \<Rightarrow> string \<Rightarrow> decimal option \<Rightarrow> decimal option" where
  "warning_threshold threshold direction warning = (case warning of None \<Rightarrow> None
     | Some w \<Rightarrow> if w < 0 then None else
         let fraction = ddiv w 100 in
         if direction = ''min'' then Some (dadd threshold (dmul (dabs threshold) fraction))
         else Some (dsub threshold (dmul (dabs threshold) fraction)))"

definition make_comparison :: "string \<Rightarrow> decimal \<Rightarrow> decimal \<Rightarrow> comparison" where
  "make_comparison name threshold observed =
     \<lparr>cmp_name = name, cmp_value = threshold, cmp_observed = observed,
      cmp_side = (if observed = threshold then AT else if threshold < observed then ABOVE else BELOW)\<rparr>"

definition invalid_evaluation :: "decimal option \<Rightarrow> covenant_evaluation result" where
  "invalid_evaluation threshold = make_evaluation
     \<lparr>ev_value = None, ev_threshold_used = threshold, ev_headroom_pct = None,
      ev_verdict = NOT_COMPUTABLE, ev_exception_applied = None, ev_waiver_applied = None,
      ev_cure_ends_on = None, ev_thresholds_compared = [],
      ev_reason = Some FORMULA_NOT_COMPUTABLE,
      ev_reason_context = [(PStr ''reason'', PStr ''invalid covenant evaluation facts'')],
      ev_stale_reason = None\<rparr>"

definition last_period_text :: "pyval \<Rightarrow> string" where
  "last_period_text period =
     (case text_of (py_or (pyfield period ''last_complete_period'')
                          (pyfield period ''last_available_period'')) of
        None \<Rightarrow> ''none available''
      | Some s \<Rightarrow> if strip s = [] then ''none available'' else upper (strip s))"

definition stale_reason :: "pyval \<Rightarrow> string" where
  "stale_reason period = ''last complete period: '' @ last_period_text period"

definition removeprefix :: "string \<Rightarrow> string \<Rightarrow> string" where
  "removeprefix p s = (if take (length p) s = p then drop (length p) s else s)"

text \<open>A reason is the enumeration member itself or text naming one.\<close>

definition ratio_reason :: "pyval \<Rightarrow> reason" where
  "ratio_reason ratio = (case text_of (pyfield ratio ''reason'') of None \<Rightarrow> FORMULA_NOT_COMPUTABLE
     | Some s \<Rightarrow> (case reason_of_value s of Some r \<Rightarrow> r | None \<Rightarrow> FORMULA_NOT_COMPUTABLE))"

definition normalise_exception :: "pyval \<Rightarrow> exception_facts option result" where
  "normalise_exception v = (if v = PNone then ok None
     else if is_instance ''ExceptionFacts'' v then ok (Some (exception_of_obj v))
     else rbind (to_exception_facts v) (\<lambda>e. ok (Some e)))"

definition approved_waiver :: "pyval \<Rightarrow> waiver_facts option result" where
  "approved_waiver v = (if v = PNone then ok None
     else if is_instance ''WaiverFacts'' v
     then ok (if is_approved (waiver_of_obj v) then Some (waiver_of_obj v) else None)
     else rbind (to_waiver_facts v) (\<lambda>w. ok (if is_approved w then Some w else None)))"

section \<open>The evaluation\<close>

definition decide_verdict :: "waiver_facts option \<Rightarrow> bool option \<Rightarrow> int option \<Rightarrow> date option
    \<Rightarrow> decimal \<Rightarrow> decimal \<Rightarrow> string \<Rightarrow> decimal option \<Rightarrow> decimal \<Rightarrow> verdict" where
  "decide_verdict waiver intrinsic cure_days test_date value threshold direction warning headroom =
     (if waiver \<noteq> None then PASS
      else case intrinsic of Some out \<Rightarrow> verdict_for_condition out cure_days test_date
      | None \<Rightarrow>
          if at_or_beyond_boundary value threshold direction then breach_verdict cure_days test_date
          else case warning of None \<Rightarrow> PASS
          | Some w \<Rightarrow> if headroom \<le> w then WARNING else PASS)"

definition threshold_in_force :: "decimal \<Rightarrow> exception_facts option \<Rightarrow> decimal" where
  "threshold_in_force base active = (case active of None \<Rightarrow> base
     | Some e \<Rightarrow> (case ef_relaxed_threshold e of None \<Rightarrow> base
         | Some relaxed \<Rightarrow> if relaxed \<noteq> 0 then relaxed else base))"

definition evaluate_computable :: "pyval \<Rightarrow> string \<Rightarrow> decimal option \<Rightarrow> int option \<Rightarrow> date option
    \<Rightarrow> decimal \<Rightarrow> exception_facts option \<Rightarrow> waiver_facts option \<Rightarrow> covenant_evaluation result" where
  "evaluate_computable ratio direction warning cure_days test_date threshold active waiver =
     rbind (decimal_field ratio ''value'') (\<lambda>value.
     rbind (signed_headroom (PDec value) (PDec threshold) direction) (\<lambda>headroom.
     let compared = make_comparison ''covenant_threshold'' threshold value #
           (case warning_threshold threshold direction warning of None \<Rightarrow> []
            | Some w \<Rightarrow> [make_comparison ''warning_threshold'' w value])
     in
     rbind (optional_bool_field ratio ''outcome'') (\<lambda>intrinsic.
     let verdict = decide_verdict waiver intrinsic cure_days test_date value threshold direction
           warning headroom
     in
     rbind (if verdict = BREACH_CURE_OPEN then cure_end cure_days test_date else ok None) (\<lambda>ends.
     make_evaluation
       \<lparr>ev_value = Some value, ev_threshold_used = Some threshold, ev_headroom_pct = Some headroom,
        ev_verdict = verdict, ev_exception_applied = active, ev_waiver_applied = waiver,
        ev_cure_ends_on = ends, ev_thresholds_compared = compared, ev_reason = None,
        ev_reason_context = [], ev_stale_reason = None\<rparr>))))"

definition evaluate_body :: "pyval \<Rightarrow> pyval \<Rightarrow> pyval \<Rightarrow> pyval \<Rightarrow> pyval \<Rightarrow> covenant_evaluation result" where
  "evaluate_body version ratio period exception waiver =
     rbind (decimal_field version ''threshold'') (\<lambda>base.
     rbind (text_field version ''direction'') (\<lambda>direction.
     rbind (optional_decimal_field version ''warning_headroom_pct'') (\<lambda>warning.
     rbind (optional_non_negative_int version ''cure_days'') (\<lambda>cure_days.
     rbind (period_date period) (\<lambda>test_date.
     rbind (bool_field period ''is_complete'' True) (\<lambda>is_complete.
     if direction \<notin> set directions \<or> base = 0 then invalid_evaluation (Some base) else
     rbind (normalise_exception exception) (\<lambda>active.
     let threshold = threshold_in_force base active in
     rbind (approved_waiver waiver) (\<lambda>approved.
     let reason = ratio_reason ratio in
     if \<not> is_complete \<or> reason = PERIOD_INCOMPLETE then
       make_evaluation
         \<lparr>ev_value = None, ev_threshold_used = Some threshold, ev_headroom_pct = None,
          ev_verdict = STALE, ev_exception_applied = active, ev_waiver_applied = approved,
          ev_cure_ends_on = None, ev_thresholds_compared = [], ev_reason = None,
          ev_reason_context = [(PStr ''last_complete_period'',
            PStr (removeprefix ''last complete period: '' (stale_reason period)))],
          ev_stale_reason = Some (stale_reason period)\<rparr>
     else rbind (bool_field ratio ''computable'' False) (\<lambda>computable.
     if \<not> computable then
       make_evaluation
         \<lparr>ev_value = None, ev_threshold_used = Some threshold, ev_headroom_pct = None,
          ev_verdict = NOT_COMPUTABLE, ev_exception_applied = active, ev_waiver_applied = approved,
          ev_cure_ends_on = None, ev_thresholds_compared = [], ev_reason = Some reason,
          ev_reason_context = mapping_field ratio ''reason_context'', ev_stale_reason = None\<rparr>
     else evaluate_computable ratio direction warning cure_days test_date threshold active approved)))))))))"

text \<open>\<open>except (ArithmeticError, KeyError, TypeError, ValueError, AttributeError)\<close>\<close>

definition caught :: "pyerr \<Rightarrow> bool" where
  "caught e = (e \<in> {ZeroDivisionError, OverflowError, KeyError, TypeError, ValueError, AttributeError})"

text \<open>The last argument of the source, the evaluation context, is not read.\<close>

definition evaluate_covenant :: "pyval \<Rightarrow> pyval \<Rightarrow> pyval \<Rightarrow> pyval \<Rightarrow> pyval \<Rightarrow> pyval
    \<Rightarrow> covenant_evaluation result" where
  "evaluate_covenant version ratio period exception waiver thresholds =
     catch caught (evaluate_body version ratio period exception waiver)
       (invalid_evaluation (safe_decimal_field version ''threshold''))"

section \<open>The evaluation returns\<close>

abbreviation caught_errors :: "pyerr set" where "caught_errors \<equiv> {e. caught e}"

lemma caught_simps [simp]:
  "caught TypeError" "caught ValueError" "caught OverflowError" "caught ZeroDivisionError"
  "caught KeyError" "caught AttributeError"
  by (simp_all add: caught_def)

lemma make_evaluation_ok: "evaluation_ok e \<Longrightarrow> make_evaluation e = Inr e"
  by (auto simp: make_evaluation_def evaluation_ok_def)

lemma make_evaluationD: "make_evaluation e = Inr e' \<Longrightarrow> e' = e \<and> evaluation_ok e"
  by (auto simp: make_evaluation_def evaluation_ok_def split: if_splits)

lemma invalid_evaluation_ok: "\<exists>e. invalid_evaluation t = Inr e \<and> evaluation_ok e"
  by (simp add: invalid_evaluation_def make_evaluation_def evaluation_ok_def)

lemma normalise_period_errs [errs_intros]: "errs caught_errors (normalise_period v)"
  by (auto simp: normalise_period_def Let_def split: option.splits)

lemma period_key_errs [errs_intros]: "errs caught_errors (period_key v)"
  unfolding period_key_def by (auto intro!: errs_intros split: option.splits)

lemma optional_value_errs [errs_intros]:
  "errs caught_errors (validate_optional_uuid v)" "errs caught_errors (validate_optional_decimal v)"
  "errs caught_errors (validate_calendar_date v)"
  by (auto simp: validate_optional_uuid_def validate_optional_decimal_def
      validate_calendar_date_def split: pyval.splits option.splits)

lemma make_exception_errs [errs_intros]: "errs caught_errors (make_exception f t r i v a)"
  unfolding make_exception_def by (intro errs_intros) simp

lemma make_waiver_errs [errs_intros]: "errs caught_errors (make_waiver f t sc re i c st a ap)"
  unfolding make_waiver_def
  by (intro errs_intros) (auto split: pyval.splits option.splits)

lemma row_field_errs [errs_intros]:
  "errs caught_errors (required_string v n d)" "errs caught_errors (required_date v n)"
  "errs caught_errors (optional_string v n)" "errs caught_errors (optional_date v n)"
  "errs caught_errors (optional_decimal v n)" "errs caught_errors (optional_bool v n)"
  "errs caught_errors (optional_uuid v n)"
  by (simp_all add: required_string_def required_date_def optional_string_def optional_date_def
      optional_decimal_def optional_bool_def optional_uuid_def Let_def)

lemma facts_errs [errs_intros]:
  "errs caught_errors (to_exception_facts v)" "errs caught_errors (to_waiver_facts v)"
  unfolding to_exception_facts_def to_waiver_facts_def by (intro errs_intros)+

lemma applied_errs [errs_intros]:
  "errs caught_errors (normalise_exception v)" "errs caught_errors (approved_waiver v)"
  unfolding normalise_exception_def approved_waiver_def by (intro errs_intros)+

lemma validate_decimal_errs [errs_intros]: "errs caught_errors (validate_decimal v)"
  by (simp add: validate_decimal_def split: pyval.splits)

lemma signed_headroom_errs [errs_intros]: "errs caught_errors (signed_headroom v t d)"
  unfolding signed_headroom_def Let_def ddiv_checked_def by (intro errs_intros) simp_all

lemma field_errs [errs_intros]:
  "errs caught_errors (text_field v n)" "errs caught_errors (decimal_field v n)"
  "errs caught_errors (optional_decimal_field v n)" "errs caught_errors (optional_non_negative_int v n)"
  "errs caught_errors (bool_field v n b)" "errs caught_errors (optional_bool_field v n)"
  unfolding text_field_def decimal_field_def optional_decimal_field_def
    optional_non_negative_int_def bool_field_def optional_bool_field_def Let_def
  by (auto intro!: errs_intros split: pyval.splits option.splits)

lemma period_date_fields_errs [errs_intros]: "errs caught_errors (period_date_fields p ns)"
  by (induction ns) (auto simp: Let_def split: option.splits)

lemma period_date_errs [errs_intros]: "errs caught_errors (period_date p)"
  unfolding period_date_def by (intro errs_intros)

lemma cure_end_errs [errs_intros]: "errs caught_errors (cure_end n d)"
  by (auto simp: cure_end_def add_days_def Let_def split: option.splits)

lemma make_evaluation_errs [errs_intros]:
  "errs caught_errors (make_evaluation e)" "errs caught_errors (invalid_evaluation t)"
  by (auto simp: make_evaluation_def invalid_evaluation_def)

lemma evaluate_computable_errs [errs_intros]:
  "errs caught_errors (evaluate_computable r d w c td t a wv)"
  unfolding evaluate_computable_def Let_def by (intro errs_intros)

lemma evaluate_body_errs: "errs caught_errors (evaluate_body v r p e w)"
  unfolding evaluate_body_def Let_def by (intro errs_intros)

definition ends_ok :: "covenant_evaluation result \<Rightarrow> bool" where
  "ends_ok m = (\<forall>e. m = Inr e \<longrightarrow> evaluation_ok e)"

lemma ends_ok_rbind: "(\<And>x. ends_ok (f x)) \<Longrightarrow> ends_ok (rbind m f)"
  by (auto simp: ends_ok_def)

lemma ends_ok_make: "ends_ok (make_evaluation e)" "ends_ok (invalid_evaluation t)"
  unfolding invalid_evaluation_def by (auto simp: ends_ok_def dest!: make_evaluationD)

lemma evaluate_body_ok: "evaluate_body v r p e w = Inr ev \<Longrightarrow> evaluation_ok ev"
proof -
  have "ends_ok (evaluate_body v r p e w)"
    unfolding evaluate_body_def evaluate_computable_def Let_def
    by (intro ends_ok_rbind) (simp add: ends_ok_make ends_ok_rbind)
  then show "evaluate_body v r p e w = Inr ev \<Longrightarrow> evaluation_ok ev" by (simp add: ends_ok_def)
qed

text \<open>
  C2: \<open>evaluate_covenant\<close> never raises, whatever objects it is given; every error of its body
  is one of those it catches. The evaluation it returns satisfies the invariant of its class: it
  names a reason exactly when its verdict is \<open>not_computable\<close>, and no headroom without a
  value.
\<close>

theorem evaluate_covenant_total:
  "\<exists>e. evaluate_covenant version ratio period exception waiver thresholds = Inr e \<and> evaluation_ok e"
proof (cases "evaluate_body version ratio period exception waiver")
  case (Inl err)
  then have "caught err" using errsD [OF evaluate_body_errs Inl] by simp
  with Inl invalid_evaluation_ok show ?thesis by (simp add: evaluate_covenant_def)
next
  case (Inr e)
  with evaluate_body_ok show ?thesis by (simp add: evaluate_covenant_def)
qed

section \<open>Headroom and the boundary\<close>

text \<open>
  signed headroom agrees with the inclusive boundary. Whenever it is defined, it is positive
  exactly when the value has not reached the threshold in the covenant's direction, zero exactly
  on the threshold, and it does not decrease when the value moves to the safe side.
\<close>

theorem headroom_agrees_with_boundary:
  assumes "signed_headroom (PDec v) (PDec t) direction = Inr h"
  shows "(h \<le> 0 \<longleftrightarrow> at_or_beyond_boundary v t direction) \<and> (h = 0 \<longleftrightarrow> v = t) \<and>
    (\<forall>v' h'. signed_headroom (PDec v') (PDec t) direction = Inr h' \<longrightarrow>
       (if direction = ''min'' then v \<le> v' else v' \<le> v) \<longrightarrow> h \<le> h')"
proof -
  define dist where "dist = (\<lambda>x. if direction = ''min'' then dsub x t else dsub t x)"
  have t: "t \<noteq> 0" "0 < dabs t" using assms
    by (auto simp: signed_headroom_def validate_decimal_def dabs_def split: if_splits)
  have eq: "signed_headroom (PDec x) (PDec t) direction = Inr y \<Longrightarrow>
      y = dmul (ddiv (dist x) (dabs t)) 100" for x y
    using t by (auto simp: signed_headroom_def validate_decimal_def Let_def ddiv_checked_def
        dist_def split: if_splits)
  have h: "h = rnd (rnd (dist v / dabs t) * 100)" using eq [OF assms] by (simp add: dmul_def ddiv_def)
  have mono: "rnd (rnd (dist x / dabs t) * 100) \<le> rnd (rnd (dist y / dabs t) * 100)"
    if "dist x \<le> dist y" for x y
    using that t by (intro rnd_mono mult_right_mono divide_right_mono) auto
  have "h \<le> 0 \<longleftrightarrow> dist v \<le> 0"
    using t by (simp add: h mult_le_0_iff divide_le_0_iff)
  moreover have "h = 0 \<longleftrightarrow> dist v = 0" using t by (simp add: h)
  moreover have "dist v \<le> 0 \<longleftrightarrow> at_or_beyond_boundary v t direction" "dist v = 0 \<longleftrightarrow> v = t"
    by (auto simp: dist_def at_or_beyond_boundary_def dsub_def)
  moreover have "h \<le> h'"
    if "signed_headroom (PDec v') (PDec t) direction = Inr h'"
      and "if direction = ''min'' then v \<le> v' else v' \<le> v" for v' h'
  proof -
    have "dist v \<le> dist v'" using that(2) by (auto simp: dist_def dsub_def intro: rnd_mono split: if_splits)
    with mono eq [OF that(1)] h show ?thesis by (simp add: dmul_def ddiv_def)
  qed
  ultimately show ?thesis by blast
qed

lemma demo_headroom: "signed_headroom (PDec 3) (PDec 4) ''max'' = Inr 25"
  by (simp add: signed_headroom_def validate_decimal_def directions_def ddiv_checked_def dabs_def
      dsub_def ddiv_def dmul_def rnd_eval)

theorem headroom_agrees_with_boundary_witness:
  "\<not> at_or_beyond_boundary 3 4 ''max'' \<and> (25 :: rat) \<noteq> 0"
  using headroom_agrees_with_boundary [OF demo_headroom] by simp

section \<open>The decision on facts\<close>

definition version_obj :: "version_facts \<Rightarrow> pyval" where
  "version_obj v = PObj ''CovenantVersionFacts''
     [(''threshold'', PDec (vf_threshold v)), (''direction'', PStr (vf_direction v)),
      (''warning_headroom_pct'', pyopt PDec (vf_warning_headroom_pct v)),
      (''cure_days'', pyopt PInt (vf_cure_days v)), (''id'', pyopt PUuid (vf_id v)),
      (''covenant_id'', pyopt PUuid (vf_covenant_id v)), (''version_no'', pyopt PInt (vf_version_no v))]"

definition reason_enum :: "reason \<Rightarrow> pyval" where
  "reason_enum r = PEnum ''NotComputableReason'' (reason_value r)"

definition context_map :: "context_values \<Rightarrow> pyval" where
  "context_map ctx = PMap (map (\<lambda>(k, v). (PStr k, v)) ctx)"

definition lines_map :: "lines \<Rightarrow> pyval" where
  "lines_map ls = PMap (map (\<lambda>(k, v). (PStr k, PDec v)) ls)"

definition ratio_obj :: "ratio_result \<Rightarrow> pyval" where
  "ratio_obj r = PObj ''RatioResult''
     [(''code'', PStr (rr_code r)), (''value'', pyopt PDec (rr_value r)),
      (''computable'', PBool (rr_computable r)), (''reason'', pyopt reason_enum (rr_reason r)),
      (''inputs_used'', lines_map (rr_inputs_used r)),
      (''band_breached'', PBool (rr_band_breached r)),
      (''reason_context'', context_map (rr_reason_context r)),
      (''outcome'', pyopt PBool (rr_outcome r))]"

definition period_obj :: "period_facts \<Rightarrow> pyval" where
  "period_obj p = PObj ''PeriodFacts''
     [(''period_label'', pyopt PStr (pf_period_label p)), (''fy_label'', pyopt PStr (pf_period_label p)),
      (''is_complete'', PBool (pf_is_complete p)),
      (''last_complete_period'', pyopt PStr (pf_last_complete_period p)),
      (''last_available_period'', pyopt PStr (pf_last_complete_period p)),
      (''period_id'', pyopt PUuid (pf_period_id p)), (''as_of_date'', pyopt PDate (pf_as_of_date p)),
      (''period_end'', pyopt PDate (pf_period_end p)),
      (''test_date'', pyopt PDate (period_test_date p))]"

text \<open>What the constructor of the version guarantees, and that a cure window ends in the
  calendar.\<close>

definition version_ok :: "version_facts \<Rightarrow> bool" where
  "version_ok v = (vf_threshold v \<noteq> 0 \<and> vf_direction v \<in> {''min'', ''max''}
     \<and> (case vf_warning_headroom_pct v of None \<Rightarrow> True | Some w \<Rightarrow> 0 \<le> w)
     \<and> (case vf_cure_days v of None \<Rightarrow> True | Some n \<Rightarrow> 0 \<le> n))"

definition cure_fits :: "version_facts \<Rightarrow> period_facts \<Rightarrow> bool" where
  "cure_fits v p = (case (vf_cure_days v, period_test_date p) of
       (Some n, Some d) \<Rightarrow> min_ordinal \<le> d + n \<and> d + n \<le> max_ordinal | _ \<Rightarrow> True)"

lemma make_version_ok: "make_version t d w c i ci no = Inr v \<Longrightarrow> version_ok v"
  by (auto simp: make_version_def version_ok_def directions_def
      split: if_splits pyval.splits)

text \<open>The contract: the covenant fails by its own condition or by the inclusive boundary.\<close>

definition covenant_fails :: "version_facts \<Rightarrow> bool option \<Rightarrow> decimal \<Rightarrow> decimal \<Rightarrow> bool" where
  "covenant_fails v intrinsic threshold x = (case intrinsic of Some met \<Rightarrow> \<not> met
     | None \<Rightarrow> if vf_direction v = ''min'' then x \<le> threshold else threshold \<le> x)"

definition within_warning :: "version_facts \<Rightarrow> decimal \<Rightarrow> decimal \<Rightarrow> bool" where
  "within_warning v threshold x = (case vf_warning_headroom_pct v of None \<Rightarrow> False
     | Some w \<Rightarrow> (case signed_headroom (PDec x) (PDec threshold) (vf_direction v) of
         Inr h \<Rightarrow> h \<le> w | Inl e \<Rightarrow> False))"

definition contract_verdict :: "version_facts \<Rightarrow> period_facts \<Rightarrow> bool \<Rightarrow> bool option \<Rightarrow> decimal
    \<Rightarrow> decimal \<Rightarrow> verdict" where
  "contract_verdict v p waived intrinsic threshold x =
     (if waived then PASS
      else if covenant_fails v intrinsic threshold x then
        (if (\<exists>n. vf_cure_days v = Some n \<and> 0 < n) \<and> period_test_date p \<noteq> None
         then BREACH_CURE_OPEN else BREACH)
      else if intrinsic = None \<and> within_warning v threshold x then WARNING else PASS)"

lemma validate_decimal_PDec [simp]: "validate_decimal (PDec q) = Inr q"
  by (simp add: validate_decimal_def)

lemma version_fields:
  assumes "version_ok v"
  shows "decimal_field (version_obj v) ''threshold'' = Inr (vf_threshold v)"
    and "text_field (version_obj v) ''direction'' = Inr (vf_direction v)"
    and "optional_decimal_field (version_obj v) ''warning_headroom_pct'' = Inr (vf_warning_headroom_pct v)"
    and "optional_non_negative_int (version_obj v) ''cure_days'' = Inr (vf_cure_days v)"
proof -
  have "strip ''min'' = ''min''" "strip ''max'' = ''max''" "lower ''min'' = ''min''" "lower ''max'' = ''max''"
    by code_simp+
  then show "text_field (version_obj v) ''direction'' = Inr (vf_direction v)"
    using assms by (auto simp: text_field_def version_obj_def version_ok_def)
  show "optional_non_negative_int (version_obj v) ''cure_days'' = Inr (vf_cure_days v)"
    using assms by (cases "vf_cure_days v")
      (auto simp: optional_non_negative_int_def version_obj_def version_ok_def)
  show "optional_decimal_field (version_obj v) ''warning_headroom_pct'' = Inr (vf_warning_headroom_pct v)"
    by (cases "vf_warning_headroom_pct v") (simp_all add: optional_decimal_field_def version_obj_def)
qed (simp add: decimal_field_def version_obj_def)

lemma period_fields:
  "period_date (period_obj p) = Inr (period_test_date p)"
  "bool_field (period_obj p) ''is_complete'' b = Inr (pf_is_complete p)"
  by (cases "pf_as_of_date p"; cases "pf_period_end p";
      simp add: period_date_def period_obj_def period_test_date_def date_of_def)
    (simp add: bool_field_def period_obj_def)

lemma ratio_fields:
  "ratio_reason (ratio_obj r) = (case rr_reason r of None \<Rightarrow> FORMULA_NOT_COMPUTABLE | Some x \<Rightarrow> x)"
  "bool_field (ratio_obj r) ''computable'' b = Inr (rr_computable r)"
  "optional_bool_field (ratio_obj r) ''outcome'' = Inr (rr_outcome r)"
  "rr_value r = Some x \<Longrightarrow> decimal_field (ratio_obj r) ''value'' = Inr x"
  by (simp_all add: ratio_reason_def bool_field_def optional_bool_field_def decimal_field_def
      ratio_obj_def reason_enum_def pyopt_def split: option.splits)

lemma applied_facts:
  "normalise_exception (pyopt exception_obj e) = Inr e"
  "approved_waiver (pyopt waiver_obj w) =
     Inr (case w of None \<Rightarrow> None | Some x \<Rightarrow> if is_approved x then Some x else None)"
proof -
  show "normalise_exception (pyopt exception_obj e) = Inr e"
    by (cases e) (simp_all add: normalise_exception_def exception_obj_def
        exception_of_obj_def)
  show "approved_waiver (pyopt waiver_obj w) =
     Inr (case w of None \<Rightarrow> None | Some x \<Rightarrow> if is_approved x then Some x else None)"
    by (cases w) (simp_all add: approved_waiver_def, simp add: waiver_obj_def)
qed

lemma signed_headroom_ok:
  assumes "t \<noteq> 0" "d \<in> {''min'', ''max''}"
  shows "\<exists>h. signed_headroom (PDec x) (PDec t) d = Inr h"
  using assms by (auto simp: signed_headroom_def directions_def ddiv_checked_def dabs_def)

lemma threshold_in_force_nonzero: "base \<noteq> 0 \<Longrightarrow> threshold_in_force base e \<noteq> 0"
  by (simp add: threshold_in_force_def split: option.splits)

lemma decide_verdict_contract:
  assumes "signed_headroom (PDec x) (PDec t) (vf_direction v) = Inr h" "version_ok v"
  shows "decide_verdict w intrinsic (vf_cure_days v) (period_test_date p) x t (vf_direction v)
      (vf_warning_headroom_pct v) h = contract_verdict v p (w \<noteq> None) intrinsic t x"
  using assms
  by (auto simp: decide_verdict_def contract_verdict_def covenant_fails_def within_warning_def
      at_or_beyond_boundary_def breach_verdict_def verdict_for_condition_def cure_configured_def
      version_ok_def split: option.splits)

lemma cure_end_fits:
  "cure_fits v p \<Longrightarrow> cure_configured (vf_cure_days v) (period_test_date p) \<Longrightarrow>
   cure_end (vf_cure_days v) (period_test_date p)
     = Inr (Some (the (period_test_date p) + the (vf_cure_days v)))"
  by (auto simp: cure_fits_def cure_configured_def cure_end_def add_days_def Let_def
      split: option.splits)

lemma evaluate_computable_facts:
  assumes "version_ok v" "cure_fits v p" "t \<noteq> 0" "rr_value r = Some x"
  shows "\<exists>e. evaluate_computable (ratio_obj r) (vf_direction v) (vf_warning_headroom_pct v)
      (vf_cure_days v) (period_test_date p) t active w = Inr e
    \<and> ev_verdict e = contract_verdict v p (w \<noteq> None) (rr_outcome r) t x
    \<and> ev_value e = Some x \<and> ev_threshold_used e = Some t
    \<and> Inr (the (ev_headroom_pct e)) = signed_headroom (PDec x) (PDec t) (vf_direction v)
    \<and> ev_cure_ends_on e = (if ev_verdict e = BREACH_CURE_OPEN
         then Some (the (period_test_date p) + the (vf_cure_days v)) else None)"
proof -
  have dir: "vf_direction v \<in> {''min'', ''max''}" using assms(1) by (simp add: version_ok_def)
  obtain h where h: "signed_headroom (PDec x) (PDec t) (vf_direction v) = Inr h"
    using signed_headroom_ok [OF assms(3) dir, of x] by (elim exE)
  define vd where "vd = contract_verdict v p (w \<noteq> None) (rr_outcome r) t x"
  have d: "decide_verdict w (rr_outcome r) (vf_cure_days v) (period_test_date p) x t
      (vf_direction v) (vf_warning_headroom_pct v) h = vd"
    using decide_verdict_contract [OF h assms(1)] by (simp add: vd_def)
  have nc: "vd \<noteq> NOT_COMPUTABLE" by (simp add: vd_def contract_verdict_def)
  have conf: "cure_configured (vf_cure_days v) (period_test_date p)" if "vd = BREACH_CURE_OPEN"
    using that by (auto simp: vd_def contract_verdict_def cure_configured_def split: if_splits)
  have ends: "(if vd = BREACH_CURE_OPEN then cure_end (vf_cure_days v) (period_test_date p) else Inr None)
      = Inr (if vd = BREACH_CURE_OPEN then Some (the (period_test_date p) + the (vf_cure_days v)) else None)"
    using cure_end_fits [OF assms(2) conf] by simp
  show ?thesis unfolding vd_def [symmetric]
    by (simp add: evaluate_computable_def ratio_fields assms(4) h d ends make_evaluation_def nc
        Let_def)
qed

text \<open>
  C1: the decision table of the evaluator. For valid facts whose cure window ends within the
  calendar it returns an evaluation against the threshold in force (the relaxed threshold of the
  exception when it has a non-zero one). The verdict is \<open>stale\<close> for an incomplete period,
  \<open>not_computable\<close> with the ratio's reason without a value, and otherwise that of the contract:
  an approved waiver passes; a failed condition, or without one a value at or beyond the
  boundary, is a breach, with an open cure window when one is configured; a value within the
  warning headroom is a warning; anything else passes. The window ends the configured number of
  days after the test date and is reported only with an open-cure verdict.
\<close>

theorem evaluate_covenant_decision:
  assumes "version_ok v" "cure_fits v p" "make_ratio_result r = Inr r"
  shows "\<exists>e. evaluate_covenant (version_obj v) (ratio_obj r) (period_obj p)
      (pyopt exception_obj exc) (pyopt waiver_obj w) thresholds = Inr e
    \<and> ev_threshold_used e = Some (threshold_in_force (vf_threshold v) exc)
    \<and> ev_verdict e = (if \<not> pf_is_complete p \<or> rr_reason r = Some PERIOD_INCOMPLETE then STALE
         else case rr_value r of None \<Rightarrow> NOT_COMPUTABLE
         | Some x \<Rightarrow> contract_verdict v p (case w of None \<Rightarrow> False | Some w \<Rightarrow> is_approved w)
             (rr_outcome r) (threshold_in_force (vf_threshold v) exc) x)
    \<and> ev_reason e = (if ev_verdict e = NOT_COMPUTABLE then rr_reason r else None)
    \<and> ev_cure_ends_on e = (if ev_verdict e = BREACH_CURE_OPEN
         then Some (the (period_test_date p) + the (vf_cure_days v)) else None)"
proof -
  define t where "t = threshold_in_force (vf_threshold v) exc"
  define waiver where "waiver = (case w of None \<Rightarrow> None | Some x \<Rightarrow> if is_approved x then Some x else None)"
  have t: "t \<noteq> 0" and vt: "vf_threshold v \<noteq> 0" "vf_direction v \<in> set directions"
    using assms(1) threshold_in_force_nonzero
    by (simp_all add: version_ok_def t_def directions_def)
  have wv: "(case w of None \<Rightarrow> False | Some w \<Rightarrow> is_approved w) = (waiver \<noteq> None)"
    by (simp add: waiver_def split: option.splits)
  have rc: "rr_computable r \<longleftrightarrow> rr_value r \<noteq> None" "rr_value r = None \<Longrightarrow> rr_reason r \<noteq> None"
    "rr_value r \<noteq> None \<Longrightarrow> rr_reason r = None"
    using assms(3) by (auto simp: make_ratio_result_def split: if_splits)
  note body = evaluate_covenant_def evaluate_body_def version_fields [OF assms(1)] period_fields
    ratio_fields(1,2) applied_facts Let_def t_def [symmetric] waiver_def [symmetric]
  consider (stale) "\<not> pf_is_complete p \<or> rr_reason r = Some PERIOD_INCOMPLETE"
    | (none) "pf_is_complete p" "rr_reason r \<noteq> Some PERIOD_INCOMPLETE" "rr_value r = None"
    | (some) x where "pf_is_complete p" "rr_reason r \<noteq> Some PERIOD_INCOMPLETE" "rr_value r = Some x"
    by (cases "rr_value r") auto
  then show ?thesis
  proof cases
    case stale
    then have "\<not> pf_is_complete p \<or> (case rr_reason r of None \<Rightarrow> FORMULA_NOT_COMPUTABLE | Some x \<Rightarrow> x)
        = PERIOD_INCOMPLETE" by auto
    with stale vt show ?thesis by (simp add: body make_evaluation_def wv)
  next
    case none
    with rc(2) obtain x where x: "rr_reason r = Some x" by auto
    with none vt rc show ?thesis by (simp add: body make_evaluation_def wv)
  next
    case some
    then have "rr_reason r = None" using rc by simp
    moreover obtain e where "evaluate_computable (ratio_obj r) (vf_direction v)
        (vf_warning_headroom_pct v) (vf_cure_days v) (period_test_date p) t exc waiver = Inr e"
      "ev_verdict e = contract_verdict v p (waiver \<noteq> None) (rr_outcome r) t x"
      "ev_threshold_used e = Some t"
      "ev_cure_ends_on e = (if ev_verdict e = BREACH_CURE_OPEN
         then Some (the (period_test_date p) + the (vf_cure_days v)) else None)"
      using evaluate_computable_facts [OF assms(1,2) t some(3), of exc waiver] by auto
    moreover from this have "evaluation_ok e"
      by (auto simp: evaluate_computable_def Let_def dest!: make_evaluationD)
    moreover have "ev_verdict e \<noteq> NOT_COMPUTABLE"
      using calculation(3) by (simp add: contract_verdict_def)
    ultimately show ?thesis using some vt rc
      by (simp add: body wv evaluation_ok_def)
  qed
qed

definition demo_version :: version_facts where
  "demo_version = \<lparr>vf_threshold = 4, vf_direction = ''max'', vf_warning_headroom_pct = Some 10,
     vf_cure_days = Some 30, vf_id = None, vf_covenant_id = None, vf_version_no = Some 1\<rparr>"

definition demo_period :: period_facts where
  "demo_period = \<lparr>pf_period_label = Some ''FY27Q1'', pf_is_complete = True,
     pf_last_complete_period = None, pf_period_id = None, pf_as_of_date = Some 739800,
     pf_period_end = None\<rparr>"

definition demo_ratio :: ratio_result where
  "demo_ratio = \<lparr>rr_code = ''leverage_ratio'', rr_value = Some 4, rr_computable = True,
     rr_reason = None, rr_inputs_used = [], rr_band_breached = False, rr_reason_context = [],
     rr_outcome = None\<rparr>"

theorem evaluate_covenant_decision_witness:
  "\<exists>e. evaluate_covenant (version_obj demo_version) (ratio_obj demo_ratio) (period_obj demo_period)
      (pyopt exception_obj None) (pyopt waiver_obj None) PNone = Inr e
    \<and> ev_verdict e = BREACH_CURE_OPEN \<and> ev_cure_ends_on e = Some 739830"
proof -
  have pre: "version_ok demo_version" "cure_fits demo_version demo_period"
    "make_ratio_result demo_ratio = Inr demo_ratio"
    by (simp_all add: version_ok_def cure_fits_def make_ratio_result_def demo_version_def
        demo_period_def demo_ratio_def period_test_date_def min_ordinal_def max_ordinal_def)
  have facts: "pf_is_complete demo_period" "rr_reason demo_ratio = None" "rr_value demo_ratio = Some 4"
    "the (period_test_date demo_period) + the (vf_cure_days demo_version) = 739830"
    by (simp_all add: demo_version_def demo_period_def demo_ratio_def period_test_date_def)
  have "contract_verdict demo_version demo_period False (rr_outcome demo_ratio)
      (threshold_in_force (vf_threshold demo_version) None) 4 = BREACH_CURE_OPEN"
    by (simp add: contract_verdict_def covenant_fails_def threshold_in_force_def demo_version_def
        demo_period_def demo_ratio_def period_test_date_def)
  with evaluate_covenant_decision [OF pre, of None None PNone] facts
  show ?thesis by (elim exE conjE) (intro exI conjI; (assumption | simp))
qed

end
