(* ===== verification/Cure.thy ===== *)
theory Cure
  imports Py_Values
begin

text \<open>
  \<open>domain/covenants/cure.py\<close>: the cure window of a failing covenant test. The state
  \<open>open\<close>, \<open>cured\<close> or \<open>confirmed\<close> is a projection over the test and its retests; nothing is
  mutated. Tests and retests are facts or rows, the retests a list.
\<close>

datatype cure_status = OPEN | CURED | CONFIRMED

record cure_result =
  cr_state :: cure_status
  cr_cure_ends_on :: "date option"
  cr_retest :: "pyval option"

definition cure_verdict_text :: "cure_result \<Rightarrow> string" where
  "cure_verdict_text r = (case cr_state r of OPEN \<Rightarrow> ''breach_cure_open'' | CURED \<Rightarrow> ''cured''
     | CONFIRMED \<Rightarrow> ''breach_confirmed'')"

definition frequency_window_days :: "(string \<times> int) list" where
  "frequency_window_days = [(''monthly'', 30), (''quarterly'', 90), (''half_yearly'', 180), (''annual'', 365)]"

definition validate_cure_period :: "pyval \<Rightarrow> pyval \<Rightarrow> unit result" where
  "validate_cure_period frequency cure_days =
     (case text_of frequency of None \<Rightarrow> raise (ValidationError ''frequency'')
      | Some f \<Rightarrow> if f = [] then raise (ValidationError ''frequency'') else
     (case cure_days of PNone \<Rightarrow> ok ()
      | PInt n \<Rightarrow>
          if n < 0 then raise (ValidationError ''cure_days'')
          else if n = 0 \<or> f = ''on_event'' then ok ()
          else (case lookup frequency_window_days f of None \<Rightarrow> raise (ValidationError ''frequency'')
            | Some window \<Rightarrow> if n < window then raise (ValidationError ''cure_days'') else ok ())
      | _ \<Rightarrow> raise (ValidationError ''cure_days'')))"

section \<open>Reading a test\<close>

definition record_verdict :: "pyval \<Rightarrow> string result" where
  "record_verdict v = (case text_of (pyfield v ''verdict'') of None \<Rightarrow> raise ValueError
     | Some s \<Rightarrow> if strip s = [] then raise ValueError
                else ok (replace_char CHR ''-'' CHR ''_'' (lower (strip s))))"

definition record_date :: "pyval \<Rightarrow> date result" where
  "record_date v = (case date_of (pyfield v ''as_of_date'') of None \<Rightarrow> raise TypeError | Some d \<Rightarrow> ok d)"

definition record_cure_end :: "pyval \<Rightarrow> date \<Rightarrow> date option result" where
  "record_cure_end test d = (let v = pyfield test ''cure_ends_on'' in
     if v \<noteq> PNone then
       (case date_of v of None \<Rightarrow> raise TypeError
        | Some e \<Rightarrow> if e < d then raise ValueError else ok (Some e))
     else (case pyfield test ''cure_days'' of PNone \<Rightarrow> ok None
       | PInt n \<Rightarrow> if n < 0 then raise ValueError else if n = 0 then ok None
                  else rbind (add_days d n) (\<lambda>e. ok (Some e))
       | _ \<Rightarrow> raise ValueError))"

fun context_date_keys :: "pyval \<Rightarrow> string list \<Rightarrow> date option result" where
  "context_date_keys value [] = ok None"
| "context_date_keys value (k # ks) = (let c = pyfield value k in
     if c = PNone then context_date_keys value ks
     else case date_of c of None \<Rightarrow> raise TypeError | Some d \<Rightarrow> ok (Some d))"

definition context_date :: "pyval \<Rightarrow> date option result" where
  "context_date value = (case value of PDate d \<Rightarrow> ok (Some d)
     | _ \<Rightarrow> context_date_keys value [''as_of_date'', ''as_of'', ''current_date''])"

definition current_date :: "date \<Rightarrow> (date \<times> pyval) list \<Rightarrow> pyval \<Rightarrow> date result" where
  "current_date test_date retests thresholds =
     rbind (context_date thresholds) (\<lambda>configured.
       case configured of Some d \<Rightarrow> ok d
       | None \<Rightarrow> ok (max test_date (if retests = [] then test_date else fst (last retests))))"

section \<open>The state\<close>

text \<open>The first retest inside the window that passed; the verdict of a retest outside the
  window is not read.\<close>

fun first_pass :: "date \<Rightarrow> date \<Rightarrow> (date \<times> pyval) list \<Rightarrow> pyval option result" where
  "first_pass d e [] = ok None"
| "first_pass d e ((rd, r) # rs) =
     (if d \<le> rd \<and> rd \<le> e then
        rbind (record_verdict r) (\<lambda>v. if v = ''pass'' then ok (Some r) else first_pass d e rs)
      else first_pass d e rs)"

text \<open>Sorting by date and index is sorting by date with a stable sort.\<close>

definition cure_state :: "pyval \<Rightarrow> pyval \<Rightarrow> pyval \<Rightarrow> cure_result result" where
  "cure_state test retests thresholds = (case retests of PList rs \<Rightarrow>
     rbind (record_verdict test) (\<lambda>initial.
     if initial \<notin> {''breach'', ''breach_cure_open''} then raise ValueError else
     rbind (record_date test) (\<lambda>d.
     rbind (record_cure_end test d) (\<lambda>ends.
     case ends of None \<Rightarrow> ok \<lparr>cr_state = CONFIRMED, cr_cure_ends_on = None, cr_retest = None\<rparr>
     | Some e \<Rightarrow>
         rbind (rmap (\<lambda>r. rbind (record_date r) (\<lambda>rd. ok (rd, r))) rs) (\<lambda>dated.
         let ordered = sort_key fst dated in
         rbind (first_pass d e ordered) (\<lambda>hit.
         case hit of Some r \<Rightarrow> ok \<lparr>cr_state = CURED, cr_cure_ends_on = Some e, cr_retest = Some r\<rparr>
         | None \<Rightarrow>
             rbind (current_date d ordered thresholds) (\<lambda>today.
             if today \<le> e then ok \<lparr>cr_state = OPEN, cr_cure_ends_on = Some e, cr_retest = None\<rparr>
             else ok \<lparr>cr_state = CONFIRMED, cr_cure_ends_on = Some e, cr_retest = None\<rparr>))))))
   | _ \<Rightarrow> raise TypeError)"

section \<open>Lemmas\<close>

definition passes_in :: "date \<Rightarrow> date \<Rightarrow> date \<times> pyval \<Rightarrow> bool" where
  "passes_in d e x = (d \<le> fst x \<and> fst x \<le> e \<and> record_verdict (snd x) = Inr ''pass'')"

definition cure_today :: "date \<Rightarrow> pyval list \<Rightarrow> pyval \<Rightarrow> date result" where
  "cure_today d rs thresholds =
     rbind (rmap (\<lambda>r. rbind (record_date r) (\<lambda>rd. ok (rd, r))) rs) (\<lambda>dated.
       current_date d (sort_key fst dated) thresholds)"

lemma first_pass_Some:
  "first_pass d e xs = Inr (Some r) \<Longrightarrow> sorted (map fst xs) \<Longrightarrow>
   \<exists>rd. (rd, r) \<in> set xs \<and> passes_in d e (rd, r) \<and> (\<forall>x\<in>set xs. passes_in d e x \<longrightarrow> rd \<le> fst x)"
proof (induction xs)
  case (Cons x xs)
  obtain rd' r' where x: "x = (rd', r')" by force
  show ?case
  proof (cases "passes_in d e x")
    case True
    then have "r = r'" using Cons.prems(1) x by (simp add: passes_in_def)
    with True Cons.prems(2) x show ?thesis by auto
  next
    case False
    then have "first_pass d e xs = Inr (Some r)"
      using Cons.prems(1) x by (auto simp: passes_in_def split: if_splits)
    with Cons.IH Cons.prems(2) False show ?thesis by auto
  qed
qed simp

lemma first_pass_None:
  "first_pass d e xs = Inr None \<Longrightarrow> x \<in> set xs \<Longrightarrow> \<not> passes_in d e x"
proof (induction xs)
  case (Cons y ys)
  obtain rd' r' where y: "y = (rd', r')" by force
  have "\<not> passes_in d e y" "first_pass d e ys = Inr None"
    using Cons.prems(1) y by (auto simp: passes_in_def split: if_splits)
  with Cons show ?case by auto
qed simp

lemma dated_retests:
  assumes "rmap (\<lambda>r. rbind (record_date r) (\<lambda>rd. ok (rd, r))) rs = Inr dated"
  shows "set dated = {(rd, r). r \<in> set rs \<and> record_date r = Inr rd}"
  using assms
proof (induction rs arbitrary: dated)
  case (Cons r rs)
  from Cons.prems obtain rd ds where "record_date r = Inr rd" "dated = (rd, r) # ds"
    "rmap (\<lambda>r. rbind (record_date r) (\<lambda>rd. ok (rd, r))) rs = Inr ds" by auto
  with Cons.IH show ?case by auto
qed simp

text \<open>
  C5: what the cure state means. For a failing test with a list of retests, whenever a state is
  returned: \<open>cured\<close> names a retest dated inside the inclusive window whose verdict is a pass,
  and no earlier retest passed in the window; \<open>open\<close> means that no retest passed in the window
  and the current date (the context's, or the latest of the test and the retests) is not past
  its last day; \<open>confirmed\<close> means that there is no
  window, or that none passed in it and the current date is past it.
\<close>

theorem cure_state_decision:
  assumes "cure_state test (PList rs) thresholds = Inr r"
  defines "passed \<equiv> (\<lambda>d e x. x \<in> set rs \<and> (\<exists>rd. record_date x = Inr rd \<and> d \<le> rd \<and> rd \<le> e)
      \<and> record_verdict x = Inr ''pass'')"
  shows "\<exists>d. record_date test = Inr d \<and> record_cure_end test d = Inr (cr_cure_ends_on r) \<and>
    (case cr_cure_ends_on r of None \<Rightarrow> cr_state r = CONFIRMED
     | Some e \<Rightarrow>
        (case cr_state r of
           CURED \<Rightarrow> \<exists>x. cr_retest r = Some x \<and> passed d e x
             \<and> (\<forall>y. passed d e y \<longrightarrow> projr (record_date x) \<le> projr (record_date y))
         | OPEN \<Rightarrow> (\<forall>x. \<not> passed d e x) \<and> (\<exists>today. cure_today d rs thresholds = Inr today \<and> today \<le> e)
         | CONFIRMED \<Rightarrow> (\<forall>x. \<not> passed d e x) \<and>
             (\<exists>today. cure_today d rs thresholds = Inr today \<and> e < today)))"
proof -
  obtain d ends where d: "record_date test = Inr d" and ends: "record_cure_end test d = Inr ends"
    using assms(1) by (auto simp: cure_state_def split: if_splits)
  show ?thesis
  proof (cases ends)
    case None
    with assms(1) d ends have "cr_cure_ends_on r = None" "cr_state r = CONFIRMED"
      by (auto simp: cure_state_def split: if_splits)
    with d ends None show ?thesis by simp
  next
    case (Some e)
    obtain dated hit where dated: "rmap (\<lambda>r. rbind (record_date r) (\<lambda>rd. ok (rd, r))) rs = Inr dated"
      and hit: "first_pass d e (sort_key fst dated) = Inr hit"
      using assms(1) d ends Some by (auto simp: cure_state_def Let_def split: if_splits)
    have in_dated: "passed d e x \<longleftrightarrow> (\<exists>rd. (rd, x) \<in> set dated \<and> passes_in d e (rd, x))" for x
      by (auto simp: passed_def passes_in_def dated_retests [OF dated])
    have sorted: "sorted (map fst (sort_key fst dated))" by simp
    show ?thesis
    proof (cases hit)
      case (Some x)
      obtain rd where rd: "(rd, x) \<in> set dated" "passes_in d e (rd, x)"
        "\<forall>y\<in>set dated. passes_in d e y \<longrightarrow> rd \<le> fst y"
        using first_pass_Some [OF hit [unfolded Some] sorted] by auto
      have "r = \<lparr>cr_state = CURED, cr_cure_ends_on = Some e, cr_retest = Some x\<rparr>"
        using assms(1) d ends \<open>ends = Some e\<close> dated hit Some
        by (auto simp: cure_state_def Let_def split: if_splits)
      moreover have "passed d e x" using rd in_dated by blast
      moreover have "projr (record_date x) \<le> projr (record_date y)" if y: "passed d e y" for y
      proof -
        obtain rd' where "(rd', y) \<in> set dated" "passes_in d e (rd', y)" using y in_dated by blast
        with rd show ?thesis by (auto simp: dated_retests [OF dated])
      qed
      ultimately show ?thesis using d ends \<open>ends = Some e\<close> by simp
    next
      case None
      have "\<forall>x. \<not> passed d e x"
        using first_pass_None [OF hit [unfolded None]] in_dated by auto
      with assms(1) d ends \<open>ends = Some e\<close> dated hit None show ?thesis
        by (auto simp: cure_state_def cure_today_def Let_def not_le split: if_splits)
    qed
  qed
qed

definition demo_test :: "string \<Rightarrow> date \<Rightarrow> pyval" where
  "demo_test v d = PMap [(PStr ''verdict'', PStr v), (PStr ''as_of_date'', PDate d),
     (PStr ''cure_days'', PInt 30)]"

lemma demo_cure_state: "cure_state (demo_test ''breach'' 100)
    (PList [demo_test ''breach'' 110, demo_test ''pass'' 130]) PNone =
    Inr \<lparr>cr_state = CURED, cr_cure_ends_on = Some 130, cr_retest = Some (demo_test ''pass'' 130)\<rparr>"
proof -
  have v: "record_verdict (demo_test ''breach'' d) = Inr ''breach''"
    "record_verdict (demo_test ''pass'' d) = Inr ''pass''" for d
  proof -
    have "replace_char CHR ''-'' CHR ''_'' (lower (strip ''breach'')) = ''breach''"
      "replace_char CHR ''-'' CHR ''_'' (lower (strip ''pass'')) = ''pass''"
      "strip ''breach'' = ''breach''" "strip ''pass'' = ''pass''" by code_simp+
    then show "record_verdict (demo_test ''breach'' d) = Inr ''breach''"
      "record_verdict (demo_test ''pass'' d) = Inr ''pass''"
      by (simp_all add: record_verdict_def demo_test_def map_get_def)
  qed
  have d: "record_date (demo_test x y) = Inr y" for x y
    by (simp add: record_date_def demo_test_def map_get_def)
  have c: "record_cure_end (demo_test x 100) 100 = Inr (Some 130)" for x
    by (simp add: record_cure_end_def demo_test_def map_get_def add_days_def min_ordinal_def
        max_ordinal_def)
  show ?thesis by (simp add: cure_state_def v d c)
qed

theorem cure_state_decision_witness:
  "\<exists>d. record_date (demo_test ''breach'' 100) = Inr d
    \<and> record_cure_end (demo_test ''breach'' 100) d = Inr (Some 130)"
  using cure_state_decision [OF demo_cure_state] by auto

end
