(* ===== verification/Case_Lifecycle.thy ===== *)
theory Case_Lifecycle
  imports Py_Values
begin

text \<open>
  \<open>domain/cases/lifecycle.py\<close>: the state machine of a monitoring case. The table of
  permitted transitions is data; a transition is validated against it, and closing requires a
  bounded reason. The machine is also given as a step relation, whose reachable states are
  studied by rule induction.
\<close>

datatype case_state = OPEN | IN_PROGRESS | MONITORING | ESCALATED | CLOSED

definition case_states :: "case_state list" where
  "case_states = [OPEN, IN_PROGRESS, MONITORING, ESCALATED, CLOSED]"

definition state_value :: "case_state \<Rightarrow> string" where
  "state_value s = (case s of OPEN \<Rightarrow> ''open'' | IN_PROGRESS \<Rightarrow> ''in_progress''
     | MONITORING \<Rightarrow> ''monitoring'' | ESCALATED \<Rightarrow> ''escalated'' | CLOSED \<Rightarrow> ''closed'')"

definition state_enum :: "case_state \<Rightarrow> pyval" where
  "state_enum s = PEnum ''CaseState'' (state_value s)"

definition table :: "case_state \<Rightarrow> case_state list" where
  "table s = (case s of OPEN \<Rightarrow> [IN_PROGRESS, MONITORING, ESCALATED, CLOSED]
     | IN_PROGRESS \<Rightarrow> [MONITORING, ESCALATED, CLOSED]
     | MONITORING \<Rightarrow> [IN_PROGRESS, ESCALATED, CLOSED]
     | ESCALATED \<Rightarrow> [IN_PROGRESS, MONITORING, CLOSED]
     | CLOSED \<Rightarrow> [])"

record case_transition =
  from_state :: case_state
  to_state :: case_state

definition state_of_text :: "string \<Rightarrow> case_state option" where
  "state_of_text t = find (\<lambda>s. state_value s = t) case_states"

definition validate_state :: "pyval \<Rightarrow> case_state result" where
  "validate_state value = (case text_of value of None \<Rightarrow> raise (ValidationError ''case.state'')
     | Some raw \<Rightarrow> (case state_of_text (lower (strip raw)) of
         None \<Rightarrow> raise (ValidationError ''case.state'') | Some s \<Rightarrow> ok s))"

definition permitted_transitions :: "pyval \<Rightarrow> string list result" where
  "permitted_transitions value = rbind (validate_state value) (\<lambda>s. ok (map state_value (table s)))"

text \<open>\<open>CaseTransition.__post_init__\<close>\<close>

definition make_transition :: "pyval \<Rightarrow> pyval \<Rightarrow> case_transition result" where
  "make_transition f t = rbind (validate_state f) (\<lambda>source. rbind (validate_state t) (\<lambda>target.
     if target \<notin> set (table source) then raise (ValidationError ''case.state'')
     else ok \<lparr>from_state = source, to_state = target\<rparr>))"

definition closure_reason_max_length :: nat where "closure_reason_max_length = 200"

definition validate_closure_reason :: "pyval \<Rightarrow> string result" where
  "validate_closure_reason value =
     (case text_of value of None \<Rightarrow> raise (ValidationError ''case.closure_reason'')
      | Some s \<Rightarrow> if strip s = [] then raise (ValidationError ''case.closure_reason'')
          else if closure_reason_max_length < length (strip s)
          then raise (ValidationError ''case.closure_reason'') else ok (strip s))"

definition transition_result :: "pyval \<Rightarrow> pyval \<Rightarrow> pyval \<Rightarrow> case_transition result" where
  "transition_result current target closure_reason =
     rbind (validate_state current) (\<lambda>source.
     rbind (validate_state target) (\<lambda>destination.
     if destination \<notin> set (table source) then raise (ValidationError ''case.state'') else
     rbind (if destination = CLOSED then rbind (validate_closure_reason closure_reason) (\<lambda>r. ok ())
            else if closure_reason \<noteq> PNone then raise (ValidationError ''case.closure_reason'')
            else ok ()) (\<lambda>u.
     make_transition (state_enum source) (state_enum destination))))"

definition transition :: "pyval \<Rightarrow> pyval \<Rightarrow> pyval \<Rightarrow> case_state result" where
  "transition current target closure_reason =
     rbind (transition_result current target closure_reason) (\<lambda>r. ok (to_state r))"

section \<open>Lemmas\<close>

lemma validate_state_enum [simp]: "validate_state (state_enum s) = Inr s"
proof -
  have "\<forall>s\<in>set case_states. state_of_text (lower (strip (state_value s))) = Some s" by code_simp
  then have "state_of_text (lower (strip (state_value s))) = Some s"
    by (cases s) (simp_all add: case_states_def)
  then show ?thesis by (simp add: validate_state_def state_enum_def)
qed

lemma table_characterisation: "t \<in> set (table s) \<longleftrightarrow> s \<noteq> CLOSED \<and> t \<noteq> s \<and> t \<noteq> OPEN"
  by (cases s; cases t) (simp_all add: table_def)

definition closing_reason_ok :: "pyval \<Rightarrow> bool" where
  "closing_reason_ok r = (case text_of r of None \<Rightarrow> False
     | Some s \<Rightarrow> strip s \<noteq> [] \<and> length (strip s) \<le> 200)"

lemma validate_closure_reason_iff:
  "(\<exists>t. validate_closure_reason r = Inr t) \<longleftrightarrow> closing_reason_ok r"
  by (auto simp: validate_closure_reason_def closing_reason_ok_def closure_reason_max_length_def
      split: option.splits)

lemma transition_enum:
  "transition (state_enum s) (state_enum t) r = Inr x \<longleftrightarrow>
     x = t \<and> s \<noteq> CLOSED \<and> t \<noteq> s \<and> t \<noteq> OPEN \<and> (if t = CLOSED then closing_reason_ok r else r = PNone)"
proof -
  have "(\<exists>u. rbind (validate_closure_reason r) (\<lambda>r. Inr ()) = Inr u) \<longleftrightarrow> closing_reason_ok r"
    using validate_closure_reason_iff [of r] by (cases "validate_closure_reason r") auto
  then show ?thesis
    by (cases "rbind (validate_closure_reason r) (\<lambda>r. Inr ())")
      (auto simp: transition_def transition_result_def make_transition_def table_characterisation
        split: if_splits)
qed

text \<open>
  which transitions of a case are accepted. On two states, a transition returns its target
  exactly when the case is not closed, the target is another state than the present one and not
  \<open>open\<close>, and a closure reason (text, not blank, at most 200 characters) is given for closing
  and none otherwise; every other request raises a validation error.
\<close>

theorem transition_accepted:
  "transition (state_enum s) (state_enum t) reason =
    (if s \<noteq> CLOSED \<and> t \<noteq> s \<and> t \<noteq> OPEN
     then if (if t = CLOSED then closing_reason_ok reason else reason = PNone) then Inr t
          else Inl (ValidationError ''case.closure_reason'')
     else Inl (ValidationError ''case.state''))"
proof (cases "transition (state_enum s) (state_enum t) reason")
  case (Inr x)
  then show ?thesis using transition_enum [of s t reason x] by auto
next
  case (Inl e)
  have no: "\<not> (s \<noteq> CLOSED \<and> t \<noteq> s \<and> t \<noteq> OPEN \<and> (if t = CLOSED then closing_reason_ok reason else reason = PNone))"
    using Inl transition_enum [of s t reason t] by auto
  have "validate_closure_reason reason = Inl f \<Longrightarrow> f = ValidationError ''case.closure_reason''" for f
    by (auto simp: validate_closure_reason_def split: option.splits if_splits)
  with no Inl show ?thesis
    by (cases "validate_closure_reason reason")
      (auto simp: transition_def transition_result_def make_transition_def table_characterisation
        split: if_splits)
qed

section \<open>The machine\<close>

text \<open>A step is a transition of the code that was accepted, from a state to the one returned.\<close>

inductive case_step :: "case_state \<Rightarrow> case_state \<Rightarrow> bool" where
  accepted: "transition (state_enum s) target reason = Inr t \<Longrightarrow> case_step s t"

inductive_cases case_stepE: "case_step s t"

lemma transition_source_target:
  assumes "transition (state_enum s) target reason = Inr t"
  shows "t \<in> set (table s)"
  using assms
  by (auto simp: transition_def transition_result_def make_transition_def split: if_splits)

lemma case_step_iff: "case_step s t \<longleftrightarrow> s \<noteq> CLOSED \<and> t \<noteq> s \<and> t \<noteq> OPEN"
proof
  assume "case_step s t"
  then show "s \<noteq> CLOSED \<and> t \<noteq> s \<and> t \<noteq> OPEN"
    by (auto elim!: case_stepE dest!: transition_source_target simp: table_characterisation)
next
  assume a: "s \<noteq> CLOSED \<and> t \<noteq> s \<and> t \<noteq> OPEN"
  define reason where "reason = (if t = CLOSED then PStr ''repaid'' else PNone)"
  have "closing_reason_ok (PStr ''repaid'')"
    unfolding closing_reason_ok_def text_of_simps option.case by code_simp
  with a have "transition (state_enum s) (state_enum t) reason = Inr t"
    by (simp add: transition_enum reason_def)
  then show "case_step s t" by (rule accepted)
qed

lemma closed_terminal: "case_step\<^sup>*\<^sup>* CLOSED s \<Longrightarrow> s = CLOSED"
  by (induction rule: rtranclp_induct) (auto simp: case_step_iff)

lemma open_initial: "case_step\<^sup>*\<^sup>* s OPEN \<Longrightarrow> s = OPEN"
  by (induction rule: converse_rtranclp_induct) (auto simp: case_step_iff)

text \<open>
  C6: the life of a case. Along any sequence of accepted transitions closing is terminal (no
  request on a closed case is accepted, so re-escalation needs a new case), a case that has left
  \<open>open\<close> never returns to it, and a case that is not closed can be closed in one step; every
  state is reachable from \<open>open\<close>.
\<close>

theorem case_life:
  "(case_step\<^sup>*\<^sup>* CLOSED s \<longleftrightarrow> s = CLOSED)
   \<and> (case_step\<^sup>*\<^sup>* s OPEN \<longleftrightarrow> s = OPEN)
   \<and> (case_step s CLOSED \<longleftrightarrow> s \<noteq> CLOSED)
   \<and> case_step\<^sup>*\<^sup>* OPEN s"
proof -
  have "case_step\<^sup>*\<^sup>* OPEN s"
    by (cases "s = OPEN") (auto simp: case_step_iff intro: r_into_rtranclp)
  then show ?thesis
    using closed_terminal [of s] open_initial [of s] by (auto simp: case_step_iff)
qed

end
