(* ===== verification/Case_Sla.thy ===== *)
theory Case_Sla
  imports Py_Values
begin

text \<open>
  \<open>domain/cases/sla.py\<close>: the deadline of a case from the T11 hours of its band. The calendar
  is an interface (\<open>BusinessCalendar\<close>): a locale states what it promises, the lemmas on the
  order of the deadlines are proved from it, and the default \<open>ElapsedHoursCalendar\<close> is the
  interpretation. An aware datetime is an instant in microseconds.
\<close>

definition hour :: int where "hour = 3600 * 1000000"

definition sla_bands :: "string list" where "sla_bands = [''act'', ''amber'', ''watch'']"

definition sla_fields :: "(string \<times> string) list" where
  "sla_fields = [(''act_sla_hours'', ''act''), (''amber_sla_hours'', ''amber''), (''watch_sla_hours'', ''watch'')]"

record sla_thresholds =
  act_sla_hours :: int
  amber_sla_hours :: int
  watch_sla_hours :: int

record sla_deadline =
  dl_band :: string
  dl_hours :: int
  dl_started_at :: int
  dl_due_at :: int

section \<open>Checks\<close>

definition positive_integer :: "pyval \<Rightarrow> string \<Rightarrow> int result" where
  "positive_integer value f = (case plain_int value of None \<Rightarrow> raise (ValidationError f)
     | Some n \<Rightarrow> if n \<le> 0 then raise (ValidationError f) else ok n)"

definition sla_band :: "pyval \<Rightarrow> string result" where
  "sla_band value = (case text_of value of None \<Rightarrow> raise (ValidationError ''case.band'')
     | Some s \<Rightarrow> if lower (strip s) \<notin> set sla_bands then raise (ValidationError ''case.band'')
                else ok (lower (strip s)))"

definition aware_utc :: "pyval \<Rightarrow> string \<Rightarrow> int result" where
  "aware_utc value f = (case value of PDatetime t \<Rightarrow> ok t | _ \<Rightarrow> raise (ValidationError f))"

text \<open>\<open>SlaThresholds.__post_init__\<close> and \<open>SlaDeadline.__post_init__\<close>\<close>

definition make_sla_thresholds :: "pyval \<Rightarrow> pyval \<Rightarrow> pyval \<Rightarrow> sla_thresholds result" where
  "make_sla_thresholds a b c =
     rbind (positive_integer a ''T11.act_sla_hours'') (\<lambda>act.
     rbind (positive_integer b ''T11.amber_sla_hours'') (\<lambda>amber.
     rbind (positive_integer c ''T11.watch_sla_hours'') (\<lambda>watch.
     if \<not> (act \<le> amber \<and> amber \<le> watch) then raise (ValidationError ''T11'')
     else ok \<lparr>act_sla_hours = act, amber_sla_hours = amber, watch_sla_hours = watch\<rparr>)))"

definition make_sla_deadline :: "pyval \<Rightarrow> pyval \<Rightarrow> pyval \<Rightarrow> pyval \<Rightarrow> sla_deadline result" where
  "make_sla_deadline band hours started_at due_at =
     rbind (sla_band band) (\<lambda>b.
     rbind (aware_utc started_at ''started_at'') (\<lambda>s.
     rbind (aware_utc due_at ''due_at'') (\<lambda>d.
     if d < s then raise (ValidationError ''case.due_at'') else
     rbind (positive_integer hours ''case.sla_hours'') (\<lambda>h.
     ok \<lparr>dl_band = b, dl_hours = h, dl_started_at = s, dl_due_at = d\<rparr>))))"

section \<open>Reading T11\<close>

text \<open>A section is a mapping as it is, or an object of whose six possible attributes at least one
  is set; the mapping built from an object holds all six keys.\<close>

definition section_attributes :: "string list" where
  "section_attributes = [''act_sla_hours'', ''amber_sla_hours'', ''watch_sla_hours'',
     ''act'', ''amber'', ''watch'']"

definition mapping_section :: "pyval \<Rightarrow> (pyval \<times> pyval) list result" where
  "mapping_section value = (case value of PMap kvs \<Rightarrow> ok kvs
     | _ \<Rightarrow> let values = map (\<lambda>f. (PStr f, or_none (py_attr value f))) section_attributes in
           if \<exists>kv\<in>set values. snd kv \<noteq> PNone then ok values else raise (ValidationError ''T11''))"

definition t11_section :: "pyval \<Rightarrow> (pyval \<times> pyval) list result" where
  "t11_section store = (case store of
       PMap kvs \<Rightarrow> mapping_section (case map_get kvs ''T11'' of None \<Rightarrow> store | Some s \<Rightarrow> s)
     | _ \<Rightarrow>
        (let got = (case store of PStore kvs \<Rightarrow> or_none (lookup kvs ''T11'') | _ \<Rightarrow> PNone) in
         if got \<noteq> PNone then mapping_section got
         else if or_none (py_attr store ''T11'') \<noteq> PNone
         then mapping_section (or_none (py_attr store ''T11''))
         else if or_none (py_attr store ''t11'') \<noteq> PNone
         then mapping_section (or_none (py_attr store ''t11''))
         else raise (ValidationError ''T11'')))"

text \<open>\<open>section.get(field, section.get(short_name))\<close>\<close>

definition section_field :: "(pyval \<times> pyval) list \<Rightarrow> string \<Rightarrow> string \<Rightarrow> int result" where
  "section_field kvs f short =
     (let value = (case map_get kvs f of Some v \<Rightarrow> v | None \<Rightarrow> or_none (map_get kvs short)) in
      if value = PNone then raise (ValidationError (''T11.'' @ f))
      else positive_integer value (''T11.'' @ f))"

definition sla_thresholds_obj :: "sla_thresholds \<Rightarrow> pyval" where
  "sla_thresholds_obj t = PObj ''SlaThresholds'' [(''act_sla_hours'', PInt (act_sla_hours t)),
     (''amber_sla_hours'', PInt (amber_sla_hours t)), (''watch_sla_hours'', PInt (watch_sla_hours t))]"

definition sla_from_store :: "pyval \<Rightarrow> sla_thresholds result" where
  "sla_from_store store = (if is_instance ''SlaThresholds'' store then
       make_sla_thresholds (pyfield store ''act_sla_hours'') (pyfield store ''amber_sla_hours'')
         (pyfield store ''watch_sla_hours'')
     else
       rbind (t11_section store) (\<lambda>sec.
       rbind (section_field sec ''act_sla_hours'' ''act'') (\<lambda>a.
       rbind (section_field sec ''amber_sla_hours'' ''amber'') (\<lambda>b.
       rbind (section_field sec ''watch_sla_hours'' ''watch'') (\<lambda>c.
       make_sla_thresholds (PInt a) (PInt b) (PInt c))))))"

section \<open>The deadline\<close>

definition hours_of :: "sla_thresholds \<Rightarrow> string \<Rightarrow> int result" where
  "hours_of t b = (case lookup [(''act'', act_sla_hours t), (''amber'', amber_sla_hours t),
       (''watch'', watch_sla_hours t)] b of None \<Rightarrow> raise KeyError | Some h \<Rightarrow> ok h)"

definition sla_hours :: "pyval \<Rightarrow> pyval \<Rightarrow> int result" where
  "sla_hours band thresholds =
     rbind (sla_band band) (\<lambda>b. rbind (sla_from_store thresholds) (\<lambda>t. hours_of t b))"

type_synonym calendar = "int \<Rightarrow> int \<Rightarrow> pyval result"

definition elapsed_add_hours :: calendar where
  "elapsed_add_hours started_at hours = (let d = started_at + hours * hour in
     if 0 \<le> d \<and> d \<le> max_instant then ok (PDatetime d) else raise OverflowError)"

text \<open>An adapter with \<open>add_hours\<close> and a plain callable are both a function of the model.\<close>

definition add_hours_with :: "calendar option \<Rightarrow> int \<Rightarrow> int \<Rightarrow> int result" where
  "add_hours_with calendar started_at hours =
     rbind ((case calendar of None \<Rightarrow> elapsed_add_hours | Some c \<Rightarrow> c) started_at hours) (\<lambda>r.
       aware_utc r ''calendar due_at'')"

definition derive_sla :: "calendar option \<Rightarrow> pyval \<Rightarrow> pyval \<Rightarrow> pyval \<Rightarrow> sla_deadline result" where
  "derive_sla calendar band started_at thresholds =
     rbind (aware_utc started_at ''started_at'') (\<lambda>start.
     rbind (sla_hours band thresholds) (\<lambda>hours.
     rbind (add_hours_with calendar start hours) (\<lambda>deadline.
     rbind (sla_band band) (\<lambda>b.
     make_sla_deadline (PStr b) (PInt hours) (PDatetime start) (PDatetime deadline)))))"

definition sla_due_at :: "calendar option \<Rightarrow> pyval \<Rightarrow> pyval \<Rightarrow> pyval \<Rightarrow> int result" where
  "sla_due_at calendar started_at band thresholds =
     rbind (derive_sla calendar band started_at thresholds) (\<lambda>d. ok (dl_due_at d))"

definition is_overdue :: "pyval \<Rightarrow> pyval \<Rightarrow> bool result" where
  "is_overdue due now = rbind (aware_utc due ''due_at'') (\<lambda>d.
     rbind (aware_utc now ''now'') (\<lambda>n. ok (d \<le> n)))"

section \<open>The calendar interface\<close>

locale business_calendar =
  fixes add_hours :: "int \<Rightarrow> int \<Rightarrow> pyval result"
  assumes forward: "add_hours s h = Inr (PDatetime d) \<Longrightarrow> 0 < h \<Longrightarrow> s \<le> d"
    and monotone: "add_hours s h = Inr (PDatetime d) \<Longrightarrow> add_hours s h' = Inr (PDatetime d') \<Longrightarrow>
      h \<le> h' \<Longrightarrow> d \<le> d'"
begin

lemma deadline_of: "derive_sla (Some add_hours) band start thresholds = Inr dl \<Longrightarrow>
    \<exists>s. start = PDatetime s \<and> dl_started_at dl = s \<and> sla_hours band thresholds = Inr (dl_hours dl)
      \<and> add_hours s (dl_hours dl) = Inr (PDatetime (dl_due_at dl)) \<and> 0 < dl_hours dl"
  by (auto simp: derive_sla_def make_sla_deadline_def add_hours_with_def aware_utc_def
      positive_integer_def split: pyval.splits if_splits)

lemma not_before_start:
  "derive_sla (Some add_hours) band start thresholds = Inr dl \<Longrightarrow> dl_started_at dl \<le> dl_due_at dl"
  using deadline_of [of band start thresholds dl] forward by blast

lemma urgent_first:
  assumes "derive_sla (Some add_hours) b start th = Inr dl" "derive_sla (Some add_hours) b' start th = Inr dl'"
    and "dl_hours dl \<le> dl_hours dl'"
  shows "dl_due_at dl \<le> dl_due_at dl'"
  using deadline_of [OF assms(1)] deadline_of [OF assms(2)] monotone assms(3) by auto

end

interpretation elapsed: business_calendar elapsed_add_hours
proof unfold_locales
  show "elapsed_add_hours s h = Inr (PDatetime d) \<Longrightarrow> 0 < h \<Longrightarrow> s \<le> d" for s h d
    by (auto simp: elapsed_add_hours_def Let_def hour_def split: if_splits)
  show "elapsed_add_hours s h = Inr (PDatetime d) \<Longrightarrow> elapsed_add_hours s h' = Inr (PDatetime d') \<Longrightarrow>
      h \<le> h' \<Longrightarrow> d \<le> d'" for s h d h' d'
    by (auto simp: elapsed_add_hours_def Let_def hour_def split: if_splits)
qed

section \<open>Lemmas\<close>

lemma default_calendar: "derive_sla None = derive_sla (Some elapsed_add_hours)"
  by (intro ext) (simp add: derive_sla_def add_hours_with_def)

lemma positive_integer_ok: "positive_integer v f = Inr n \<Longrightarrow> 0 < n"
  by (auto simp: positive_integer_def split: option.splits if_splits)

lemma make_sla_thresholds_ordered:
  assumes "make_sla_thresholds a b c = Inr t"
  shows "0 < act_sla_hours t \<and> act_sla_hours t \<le> amber_sla_hours t \<and> amber_sla_hours t \<le> watch_sla_hours t"
proof -
  obtain x where x: "positive_integer a ''T11.act_sla_hours'' = Inr x" "act_sla_hours t = x"
    "act_sla_hours t \<le> amber_sla_hours t" "amber_sla_hours t \<le> watch_sla_hours t"
    using assms by (auto simp: make_sla_thresholds_def split: if_splits)
  with positive_integer_ok [OF x(1)] show ?thesis by simp
qed

lemma sla_thresholds_ordered:
  "sla_from_store store = Inr t \<Longrightarrow>
   0 < act_sla_hours t \<and> act_sla_hours t \<le> amber_sla_hours t \<and> amber_sla_hours t \<le> watch_sla_hours t"
  by (auto simp: sla_from_store_def dest!: make_sla_thresholds_ordered split: if_splits)

definition band_hours :: "sla_thresholds \<Rightarrow> string \<Rightarrow> int" where
  "band_hours t b = (if b = ''act'' then act_sla_hours t else if b = ''amber'' then amber_sla_hours t
     else watch_sla_hours t)"

lemma sla_hours_band:
  assumes "sla_hours band store = Inr h"
  shows "\<exists>b t. sla_band band = Inr b \<and> b \<in> set sla_bands \<and> sla_from_store store = Inr t
    \<and> h = band_hours t b"
proof -
  obtain b t where b: "sla_band band = Inr b" and t: "sla_from_store store = Inr t" "hours_of t b = Inr h"
    using assms by (auto simp: sla_hours_def)
  moreover have "b \<in> set sla_bands"
    using b by (auto simp: sla_band_def split: option.splits if_splits)
  ultimately show ?thesis
    by (auto simp: hours_of_def sla_bands_def band_hours_def split: if_splits)
qed

text \<open>
  the deadline of a case under the default calendar. Whenever \<open>derive_sla\<close> returns, the
  deadline lies the configured positive number of hours of the (normalised) band after the
  start, the case is overdue from that instant on, the instant itself included, and not before;
  and a more urgent band of the same store never has the later deadline.
\<close>

theorem sla_deadline:
  assumes "derive_sla None band start store = Inr dl"
  shows "\<exists>t. sla_from_store store = Inr t \<and> dl_hours dl = band_hours t (dl_band dl) \<and> 0 < dl_hours dl
    \<and> dl_due_at dl = dl_started_at dl + dl_hours dl * hour \<and> start = PDatetime (dl_started_at dl)
    \<and> (\<forall>now. is_overdue (PDatetime (dl_due_at dl)) (PDatetime now) = Inr (dl_due_at dl \<le> now))
    \<and> (\<forall>band' dl'. derive_sla None band' start store = Inr dl' \<longrightarrow>
         (dl_band dl = ''act'' \<or> dl_band dl' = ''watch'') \<longrightarrow> dl_due_at dl \<le> dl_due_at dl')"
proof -
  have hours: "\<exists>t. sla_from_store store = Inr t \<and> dl_hours x = band_hours t (dl_band x)
      \<and> dl_band x \<in> set sla_bands" if x: "derive_sla None b start store = Inr x" for b x
  proof -
    obtain h bb where h: "sla_hours b store = Inr h" and bb: "sla_band b = Inr bb"
      and x2: "\<exists>s d. make_sla_deadline (PStr bb) (PInt h) (PDatetime s) (PDatetime d) = Inr x"
      using x by (auto simp: derive_sla_def)
    obtain t where t: "sla_from_store store = Inr t" "h = band_hours t bb" "bb \<in> set sla_bands"
      using sla_hours_band [OF h] bb by auto
    have "\<forall>c\<in>set sla_bands. lower (strip c) = c" by code_simp
    then have "sla_band (PStr bb) = Inr bb" using t(3) by (simp add: sla_band_def)
    with x2 have "dl_band x = bb" "dl_hours x = h"
      by (auto simp: make_sla_deadline_def positive_integer_def aware_utc_def split: if_splits)
    with t show ?thesis by simp
  qed
  obtain s where s: "start = PDatetime s" "dl_started_at dl = s"
    "elapsed_add_hours s (dl_hours dl) = Inr (PDatetime (dl_due_at dl))" "0 < dl_hours dl"
    using elapsed.deadline_of [OF assms [unfolded default_calendar]] by auto
  obtain t where t: "sla_from_store store = Inr t" "dl_hours dl = band_hours t (dl_band dl)"
    "dl_band dl \<in> set sla_bands" using hours [OF assms] by auto
  have order: "dl_due_at dl \<le> dl_due_at dl'"
    if a: "derive_sla None band' start store = Inr dl'" and b: "dl_band dl = ''act'' \<or> dl_band dl' = ''watch''"
    for band' dl'
  proof -
    have "dl_hours dl \<le> dl_hours dl'"
      using hours [OF a] t b sla_thresholds_ordered [OF t(1)]
      by (auto simp: band_hours_def sla_bands_def)
    then show ?thesis
      by (rule elapsed.urgent_first [OF assms [unfolded default_calendar] a [unfolded default_calendar]])
  qed
  have "dl_due_at dl = s + dl_hours dl * hour"
    using s(3) by (auto simp: elapsed_add_hours_def Let_def split: if_splits)
  with s t order show ?thesis by (auto simp: is_overdue_def aware_utc_def)
qed

definition demo_t11 :: pyval where
  "demo_t11 = PMap [(PStr ''T11'', PMap [(PStr ''act_sla_hours'', PInt 4),
     (PStr ''amber'', PInt 24), (PStr ''watch_sla_hours'', PInt 72)])]"

lemma demo_deadline: "derive_sla None (PStr '' ACT '') (PDatetime 5) demo_t11 =
    Inr \<lparr>dl_band = ''act'', dl_hours = 4, dl_started_at = 5, dl_due_at = 14400000005\<rparr>"
proof -
  have b: "sla_band (PStr '' ACT '') = Inr ''act''" "sla_band (PStr ''act'') = Inr ''act''"
    unfolding sla_band_def text_of_simps option.case by code_simp+
  have "sla_from_store demo_t11 = Inr \<lparr>act_sla_hours = 4, amber_sla_hours = 24, watch_sla_hours = 72\<rparr>"
    by (simp add: sla_from_store_def demo_t11_def t11_section_def mapping_section_def map_get_def
        section_field_def positive_integer_def make_sla_thresholds_def is_instance_def)
  then show ?thesis
    by (simp add: derive_sla_def aware_utc_def sla_hours_def b hours_of_def add_hours_with_def
        elapsed_add_hours_def Let_def hour_def max_instant_def max_ordinal_def make_sla_deadline_def
        positive_integer_def)
qed

theorem sla_deadline_witness:
  "is_overdue (PDatetime 14400000005) (PDatetime 14400000005) = Inr True
   \<and> is_overdue (PDatetime 14400000005) (PDatetime 14400000004) = Inr False"
  using sla_deadline [OF demo_deadline] by (elim exE conjE) simp

text \<open>
  A section given as an object is accepted when it carries only the short names, but the mapping
  built from it holds the long names too, with \<open>None\<close>, so the short names are never read; in a
  mapping they are.
\<close>

lemma object_section_short_names_refused:
  "sla_from_store (PStore [(''T11'', PObj c [(''act'', PInt a), (''amber'', PInt b), (''watch'', PInt w)])])
     = Inl (ValidationError ''T11.act_sla_hours'')"
  "sla_from_store (PStore [(''T11'', PMap [(PStr ''act'', PInt 4), (PStr ''amber'', PInt 24),
       (PStr ''watch'', PInt 72)])])
     = Inr \<lparr>act_sla_hours = 4, amber_sla_hours = 24, watch_sla_hours = 72\<rparr>"
  by (simp_all add: sla_from_store_def is_instance_def t11_section_def mapping_section_def
      section_attributes_def section_field_def map_get_def positive_integer_def
      make_sla_thresholds_def)

end
