(* ===== verification/Triage_Banding.thy ===== *)
theory Triage_Banding
  imports Py_Values
begin

text \<open>
  \<open>domain/triage/banding.py\<close>: the T1 and T2 thresholds read from a store, a mapping or an
  object, and the band of a displayed probability. The higher band owns its boundary; an absent
  probability is \<open>watch\<close>, never zero.
\<close>

datatype triage_band = ACT | AMBER | WATCH

definition band_name :: "triage_band \<Rightarrow> string" where
  "band_name b = (case b of ACT \<Rightarrow> ''act'' | AMBER \<Rightarrow> ''amber'' | WATCH \<Rightarrow> ''watch'')"

text \<open>Severity orders the bands.\<close>

definition severity :: "triage_band \<Rightarrow> nat" where
  "severity b = (case b of WATCH \<Rightarrow> 0 | AMBER \<Rightarrow> 1 | ACT \<Rightarrow> 2)"

record triage_thresholds =
  tt_act :: decimal
  tt_amber :: decimal
  tt_confidence_floor :: decimal

definition make_triage_thresholds :: "pyval \<Rightarrow> pyval \<Rightarrow> pyval \<Rightarrow> triage_thresholds result" where
  "make_triage_thresholds act amber confidence_floor =
     rbind (to_fraction act) (\<lambda>a.
     rbind (to_fraction amber) (\<lambda>m.
     rbind (to_fraction confidence_floor) (\<lambda>c.
     if a < m then raise ValueError
     else ok \<lparr>tt_act = a, tt_amber = m, tt_confidence_floor = c\<rparr>)))"

definition triage_thresholds_obj :: "triage_thresholds \<Rightarrow> pyval" where
  "triage_thresholds_obj t = PObj ''TriageThresholds'' [(''act'', PDec (tt_act t)),
     (''amber'', PDec (tt_amber t)), (''confidence_floor'', PDec (tt_confidence_floor t))]"

definition decimal_or_zero :: "pyval \<Rightarrow> decimal" where
  "decimal_or_zero v = (case finite_dec v of Some q \<Rightarrow> q | None \<Rightarrow> 0)"

definition triage_thresholds_of_obj :: "pyval \<Rightarrow> triage_thresholds" where
  "triage_thresholds_of_obj v = \<lparr>tt_act = decimal_or_zero (pyfield v ''act''),
     tt_amber = decimal_or_zero (pyfield v ''amber''),
     tt_confidence_floor = decimal_or_zero (pyfield v ''confidence_floor'')\<rparr>"

definition required_value :: "pyval \<Rightarrow> string \<Rightarrow> pyval result" where
  "required_value sec f = (case sec of PNone \<Rightarrow> raise ValueError
     | PMap kvs \<Rightarrow> (case map_get kvs f of None \<Rightarrow> raise ValueError | Some v \<Rightarrow> ok v)
     | _ \<Rightarrow> (case py_attr sec f of None \<Rightarrow> raise ValueError | Some v \<Rightarrow> ok v))"

definition required_decimal :: "pyval \<Rightarrow> string \<Rightarrow> decimal result" where
  "required_decimal sec f = rbind (required_value sec f) to_decimal"

definition thresholds_from :: "pyval \<Rightarrow> pyval \<Rightarrow> triage_thresholds result" where
  "thresholds_from t1 t2 =
     rbind (required_decimal t1 ''act'') (\<lambda>a.
     rbind (required_decimal t1 ''amber'') (\<lambda>m.
     rbind (required_decimal t2 ''confidence_floor'') (\<lambda>c.
     make_triage_thresholds (PDec a) (PDec m) (PDec c))))"

definition call_getter :: "pyval \<Rightarrow> string \<Rightarrow> pyval" where
  "call_getter store n = (case store of PStore kvs \<Rightarrow> or_none (lookup kvs n) | _ \<Rightarrow> PNone)"

fun attribute_section :: "pyval \<Rightarrow> string list \<Rightarrow> pyval" where
  "attribute_section store [] = PNone"
| "attribute_section store (n # ns) =
     (if or_none (py_attr store n) \<noteq> PNone then or_none (py_attr store n) else attribute_section store ns)"

definition thresholds_from_store :: "pyval \<Rightarrow> triage_thresholds result" where
  "thresholds_from_store store =
     (if is_instance ''TriageThresholds'' store then ok (triage_thresholds_of_obj store) else
      case store of PMap kvs \<Rightarrow>
        (if map_get kvs ''T1'' \<noteq> None \<or> map_get kvs ''T2'' \<noteq> None
         then thresholds_from (or_none (map_get kvs ''T1'')) (or_none (map_get kvs ''T2''))
         else thresholds_from store store)
      | _ \<Rightarrow>
        (let g1 = call_getter store ''T1''; g2 = call_getter store ''T2'';
             a1 = attribute_section store [''T1'', ''t1'']; a2 = attribute_section store [''T2'', ''t2''] in
         if g1 \<noteq> PNone \<or> g2 \<noteq> PNone then thresholds_from g1 g2
         else if a1 \<noteq> PNone \<or> a2 \<noteq> PNone then thresholds_from a1 a2
         else thresholds_from store store))"

definition band :: "pyval \<Rightarrow> pyval \<Rightarrow> triage_band result" where
  "band probability thresholds =
     rbind (thresholds_from_store thresholds) (\<lambda>t.
     if probability = PNone then ok WATCH else
     rbind (to_fraction probability) (\<lambda>p.
     if tt_act t \<le> p then ok ACT else if tt_amber t \<le> p then ok AMBER else ok WATCH))"

section \<open>Lemmas\<close>

definition triage_thresholds_ok :: "triage_thresholds \<Rightarrow> bool" where
  "triage_thresholds_ok t = (0 \<le> tt_amber t \<and> tt_amber t \<le> tt_act t \<and> tt_act t \<le> 1
     \<and> 0 \<le> tt_confidence_floor t \<and> tt_confidence_floor t \<le> 1)"

lemma thresholds_of_thresholds_obj [simp]: "triage_thresholds_of_obj (triage_thresholds_obj t) = t"
  by (simp add: triage_thresholds_of_obj_def triage_thresholds_obj_def decimal_or_zero_def)

lemma from_store_obj [simp]: "thresholds_from_store (triage_thresholds_obj t) = Inr t"
  by (simp add: thresholds_from_store_def) (simp add: triage_thresholds_obj_def)

lemma make_triage_thresholds_ok: "make_triage_thresholds a m c = Inr t \<Longrightarrow> triage_thresholds_ok t"
  by (auto simp: make_triage_thresholds_def triage_thresholds_ok_def to_fraction_def
      split: if_splits)

lemma thresholds_from_store_ok:
  "thresholds_from_store s = Inr t \<Longrightarrow> \<not> is_instance ''TriageThresholds'' s \<Longrightarrow> triage_thresholds_ok t"
  by (auto simp: thresholds_from_store_def thresholds_from_def Let_def
      dest!: make_triage_thresholds_ok split: pyval.splits if_splits)

text \<open>
  the bands partition the probabilities. With configured thresholds, the band of a
  probability is at least as severe as that of any smaller one, it is \<open>act\<close> exactly from T1.act
  on and \<open>watch\<close> exactly below T1.amber (each boundary belongs to the higher band), and an absent
  probability is \<open>watch\<close>.
\<close>

theorem band_monotone:
  assumes "thresholds_from_store store = Inr t" and "triage_thresholds_ok t"
    and "0 \<le> p" "p \<le> q" "q \<le> 1"
  shows "\<exists>b c. band (PDec p) store = Inr b \<and> band (PDec q) store = Inr c
    \<and> severity b \<le> severity c
    \<and> (b = ACT \<longleftrightarrow> tt_act t \<le> p) \<and> (b = WATCH \<longleftrightarrow> p < tt_amber t)
    \<and> band PNone store = Inr WATCH"
  using assms by (auto simp: band_def to_fraction_def severity_def triage_thresholds_ok_def)

theorem band_monotone_witness:
  "\<exists>b c. band (PDec (1 / 2)) (PMap [(PStr ''act'', PStr ''0.5''), (PStr ''amber'', PInt 0),
      (PStr ''confidence_floor'', PDec (3 / 10))]) = Inr b
    \<and> band (PDec 1) (PMap [(PStr ''act'', PStr ''0.5''), (PStr ''amber'', PInt 0),
      (PStr ''confidence_floor'', PDec (3 / 10))]) = Inr c \<and> b = ACT \<and> severity b \<le> severity c"
proof -
  define store where "store = PMap [(PStr ''act'', PStr ''0.5''), (PStr ''amber'', PInt 0),
      (PStr ''confidence_floor'', PDec (3 / 10))]"
  have d: "dec_of_text ''0.5'' = Some (1 / 2)"
    by (simp add: dec_of_text_def strip_def is_space_def split_sign_def span_def is_digit_def
        exponent_of_text_def nat_of_digits_def digit_value_def pow10_def)
  have s: "thresholds_from_store store
      = Inr \<lparr>tt_act = 1 / 2, tt_amber = 0, tt_confidence_floor = 3 / 10\<rparr>"
    by (simp add: thresholds_from_store_def store_def is_instance_def map_get_def
        thresholds_from_def required_decimal_def required_value_def to_decimal_def d
        make_triage_thresholds_def to_fraction_def)
  have "\<exists>b c. band (PDec (1 / 2)) store = Inr b \<and> band (PDec 1) store = Inr c
      \<and> severity b \<le> severity c \<and> (b = ACT \<longleftrightarrow> 1 / 2 \<le> (1 / 2 :: rat))"
    using band_monotone [OF s, of "1 / 2" 1] by (auto simp: triage_thresholds_ok_def)
  then show ?thesis unfolding store_def [symmetric] by auto
qed

end
