(* ===== verification/Triage_Rank.thy ===== *)
theory Triage_Rank
  imports Triage_Banding
begin

text \<open>
  \<open>domain/triage/urgency.py\<close>: borrower and forecast facts from rows, the worst usable
  covenant-horizon, urgency as probability times exposure times confidence, and the ranked queue.
  The printed form of a Decimal depends on its trailing zeros, which a value of the model does
  not have; where a reason prints one, the printer is a parameter \<open>sd\<close> of the definitions.
\<close>

section \<open>Reading rows\<close>

fun read_any :: "pyval \<Rightarrow> string list \<Rightarrow> pyval \<Rightarrow> pyval" where
  "read_any value [] fallback = fallback"
| "read_any value (n # ns) fallback =
     (case (case value of PMap kvs \<Rightarrow> map_get kvs n | _ \<Rightarrow> py_attr value n) of
        Some v \<Rightarrow> v | None \<Rightarrow> read_any value ns fallback)"

definition supplied :: "pyval list \<Rightarrow> pyval list" where
  "supplied vs = filter (\<lambda>v. v \<noteq> PNone) vs"

definition coalesce_uuid :: "pyval list \<Rightarrow> nat option result" where
  "coalesce_uuid vs = (case supplied vs of [] \<Rightarrow> ok None
     | u # us \<Rightarrow> if \<exists>v\<in>set (u # us). uuid_of v = None then raise TypeError
         else if \<exists>v\<in>set us. v \<noteq> u then raise ValueError else ok (uuid_of u))"

definition coalesce_int :: "pyval \<Rightarrow> pyval \<Rightarrow> int option result" where
  "coalesce_int first second =
     (if first \<noteq> PNone \<and> second \<noteq> PNone \<and> first \<noteq> second then raise ValueError else
      let v = (if first \<noteq> PNone then first else second) in
      if v = PNone then ok None
      else case plain_int v of None \<Rightarrow> raise TypeError | Some n \<Rightarrow> ok (Some n))"

definition bounded_text :: "pyval \<Rightarrow> nat \<Rightarrow> string result" where
  "bounded_text value maximum = (case text_of value of None \<Rightarrow> raise ValueError
     | Some s \<Rightarrow> if strip s = [] \<or> maximum < length s then raise ValueError else ok (strip s))"

definition coalesce_text :: "pyval \<Rightarrow> pyval \<Rightarrow> pyval \<Rightarrow> string result" where
  "coalesce_text a b c = (case supplied [a, b, c] of [] \<Rightarrow> raise TypeError
     | v # vs \<Rightarrow> if \<exists>x\<in>set (v # vs). text_of x = None then raise TypeError
         else let texts = map (\<lambda>x. strip (case text_of x of Some s \<Rightarrow> s | None \<Rightarrow> [])) (v # vs) in
              if \<exists>t\<in>set (tl texts). t \<noteq> hd texts then raise ValueError
              else bounded_text (PStr (hd texts)) 100)"

definition optional_bounded_text :: "pyval \<Rightarrow> nat \<Rightarrow> string option result" where
  "optional_bounded_text v maximum =
     (if v = PNone then ok None else rbind (bounded_text v maximum) (\<lambda>s. ok (Some s)))"

definition optional_fraction :: "pyval \<Rightarrow> decimal option result" where
  "optional_fraction v = (if v = PNone then ok None else rbind (to_fraction v) (\<lambda>q. ok (Some q)))"

definition optional_money :: "pyval \<Rightarrow> decimal option result" where
  "optional_money v = (if v = PNone then ok None else
     rbind (to_decimal v) (\<lambda>q. if q < 0 then raise ValueError else ok (Some q)))"

section \<open>Facts\<close>

record forecast_fact =
  ff_covenant_version_id :: nat
  ff_horizon_days :: int
  ff_probability :: "decimal option"
  ff_confidence :: "decimal option"
  ff_below_confidence_floor :: bool
  ff_suppressed :: bool
  ff_reason :: "string option"

definition optional_flag :: "pyval \<Rightarrow> bool option result" where
  "optional_flag v = (case v of PNone \<Rightarrow> ok None | PBool b \<Rightarrow> ok (Some b) | _ \<Rightarrow> raise TypeError)"

definition make_forecast :: "pyval \<Rightarrow> pyval \<Rightarrow> pyval \<Rightarrow> pyval \<Rightarrow> pyval \<Rightarrow> pyval \<Rightarrow> pyval \<Rightarrow> pyval \<Rightarrow> pyval
    \<Rightarrow> pyval \<Rightarrow> pyval \<Rightarrow> pyval \<Rightarrow> pyval \<Rightarrow> forecast_fact result" where
  "make_forecast covenant_version_id horizon_days probability confidence below suppressed reason
     version_id i forecast_id horizon suppression_reason probability_suppressed =
     rbind (coalesce_uuid [covenant_version_id, version_id, i, forecast_id]) (\<lambda>u.
     case u of None \<Rightarrow> raise TypeError | Some u \<Rightarrow>
     rbind (coalesce_int horizon_days horizon) (\<lambda>h.
     case h of None \<Rightarrow> raise TypeError | Some h \<Rightarrow>
     if h < 0 then raise ValueError else
     rbind (case below of PBool b \<Rightarrow> ok b | _ \<Rightarrow> raise TypeError) (\<lambda>b.
     rbind (optional_flag suppressed) (\<lambda>s.
     rbind (optional_flag probability_suppressed) (\<lambda>ps.
     if s \<noteq> None \<and> ps \<noteq> None \<and> s \<noteq> ps then raise ValueError
     else if reason \<noteq> PNone \<and> suppression_reason \<noteq> PNone \<and> reason \<noteq> suppression_reason
     then raise ValueError else
     rbind (optional_bounded_text (if reason \<noteq> PNone then reason else suppression_reason) 500) (\<lambda>r.
     rbind (optional_fraction probability) (\<lambda>p.
     rbind (optional_fraction confidence) (\<lambda>c.
     ok \<lparr>ff_covenant_version_id = u, ff_horizon_days = h, ff_probability = p, ff_confidence = c,
         ff_below_confidence_floor = b,
         ff_suppressed = (case s of Some x \<Rightarrow> x | None \<Rightarrow> (case ps of Some x \<Rightarrow> x | None \<Rightarrow> False)),
         ff_reason = r\<rparr>))))))))"

definition forecast_obj :: "forecast_fact \<Rightarrow> pyval" where
  "forecast_obj f = PObj ''ForecastFact''
     [(''covenant_version_id'', PUuid (ff_covenant_version_id f)),
      (''horizon_days'', PInt (ff_horizon_days f)), (''probability'', pyopt PDec (ff_probability f)),
      (''confidence'', pyopt PDec (ff_confidence f)),
      (''below_confidence_floor'', PBool (ff_below_confidence_floor f)),
      (''suppressed'', PBool (ff_suppressed f)), (''reason'', pyopt PStr (ff_reason f))]"

definition forecast_of_obj :: "pyval \<Rightarrow> forecast_fact" where
  "forecast_of_obj v =
     \<lparr>ff_covenant_version_id = (case pyfield v ''covenant_version_id'' of PUuid u \<Rightarrow> u | _ \<Rightarrow> 0),
      ff_horizon_days = (case pyfield v ''horizon_days'' of PInt n \<Rightarrow> n | _ \<Rightarrow> 0),
      ff_probability = finite_dec (pyfield v ''probability''),
      ff_confidence = finite_dec (pyfield v ''confidence''),
      ff_below_confidence_floor = (pyfield v ''below_confidence_floor'' = PBool True),
      ff_suppressed = (pyfield v ''suppressed'' = PBool True),
      ff_reason = text_of (pyfield v ''reason'')\<rparr>"

definition forecast_from_value :: "pyval \<Rightarrow> forecast_fact result" where
  "forecast_from_value v = (if is_instance ''ForecastFact'' v then ok (forecast_of_obj v) else
     make_forecast (read_any v [''covenant_version_id'', ''version_id'', ''id''] PNone)
       (read_any v [''horizon_days'', ''horizon''] PNone)
       (read_any v [''probability''] PNone) (read_any v [''confidence''] PNone)
       (read_any v [''below_confidence_floor'', ''below_floor''] (PBool False))
       (read_any v [''suppressed'', ''probability_suppressed''] PNone)
       (read_any v [''reason'', ''not_computable_reason'', ''suppression_reason''] PNone)
       PNone PNone PNone PNone PNone PNone)"

record triage_input =
  ti_borrower_id :: nat
  ti_reference :: string
  ti_exposure :: "decimal option"
  ti_forecasts :: "forecast_fact list"
  ti_sma_band :: "string option"

text \<open>An iterable of forecasts is a list; a mapping or a fact is one forecast; text and what is
  not iterable are type errors.\<close>

definition forecasts_of :: "pyval \<Rightarrow> forecast_fact list result" where
  "forecasts_of v =
     (if is_mapping v \<or> is_instance ''ForecastFact'' v
      then rbind (forecast_from_value v) (\<lambda>f. ok [f])
      else case v of PList xs \<Rightarrow> rmap forecast_from_value xs | _ \<Rightarrow> raise TypeError)"

definition make_triage_input :: "pyval \<Rightarrow> pyval \<Rightarrow> pyval \<Rightarrow> pyval \<Rightarrow> pyval \<Rightarrow> pyval \<Rightarrow> pyval \<Rightarrow> pyval
    \<Rightarrow> triage_input result" where
  "make_triage_input borrower_id reference exposure forecasts borrower_reference borrower_ref
     forecast sma_band =
     rbind (case uuid_of borrower_id of None \<Rightarrow> raise TypeError | Some u \<Rightarrow> ok u) (\<lambda>b.
     rbind (coalesce_text reference borrower_reference borrower_ref) (\<lambda>r.
     rbind (optional_money exposure) (\<lambda>e.
     rbind (forecasts_of forecasts) (\<lambda>fs.
     rbind (if forecast = PNone then ok fs else
              rbind (forecast_from_value forecast) (\<lambda>f.
                if fs \<noteq> [] then raise ValueError else ok [f])) (\<lambda>fs.
     rbind (optional_bounded_text sma_band 100) (\<lambda>s.
     ok \<lparr>ti_borrower_id = b, ti_reference = r, ti_exposure = e, ti_forecasts = fs,
         ti_sma_band = s\<rparr>))))))"

definition triage_input_obj :: "triage_input \<Rightarrow> pyval" where
  "triage_input_obj i = PObj ''TriageInput''
     [(''borrower_id'', PUuid (ti_borrower_id i)), (''reference'', PStr (ti_reference i)),
      (''exposure'', pyopt PDec (ti_exposure i)),
      (''forecasts'', PList (map forecast_obj (ti_forecasts i))),
      (''sma_band'', pyopt PStr (ti_sma_band i))]"

definition triage_input_of_obj :: "pyval \<Rightarrow> triage_input" where
  "triage_input_of_obj v =
     \<lparr>ti_borrower_id = (case pyfield v ''borrower_id'' of PUuid u \<Rightarrow> u | _ \<Rightarrow> 0),
      ti_reference = (case text_of (pyfield v ''reference'') of Some s \<Rightarrow> s | None \<Rightarrow> []),
      ti_exposure = finite_dec (pyfield v ''exposure''),
      ti_forecasts = (case pyfield v ''forecasts'' of PList xs \<Rightarrow> map forecast_of_obj xs | _ \<Rightarrow> []),
      ti_sma_band = text_of (pyfield v ''sma_band'')\<rparr>"

definition triage_input_from_value :: "pyval \<Rightarrow> triage_input result" where
  "triage_input_from_value v = (if is_instance ''TriageInput'' v then ok (triage_input_of_obj v) else
     make_triage_input (read_any v [''borrower_id''] PNone)
       (read_any v [''reference'', ''borrower_reference'', ''borrower_ref''] PNone)
       (read_any v [''exposure''] PNone) (read_any v [''forecasts''] (PList []))
       PNone PNone PNone (read_any v [''sma_band''] PNone))"

section \<open>Entries\<close>

datatype triage_state = AVAILABLE | SUPPRESSED | NO_FORECAST | UNRANKABLE

definition triage_state_name :: "triage_state \<Rightarrow> string" where
  "triage_state_name s = (case s of AVAILABLE \<Rightarrow> ''available'' | SUPPRESSED \<Rightarrow> ''suppressed''
     | NO_FORECAST \<Rightarrow> ''no_forecast'' | UNRANKABLE \<Rightarrow> ''unrankable'')"

record ranked_facts =
  rf_borrower_id :: nat
  rf_reference :: string
  rf_exposure :: "decimal option"
  rf_worst_covenant_version_id :: "nat option"
  rf_worst_horizon :: "int option"
  rf_probability :: "decimal option"
  rf_confidence :: "decimal option"
  rf_urgency :: "decimal option"
  rf_band :: triage_band
  rf_sma_band :: "string option"
  rf_state :: triage_state
  rf_reason :: string
  rf_why :: "(string \<times> pyval) list"

record triage_entry = ranked_facts +
  te_rank :: int
  te_tie_break_rule :: string
  te_what_changed :: "string option"

definition tie_break_rule_text :: string where
  "tie_break_rule_text =
     ''urgency descending, then exposure descending, then borrower reference ascending''"

definition worst_horizon_rule_text :: string where
  "worst_horizon_rule_text = ''highest probability at a covenant horizon; ties use higher confidence, ''
     @ ''then shorter horizon, then covenant version id''"

definition urgency_formula_text :: string where
  "urgency_formula_text = ''probability '' @ [CHR 0xD7] @ '' exposure '' @ [CHR 0xD7] @ '' confidence''"

definition urgency :: "pyval \<Rightarrow> pyval \<Rightarrow> pyval \<Rightarrow> decimal option result" where
  "urgency probability exposure confidence =
     (if probability = PNone \<or> exposure = PNone \<or> confidence = PNone then ok None else
      rbind (optional_money exposure) (\<lambda>m.
      case m of None \<Rightarrow> raise AssertionError | Some e \<Rightarrow>
      rbind (to_fraction probability) (\<lambda>p. rbind (to_fraction confidence) (\<lambda>c.
        ok (Some (dmul (dmul p e) c))))))"

definition is_usable :: "decimal \<Rightarrow> forecast_fact \<Rightarrow> bool" where
  "is_usable confidence_floor f = (case (ff_probability f, ff_confidence f) of
       (Some p, Some c) \<Rightarrow> \<not> ff_below_confidence_floor f \<and> \<not> ff_suppressed f \<and> confidence_floor \<le> c
     | _ \<Rightarrow> False)"

definition opt_or_zero :: "decimal option \<Rightarrow> decimal" where
  "opt_or_zero d = (case d of None \<Rightarrow> 0 | Some q \<Rightarrow> q)"

text \<open>The keys of \<open>max\<close>; \<open>_worst_key\<close> asserts that both fractions are present, which its
  only caller has checked.\<close>

definition worst_key :: "forecast_fact \<Rightarrow> decimal \<times> decimal \<times> int \<times> int" where
  "worst_key f = (opt_or_zero (ff_probability f), opt_or_zero (ff_confidence f), - ff_horizon_days f,
     - int (ff_covenant_version_id f))"

definition suppressed_key :: "forecast_fact \<Rightarrow> int \<times> decimal \<times> decimal \<times> int \<times> int" where
  "suppressed_key f = (if ff_probability f \<noteq> None then 0 else -1, opt_or_zero (ff_probability f),
     opt_or_zero (ff_confidence f), - ff_horizon_days f, - int (ff_covenant_version_id f))"

definition suppression_reason_text :: "(decimal \<Rightarrow> string) \<Rightarrow> forecast_fact \<Rightarrow> decimal \<Rightarrow> string" where
  "suppression_reason_text sd f t2_floor = (case ff_reason f of Some r \<Rightarrow> ''forecast suppressed: '' @ r
     | None \<Rightarrow>
        if ff_below_confidence_floor f \<or> (case ff_confidence f of None \<Rightarrow> False | Some c \<Rightarrow> c < t2_floor)
        then ''forecast suppressed: confidence ''
          @ (case ff_confidence f of None \<Rightarrow> ''unknown'' | Some c \<Rightarrow> sd c)
          @ '' is below the inclusive '' @ ''T2 floor '' @ sd t2_floor
          @ ''; probability is absent and the borrower remains watch''
        else ''forecast suppressed: probability is unavailable; the borrower remains watch'')"

definition why_map :: "triage_thresholds \<Rightarrow> triage_state \<Rightarrow> string \<Rightarrow> int option \<Rightarrow> decimal option
    \<Rightarrow> decimal option \<Rightarrow> decimal option \<Rightarrow> (string \<times> pyval) list" where
  "why_map t st reason horizon p c u =
     [(''state'', PStr (triage_state_name st)), (''reason'', PStr reason),
      (''urgency_formula'', PStr urgency_formula_text),
      (''worst_horizon_rule'', PStr worst_horizon_rule_text),
      (''worst_horizon'', pyopt PInt horizon), (''probability'', pyopt PDec p),
      (''confidence'', pyopt PDec c), (''urgency'', pyopt PDec u),
      (''t1'', PMap [(PStr ''act'', PDec (tt_act t)), (PStr ''amber'', PDec (tt_amber t))]),
      (''t2'', PMap [(PStr ''confidence_floor'', PDec (tt_confidence_floor t))]),
      (''banding_rule'', PStr (''act when probability >= T1.act; amber when probability >= T1.amber; ''
         @ ''otherwise watch; exact boundaries belong to the higher band'')),
      (''tie_break_rule'', PStr tie_break_rule_text), (''tie_break'', PStr tie_break_rule_text)]"

section \<open>Building and ordering the rows\<close>

definition no_forecast_facts :: "triage_input \<Rightarrow> triage_thresholds \<Rightarrow> ranked_facts" where
  "no_forecast_facts v t =
     \<lparr>rf_borrower_id = ti_borrower_id v, rf_reference = ti_reference v, rf_exposure = ti_exposure v,
      rf_worst_covenant_version_id = None, rf_worst_horizon = None, rf_probability = None,
      rf_confidence = None, rf_urgency = None, rf_band = WATCH, rf_sma_band = ti_sma_band v,
      rf_state = NO_FORECAST,
      rf_reason = ''no forecast is available for this borrower; included at the bottom of the queue'',
      rf_why = why_map t NO_FORECAST ''no forecast is available'' None None None None\<rparr>"

definition unrankable_reason :: string where
  "unrankable_reason = ''forecast is available but exposure or confidence is unavailable; ''
     @ ''urgency is not rankable''"

definition worst_reason :: "int \<Rightarrow> string" where
  "worst_reason days = ''worst covenant-horizon is '' @ int_text days @ '' days; ''
     @ ''urgency = '' @ urgency_formula_text"

definition usable_facts :: "triage_input \<Rightarrow> triage_thresholds \<Rightarrow> forecast_fact \<Rightarrow> ranked_facts result" where
  "usable_facts v t f =
     (case ff_probability f of None \<Rightarrow> raise RuntimeError | Some p \<Rightarrow>
     rbind (urgency (PDec p) (pyopt PDec (ti_exposure v)) (pyopt PDec (ff_confidence f))) (\<lambda>u.
     rbind (case u of None \<Rightarrow> ok (UNRANKABLE, WATCH, unrankable_reason)
            | Some x \<Rightarrow> rbind (band (PDec p) (triage_thresholds_obj t)) (\<lambda>b.
                ok (AVAILABLE, b, worst_reason (ff_horizon_days f)))) (\<lambda>(st, b, reason).
     ok \<lparr>rf_borrower_id = ti_borrower_id v, rf_reference = ti_reference v,
         rf_exposure = ti_exposure v,
         rf_worst_covenant_version_id = Some (ff_covenant_version_id f),
         rf_worst_horizon = Some (ff_horizon_days f), rf_probability = Some p,
         rf_confidence = ff_confidence f, rf_urgency = u, rf_band = b,
         rf_sma_band = ti_sma_band v, rf_state = st, rf_reason = reason,
         rf_why = why_map t st reason (Some (ff_horizon_days f)) (Some p) (ff_confidence f) u\<rparr>)))"

definition suppressed_facts :: "(decimal \<Rightarrow> string) \<Rightarrow> triage_input \<Rightarrow> triage_thresholds
    \<Rightarrow> forecast_fact \<Rightarrow> ranked_facts" where
  "suppressed_facts sd v t f =
     (let reason = suppression_reason_text sd f (tt_confidence_floor t) in
      \<lparr>rf_borrower_id = ti_borrower_id v, rf_reference = ti_reference v, rf_exposure = ti_exposure v,
       rf_worst_covenant_version_id = Some (ff_covenant_version_id f),
       rf_worst_horizon = Some (ff_horizon_days f), rf_probability = None,
       rf_confidence = ff_confidence f, rf_urgency = None, rf_band = WATCH,
       rf_sma_band = ti_sma_band v, rf_state = SUPPRESSED, rf_reason = reason,
       rf_why = why_map t SUPPRESSED reason (Some (ff_horizon_days f)) None (ff_confidence f) None\<rparr>)"

definition build_ranked_entry :: "(decimal \<Rightarrow> string) \<Rightarrow> triage_thresholds \<Rightarrow> triage_input
    \<Rightarrow> ranked_facts result" where
  "build_ranked_entry sd t v = (case ti_forecasts v of [] \<Rightarrow> ok (no_forecast_facts v t)
     | f # fs \<Rightarrow>
        (case filter (is_usable (tt_confidence_floor t)) (f # fs) of
           u # us \<Rightarrow> usable_facts v t (max_key worst_key u us)
         | [] \<Rightarrow> ok (suppressed_facts sd v t (max_key suppressed_key f fs))))"

text \<open>Negating a Decimal rounds it to the precision of the context.\<close>

definition rank_sort_key :: "ranked_facts \<Rightarrow> nat \<times> decimal \<times> nat \<times> decimal \<times> string" where
  "rank_sort_key r = (if rf_urgency r \<noteq> None then 0 else 1, dneg (opt_or_zero (rf_urgency r)),
     if rf_exposure r = None then 1 else 0, dneg (opt_or_zero (rf_exposure r)), rf_reference r)"

definition urgency_count :: "ranked_facts list \<Rightarrow> decimal \<Rightarrow> nat" where
  "urgency_count rs u = length (filter (\<lambda>r. rf_urgency r = Some u) rs)"

definition applied_tie_break :: "ranked_facts list \<Rightarrow> ranked_facts \<Rightarrow> string" where
  "applied_tie_break rs r = (case rf_urgency r of
       None \<Rightarrow> ''exposure descending, then borrower reference ascending (urgency unavailable)''
     | Some u \<Rightarrow> if 1 < urgency_count rs u
         then ''exposure descending, then borrower reference ascending (urgency tied)''
         else ''urgency descending'')"

text \<open>Assignment to a key of a dictionary: in place, or at the end.\<close>

fun dict_set :: "(string \<times> pyval) list \<Rightarrow> string \<Rightarrow> pyval \<Rightarrow> (string \<times> pyval) list" where
  "dict_set [] k v = [(k, v)]"
| "dict_set ((k', w) # kvs) k v = (if k' = k then (k', v) # kvs else (k', w) # dict_set kvs k v)"

text \<open>\<open>TriageEntry.__post_init__\<close> on the fields \<open>rank\<close> fills in; the band, the state and the
  identifiers are of their types already, \<open>what_changed\<close> is absent. Freezing does not change
  the values.\<close>

definition make_triage_entry :: "ranked_facts \<Rightarrow> int \<Rightarrow> string \<Rightarrow> (string \<times> pyval) list \<Rightarrow> triage_entry result" where
  "make_triage_entry r position rule why =
     rbind (bounded_text (PStr (rf_reference r)) 100) (\<lambda>ref.
     rbind (optional_money (pyopt PDec (rf_exposure r))) (\<lambda>e.
     if (case rf_worst_horizon r of None \<Rightarrow> False | Some h \<Rightarrow> h < 0) then raise ValueError else
     rbind (optional_fraction (pyopt PDec (rf_probability r))) (\<lambda>p.
     rbind (optional_fraction (pyopt PDec (rf_confidence r))) (\<lambda>c.
     if (case rf_urgency r of None \<Rightarrow> False | Some u \<Rightarrow> u < 0) then raise ValueError else
     rbind (bounded_text (PStr (rf_reason r)) 500) (\<lambda>reason.
     if position \<le> 0 then raise ValueError else
     rbind (bounded_text (PStr rule) 500) (\<lambda>rule.
     ok \<lparr>rf_borrower_id = rf_borrower_id r, rf_reference = ref, rf_exposure = e,
         rf_worst_covenant_version_id = rf_worst_covenant_version_id r,
         rf_worst_horizon = rf_worst_horizon r, rf_probability = p, rf_confidence = c,
         rf_urgency = rf_urgency r, rf_band = rf_band r, rf_sma_band = rf_sma_band r,
         rf_state = rf_state r, rf_reason = reason, rf_why = why, te_rank = position,
         te_tie_break_rule = rule, te_what_changed = None\<rparr>))))))"

fun number_entries :: "ranked_facts list \<Rightarrow> int \<Rightarrow> ranked_facts list \<Rightarrow> triage_entry list result" where
  "number_entries all position [] = ok []"
| "number_entries all position (r # rs) =
     (let applied = PStr (applied_tie_break all r);
          why = dict_set (dict_set (dict_set (rf_why r) ''applied_tie_break'' applied)
                  ''tie_break'' applied) ''rank'' (PInt position)
      in rbind (make_triage_entry r position tie_break_rule_text why) (\<lambda>e.
         rbind (number_entries all (position + 1) rs) (\<lambda>es. ok (e # es))))"

fun unique_borrowers :: "nat list \<Rightarrow> string list \<Rightarrow> triage_input list \<Rightarrow> unit result" where
  "unique_borrowers seen references [] = ok ()"
| "unique_borrowers seen references (v # vs) =
     (if ti_borrower_id v \<in> set seen then raise ValueError
      else if ti_reference v \<in> set references then raise ValueError
      else unique_borrowers (ti_borrower_id v # seen) (ti_reference v # references) vs)"

definition rank :: "(decimal \<Rightarrow> string) \<Rightarrow> pyval list \<Rightarrow> pyval \<Rightarrow> triage_entry list result" where
  "rank sd entries thresholds =
     rbind (thresholds_from_store thresholds) (\<lambda>t.
     rbind (rmap triage_input_from_value entries) (\<lambda>values.
     rbind (unique_borrowers [] [] values) (\<lambda>u.
     rbind (rmap (build_ranked_entry sd t) values) (\<lambda>built.
     let ranked = sort_key rank_sort_key built in number_entries ranked 1 ranked))))"

section \<open>Rankings by a key that identifies\<close>

text \<open>
  A sort whose key determines an identity of the elements does not depend on the order in which
  they arrive, as long as the identities are distinct.
\<close>

locale total_ranking =
  fixes key :: "'a \<Rightarrow> 'k::linorder" and ident :: "'a \<Rightarrow> 'i"
  assumes key_ident: "key x = key y \<Longrightarrow> ident x = ident y"
begin

lemma key_inj: "distinct (map ident xs) \<Longrightarrow> inj_on key (set xs)"
  by (rule inj_onI) (metis distinct_map inj_onD key_ident)

lemma arrival_order_irrelevant:
  assumes "mset xs = mset ys" and "distinct (map ident xs)"
  shows "sort_key key xs = sort_key key ys"
proof -
  have d: "distinct xs" using assms(2) by (simp add: distinct_map)
  have inj: "inj_on key (set xs)" using assms(2) by (rule key_inj)
  have "sort (map key zs) = map key (sort_key key zs)" for zs
    by (rule properties_for_sort) simp_all
  moreover have "sort (map key xs) = sort (map key ys)"
    by (rule properties_for_sort) (simp_all add: assms(1))
  ultimately have eq: "map key (sort_key key xs) = map key (sort_key key ys)" by simp
  have "set (sort_key key xs) \<union> set (sort_key key ys) = set xs"
    using assms(1) [THEN mset_eq_setD] by simp
  then have "inj_on key (set (sort_key key xs) \<union> set (sort_key key ys))" using inj by (simp only:)
  from inj_on_map_eq_map [OF this] eq show ?thesis by (rule iffD1)
qed

end

interpretation triage: total_ranking rank_sort_key rf_reference
  by unfold_locales (simp add: rank_sort_key_def)

section \<open>Lemmas\<close>

text \<open>What a returned entry shares with the facts it was made from.\<close>

definition entry_of :: "ranked_facts \<Rightarrow> triage_entry \<Rightarrow> bool" where
  "entry_of r e = (rf_borrower_id e = rf_borrower_id r \<and> rf_reference e = strip (rf_reference r)
     \<and> rf_exposure e = rf_exposure r \<and> rf_worst_horizon e = rf_worst_horizon r
     \<and> rf_worst_covenant_version_id e = rf_worst_covenant_version_id r
     \<and> rf_probability e = rf_probability r \<and> rf_confidence e = rf_confidence r
     \<and> rf_urgency e = rf_urgency r \<and> rf_band e = rf_band r \<and> rf_state e = rf_state r)"

lemma optional_fraction_pyopt: "optional_fraction (pyopt PDec x) = Inr y \<Longrightarrow> y = x"
  by (cases x) (auto simp: optional_fraction_def to_fraction_def split: if_splits)

lemma optional_money_pyopt: "optional_money (pyopt PDec x) = Inr y \<Longrightarrow> y = x"
  by (cases x) (auto simp: optional_money_def split: if_splits)

lemma bounded_text_PStr: "bounded_text (PStr s) n = Inr t \<Longrightarrow> t = strip s"
  by (auto simp: bounded_text_def split: if_splits)

lemma make_triage_entry_of:
  assumes "make_triage_entry r position rule why = Inr e"
  shows "entry_of r e \<and> te_rank e = position"
proof -
  obtain ref ex p c reason rul where
    "bounded_text (PStr (rf_reference r)) 100 = Inr ref"
    "optional_money (pyopt PDec (rf_exposure r)) = Inr ex"
    "optional_fraction (pyopt PDec (rf_probability r)) = Inr p"
    "optional_fraction (pyopt PDec (rf_confidence r)) = Inr c"
    and e: "e = \<lparr>rf_borrower_id = rf_borrower_id r, rf_reference = ref, rf_exposure = ex,
         rf_worst_covenant_version_id = rf_worst_covenant_version_id r,
         rf_worst_horizon = rf_worst_horizon r, rf_probability = p, rf_confidence = c,
         rf_urgency = rf_urgency r, rf_band = rf_band r, rf_sma_band = rf_sma_band r,
         rf_state = rf_state r, rf_reason = reason, rf_why = why, te_rank = position,
         te_tie_break_rule = rul, te_what_changed = None\<rparr>"
    using assms unfolding make_triage_entry_def by (auto split: if_splits)
  then have "ref = strip (rf_reference r)" "ex = rf_exposure r" "p = rf_probability r"
    "c = rf_confidence r"
    by (auto dest: bounded_text_PStr optional_money_pyopt optional_fraction_pyopt)
  with e show ?thesis by (simp add: entry_of_def)
qed

lemma number_entries_of:
  "number_entries all k rs = Inr es \<Longrightarrow>
   list_all2 entry_of rs es \<and> map te_rank es = [k..k + int (length es) - 1]"
proof (induction rs arbitrary: k es)
  case (Cons r rs)
  from Cons.prems obtain e es' where e: "es = e # es'"
    and n: "number_entries all (k + 1) rs = Inr es'"
    and m: "\<exists>why. make_triage_entry r k tie_break_rule_text why = Inr e"
    by (auto simp: Let_def)
  from m make_triage_entry_of have "entry_of r e" "te_rank e = k" by auto
  then show ?case using Cons.IH [OF n] e
    by (simp add: upto_rec1 [of k] algebra_simps)
qed simp

lemma unique_borrowers_iff:
  "unique_borrowers seen refs vs = Inr () \<longleftrightarrow>
   distinct (map ti_borrower_id vs) \<and> distinct (map ti_reference vs)
   \<and> set seen \<inter> set (map ti_borrower_id vs) = {} \<and> set refs \<inter> set (map ti_reference vs) = {}"
  by (induction vs arbitrary: seen refs) auto

definition facts_of_input :: "triage_input \<Rightarrow> ranked_facts \<Rightarrow> bool" where
  "facts_of_input v r = (rf_borrower_id r = ti_borrower_id v \<and> rf_reference r = ti_reference v
     \<and> rf_exposure r = ti_exposure v)"

lemma build_ranked_entry_of: "build_ranked_entry sd t v = Inr r \<Longrightarrow> facts_of_input v r"
  by (auto simp: build_ranked_entry_def facts_of_input_def no_forecast_facts_def usable_facts_def
      suppressed_facts_def Let_def split: list.splits option.splits)

text \<open>The stages of a successful ranking.\<close>

lemma rank_stages:
  assumes "rank sd xs thresholds = Inr es"
  obtains t vals built where "thresholds_from_store thresholds = Inr t"
    and "rmap triage_input_from_value xs = Inr vals"
    and "distinct (map ti_borrower_id vals)" and "distinct (map ti_reference vals)"
    and "rmap (build_ranked_entry sd t) vals = Inr built"
    and "number_entries (sort_key rank_sort_key built) 1 (sort_key rank_sort_key built) = Inr es"
    and "map rf_borrower_id built = map ti_borrower_id vals"
    and "map rf_reference built = map ti_reference vals"
proof -
  obtain t vals built where s: "thresholds_from_store thresholds = Inr t"
    "rmap triage_input_from_value xs = Inr vals" "unique_borrowers [] [] vals = Inr ()"
    "rmap (build_ranked_entry sd t) vals = Inr built"
    "number_entries (sort_key rank_sort_key built) 1 (sort_key rank_sort_key built) = Inr es"
    using assms by (auto simp: rank_def Let_def)
  moreover have "facts_of_input (vals ! i) (built ! i)" if "i < length vals" for i
    using rmap_nth [OF s(4) that] by (rule build_ranked_entry_of)
  then have "map rf_borrower_id built = map ti_borrower_id vals"
    "map rf_reference built = map ti_reference vals"
    using rmap_length [OF s(4)] by (auto simp: facts_of_input_def intro!: nth_equalityI)
  ultimately show ?thesis using that by (simp add: unique_borrowers_iff)
qed

lemma list_all2_map_eq: "list_all2 R xs ys \<Longrightarrow> (\<And>x y. R x y \<Longrightarrow> g y = f x) \<Longrightarrow> map g ys = map f xs"
  by (induction rule: list_all2_induct) auto

text \<open>
  no borrower is dropped or invented. Whenever a ranking is returned, its rows are exactly
  the input borrowers, each once, and their ranks count from one in the order of the rows.
\<close>

theorem rank_complete:
  assumes "rank sd xs thresholds = Inr es"
  shows "\<exists>vals. rmap triage_input_from_value xs = Inr vals
    \<and> mset (map rf_borrower_id es) = mset (map ti_borrower_id vals)
    \<and> distinct (map rf_borrower_id es)
    \<and> map te_rank es = [1..int (length xs)]"
proof -
  obtain t vals built where v: "rmap triage_input_from_value xs = Inr vals"
    "distinct (map ti_borrower_id vals)"
    and b: "rmap (build_ranked_entry sd t) vals = Inr built"
    "map rf_borrower_id built = map ti_borrower_id vals"
    and n: "number_entries (sort_key rank_sort_key built) 1 (sort_key rank_sort_key built) = Inr es"
    using assms by (rule rank_stages)
  have es: "list_all2 entry_of (sort_key rank_sort_key built) es"
    and ranks: "map te_rank es = [1..int (length es)]"
    using number_entries_of [OF n] by auto
  have ids: "map rf_borrower_id es = map rf_borrower_id (sort_key rank_sort_key built)"
    using es by (rule list_all2_map_eq) (simp add: entry_of_def)
  have "mset (map rf_borrower_id es) = mset (map rf_borrower_id built)"
    by (simp add: ids mset_map)
  then have m: "mset (map rf_borrower_id es) = mset (map ti_borrower_id vals)" by (simp only: b)
  moreover have "distinct (map rf_borrower_id es)"
    using m v(2) by (metis mset_eq_imp_distinct_iff)
  moreover have "length es = length xs"
    using es rmap_length [OF v(1)] rmap_length [OF b(1)] by (auto dest: list_all2_lengthD)
  ultimately show ?thesis using v ranks by auto
qed

section \<open>The order of the queue\<close>

text \<open>The documented order: urgency descending, then exposure descending, then reference; a row
  without urgency or exposure comes after those with one. Exposures are compared as the code
  does, after the rounding of their negation.\<close>

definition exposure_before :: "'z ranked_facts_scheme \<Rightarrow> 'z ranked_facts_scheme \<Rightarrow> bool" where
  "exposure_before a b = (case (rf_exposure a, rf_exposure b) of
       (Some x, Some y) \<Rightarrow> rnd y < rnd x \<or> (rnd y = rnd x \<and> rf_reference a \<le> rf_reference b)
     | (Some x, None) \<Rightarrow> True | (None, Some y) \<Rightarrow> False
     | (None, None) \<Rightarrow> rf_reference a \<le> rf_reference b)"

definition queue_before :: "'z ranked_facts_scheme \<Rightarrow> 'z ranked_facts_scheme \<Rightarrow> bool" where
  "queue_before a b = (case (rf_urgency a, rf_urgency b) of
       (Some x, Some y) \<Rightarrow> y < x \<or> (y = x \<and> exposure_before a b)
     | (Some x, None) \<Rightarrow> True | (None, Some y) \<Rightarrow> False
     | (None, None) \<Rightarrow> exposure_before a b)"

lemma rank_key_queue:
  assumes "\<forall>u. rf_urgency a = Some u \<longrightarrow> rnd u = u" "\<forall>u. rf_urgency b = Some u \<longrightarrow> rnd u = u"
  shows "rank_sort_key a \<le> rank_sort_key b \<longleftrightarrow> queue_before a b"
  using assms
  by (auto simp: rank_sort_key_def queue_before_def exposure_before_def opt_or_zero_def dneg_def
      rnd_neg less_eq_prod_def less_prod_def split: option.splits)

lemma urgency_result:
  "urgency (PDec p) (pyopt PDec e) (pyopt PDec c) = Inr u \<Longrightarrow>
   u = (case (e, c) of (Some e, Some c) \<Rightarrow> Some (dmul (dmul p e) c) | _ \<Rightarrow> None)"
  by (cases e; cases c) (auto simp: urgency_def optional_money_def to_fraction_def split: if_splits)

definition worst_of :: "decimal \<Rightarrow> triage_input \<Rightarrow> forecast_fact \<Rightarrow> bool" where
  "worst_of t2 v f = (f \<in> set (ti_forecasts v) \<and> is_usable t2 f
     \<and> (\<forall>g\<in>set (ti_forecasts v). is_usable t2 g \<longrightarrow> worst_key g \<le> worst_key f))"

text \<open>What a row says, by its state.\<close>

definition row_sound :: "triage_thresholds \<Rightarrow> triage_input \<Rightarrow> ranked_facts \<Rightarrow> bool" where
  "row_sound t v r = (case rf_state r of
       NO_FORECAST \<Rightarrow> ti_forecasts v = [] \<and> rf_urgency r = None \<and> rf_probability r = None \<and> rf_band r = WATCH
     | SUPPRESSED \<Rightarrow> ti_forecasts v \<noteq> [] \<and> (\<forall>f\<in>set (ti_forecasts v). \<not> is_usable (tt_confidence_floor t) f)
         \<and> rf_urgency r = None \<and> rf_probability r = None \<and> rf_band r = WATCH
     | UNRANKABLE \<Rightarrow> ti_exposure v = None \<and> rf_urgency r = None \<and> rf_band r = WATCH
     | AVAILABLE \<Rightarrow> (\<exists>f p e c. worst_of (tt_confidence_floor t) v f \<and> ff_probability f = Some p
         \<and> ff_confidence f = Some c \<and> ti_exposure v = Some e
         \<and> rf_probability r = Some p \<and> rf_worst_horizon r = Some (ff_horizon_days f)
         \<and> rf_urgency r = Some (dmul (dmul p e) c) \<and> band (PDec p) (triage_thresholds_obj t) = Inr (rf_band r)))"

lemma build_ranked_entry_sound:
  assumes "build_ranked_entry sd t v = Inr r"
  shows "row_sound t v r"
proof (cases "ti_forecasts v")
  case Nil
  with assms show ?thesis
    by (auto simp: build_ranked_entry_def no_forecast_facts_def row_sound_def)
next
  case (Cons f fs)
  show ?thesis
  proof (cases "filter (is_usable (tt_confidence_floor t)) (f # fs)")
    case Nil
    then have "\<forall>g\<in>set (f # fs). \<not> is_usable (tt_confidence_floor t) g"
      by (simp only: filter_empty_conv)
    with assms Cons Nil show ?thesis
      by (auto simp: build_ranked_entry_def suppressed_facts_def row_sound_def Let_def)
  next
    case (Cons u us)
    define w where "w = max_key worst_key u us"
    have "w \<in> set (u # us)" using max_key_in_Cons [of worst_key u us] by (simp only: w_def)
    moreover have us: "set (u # us) = {x \<in> set (ti_forecasts v). is_usable (tt_confidence_floor t) x}"
      using arg_cong [OF Cons, of set] \<open>ti_forecasts v = f # fs\<close> by (simp only: set_filter)
    ultimately have w: "w \<in> set (ti_forecasts v)" "is_usable (tt_confidence_floor t) w" by blast+
    have max: "worst_key g \<le> worst_key w"
      if "g \<in> set (ti_forecasts v)" "is_usable (tt_confidence_floor t) g" for g
    proof -
      have "g \<in> set (u # us)" using that us by blast
      then show ?thesis unfolding w_def by (rule max_key_ge)
    qed
    have worst: "worst_of (tt_confidence_floor t) v w" using w max by (simp add: worst_of_def)
    obtain p c where pc: "ff_probability w = Some p" "ff_confidence w = Some c"
      using w(2) by (auto simp: is_usable_def split: option.splits)
    have "usable_facts v t w = Inr r"
      using assms \<open>ti_forecasts v = f # fs\<close> Cons by (simp add: build_ranked_entry_def w_def)
    then obtain u where u: "urgency (PDec p) (pyopt PDec (ti_exposure v)) (pyopt PDec (Some c)) = Inr u"
      and r: "(\<exists>b. u = None \<and> rf_state r = UNRANKABLE \<and> rf_band r = WATCH)
        \<or> (u \<noteq> None \<and> rf_state r = AVAILABLE \<and> band (PDec p) (triage_thresholds_obj t) = Inr (rf_band r))"
      "rf_urgency r = u" "rf_probability r = Some p" "rf_worst_horizon r = Some (ff_horizon_days w)"
      using pc by (auto simp: usable_facts_def split: option.splits)
    from urgency_result [OF u] r pc worst show ?thesis
      by (cases "ti_exposure v") (auto simp: row_sound_def)
  qed
qed

lemma row_sound_urgency: "row_sound t v r \<Longrightarrow> rf_urgency r = Some u \<Longrightarrow> rnd u = u"
  by (auto simp: row_sound_def dmul_def split: triage_state.splits)

lemma entry_queue_before:
  "entry_of r e \<Longrightarrow> entry_of r' e' \<Longrightarrow> strip (rf_reference r) = rf_reference r \<Longrightarrow>
   strip (rf_reference r') = rf_reference r' \<Longrightarrow> queue_before r r' \<Longrightarrow> queue_before e e'"
  by (auto simp: entry_of_def queue_before_def exposure_before_def split: option.splits)

text \<open>
  C7: the queue is in the documented order. On inputs whose references carry no surrounding
  white space (which their constructor removes), every row comes before every later one in the
  order urgency descending, then exposure descending, then reference ascending, rows without
  urgency after those with one.
\<close>

theorem rank_order:
  assumes "rank sd xs thresholds = Inr es" and "rmap triage_input_from_value xs = Inr vals"
    and "\<forall>v\<in>set vals. strip (ti_reference v) = ti_reference v"
  shows "sorted_wrt queue_before es"
proof -
  obtain t vals' built where v: "rmap triage_input_from_value xs = Inr vals'"
    and b: "rmap (build_ranked_entry sd t) vals' = Inr built"
    "map rf_reference built = map ti_reference vals'"
    and n: "number_entries (sort_key rank_sort_key built) 1 (sort_key rank_sort_key built) = Inr es"
    using assms(1) by (rule rank_stages)
  have vals: "vals' = vals" using v assms(2) by simp
  let ?rs = "sort_key rank_sort_key built"
  have es: "list_all2 entry_of ?rs es" using number_entries_of [OF n] by simp
  have fixed: "rnd u = u" if "r \<in> set built" "rf_urgency r = Some u" for r u
    using rmap_set [OF b(1) that(1)] build_ranked_entry_sound row_sound_urgency that(2) by blast
  have refs: "strip (rf_reference r) = rf_reference r" if "r \<in> set built" for r
  proof -
    have "rf_reference r \<in> set (map ti_reference vals)"
      using that b(2) vals by (metis imageI set_map)
    then show ?thesis using assms(3) by auto
  qed
  have "sorted_wrt (\<lambda>x y. rank_sort_key x \<le> rank_sort_key y) ?rs"
    using sorted_sort_key [of rank_sort_key built] by (simp add: sorted_map)
  then have rs: "sorted_wrt queue_before ?rs"
    by (rule sorted_wrt_mono_rel [rotated]) (use fixed rank_key_queue in auto)
  show ?thesis
  proof (unfold sorted_wrt_iff_nth_less, intro allI impI)
    fix i j assume ij: "i < j" "j < length es"
    have len: "length ?rs = length es" using es by (rule list_all2_lengthD)
    have "queue_before (?rs ! i) (?rs ! j)"
      using rs ij len by (simp add: sorted_wrt_iff_nth_less)
    moreover have "entry_of (?rs ! i) (es ! i)" "entry_of (?rs ! j) (es ! j)"
      using es ij by (auto intro: list_all2_nthD2)
    moreover have "?rs ! i \<in> set built" "?rs ! j \<in> set built"
      using ij len by (metis length_sort nth_mem order_less_trans set_sort, metis length_sort nth_mem set_sort)
    ultimately show "queue_before (es ! i) (es ! j)"
      using refs by (blast intro: entry_queue_before)
  qed
qed

lemma list_all2_in_right: "list_all2 R xs ys \<Longrightarrow> y \<in> set ys \<Longrightarrow> \<exists>x\<in>set xs. R x y"
  by (induction rule: list_all2_induct) auto

lemma row_sound_entry:
  "row_sound t v r \<Longrightarrow> entry_of r e \<Longrightarrow>
   rf_borrower_id e = rf_borrower_id r \<and> row_sound t v (ranked_facts.truncate e)"
  by (simp add: row_sound_def entry_of_def ranked_facts.truncate_def split: triage_state.splits)

text \<open>
  every row states its borrower's worst usable forecast, or why there is none. An available
  row carries the probability, confidence and horizon of a usable forecast no usable forecast of
  the borrower exceeds in the worst-first key, the urgency is their product with the exposure,
  and its band is that of the probability. A row without usable forecasts (none at all, or all
  suppressed or below the T2 floor) has neither probability nor urgency and is \<open>watch\<close>; a usable
  forecast without exposure has no urgency and is \<open>watch\<close> too.
\<close>

theorem rank_rows_sound:
  assumes "rank sd xs thresholds = Inr es" and "e \<in> set es"
  shows "\<exists>t v. thresholds_from_store thresholds = Inr t \<and> rf_borrower_id e = ti_borrower_id v
    \<and> (\<exists>x\<in>set xs. triage_input_from_value x = Inr v) \<and> row_sound t v (ranked_facts.truncate e)"
proof -
  obtain t vals built where t: "thresholds_from_store thresholds = Inr t"
    and v: "rmap triage_input_from_value xs = Inr vals"
    and b: "rmap (build_ranked_entry sd t) vals = Inr built"
    and n: "number_entries (sort_key rank_sort_key built) 1 (sort_key rank_sort_key built) = Inr es"
    using assms(1) by (rule rank_stages)
  have "list_all2 entry_of (sort_key rank_sort_key built) es" using number_entries_of [OF n] by simp
  then have "\<exists>r\<in>set (sort_key rank_sort_key built). entry_of r e"
    using assms(2) by (rule list_all2_in_right)
  then obtain r where r: "r \<in> set built" "entry_of r e" by auto
  obtain w where w: "w \<in> set vals" "build_ranked_entry sd t w = Inr r"
    using rmap_set [OF b r(1)] by auto
  obtain x where "x \<in> set xs" "triage_input_from_value x = Inr w" using rmap_set [OF v w(1)] by auto
  moreover have "rf_borrower_id e = ti_borrower_id w" "row_sound t w (ranked_facts.truncate e)"
    using row_sound_entry [OF build_ranked_entry_sound [OF w(2)] r(2)]
      build_ranked_entry_of [OF w(2)] by (simp_all add: facts_of_input_def)
  ultimately show ?thesis using t by (intro exI conjI bexI)
qed

lemma rmap_mset:
  assumes "mset xs = mset ys" "rmap f xs = Inr us"
  shows "\<exists>vs. rmap f ys = Inr vs \<and> mset vs = mset us"
proof (intro exI conjI)
  show "rmap f ys = Inr (map (\<lambda>x. projr (f x)) ys)"
    using assms mset_eq_setD [OF assms(1)] by (simp add: rmap_Inr_iff)
  show "mset (map (\<lambda>x. projr (f x)) ys) = mset us"
    using assms by (simp add: rmap_Inr_iff)
qed

text \<open>
  the queue does not depend on the order in which the borrowers arrive: any rearrangement of
  the input gives the same rows with the same ranks and explanations.
\<close>

theorem rank_order_independent:
  assumes "rank sd xs thresholds = Inr es" and "mset xs = mset ys"
  shows "rank sd ys thresholds = Inr es"
proof -
  obtain t vals built where s: "thresholds_from_store thresholds = Inr t"
    "rmap triage_input_from_value xs = Inr vals"
    "distinct (map ti_borrower_id vals)" "distinct (map ti_reference vals)"
    "rmap (build_ranked_entry sd t) vals = Inr built"
    "number_entries (sort_key rank_sort_key built) 1 (sort_key rank_sort_key built) = Inr es"
    "map rf_borrower_id built = map ti_borrower_id vals"
    "map rf_reference built = map ti_reference vals"
    using assms(1) by (rule rank_stages)
  obtain vals' where v': "rmap triage_input_from_value ys = Inr vals'" "mset vals' = mset vals"
    using rmap_mset [OF assms(2) s(2)] by auto
  obtain built' where b': "rmap (build_ranked_entry sd t) vals' = Inr built'" "mset built' = mset built"
    using rmap_mset [OF v'(2) [symmetric] s(5)] by auto
  have m: "mset (map f vals') = mset (map f vals)" for f using v'(2) by (simp add: mset_map)
  have "unique_borrowers [] [] vals' = Inr ()"
    using s(3,4) m [of ti_borrower_id] m [of ti_reference]
    by (simp add: unique_borrowers_iff) (metis mset_eq_imp_distinct_iff mset_map)
  moreover have "sort_key rank_sort_key built' = sort_key rank_sort_key built"
    using triage.arrival_order_irrelevant [OF b'(2) [symmetric]] s(4,8) by simp
  ultimately show ?thesis using s(1,6) v'(1) b'(1) by (simp add: rank_def)
qed

text \<open>
  A forecast reason may have 500 characters, but the reason of its row has the prefix
  \<open>forecast suppressed: \<close> and the same bound: with a reason of 480 characters or more the whole
  ranking fails.
\<close>

lemma long_reason_breaks_ranking:
  assumes "ti_forecasts v = [f]" "ff_suppressed f" "ff_reason f = Some r" "479 < length r"
  shows "build_ranked_entry sd t v = Inr (suppressed_facts sd v t f)"
    and "\<nexists>e. make_triage_entry (suppressed_facts sd v t f) position rule why = Inr e"
proof -
  show "build_ranked_entry sd t v = Inr (suppressed_facts sd v t f)"
    using assms by (simp add: build_ranked_entry_def is_usable_def split: option.splits)
  have "rf_reason (suppressed_facts sd v t f) = ''forecast suppressed: '' @ r"
    using assms by (simp add: suppressed_facts_def suppression_reason_text_def Let_def)
  then have "bounded_text (PStr (rf_reason (suppressed_facts sd v t f))) 500 = Inl ValueError"
    using assms(4) by (simp add: bounded_text_def)
  then show "\<nexists>e. make_triage_entry (suppressed_facts sd v t f) position rule why = Inr e"
    by (auto simp: make_triage_entry_def split: if_splits)
qed

section \<open>A queue of two borrowers\<close>

lemma forecast_of_forecast_obj [simp]: "forecast_of_obj (forecast_obj f) = f"
  by (simp add: forecast_of_obj_def forecast_obj_def finite_dec_def pyopt_def text_of_def
      split: option.splits)

lemma input_of_input_obj [simp]: "triage_input_of_obj (triage_input_obj v) = v"
  by (simp add: triage_input_of_obj_def triage_input_obj_def comp_def finite_dec_def pyopt_def
      text_of_def split: option.splits)

lemma from_value_input_obj [simp]: "triage_input_from_value (triage_input_obj v) = Inr v"
  by (simp add: triage_input_from_value_def) (simp add: triage_input_obj_def)

definition demo_forecast :: forecast_fact where
  "demo_forecast = \<lparr>ff_covenant_version_id = 7, ff_horizon_days = 30, ff_probability = Some (1 / 2),
     ff_confidence = Some 1, ff_below_confidence_floor = False, ff_suppressed = False, ff_reason = None\<rparr>"

definition demo_borrower :: "nat \<Rightarrow> string \<Rightarrow> forecast_fact list \<Rightarrow> triage_input" where
  "demo_borrower i r fs = \<lparr>ti_borrower_id = i, ti_reference = r, ti_exposure = Some 10,
     ti_forecasts = fs, ti_sma_band = None\<rparr>"

definition demo_policy :: triage_thresholds where
  "demo_policy = \<lparr>tt_act = 1 / 2, tt_amber = 1 / 4, tt_confidence_floor = 1 / 4\<rparr>"

definition demo_queue :: "pyval list" where
  "demo_queue = [triage_input_obj (demo_borrower 6 ''B-2'' []),
     triage_input_obj (demo_borrower 5 ''B-1'' [demo_forecast])]"

abbreviation "demo_first \<equiv> \<lparr>rf_borrower_id = 5, rf_reference = ''B-1'', rf_exposure = Some 10,
  rf_worst_covenant_version_id = Some 7, rf_worst_horizon = Some 30, rf_probability = Some (1 / 2),
  rf_confidence = Some 1, rf_urgency = Some 5, rf_band = ACT, rf_sma_band = None,
  rf_state = AVAILABLE, rf_reason = worst_reason 30,
  rf_why = why_map demo_policy AVAILABLE (worst_reason 30) (Some 30) (Some (1 / 2)) (Some 1) (Some 5)\<rparr>"

lemma demo_numbers: "dmul (dmul (1 / 2) 10) 1 = 5" "dneg 5 = - 5" "dneg 10 = - 10" "dneg 0 = 0"
  by (simp_all add: dmul_def dneg_def rnd_neg) (simp_all add: rnd_eval)

lemma demo_build:
  "build_ranked_entry sd demo_policy (demo_borrower 5 ''B-1'' [demo_forecast]) = Inr demo_first"
  "build_ranked_entry sd demo_policy (demo_borrower 6 ''B-2'' [])
     = Inr (no_forecast_facts (demo_borrower 6 ''B-2'' []) demo_policy)"
proof -
  have b: "band (PDec (1 / 2)) (triage_thresholds_obj demo_policy) = Inr ACT"
    by (simp add: band_def to_fraction_PDec) (simp add: demo_policy_def)
  have u: "urgency (PDec (1 / 2)) (PDec 10) (PDec 1) = Inr (Some 5)"
    by (simp add: urgency_def optional_money_def to_fraction_PDec demo_numbers)
  have usable: "is_usable (tt_confidence_floor demo_policy) demo_forecast"
    by (simp add: is_usable_def demo_forecast_def demo_policy_def)
  show "build_ranked_entry sd demo_policy (demo_borrower 5 ''B-1'' [demo_forecast]) = Inr demo_first"
    using usable
    by (simp add: build_ranked_entry_def demo_borrower_def usable_facts_def)
      (simp add: demo_forecast_def u b)
qed (simp add: build_ranked_entry_def demo_borrower_def)

lemma demo_texts:
  "bounded_text (PStr ''B-1'') 100 = Inr ''B-1''" "bounded_text (PStr ''B-2'') 100 = Inr ''B-2''"
  "\<exists>s. bounded_text (PStr (worst_reason 30)) 500 = Inr s"
  "\<exists>s. bounded_text (PStr tie_break_rule_text) 500 = Inr s"
  "\<exists>s. bounded_text (PStr (rf_reason (no_forecast_facts v t))) 500 = Inr s"
proof -
  have "strip ''B-1'' = ''B-1''" "strip ''B-2'' = ''B-2''" by code_simp+
  then show "bounded_text (PStr ''B-1'') 100 = Inr ''B-1''" "bounded_text (PStr ''B-2'') 100 = Inr ''B-2''"
    by (simp_all add: bounded_text_def)
  have "strip (worst_reason 30) \<noteq> [] \<and> length (worst_reason 30) \<le> 500"
    "strip tie_break_rule_text \<noteq> [] \<and> length tie_break_rule_text \<le> 500" by code_simp+
  then show "\<exists>s. bounded_text (PStr (worst_reason 30)) 500 = Inr s"
    "\<exists>s. bounded_text (PStr tie_break_rule_text) 500 = Inr s"
    by (auto simp: bounded_text_def)
  have "strip ''no forecast is available for this borrower; included at the bottom of the queue'' \<noteq> []"
    by code_simp
  then show "\<exists>s. bounded_text (PStr (rf_reason (no_forecast_facts v t))) 500 = Inr s"
    by (simp add: bounded_text_def no_forecast_facts_def)
qed

lemma demo_entries:
  "0 < k \<Longrightarrow> \<exists>e. make_triage_entry demo_first k tie_break_rule_text why = Inr e"
  "0 < k \<Longrightarrow> \<exists>e. make_triage_entry (no_forecast_facts (demo_borrower 6 ''B-2'' []) demo_policy) k
     tie_break_rule_text why = Inr e"
  using demo_texts
  by (auto simp: make_triage_entry_def optional_money_def optional_fraction_def to_fraction_PDec)
    (auto simp: make_triage_entry_def optional_money_def optional_fraction_def to_fraction_PDec
      no_forecast_facts_def demo_borrower_def)

lemma demo_rank: "\<exists>es. rank sd demo_queue (triage_thresholds_obj demo_policy) = Inr es"
proof -
  let ?r2 = "no_forecast_facts (demo_borrower 6 ''B-2'' []) demo_policy"
  have sorted: "sort_key rank_sort_key [?r2, demo_first] = [demo_first, ?r2]"
    by (simp add: rank_sort_key_def no_forecast_facts_def)
  have vals: "rmap triage_input_from_value demo_queue =
      Inr [demo_borrower 6 ''B-2'' [], demo_borrower 5 ''B-1'' [demo_forecast]]"
    by (simp add: demo_queue_def)
  have unique: "unique_borrowers [] [] [demo_borrower 6 ''B-2'' [], demo_borrower 5 ''B-1'' [demo_forecast]] = Inr ()"
    by (simp add: demo_borrower_def)
  have built: "rmap (build_ranked_entry sd demo_policy)
      [demo_borrower 6 ''B-2'' [], demo_borrower 5 ''B-1'' [demo_forecast]] = Inr [?r2, demo_first]"
    by (simp add: demo_build)
  have "rank sd demo_queue (triage_thresholds_obj demo_policy) =
      number_entries [demo_first, ?r2] 1 [demo_first, ?r2]"
    by (simp only: rank_def from_store_obj rbind_simps vals unique built Let_def sorted)
  moreover have "\<exists>es. number_entries [demo_first, ?r2] 1 [demo_first, ?r2] = Inr es"
    using demo_entries(1) [of 1] demo_entries(2) [of 2]
    by (simp add: Let_def) (metis rbind_simps(2))
  ultimately show ?thesis by simp
qed

lemma demo_vals: "rmap triage_input_from_value demo_queue =
    Inr [demo_borrower 6 ''B-2'' [], demo_borrower 5 ''B-1'' [demo_forecast]]"
  by (simp add: demo_queue_def)

theorem rank_complete_witness:
  "\<exists>es. rank (\<lambda>_. ''0'') demo_queue (triage_thresholds_obj demo_policy) = Inr es
     \<and> mset (map rf_borrower_id es) = {#5, 6#} \<and> map te_rank es = [1, 2]"
proof -
  obtain es where es: "rank (\<lambda>_. ''0'') demo_queue (triage_thresholds_obj demo_policy) = Inr es"
    using demo_rank by blast
  have "[1..2] = [1, 2 :: int]" by code_simp
  with rank_complete [OF es] demo_vals es show ?thesis
    by (auto simp: demo_queue_def demo_borrower_def)
qed

theorem rank_order_witness:
  "\<exists>es. rank (\<lambda>_. ''0'') demo_queue (triage_thresholds_obj demo_policy) = Inr es
     \<and> sorted_wrt queue_before es"
proof -
  obtain es where es: "rank (\<lambda>_. ''0'') demo_queue (triage_thresholds_obj demo_policy) = Inr es"
    using demo_rank by blast
  have "strip ''B-1'' = ''B-1''" "strip ''B-2'' = ''B-2''" by code_simp+
  then have "\<forall>v\<in>set [demo_borrower 6 ''B-2'' [], demo_borrower 5 ''B-1'' [demo_forecast]].
      strip (ti_reference v) = ti_reference v" by (simp add: demo_borrower_def)
  with rank_order [OF es demo_vals] es show ?thesis by blast
qed

theorem rank_rows_sound_witness:
  "\<exists>es. rank (\<lambda>_. ''0'') demo_queue (triage_thresholds_obj demo_policy) = Inr es
     \<and> (\<forall>e\<in>set es. \<exists>t v. row_sound t v (ranked_facts.truncate e)) \<and> es \<noteq> []"
proof -
  obtain es where es: "rank (\<lambda>_. ''0'') demo_queue (triage_thresholds_obj demo_policy) = Inr es"
    using demo_rank by blast
  have "es \<noteq> []" using es by (auto simp: rank_def demo_queue_def demo_build Let_def
      demo_borrower_def split: if_splits)
  with rank_rows_sound [OF es] es show ?thesis by blast
qed

theorem rank_order_independent_witness:
  "\<exists>es. rank (\<lambda>_. ''0'') demo_queue (triage_thresholds_obj demo_policy) = Inr es
     \<and> rank (\<lambda>_. ''0'') (rev demo_queue) (triage_thresholds_obj demo_policy) = Inr es"
proof -
  obtain es where es: "rank (\<lambda>_. ''0'') demo_queue (triage_thresholds_obj demo_policy) = Inr es"
    using demo_rank by blast
  have "mset demo_queue = mset (rev demo_queue)" by simp
  with rank_order_independent [OF es] es show ?thesis by blast
qed

end
