(* ===== verification/Audit_Chain.thy ===== *)
theory Audit_Chain
  imports Py_Values "HOL-Library.Multiset"
begin

text \<open>
  \<open>audit/chain.py\<close>: the validated payload of an audit event, its canonical JSON text, the
  hashed material of a row and the verification of a chain. SHA-256 (with the UTF-8 encoding of
  its argument and the hexadecimal form of its result) is a parameter \<open>h\<close>; what is assumed of it
  is stated where it is used. On text of code points below 256, Unicode NFC normalisation is the
  identity and there are no surrogates.
\<close>

datatype json = JNull | JBool bool | JInt int | JFloat string | JStr string
  | JArr "json list" | JObj "(string \<times> json) list"

section \<open>Payloads\<close>

definition personal_field_names :: "string list" where
  "personal_field_names = [''aadhaar'', ''address'', ''cin'', ''contact_email'', ''contact_name'',
     ''contact'', ''date_of_birth'', ''director_name'', ''email'', ''email_address'', ''first_name'',
     ''guarantor_name'', ''last_name'', ''mobile'', ''mobile_number'', ''passport'', ''pan'',
     ''person_name'', ''person'', ''personal'', ''personal_data'', ''personal_value'', ''phone'',
     ''phone_number'', ''promoter_name'', ''signatory_name'', ''staff_name'', ''tax_id'']"

definition casefold :: "string \<Rightarrow> string" where
  "casefold s = concat (map (\<lambda>c. if c = CHR 0xDF then ''ss'' else [lower_char c]) s)"

definition is_personal_field :: "string \<Rightarrow> bool" where
  "is_personal_field key = (replace_char CHR ''-'' CHR ''_'' (casefold key) \<in> set personal_field_names)"

text \<open>\<open>PersonalDataRefused\<close> and \<open>AuditPayloadError\<close> are value errors.\<close>

definition reference_text :: "pyval \<Rightarrow> string result" where
  "reference_text v = (case text_of v of None \<Rightarrow> raise ValueError
     | Some s \<Rightarrow> if strip s = [] then raise ValueError else ok (strip s))"

definition is_reference_object :: "pyval \<Rightarrow> bool" where
  "is_reference_object v = (case v of PMap kvs \<Rightarrow> kvs \<noteq> []
       \<and> list_all (\<lambda>kv. text_of (fst kv) = Some ''reference'') kvs | _ \<Rightarrow> False)"

definition reference_object :: "pyval \<Rightarrow> json result" where
  "reference_object v = (case v of PMap kvs \<Rightarrow>
       rbind (reference_text (or_none (map_get kvs ''reference''))) (\<lambda>r.
         ok (JObj [(''reference'', JStr r)]))
     | _ \<Rightarrow> raise ValueError)"

fun normalise_value :: "pyval \<Rightarrow> json result"
  and normalise_items :: "(pyval \<times> pyval) list \<Rightarrow> (string \<times> json) list result"
  and normalise_list :: "pyval list \<Rightarrow> json list result" where
  "normalise_value (PObj c as) =
     (if c = ''PersonalValue'' then raise ValueError
      else if c = ''PersonalReference'' then
        rbind (reference_text (or_none (lookup as ''reference''))) (\<lambda>r.
          ok (JObj [(''reference'', JStr r)]))
      else raise TypeError)"
| "normalise_value (PMap kvs) = rbind (normalise_items kvs) (\<lambda>items. ok (JObj items))"
| "normalise_value (PList vs) = rbind (normalise_list vs) (\<lambda>items. ok (JArr items))"
| "normalise_value PNone = ok JNull"
| "normalise_value (PBool b) = ok (JBool b)"
| "normalise_value (PInt n) = ok (JInt n)"
| "normalise_value (PStr s) = ok (JStr s)"
| "normalise_value (PEnum c s) = ok (JStr s)"
| "normalise_value (PFloat s) = (if s \<in> {''inf'', ''-inf'', ''nan''} then raise TypeError else ok (JFloat s))"
| "normalise_value v = raise TypeError"
| "normalise_items [] = ok []"
| "normalise_items ((k, v) # kvs) = (case text_of k of None \<Rightarrow> raise TypeError | Some key \<Rightarrow>
     rbind (if is_personal_field key
            then if \<not> is_reference_object v then raise ValueError else reference_object v
            else normalise_value v) (\<lambda>j.
     rbind (normalise_items kvs) (\<lambda>items. ok ((key, j) # items))))"
| "normalise_list [] = ok []"
| "normalise_list (v # vs) =
     rbind (normalise_value v) (\<lambda>j. rbind (normalise_list vs) (\<lambda>js. ok (j # js)))"

definition normalise_payload :: "pyval \<Rightarrow> json result" where
  "normalise_payload payload = (case payload of PMap kvs \<Rightarrow> normalise_value payload | _ \<Rightarrow> raise TypeError)"

section \<open>Canonical JSON\<close>

definition escape_char :: "char \<Rightarrow> string" where
  "escape_char c =
     (if c = CHR 0x22 then [CHR 0x5C, CHR 0x22]
      else if c = CHR 0x5C then [CHR 0x5C, CHR 0x5C]
      else if c = CHR 0x0A then [CHR 0x5C, CHR ''n'']
      else if c = CHR 0x0D then [CHR 0x5C, CHR ''r'']
      else if c = CHR 0x09 then [CHR 0x5C, CHR ''t'']
      else if c = CHR 0x0C then [CHR 0x5C, CHR ''f'']
      else if c = CHR 0x08 then [CHR 0x5C, CHR ''b'']
      else if (of_char c :: nat) < 32 then [CHR 0x5C] @ ''u'' @ hex_digits 4 (of_char c) else [c])"

definition json_string :: "string \<Rightarrow> string" where
  "json_string s = [CHR 0x22] @ concat (map escape_char s) @ [CHR 0x22]"

fun join_with :: "string \<Rightarrow> string list \<Rightarrow> string" where
  "join_with sep [] = []"
| "join_with sep [s] = s"
| "join_with sep (s # t # ss) = s @ sep @ join_with sep (t # ss)"

text \<open>\<open>json.dumps(..., sort_keys=True, separators=(",", ":"))\<close>\<close>

fun json_text :: "json \<Rightarrow> string" where
  "json_text JNull = ''null''"
| "json_text (JBool b) = (if b then ''true'' else ''false'')"
| "json_text (JInt n) = int_text n"
| "json_text (JFloat s) = s"
| "json_text (JStr s) = json_string s"
| "json_text (JArr js) = ''['' @ join_with '','' (map json_text js) @ '']''"
| "json_text (JObj kvs) = ''{'' @ join_with '',''
     (map snd (sort_key fst (map (\<lambda>(k, v). (k, json_string k @ '':'' @ json_text v)) kvs))) @ ''}''"

definition canonical_payload :: "pyval \<Rightarrow> string result" where
  "canonical_payload payload = rbind (normalise_payload payload) (\<lambda>j. ok (json_text j))"

section \<open>The hashed material\<close>

text \<open>\<open>isoformat(timespec="microseconds")\<close> of an instant in UTC.\<close>

definition iso_instant :: "int \<Rightarrow> string" where
  "iso_instant t =
     (let d = t div 86400000000 + 1; r = t mod 86400000000; s = r div 1000000 in
      padded 4 (year_of d) @ ''-'' @ padded 2 (month_of d) @ ''-'' @ padded 2 (day_of d) @ ''T''
      @ padded 2 (s div 3600) @ '':'' @ padded 2 (s div 60 mod 60) @ '':'' @ padded 2 (s mod 60)
      @ ''.'' @ padded 6 (r mod 1000000) @ ''+00:00'')"

definition utc_timestamp :: "pyval \<Rightarrow> string result" where
  "utc_timestamp v = (case v of PDatetime t \<Rightarrow> ok (iso_instant t) | _ \<Rightarrow> raise ValueError)"

text \<open>\<open>str\<close> of an enumeration member is \<open>Class.MEMBER\<close>, which the model does not carry; the
  callers pass plain text and identifiers.\<close>

definition text_token :: "pyval \<Rightarrow> string result" where
  "text_token v = (case v of PStr s \<Rightarrow> ok s | PUuid u \<Rightarrow> ok (uuid_text u) | _ \<Rightarrow> raise TypeError)"

definition actor_token :: "pyval \<Rightarrow> string result" where
  "actor_token v = (if v = PNone then ok [] else text_token v)"

definition hash_separator :: string where "hash_separator = [CHR 0x1F]"

definition prev_token :: "string option \<Rightarrow> string" where
  "prev_token prev = (case prev of None \<Rightarrow> ''<null>'' | Some p \<Rightarrow> p)"

definition event_material :: "int \<Rightarrow> pyval \<Rightarrow> pyval \<Rightarrow> pyval \<Rightarrow> pyval \<Rightarrow> pyval \<Rightarrow> pyval
    \<Rightarrow> string option \<Rightarrow> string result" where
  "event_material sequence occurred_at actor event_type subject_type subject_id payload prev =
     (if sequence < 1 then raise ValueError else
      rbind (utc_timestamp occurred_at) (\<lambda>timestamp.
      rbind (canonical_payload payload) (\<lambda>canonical.
      rbind (actor_token actor) (\<lambda>a.
      rbind (text_token event_type) (\<lambda>e.
      rbind (text_token subject_type) (\<lambda>st.
      rbind (text_token subject_id) (\<lambda>si.
      ok (join_with hash_separator
            [int_text sequence, timestamp, a, e, st, si, canonical, prev_token prev]))))))))"

definition compute_event_hash :: "(string \<Rightarrow> string) \<Rightarrow> int \<Rightarrow> pyval \<Rightarrow> pyval \<Rightarrow> pyval \<Rightarrow> pyval \<Rightarrow> pyval
    \<Rightarrow> pyval \<Rightarrow> string option \<Rightarrow> string result" where
  "compute_event_hash h sequence occurred_at actor event_type subject_type subject_id payload prev =
     rbind (event_material sequence occurred_at actor event_type subject_type subject_id payload prev)
       (\<lambda>m. ok (h m))"

section \<open>Verification\<close>

record chain_row =
  row_sequence :: int
  row_occurred_at :: pyval
  row_actor_id :: pyval
  row_actor_label :: pyval
  row_event_type :: pyval
  row_subject_type :: pyval
  row_subject_id :: pyval
  row_payload :: pyval
  row_prev_hash :: "string option"
  row_hash :: string

datatype break_reason = FIRST_HAS_PREVIOUS | NOT_INCREASING | LINK_MISMATCH | NOT_HASHABLE | HASH_MISMATCH

record chain_break =
  cb_sequence :: int
  cb_previous_sequence :: "int option"
  cb_reason :: break_reason
  cb_expected_prev_hash :: "string option"
  cb_actual_prev_hash :: "string option"
  cb_expected_hash :: "string option"
  cb_actual_hash :: string

definition checked_sequence :: "chain_row \<Rightarrow> int result" where
  "checked_sequence r = (if row_sequence r < 1 then raise ValueError else ok (row_sequence r))"

definition validate_range :: "int option \<Rightarrow> int option \<Rightarrow> unit result" where
  "validate_range f t =
     (if (case f of None \<Rightarrow> False | Some n \<Rightarrow> n < 1) \<or> (case t of None \<Rightarrow> False | Some n \<Rightarrow> n < 1)
      then raise ValueError
      else case (f, t) of (Some a, Some b) \<Rightarrow> ensure (a \<le> b) ValueError | _ \<Rightarrow> ok ())"

definition row_material :: "chain_row \<Rightarrow> string result" where
  "row_material r = event_material (row_sequence r) (row_occurred_at r)
     (if row_actor_id r \<noteq> PNone then row_actor_id r else row_actor_label r)
     (row_event_type r) (row_subject_type r) (row_subject_id r) (row_payload r) (row_prev_hash r)"

definition row_expected_hash :: "(string \<Rightarrow> string) \<Rightarrow> chain_row \<Rightarrow> string result" where
  "row_expected_hash h r = compute_event_hash h (row_sequence r) (row_occurred_at r)
     (if row_actor_id r \<noteq> PNone then row_actor_id r else row_actor_label r)
     (row_event_type r) (row_subject_type r) (row_subject_id r) (row_payload r) (row_prev_hash r)"

definition break_at :: "chain_row \<Rightarrow> chain_row option \<Rightarrow> break_reason \<Rightarrow> string option \<Rightarrow> chain_break" where
  "break_at r previous reason expected =
     \<lparr>cb_sequence = row_sequence r, cb_previous_sequence = map_option row_sequence previous,
      cb_reason = reason, cb_expected_prev_hash = map_option row_hash previous,
      cb_actual_prev_hash = row_prev_hash r, cb_expected_hash = expected, cb_actual_hash = row_hash r\<rparr>"

text \<open>\<open>except (TypeError, ValueError, UnicodeError)\<close>; hashing raises nothing else.\<close>

fun verify_rows :: "(string \<Rightarrow> string) \<Rightarrow> bool \<Rightarrow> chain_row option \<Rightarrow> chain_row list \<Rightarrow> chain_break option result" where
  "verify_rows h whole previous [] = ok None"
| "verify_rows h whole previous (r # rs) =
     rbind (checked_sequence r) (\<lambda>seq.
     rbind (case previous of None \<Rightarrow>
              ok (if whole \<and> row_prev_hash r \<noteq> None then Some (break_at r None FIRST_HAS_PREVIOUS None) else None)
            | Some p \<Rightarrow> rbind (checked_sequence p) (\<lambda>pseq.
                ok (if seq \<le> pseq then Some (break_at r (Some p) NOT_INCREASING None)
                    else if row_prev_hash r \<noteq> Some (row_hash p)
                    then Some (break_at r (Some p) LINK_MISMATCH None) else None))) (\<lambda>link.
     if link \<noteq> None then ok link else
     (case row_expected_hash h r of
        Inl e \<Rightarrow> if e \<in> {TypeError, ValueError} then ok (Some (break_at r previous NOT_HASHABLE None)) else raise e
      | Inr expected \<Rightarrow>
          if row_hash r \<noteq> expected then ok (Some (break_at r previous HASH_MISMATCH (Some expected)))
          else verify_rows h whole (Some r) rs)))"

definition selected_rows :: "chain_row list \<Rightarrow> int option \<Rightarrow> int option \<Rightarrow> chain_row list" where
  "selected_rows rows f t = (case f of
       None \<Rightarrow> filter (\<lambda>r. case t of None \<Rightarrow> True | Some n \<Rightarrow> row_sequence r \<le> n) rows
     | Some a \<Rightarrow>
        (let preceding = filter (\<lambda>r. row_sequence r < a) rows;
             in_range = filter (\<lambda>r. a \<le> row_sequence r
               \<and> (case t of None \<Rightarrow> True | Some n \<Rightarrow> row_sequence r \<le> n)) rows
         in (case preceding of [] \<Rightarrow> [] | p # ps \<Rightarrow> [max_key row_sequence p ps]) @ in_range))"

definition verify_chain :: "(string \<Rightarrow> string) \<Rightarrow> chain_row list \<Rightarrow> int option \<Rightarrow> int option
    \<Rightarrow> chain_break option result" where
  "verify_chain h rows f t =
     rbind (validate_range f t) (\<lambda>u. verify_rows h (f = None) None (selected_rows rows f t))"

section \<open>The chain as an inductive specification\<close>

text \<open>The link between a row and the row before it, and a list of linked rows.\<close>

definition link_ok :: "(string \<Rightarrow> string) \<Rightarrow> bool \<Rightarrow> chain_row option \<Rightarrow> chain_row \<Rightarrow> bool" where
  "link_ok h whole previous r \<longleftrightarrow> row_sequence r \<ge> 1 \<and> row_expected_hash h r = ok (row_hash r)
     \<and> (case previous of None \<Rightarrow> whole \<longrightarrow> row_prev_hash r = None
        | Some p \<Rightarrow> row_sequence p \<ge> 1 \<and> row_sequence p < row_sequence r
            \<and> row_prev_hash r = Some (row_hash p))"

fun linked :: "(string \<Rightarrow> string) \<Rightarrow> bool \<Rightarrow> chain_row option \<Rightarrow> chain_row list \<Rightarrow> bool" where
  "linked h whole previous [] = True"
| "linked h whole previous (r # rs) \<longleftrightarrow> link_ok h whole previous r \<and> linked h whole (Some r) rs"

lemma verify_rows_Cons_ok:
  "verify_rows h whole previous (r # rs) = ok None
   \<longleftrightarrow> link_ok h whole previous r \<and> verify_rows h whole (Some r) rs = ok None"
  by (auto simp: link_ok_def checked_sequence_def rbind_def split: sum.splits option.splits if_splits)

lemma verify_rows_ok: "verify_rows h whole previous rs = ok None \<longleftrightarrow> linked h whole previous rs"
  by (induction rs arbitrary: previous) (simp_all only: verify_rows_Cons_ok linked.simps, simp_all)

definition last_or :: "'a option \<Rightarrow> 'a list \<Rightarrow> 'a option" where
  "last_or p xs = (if xs = [] then p else Some (last xs))"

lemma linked_append:
  "linked h whole p (rs @ ss) \<longleftrightarrow> linked h whole p rs \<and> linked h whole (last_or p rs) ss"
  by (induction rs arbitrary: p) (auto simp: last_or_def)

lemma linked_nth:
  "linked h whole p rs \<longleftrightarrow> (\<forall>i<length rs. link_ok h whole (if i = 0 then p else Some (rs ! (i - 1))) (rs ! i))"
proof (induction rs rule: rev_induct)
  case (snoc r rs)
  let ?at = "\<lambda>xs i. link_ok h whole (if i = 0 then p else Some (xs ! (i - 1))) (xs ! i)"
  have "(\<forall>i<length rs. ?at (rs @ [r]) i) \<longleftrightarrow> (\<forall>i<length rs. ?at rs i)"
    by (intro all_cong) (auto simp: nth_append less_imp_diff_less)
  moreover have "?at (rs @ [r]) (length rs) \<longleftrightarrow> linked h whole (last_or p rs) [r]"
    by (cases "rs = []") (simp_all add: last_or_def nth_append last_conv_nth)
  ultimately show ?case
    by (simp only: linked_append snoc.IH length_append_singleton All_less_Suc) blast
qed simp

lemma verify_chain_whole: "verify_chain h rows None None = verify_rows h True None rows"
  by (simp add: verify_chain_def validate_range_def selected_rows_def ensure_def)

text \<open>
  C8: a whole chain verifies exactly when every row has a positive sequence and carries the
  digest of its own content, the first row has no previous hash, and every other row has a
  larger sequence than the row before it and names that row's hash.
\<close>

theorem verify_chain_whole_iff:
  "verify_chain h rows None None = ok None \<longleftrightarrow>
     (\<forall>i<length rows. row_sequence (rows ! i) \<ge> 1
        \<and> row_expected_hash h (rows ! i) = ok (row_hash (rows ! i))
        \<and> row_prev_hash (rows ! i) = (if i = 0 then None else Some (row_hash (rows ! (i - 1))))
        \<and> (i > 0 \<longrightarrow> row_sequence (rows ! (i - 1)) < row_sequence (rows ! i)))"
proof -
  define row where "row = (\<lambda>i. rows ! i)"
  have "(\<forall>i<n. link_ok h True (if i = 0 then None else Some (row (i - 1))) (row i)) \<longleftrightarrow>
     (\<forall>i<n. row_sequence (row i) \<ge> 1 \<and> row_expected_hash h (row i) = ok (row_hash (row i))
        \<and> row_prev_hash (row i) = (if i = 0 then None else Some (row_hash (row (i - 1))))
        \<and> (i > 0 \<longrightarrow> row_sequence (row (i - 1)) < row_sequence (row i)))" (is "?links \<longleftrightarrow> ?spec") for n
  proof
    assume ?links
    then show ?spec by (auto simp: link_ok_def split: if_splits)
  next
    assume spec: ?spec
    show ?links
    proof (intro allI impI)
      fix i assume i: "i < n"
      show "link_ok h True (if i = 0 then None else Some (row (i - 1))) (row i)"
      proof (cases i)
        case 0
        then show ?thesis using spec i by (simp add: link_ok_def)
      next
        case (Suc j)
        then have "row_sequence (row j) \<ge> 1" using spec i by simp
        then show ?thesis using spec [rule_format, OF i] Suc by (simp add: link_ok_def)
      qed
    qed
  qed
  then show ?thesis by (simp only: verify_chain_whole verify_rows_ok linked_nth row_def)
qed

section \<open>Tamper evidence\<close>

text \<open>What \<open>hashlib\<close> documents of a digest: its text is made of hexadecimal digits.\<close>

definition hex_output :: "(string \<Rightarrow> string) \<Rightarrow> bool" where
  "hex_output h \<longleftrightarrow> (\<forall>m. set (h m) \<subseteq> set ''0123456789abcdef'')"

lemma hex_output_digit: "hex_output h \<Longrightarrow> c \<in> set (h m) \<Longrightarrow> c \<in> set ''0123456789abcdef''"
  unfolding hex_output_def by blast

lemma hex_output_separator: "hex_output h \<Longrightarrow> CHR 0x1F \<notin> set (h m)"
  using hex_output_digit [of h "CHR 0x1F" m] by force

lemma hex_output_null: "hex_output h \<Longrightarrow> h m \<noteq> ''<null>''"
  using hex_output_digit [of h "CHR ''<''" m] by force

lemma event_material_prev:
  assumes "event_material n occurred a e st si p prev = ok m"
  shows "\<exists>front. m = front @ CHR 0x1F # prev_token prev"
proof -
  obtain ts a' e' st' si' c where "m = join_with hash_separator
      [int_text n, ts, a', e', st', si', c, prev_token prev]"
    using assms by (auto simp: event_material_def split: if_splits)
  then have "m = (int_text n @ hash_separator @ ts @ hash_separator @ a' @ hash_separator @ e'
      @ hash_separator @ st' @ hash_separator @ si' @ hash_separator @ c) @ CHR 0x1F # prev_token prev"
    by (simp add: hash_separator_def)
  then show ?thesis by blast
qed

lemma last_field_unique:
  assumes "xs @ c # t = ys @ c # u" and "c \<notin> set t" and "c \<notin> set u"
  shows "t = u"
proof -
  have "takeWhile (\<lambda>x. x \<noteq> c) (rev t @ c # zs) = rev t" if "c \<notin> set t" for t zs
    using that by (subst takeWhile_append2) auto
  from this [of t "rev xs"] this [of u "rev ys"] assms have "rev t = rev u"
    by (metis rev.simps(2) rev_append append.assoc append_Cons append_Nil)
  then show ?thesis by simp
qed

lemma expected_hash_material:
  "row_expected_hash h r = ok x \<longleftrightarrow> (\<exists>m. row_material r = ok m \<and> h m = x)"
  by (auto simp: row_expected_hash_def row_material_def compute_event_hash_def)

definition collide :: "(string \<Rightarrow> string) \<Rightarrow> chain_row \<Rightarrow> chain_row \<Rightarrow> bool" where
  "collide h r r' \<longleftrightarrow> (\<exists>m m'. row_material r = ok m \<and> row_material r' = ok m' \<and> m \<noteq> m' \<and> h m = h m')"

lemma same_material_same_prev:
  assumes hex: "hex_output h" and "row_material r = ok m" and "row_material r' = ok m"
    and prev: "row_prev_hash r = None \<or> (\<exists>x. row_prev_hash r = Some (h x))"
    and prev': "row_prev_hash r' = None \<or> (\<exists>x. row_prev_hash r' = Some (h x))"
  shows "row_prev_hash r = row_prev_hash r'"
proof -
  have sep: "CHR 0x1F \<notin> set (prev_token q)" if "q = None \<or> (\<exists>x. q = Some (h x))" for q
    using that hex_output_separator [OF hex] by (auto simp: prev_token_def)
  obtain f f' where "m = f @ CHR 0x1F # prev_token (row_prev_hash r)"
      "m = f' @ CHR 0x1F # prev_token (row_prev_hash r')"
    using assms(2,3) unfolding row_material_def by (meson event_material_prev)
  then have "prev_token (row_prev_hash r) = prev_token (row_prev_hash r')"
    using last_field_unique sep prev prev' by metis
  then show ?thesis using prev prev' hex_output_null [OF hex]
    by (auto simp: prev_token_def dest: sym)
qed

lemma link_prev_hash:
  assumes "linked h True None (rs @ [r])"
  shows "row_prev_hash r = (if rs = [] then None else Some (row_hash (last rs)))"
    and "row_expected_hash h r = ok (row_hash r)"
    and "rs \<noteq> [] \<Longrightarrow> row_expected_hash h (last rs) = ok (row_hash (last rs))"
proof -
  have "link_ok h True (last_or None rs) r" using assms by (simp add: linked_append)
  then show "row_prev_hash r = (if rs = [] then None else Some (row_hash (last rs)))"
    and "row_expected_hash h r = ok (row_hash r)" by (auto simp: link_ok_def last_or_def split: if_splits)
next
  assume "rs \<noteq> []"
  then obtain ss q where rs: "rs = ss @ [q]" by (metis rev_exhaust)
  then have "link_ok h True (last_or None ss) q" using assms by (simp add: linked_append)
  then show "row_expected_hash h (last rs) = ok (row_hash (last rs))" by (simp add: link_ok_def rs)
qed

lemma last_link_commits:
  assumes hex: "hex_output h"
    and rs: "linked h True None (rs @ [r])" and rs': "linked h True None (rs' @ [r'])"
    and hash: "row_hash r = row_hash r'" and no: "\<not> collide h r r'"
  shows "row_material r = row_material r'" and "rs = [] \<longleftrightarrow> rs' = []"
    and "rs \<noteq> [] \<Longrightarrow> row_hash (last rs) = row_hash (last rs')"
proof -
  obtain m m' where m: "row_material r = ok m" "h m = row_hash r"
      and m': "row_material r' = ok m'" "h m' = row_hash r'"
    using link_prev_hash(2) [OF rs] link_prev_hash(2) [OF rs'] by (auto simp: expected_hash_material)
  then have "m = m'" using no hash by (auto simp: collide_def)
  then show mat: "row_material r = row_material r'" using m m' by simp
  have shape: "row_prev_hash q = None \<or> (\<exists>x. row_prev_hash q = Some (h x))"
    if "linked h True None (qs @ [q])" for q qs
    using link_prev_hash(1,3) [OF that] expected_hash_material [of h "last qs"] by metis
  have "row_prev_hash r = row_prev_hash r'"
    using same_material_same_prev [OF hex m(1) _ shape [OF rs] shape [OF rs']] mat m by simp
  then show "rs = [] \<longleftrightarrow> rs' = []" and "rs \<noteq> [] \<Longrightarrow> row_hash (last rs) = row_hash (last rs')"
    unfolding link_prev_hash(1) [OF rs] link_prev_hash(1) [OF rs'] by (auto split: if_splits)
qed

lemma chain_commits:
  assumes "hex_output h" and "linked h True None rs" and "linked h True None rs'"
    and "rs \<noteq> [] \<longleftrightarrow> rs' \<noteq> []" and "rs \<noteq> [] \<Longrightarrow> row_hash (last rs) = row_hash (last rs')"
    and "\<forall>r\<in>set rs. \<forall>r'\<in>set rs'. \<not> collide h r r'"
  shows "map row_material rs = map row_material rs'"
  using assms
proof (induction rs arbitrary: rs' rule: rev_induct)
  case (snoc r rs)
  then obtain ss r' where rs': "rs' = ss @ [r']" by (metis rev_exhaust snoc_eq_iff_butlast)
  note step = last_link_commits [OF snoc.prems(1), of rs r ss r']
  have facts: "row_material r = row_material r'" "rs = [] \<longleftrightarrow> ss = []"
      "rs \<noteq> [] \<Longrightarrow> row_hash (last rs) = row_hash (last ss)"
    using step snoc.prems(2-6) by (simp_all add: rs')
  have "map row_material rs = map row_material ss"
    using snoc.IH [of ss] snoc.prems facts by (simp add: rs' linked_append)
  then show ?case using facts(1) by (simp add: rs')
qed simp

text \<open>The content of a row: the eight texts that are framed. Without the separator inside them the framing is exact.\<close>

definition row_fields :: "chain_row \<Rightarrow> string list result" where
  "row_fields r =
     (if row_sequence r < 1 then raise ValueError else
      rbind (utc_timestamp (row_occurred_at r)) (\<lambda>t. rbind (canonical_payload (row_payload r)) (\<lambda>c.
      rbind (actor_token (if row_actor_id r \<noteq> PNone then row_actor_id r else row_actor_label r)) (\<lambda>a.
      rbind (text_token (row_event_type r)) (\<lambda>e. rbind (text_token (row_subject_type r)) (\<lambda>st.
      rbind (text_token (row_subject_id r)) (\<lambda>si.
      ok [int_text (row_sequence r), t, a, e, st, si, c, prev_token (row_prev_hash r)])))))))"

definition separator_free :: "chain_row \<Rightarrow> bool" where
  "separator_free r \<longleftrightarrow> (case row_fields r of Inl e \<Rightarrow> True | Inr fs \<Rightarrow> list_all (\<lambda>f. CHR 0x1F \<notin> set f) fs)"

lemma row_material_fields: "row_material r = rbind (row_fields r) (\<lambda>fs. ok (join_with hash_separator fs))"
  by (auto simp: row_material_def row_fields_def event_material_def rbind_def split: sum.splits)

lemma row_fields_length: "row_fields r = ok fs \<Longrightarrow> length fs = 8"
  by (auto simp: row_fields_def rbind_ok_iff split: if_splits)

lemma join_with_injective:
  assumes "join_with [c] xs = join_with [c] ys" and "length xs = length ys"
    and "list_all (\<lambda>f. c \<notin> set f) xs" and "list_all (\<lambda>f. c \<notin> set f) ys"
  shows "xs = ys"
  using assms
proof (induction xs arbitrary: ys rule: induct_list012)
  case (2 x)
  then show ?case by (cases ys) auto
next
  case (3 x x' xs)
  then obtain y y' ys' where ys: "ys = y # y' # ys'" by (metis length_Suc_conv)
  have split: "takeWhile (\<lambda>a. a \<noteq> c) (f @ c # rest) = f" if "c \<notin> set f" for f rest
    using that by (subst takeWhile_append2) auto
  have eq: "x @ c # join_with [c] (x' # xs) = y @ c # join_with [c] (y' # ys')" using "3.prems"(1) ys by simp
  have "c \<notin> set x" "c \<notin> set y" using "3.prems"(3,4) ys by simp_all
  then have "x = y" using eq split [of x "join_with [c] (x' # xs)"] split [of y "join_with [c] (y' # ys')"] by simp
  then show ?case using eq "3.IH"(2) [of "y' # ys'"] "3.prems"(2-4) ys by simp
qed simp

lemma same_material_same_fields:
  assumes "row_material r = row_material r'" and "row_material r = ok m" and "separator_free r" and "separator_free r'"
  shows "row_fields r = row_fields r'"
proof -
  obtain fs where fs: "row_fields r = ok fs" "m = join_with hash_separator fs" using assms(2) by (auto simp: row_material_fields rbind_ok_iff)
  obtain gs where gs: "row_fields r' = ok gs" "m = join_with hash_separator gs" using assms(1,2) by (auto simp: row_material_fields rbind_ok_iff)
  have "fs = gs" by (rule join_with_injective [of "CHR 0x1F"])
    (use fs gs assms(3,4) row_fields_length in \<open>simp_all add: hash_separator_def separator_free_def\<close>)
  then show ?thesis using fs gs by simp
qed

lemma linked_material: "linked h whole previous rs \<Longrightarrow> r \<in> set rs \<Longrightarrow> \<exists>m. row_material r = ok m"
proof (induction rs arbitrary: previous)
  case (Cons q rs)
  then show ?case by (auto simp: link_ok_def expected_hash_material)
qed simp

text \<open>
  C9: the last hash of a verified chain commits to its whole history. Two chains that verify and end in
  the same hash have the same content row by row: sequence, instant, actor, event, subject, payload and
  previous hash; unless two of their rows exhibit a collision of the digest, or a field of one of them
  contains the separator that frames the fields.
\<close>

theorem chain_tamper_evident:
  assumes "hex_output h" and "verify_chain h rows None None = ok None"
    and "verify_chain h rows' None None = ok None" and "rows \<noteq> []" and "rows' \<noteq> []"
    and "row_hash (last rows) = row_hash (last rows')"
    and "\<forall>r\<in>set rows \<union> set rows'. separator_free r"
  shows "map row_fields rows = map row_fields rows'
     \<or> (\<exists>r\<in>set rows. \<exists>r'\<in>set rows'. \<exists>m m'.
          row_material r = ok m \<and> row_material r' = ok m' \<and> m \<noteq> m' \<and> h m = h m')"
proof (cases "\<exists>r\<in>set rows. \<exists>r'\<in>set rows'. collide h r r'")
  case False
  have links: "linked h True None rows" "linked h True None rows'" using assms(2,3) unfolding verify_chain_whole verify_rows_ok by blast+
  have "map row_material rows = map row_material rows'"
    using chain_commits [OF assms(1) links] assms(4-6) False by blast
  then have "list_all2 (\<lambda>r r'. row_material r = row_material r') rows rows'"
    by (simp add: list_all2_conv_all_nth list_eq_iff_nth_eq)
  then have "list_all2 (\<lambda>r r'. row_fields r = row_fields r') rows rows'"
  proof (rule list.rel_mono_strong)
    fix r r' assume r: "r \<in> set rows" "r' \<in> set rows'" "row_material r = row_material r'"
    then obtain m where "row_material r = ok m" using linked_material [OF links(1)] by blast
    then show "row_fields r = row_fields r'" using same_material_same_fields r assms(7) by blast
  qed
  then show ?thesis by (simp add: list_all2_conv_all_nth list_eq_iff_nth_eq)
qed (auto simp: collide_def)

text \<open>Two chains of two rows; the payloads differ in the order of their keys only.\<close>

definition length_digest :: "string \<Rightarrow> string" where "length_digest m = hex_digits 2 (length m)"

definition demo_row :: "int \<Rightarrow> string option \<Rightarrow> string \<Rightarrow> (pyval \<times> pyval) list \<Rightarrow> chain_row" where
  "demo_row n prev digest payload = \<lparr>row_sequence = n, row_occurred_at = PDatetime 63902649600000000,
     row_actor_id = PNone, row_actor_label = PStr ''engine'', row_event_type = PStr ''case.opened'',
     row_subject_type = PStr ''case'', row_subject_id = PStr ''c-1'', row_payload = PMap payload,
     row_prev_hash = prev, row_hash = digest\<rparr>"

definition demo_chain :: "(pyval \<times> pyval) list \<Rightarrow> chain_row list" where
  "demo_chain payload = [demo_row 2 None ''64'' payload, demo_row 5 (Some ''64'') ''60'' payload]"

definition demo_payload :: "(pyval \<times> pyval) list" where
  "demo_payload = [(PStr ''state'', PStr ''open''), (PStr ''reason'', PNone)]"

lemma hex_digit_hex: "hex_digit n \<in> set ''0123456789abcdef''"
  unfolding hex_digit_def by (rule nth_mem) simp

lemma length_digest_hex: "hex_output length_digest"
proof -
  have "set (hex_digits k n) \<subseteq> set ''0123456789abcdef''" for k n
    using hex_digit_hex by (induction k arbitrary: n) auto
  then show ?thesis by (simp add: hex_output_def length_digest_def)
qed

lemma demo_chain_verifies:
  "verify_chain length_digest (demo_chain demo_payload) None None = ok None"
  "verify_chain length_digest (demo_chain (rev demo_payload)) None None = ok None"
  by code_simp+

lemma demo_chain_ends:
  "demo_chain p \<noteq> []" "row_hash (last (demo_chain p)) = row_hash (last (demo_chain q))"
  by (simp_all add: demo_chain_def demo_row_def)

theorem verify_chain_whole_iff_witness:
  "row_prev_hash (demo_chain demo_payload ! 1) = Some (row_hash (demo_chain demo_payload ! 0))
   \<and> row_sequence (demo_chain demo_payload ! 0) < row_sequence (demo_chain demo_payload ! 1)"
proof -
  have two: "1 < length (demo_chain demo_payload)" by (simp add: demo_chain_def)
  note all = verify_chain_whole_iff [THEN iffD1, OF demo_chain_verifies(1)]
  from all [rule_format, OF two] show ?thesis by simp
qed

theorem chain_tamper_evident_witness:
  "map row_fields (demo_chain demo_payload) = map row_fields (demo_chain (rev demo_payload))
     \<or> (\<exists>r\<in>set (demo_chain demo_payload). \<exists>r'\<in>set (demo_chain (rev demo_payload)). \<exists>m m'.
          row_material r = ok m \<and> row_material r' = ok m' \<and> m \<noteq> m' \<and> length_digest m = length_digest m')"
proof (rule chain_tamper_evident [OF length_digest_hex demo_chain_verifies(1) demo_chain_verifies(2)
        demo_chain_ends(1) demo_chain_ends(1) demo_chain_ends(2)])
  have "list_all separator_free (demo_chain demo_payload @ demo_chain (rev demo_payload))" by code_simp
  then show "\<forall>r\<in>set (demo_chain demo_payload) \<union> set (demo_chain (rev demo_payload)). separator_free r"
    by (auto simp: list_all_iff)
qed

section \<open>What a reported break says\<close>

text \<open>The break that \<open>verify_rows\<close> reports for a row, when the row is not linked.\<close>

definition break_explains :: "(string \<Rightarrow> string) \<Rightarrow> bool \<Rightarrow> chain_row option \<Rightarrow> chain_row \<Rightarrow> chain_break \<Rightarrow> bool" where
  "break_explains h whole previous r b \<longleftrightarrow> cb_sequence b = row_sequence r
     \<and> cb_previous_sequence b = map_option row_sequence previous
     \<and> cb_actual_prev_hash b = row_prev_hash r \<and> cb_actual_hash b = row_hash r
     \<and> (case cb_reason b of
          FIRST_HAS_PREVIOUS \<Rightarrow> whole \<and> previous = None \<and> row_prev_hash r \<noteq> None
        | NOT_INCREASING \<Rightarrow> (\<exists>p. previous = Some p \<and> row_sequence r \<le> row_sequence p)
        | LINK_MISMATCH \<Rightarrow> (\<exists>p. previous = Some p \<and> row_prev_hash r \<noteq> Some (row_hash p))
        | NOT_HASHABLE \<Rightarrow> (\<exists>e. row_material r = raise e)
        | HASH_MISMATCH \<Rightarrow> (\<exists>m. row_material r = ok m \<and> cb_expected_hash b = Some (h m) \<and> row_hash r \<noteq> h m))"

lemma expected_hash_error: "row_expected_hash h r = raise e \<longleftrightarrow> row_material r = raise e"
  unfolding row_expected_hash_def row_material_def compute_event_hash_def
  by (simp add: rbind_def split: sum.splits)

lemma verify_rows_Cons_break:
  assumes "verify_rows h whole previous (r # rs) = ok (Some b)"
  shows "break_explains h whole previous r b
     \<or> (link_ok h whole previous r \<and> verify_rows h whole (Some r) rs = ok (Some b))"
proof -
  have content: "break_explains h whole previous r b
      \<or> (row_expected_hash h r = ok (row_hash r) \<and> verify_rows h whole (Some r) rs = ok (Some b))"
    if "(case row_expected_hash h r of
        Inl e \<Rightarrow> if e \<in> {TypeError, ValueError} then ok (Some (break_at r previous NOT_HASHABLE None)) else raise e
      | Inr expected \<Rightarrow>
          if row_hash r \<noteq> expected then ok (Some (break_at r previous HASH_MISMATCH (Some expected)))
          else verify_rows h whole (Some r) rs) = ok (Some b)"
  proof (cases "row_expected_hash h r")
    case (Inl e)
    then have "b = break_at r previous NOT_HASHABLE None" using that by (simp split: if_splits)
    then show ?thesis using Inl by (simp add: break_explains_def break_at_def expected_hash_error)
  next
    case (Inr x)
    then obtain m where "row_material r = ok m" "h m = x" by (auto simp: expected_hash_material)
    then show ?thesis using that Inr
      by (auto simp: break_explains_def break_at_def split: if_splits)
  qed
  show ?thesis
  proof (cases previous)
    case None
    show ?thesis
    proof (cases "whole \<and> row_prev_hash r \<noteq> None")
      case True
      then show ?thesis using assms None
        by (auto simp: break_explains_def break_at_def checked_sequence_def split: if_splits)
    next
      case False
      then show ?thesis using assms content None
        by (auto simp: link_ok_def checked_sequence_def split: if_splits)
    qed
  next
    case (Some p)
    consider "row_sequence r \<le> row_sequence p" | "row_sequence p < row_sequence r" "row_prev_hash r \<noteq> Some (row_hash p)"
      | "row_sequence p < row_sequence r" "row_prev_hash r = Some (row_hash p)" by fastforce
    then show ?thesis
    proof cases
      case 3
      then show ?thesis using assms content Some
        by (auto simp: link_ok_def checked_sequence_def split: if_splits)
    qed (use assms Some in \<open>auto simp: break_explains_def break_at_def checked_sequence_def split: if_splits\<close>)
  qed
qed

lemma verify_rows_break:
  assumes "verify_rows h whole previous rs = ok (Some b)"
  shows "\<exists>good r rest. rs = good @ r # rest \<and> linked h whole previous good
     \<and> break_explains h whole (last_or previous good) r b"
  using assms
proof (induction rs arbitrary: previous)
  case (Cons r rs)
  from verify_rows_Cons_break [OF Cons.prems] show ?case
  proof
    assume "break_explains h whole previous r b"
    then show ?thesis by (intro exI [of _ "[]"]) (simp add: last_or_def)
  next
    assume step: "link_ok h whole previous r \<and> verify_rows h whole (Some r) rs = ok (Some b)"
    then obtain good q rest where "rs = good @ q # rest" "linked h whole (Some r) good"
        "break_explains h whole (last_or (Some r) good) q b" using Cons.IH by blast
    then show ?thesis using step
      by (intro exI [of _ "r # good"] exI [of _ q] exI [of _ rest]) (auto simp: last_or_def split: if_splits)
  qed
qed simp

text \<open>
  a reported break names the first row that fails: every row before it verifies, and the
  reason it gives is true of that row and of the row it names as the previous one.
\<close>

theorem verify_chain_first_break:
  assumes "verify_chain h rows None None = ok (Some b)"
  shows "\<exists>good r rest. rows = good @ r # rest \<and> verify_chain h good None None = ok None
     \<and> cb_sequence b = row_sequence r
     \<and> cb_previous_sequence b = (if good = [] then None else Some (row_sequence (last good)))
     \<and> (case cb_reason b of
          FIRST_HAS_PREVIOUS \<Rightarrow> good = [] \<and> row_prev_hash r \<noteq> None
        | NOT_INCREASING \<Rightarrow> good \<noteq> [] \<and> row_sequence r \<le> row_sequence (last good)
        | LINK_MISMATCH \<Rightarrow> good \<noteq> [] \<and> row_prev_hash r \<noteq> Some (row_hash (last good))
        | NOT_HASHABLE \<Rightarrow> (\<exists>e. row_material r = raise e)
        | HASH_MISMATCH \<Rightarrow> (\<exists>m. row_material r = ok m \<and> cb_expected_hash b = Some (h m) \<and> row_hash r \<noteq> h m))"
proof -
  obtain good r rest where "rows = good @ r # rest" "linked h True None good"
      "break_explains h True (last_or None good) r b"
    using verify_rows_break assms unfolding verify_chain_whole by blast
  then show ?thesis unfolding verify_chain_whole verify_rows_ok
    by (intro exI [of _ good] exI [of _ r] exI [of _ rest])
      (auto simp: break_explains_def last_or_def split: break_reason.splits if_splits)
qed

theorem verify_chain_first_break_witness:
  "\<exists>good r rest. demo_chain demo_payload @ [demo_row 5 None [] []] = good @ r # rest
     \<and> verify_chain length_digest good None None = ok None"
proof -
  have "verify_chain length_digest (demo_chain demo_payload @ [demo_row 5 None [] []]) None None
      = ok (Some (break_at (demo_row 5 None [] []) (Some (demo_row 5 (Some ''64'') ''60'' demo_payload))
          NOT_INCREASING None))"
    by code_simp
  from verify_chain_first_break [OF this] show ?thesis by blast
qed

section \<open>Bounded verification\<close>

lemma linked_later: "linked h whole (Some p) rs \<Longrightarrow> r \<in> set rs \<Longrightarrow> row_sequence p < row_sequence r"
  by (induction rs arbitrary: p) (fastforce simp: link_ok_def)+

lemma linked_sorted: "linked h whole p rs \<Longrightarrow> sorted_wrt (\<lambda>x y. row_sequence x < row_sequence y) rs"
  by (induction rs arbitrary: p) (auto intro: linked_later)

lemma filter_takeWhile:
  assumes "sorted_wrt R xs" and "\<And>x y. R x y \<Longrightarrow> P y \<Longrightarrow> P x"
  shows "filter P xs = takeWhile P xs"
  using assms
proof (induction xs)
  case (Cons x xs)
  have "\<not> P x \<Longrightarrow> filter P xs = []" using Cons.prems by (auto simp: filter_empty_conv)
  then show ?case using Cons by auto
qed simp

lemma filter_dropWhile:
  assumes "sorted_wrt R xs" and "\<And>x y. R x y \<Longrightarrow> P y \<Longrightarrow> P x"
  shows "filter (\<lambda>x. \<not> P x) xs = dropWhile P xs"
  using assms
proof (induction xs)
  case (Cons x xs)
  have "\<not> P x \<Longrightarrow> filter (\<lambda>x. \<not> P x) xs = xs" using Cons.prems by (auto simp: filter_id_conv)
  then show ?case using Cons by auto
qed simp

lemma sorted_wrt_dropWhile: "sorted_wrt R xs \<Longrightarrow> sorted_wrt R (dropWhile P xs)"
  by (induction xs) auto

lemma filter_up_to:
  assumes "sorted_wrt (\<lambda>x y. row_sequence x < row_sequence y) rs"
  shows "\<exists>rest. rs = filter (\<lambda>r. case t of None \<Rightarrow> True | Some n \<Rightarrow> row_sequence r \<le> n) rs @ rest"
proof (cases t)
  case (Some n)
  have "filter (\<lambda>r. row_sequence r \<le> n) rs = takeWhile (\<lambda>r. row_sequence r \<le> n) rs"
    by (rule filter_takeWhile [OF assms]) simp
  then show ?thesis using Some
    by (intro exI [of _ "dropWhile (\<lambda>r. row_sequence r \<le> n) rs"]) simp
qed simp

lemma linked_partial: "linked h True p rs \<Longrightarrow> linked h False p rs"
  by (induction rs arbitrary: p) (auto simp: link_ok_def split: option.splits)

lemma linked_unanchored:
  assumes "linked h False p rs" shows "linked h False None rs"
  using assms by (cases rs) (auto simp: link_ok_def split: option.splits)

lemma max_key_sorted_last:
  assumes "sorted_wrt (\<lambda>x y. row_sequence x < row_sequence y) (p # ps)"
  shows "max_key row_sequence p ps = last (p # ps)"
  using assms by (induction ps arbitrary: p) auto

lemma linked_selected:
  assumes "linked h True None rows"
  shows "linked h (f = None) None (selected_rows rows f t)"
proof -
  note sorted = linked_sorted [OF assms]
  show ?thesis
  proof (cases f)
    case None
    obtain rest where "rows = filter (\<lambda>r. case t of None \<Rightarrow> True | Some n \<Rightarrow> row_sequence r \<le> n) rows @ rest"
      using filter_up_to [OF sorted] by blast
    then have "rows = selected_rows rows f t @ rest" using None by (simp add: selected_rows_def)
    then have "linked h True None (selected_rows rows f t @ rest)" using assms by argo
    then show ?thesis using None by (simp add: linked_append)
  next
    case (Some a)
    let ?pre = "takeWhile (\<lambda>r. row_sequence r < a) rows" and ?post = "dropWhile (\<lambda>r. row_sequence r < a) rows"
    have pre: "filter (\<lambda>r. row_sequence r < a) rows = ?pre"
      by (rule filter_takeWhile [OF sorted]) simp
    have post: "filter (\<lambda>r. \<not> row_sequence r < a) rows = ?post"
      by (rule filter_dropWhile [OF sorted]) simp
    define kept where "kept = filter (\<lambda>r. case t of None \<Rightarrow> True | Some n \<Rightarrow> row_sequence r \<le> n) ?post"
    obtain rest where rest: "?post = kept @ rest"
      using filter_up_to [OF sorted_wrt_dropWhile [OF sorted]] unfolding kept_def by blast
    have in_range: "filter (\<lambda>r. a \<le> row_sequence r \<and> (case t of None \<Rightarrow> True | Some n \<Rightarrow> row_sequence r \<le> n)) rows = kept"
      unfolding kept_def post [symmetric] by (simp add: not_less conj_commute)
    have whole: "linked h False None (?pre @ kept @ rest)"
      using linked_partial [OF assms] rest by (metis takeWhile_dropWhile_id)
    have anchored: "linked h False (last_or None ?pre) kept" and head: "linked h False None ?pre"
      using whole by (simp_all add: linked_append)
    show ?thesis
    proof (cases ?pre)
      case Nil
      then show ?thesis using Some in_range pre linked_unanchored [OF anchored]
        by (simp add: selected_rows_def)
    next
      case (Cons p ps)
      have "sorted_wrt (\<lambda>x y. row_sequence x < row_sequence y) (p # ps)"
        using sorted_wrt_filter [OF sorted, of "\<lambda>r. row_sequence r < a"] pre Cons by metis
      then have top: "max_key row_sequence p ps = last ?pre" using max_key_sorted_last Cons by metis
      have "linked h False None [last ?pre]"
        using head linked_unanchored linked_append [of h False None "butlast ?pre" "[last ?pre]"] Cons
        by (metis append_butlast_last_id list.distinct(1))
      then have "linked h False None ([last ?pre] @ kept)"
        using anchored Cons by (simp add: linked_append last_or_def)
      then show ?thesis using Some in_range pre top Cons by (simp add: selected_rows_def)
    qed
  qed
qed

text \<open>
  bounded verification gives no false alarm. When the whole chain verifies, so does every
  valid range of it, wherever it starts and ends.
\<close>

theorem verified_chain_ranges:
  assumes "verify_chain h rows None None = ok None" and "validate_range f t = ok ()"
  shows "verify_chain h rows f t = ok None"
  using assms linked_selected [of h rows f t]
  by (simp add: verify_chain_whole verify_rows_ok) (simp add: verify_chain_def verify_rows_ok)

theorem verified_chain_ranges_witness:
  "verify_chain length_digest (demo_chain demo_payload) (Some 3) (Some 9) = ok None"
  by (rule verified_chain_ranges [OF demo_chain_verifies(1)]) (simp add: validate_range_def)

section \<open>Personal data stays out of payloads\<close>

text \<open>Every field with a personal name holds a reference and nothing else, at every depth.\<close>

fun references_only :: "json \<Rightarrow> bool" where
  "references_only (JObj kvs) \<longleftrightarrow> (\<forall>(k, j)\<in>set kvs. references_only j
     \<and> (is_personal_field k \<longrightarrow> (\<exists>s. j = JObj [(''reference'', JStr s)] \<and> s \<noteq> [] \<and> strip s = s)))"
| "references_only (JArr js) \<longleftrightarrow> (\<forall>j\<in>set js. references_only j)"
| "references_only j \<longleftrightarrow> True"

lemma reference_not_personal: "\<not> is_personal_field ''reference''"
  by code_simp

lemma reference_text_ok:
  "reference_text v = ok s \<Longrightarrow> s \<noteq> [] \<and> strip s = s"
  by (auto simp: reference_text_def split: option.splits if_splits)

lemma reference_object_ok:
  assumes "reference_object v = ok j"
  shows "\<exists>s. j = JObj [(''reference'', JStr s)] \<and> s \<noteq> [] \<and> strip s = s"
proof -
  obtain kvs where v: "v = PMap kvs" using assms
    by (cases v) (simp_all add: reference_object_def)
  then show ?thesis using assms reference_text_ok by (auto simp: reference_object_def)
qed

lemma reference_only_object: "references_only (JObj [(''reference'', JStr s)])"
  by (simp add: reference_not_personal)

lemma normalise_safe:
  "normalise_value v = ok j \<Longrightarrow> references_only j"
  "normalise_items kvs = ok items \<Longrightarrow> references_only (JObj items)"
  "normalise_list vs = ok js \<Longrightarrow> references_only (JArr js)"
proof (induction v and kvs and vs arbitrary: j and items and js
    rule: normalise_value_normalise_items_normalise_list.induct)
  case (1 c as)
  then show ?case by (auto split: if_splits simp: reference_not_personal)
next
  case (12 k v kvs)
  obtain key where key: "text_of k = Some key" using "12.prems" by (auto split: option.splits)
  obtain j rest where j: "(if is_personal_field key
            then if \<not> is_reference_object v then raise ValueError else reference_object v
            else normalise_value v) = ok j" and rest: "normalise_items kvs = ok rest"
      and items: "items = (key, j) # rest"
    using "12.prems" key by auto
  have tail: "references_only (JObj rest)" using "12.IH"(2) key j rest by simp
  show ?case
  proof (cases "is_personal_field key")
    case True
    then have "reference_object v = ok j" using j by (simp split: if_splits)
    then show ?thesis using reference_object_ok [of v j] reference_only_object items tail by auto
  next
    case False
    then have "references_only j" using "12.IH"(1) key j by simp
    then show ?thesis using False tail items by simp
  qed
qed (auto split: if_splits)

text \<open>Which errors a payload can raise: a wrong shape or a personal value, nothing else.\<close>

lemma reference_errs: "errs {TypeError, ValueError} (reference_text v)"
    "errs {TypeError, ValueError} (reference_object v)"
  unfolding reference_text_def reference_object_def
  by (auto simp: errs_def reference_text_def rbind_def split: option.splits if_splits pyval.splits sum.splits)

lemma normalise_errs:
  "errs {TypeError, ValueError} (normalise_value v)"
  "errs {TypeError, ValueError} (normalise_items kvs)"
  "errs {TypeError, ValueError} (normalise_list vs)"
proof (induction v and kvs and vs rule: normalise_value_normalise_items_normalise_list.induct)
  case (12 k v kvs)
  then show ?case by (auto intro!: errs_intros reference_errs split: option.splits)
qed (auto intro!: errs_intros reference_errs)

lemma event_material_errs: "errs {TypeError, ValueError} (event_material n occurred a e st si p prev)"
proof -
  have "errs {TypeError, ValueError} (text_token v)" "errs {TypeError, ValueError} (utc_timestamp v)" for v
    by (auto simp: errs_def text_token_def utc_timestamp_def split: pyval.splits)
  moreover have "errs {TypeError, ValueError} (canonical_payload p)"
    unfolding canonical_payload_def normalise_payload_def
    by (auto intro!: errs_intros normalise_errs simp del: normalise_value.simps split: pyval.splits)
  ultimately show ?thesis unfolding event_material_def actor_token_def
    by (auto intro!: errs_intros)
qed

text \<open>
  C10: an accepted payload carries personal fields by reference only. Under a name of the
  personal class, in any letter case, with hyphens or underscores and at any depth, the
  normalised payload holds exactly one non-blank trimmed reference, and a payload that is
  refused is refused with a type or value error.
\<close>

theorem payload_references_only:
  "case normalise_payload payload of
     ok j \<Rightarrow> references_only j \<and> (\<exists>items. j = JObj items)
   | raise e \<Rightarrow> e \<in> {TypeError, ValueError}"
proof (cases "normalise_payload payload")
  case (Inl e)
  then show ?thesis using normalise_errs(1) [of payload, THEN errsD]
    by (auto simp: normalise_payload_def split: pyval.splits)
next
  case (Inr j)
  then obtain kvs where p: "payload = PMap kvs" "normalise_value (PMap kvs) = ok j"
    by (auto simp: normalise_payload_def simp del: normalise_value.simps split: pyval.splits)
  then have "references_only j" using normalise_safe(1) by blast
  moreover have "\<exists>items. j = JObj items" using p(2) by auto
  ultimately show ?thesis using Inr by simp
qed

section \<open>The canonical text does not depend on the order of the keys\<close>

definition normalise_item :: "pyval \<times> pyval \<Rightarrow> (string \<times> json) result" where
  "normalise_item kv = (case text_of (fst kv) of None \<Rightarrow> raise TypeError | Some key \<Rightarrow>
     rbind (if is_personal_field key
            then if \<not> is_reference_object (snd kv) then raise ValueError else reference_object (snd kv)
            else normalise_value (snd kv)) (\<lambda>j. ok (key, j)))"

lemma normalise_items_rmap: "normalise_items kvs = rmap normalise_item kvs"
proof (induction kvs)
  case (Cons kv kvs)
  obtain k v where kv: "kv = (k, v)" by (cases kv)
  have assoc: "rbind (rbind m (\<lambda>j. ok (key, j))) (\<lambda>y. rbind r (\<lambda>ys. ok (y # ys)))
      = rbind m (\<lambda>j. rbind r (\<lambda>items. ok ((key, j) # items)))" for m r and key :: string
    by (cases m) simp_all
  show ?case
    by (cases "text_of k") (simp_all add: kv normalise_item_def assoc Cons.IH)
qed simp

lemma normalise_item_key: "normalise_item kv = ok it \<Longrightarrow> text_of (fst kv) = Some (fst it)"
  by (auto simp: normalise_item_def split: option.splits)

lemma normalise_items_keys:
  "normalise_items kvs = ok items \<Longrightarrow> map (\<lambda>kv. text_of (fst kv)) kvs = map (\<lambda>it. Some (fst it)) items"
  unfolding normalise_items_rmap
  by (induction kvs arbitrary: items) (auto dest: normalise_item_key)

lemma normalise_items_perm:
  assumes "normalise_items kvs = ok items" and "mset kvs' = mset kvs"
  shows "\<exists>items'. normalise_items kvs' = ok items' \<and> mset items' = mset items"
proof -
  let ?f = "\<lambda>x. projr (normalise_item x)"
  have same: "set kvs' = set kvs" using assms(2) by (rule mset_eq_setD)
  have each: "\<forall>x\<in>set kvs. \<exists>y. normalise_item x = ok y" and items: "items = map ?f kvs"
    using assms(1) unfolding normalise_items_rmap rmap_Inr_iff by blast+
  have "normalise_items kvs' = ok (map ?f kvs')"
    unfolding normalise_items_rmap rmap_Inr_iff same using each by blast
  moreover have "mset (map ?f kvs') = mset items" unfolding items mset_map assms(2) ..
  ultimately show ?thesis by blast
qed

lemma json_object_perm:
  assumes "mset items' = mset items" and "distinct (map fst items)"
  shows "json_text (JObj items') = json_text (JObj items)"
proof -
  let ?row = "\<lambda>(k, v). (k, json_string k @ '':'' @ json_text v)"
  have "distinct (map fst items')"
    using assms by (metis mset_eq_imp_distinct_iff mset_map)
  moreover have "map fst (map ?row items') = map fst items'" by (simp add: case_prod_beta)
  ultimately have "distinct (map fst (map ?row items'))" by argo
  then have inj: "inj_on fst (set (map ?row items'))" unfolding distinct_map [of fst] by blast
  have "sort_key fst (map ?row items') = sort_key fst (map ?row items)"
  proof (rule sort_key_inj_key_eq [OF _ inj])
    show "mset (map ?row items') = mset (sort_key fst (map ?row items))" using assms(1) by simp
  qed simp
  then show ?thesis by simp
qed

text \<open>
  the canonical text of a payload is stable. Two payloads with the same entries, in
  whatever order their dictionaries list them, have the same canonical text, so a chain row
  hashes the same after its payload has been read back from the database.
\<close>

theorem canonical_payload_stable:
  assumes "canonical_payload (PMap kvs) = ok text" and "mset kvs' = mset kvs"
    and "distinct (map (\<lambda>kv. text_of (fst kv)) kvs)"
  shows "canonical_payload (PMap kvs') = ok text"
proof -
  obtain items where items: "normalise_items kvs = ok items" "text = json_text (JObj items)"
    using assms(1) by (auto simp: canonical_payload_def normalise_payload_def)
  then obtain items' where items': "normalise_items kvs' = ok items'" "mset items' = mset items"
    using normalise_items_perm assms(2) by blast
  have "distinct (map (Some \<circ> fst) items)"
    using assms(3) normalise_items_keys [OF items(1)] by (simp add: comp_def)
  then have "distinct (map fst items)" by (simp add: distinct_map flip: map_map)
  then have "json_text (JObj items') = json_text (JObj items)"
    by (rule json_object_perm [OF items'(2)])
  then show ?thesis using items items' by (simp add: canonical_payload_def normalise_payload_def)
qed

theorem canonical_payload_stable_witness:
  "canonical_payload (PMap (rev demo_payload))
     = ok (''{'' @ json_string ''reason'' @ '':null,'' @ json_string ''state'' @ '':'' @ json_string ''open'' @ ''}'')"
proof (rule canonical_payload_stable)
  show "canonical_payload (PMap demo_payload)
     = ok (''{'' @ json_string ''reason'' @ '':null,'' @ json_string ''state'' @ '':'' @ json_string ''open'' @ ''}'')"
    by code_simp
qed (simp_all add: demo_payload_def)

section \<open>Two limits of the encoding\<close>

text \<open>
  The fields are joined by U+001F and none of them is checked for it, so the framing is not
  injective: two rows that differ in where the separator falls have one digest.
\<close>

lemma framing_ambiguous:
  "compute_event_hash h n occurred actor (PStr (''a'' @ hash_separator @ ''b'')) (PStr ''c'') subject payload prev
   = compute_event_hash h n occurred actor (PStr ''a'') (PStr (''b'' @ hash_separator @ ''c'')) subject payload prev"
  by (simp add: compute_event_hash_def event_material_def text_token_def hash_separator_def)

text \<open>
  A \<open>PersonalReference\<close> is accepted under an ordinary field and refused under a personal one,
  where only the plain mapping it stands for is accepted.
\<close>

lemma personal_reference_refused:
  "normalise_payload (PMap [(PStr ''email'', PObj ''PersonalReference'' [(''reference'', PStr ''b-7'')])])
     = raise ValueError"
  "normalise_payload (PMap [(PStr ''email'', PMap [(PStr ''reference'', PStr ''b-7'')])])
     = ok (JObj [(''email'', JObj [(''reference'', JStr ''b-7'')])])"
  by code_simp+

end
