(* ===== verification/Ratio_Custom.thy ===== *)
theory Ratio_Custom
  imports Ratio_Core
begin

text \<open>
  \<open>domain/ratios/custom.py\<close>: the custom formulas a bank types. The syntax tree is the one
  of Python's \<open>ast\<close> module with its operator and context nodes, since the walk of the
  validator and the depth measure count them; every class outside the allow-list is \<open>Other\<close>
  with its class name. \<open>ast.parse\<close> is a parameter, with the shape the module documents of its
  trees as the hypothesis \<open>grammatical\<close>.
\<close>

datatype ast = Expression ast | BinOp ast ast ast | UnaryOp ast ast | Constant pyval
  | Name string ast | Load | Add | Sub | Mult | Div | USub | UAdd | Other string "ast list"

text \<open>\<open>ast.iter_child_nodes\<close>\<close>

definition children :: "ast \<Rightarrow> ast list" where
  "children n = (case n of Expression b \<Rightarrow> [b] | BinOp l oper r \<Rightarrow> [l, oper, r] | UnaryOp oper e \<Rightarrow> [oper, e]
     | Name s ctx \<Rightarrow> [ctx] | Other c cs \<Rightarrow> cs | _ \<Rightarrow> [])"

definition max_formula_length :: nat where "max_formula_length = 500"
definition max_formula_depth :: nat where "max_formula_depth = 20"

definition construct_names :: "(string \<times> string) list" where
  "construct_names = [(''Call'', ''a function call''), (''Attribute'', ''attribute access''),
     (''Subscript'', ''a subscript''), (''Slice'', ''a slice''), (''ListComp'', ''a list comprehension''),
     (''SetComp'', ''a set comprehension''), (''DictComp'', ''a dict comprehension''),
     (''GeneratorExp'', ''a generator expression''), (''Lambda'', ''a lambda''), (''Import'', ''an import''),
     (''ImportFrom'', ''an import''), (''NamedExpr'', ''a walrus assignment''),
     (''Compare'', ''a comparison''), (''BoolOp'', ''a boolean operator''),
     (''IfExp'', ''a conditional expression''), (''Starred'', ''a starred expression''),
     (''Await'', ''an await expression''), (''Yield'', ''a yield expression''),
     (''YieldFrom'', ''a yield expression''), (''JoinedStr'', ''an f-string''), (''List'', ''a list literal''),
     (''Tuple'', ''a tuple literal''), (''Set'', ''a set literal''), (''Dict'', ''a dict literal''),
     (''FormattedValue'', ''an f-string expression'')]"

definition construct_name :: "string \<Rightarrow> string" where
  "construct_name c = (case lookup construct_names c of Some s \<Rightarrow> s | None \<Rightarrow> c)"

section \<open>The validator\<close>

text \<open>\<open>ast.walk\<close>: breadth first, from a queue.\<close>

function walk :: "ast list \<Rightarrow> ast list" where
  "walk [] = []"
| "walk (n # queue) = n # walk (queue @ children n)"
  by pat_completeness auto

text \<open>The number of nodes of a tree, the measure of both loops.\<close>

fun nodes :: "ast \<Rightarrow> nat" where
  "nodes (Expression b) = Suc (nodes b)"
| "nodes (BinOp l oper r) = Suc (nodes l + nodes oper + nodes r)"
| "nodes (UnaryOp oper e) = Suc (nodes oper + nodes e)"
| "nodes (Name s ctx) = Suc (nodes ctx)"
| "nodes (Other c cs) = Suc (sum_list (map nodes cs))"
| "nodes n = 1"

lemma nodes_children: "nodes n = Suc (sum_list (map nodes (children n)))"
  by (cases n) (simp_all add: children_def)

termination walk
  by (relation "measure (\<lambda>ns. sum_list (map nodes ns))") (simp_all add: nodes_children)

definition numeric_constant :: "pyval \<Rightarrow> bool" where
  "numeric_constant v = (case v of PInt n \<Rightarrow> True | PFloat s \<Rightarrow> s \<notin> {''inf'', ''-inf'', ''nan''} | _ \<Rightarrow> False)"

fun validate_nodes :: "string list \<Rightarrow> string list \<Rightarrow> ast list \<Rightarrow> string list result" where
  "validate_nodes allowed required [] = ok required"
| "validate_nodes allowed required (n # ns) = (case n of
     Other c cs \<Rightarrow> raise (FormulaRefused (construct_name c))
   | Constant v \<Rightarrow> if \<not> numeric_constant v then raise (FormulaRefused ''non_numeric_constant'')
       else validate_nodes allowed required ns
   | Name s ctx \<Rightarrow> if s \<notin> set allowed then raise (FormulaRefused ''unknown_line'')
       else validate_nodes allowed (if s \<in> set required then required else required @ [s]) ns
   | _ \<Rightarrow> validate_nodes allowed required ns)"

definition validate_nodes_and_collect_names :: "ast \<Rightarrow> string list \<Rightarrow> string list result" where
  "validate_nodes_and_collect_names tree allowed = validate_nodes allowed [] (walk [tree])"

text \<open>The depth, with the explicit stack of the source; its top is the head of the list.\<close>

function depth_loop :: "nat \<Rightarrow> (ast \<times> nat) list \<Rightarrow> nat" where
  "depth_loop deepest [] = deepest"
| "depth_loop deepest ((n, d) # stack) =
     depth_loop (if d > deepest then d else deepest) (rev (map (\<lambda>c. (c, d + 1)) (children n)) @ stack)"
  by pat_completeness auto

termination depth_loop
proof (relation "measure (\<lambda>(m, stack). sum_list (map (nodes \<circ> fst) stack))", goal_cases)
  case (2 deepest n d stack)
  have "sum_list (map (nodes \<circ> fst) (rev (map (\<lambda>c. (c, d + 1)) (children n))))
      = sum_list (map nodes (children n))"
    by (simp add: rev_map [symmetric] sum_list_rev comp_def)
  then show ?case using nodes_children [of n] by simp
qed simp

definition tree_depth :: "ast \<Rightarrow> nat" where "tree_depth tree = depth_loop 0 [(tree, 1)]"

section \<open>The evaluator\<close>

definition decimal_constant :: "pyval \<Rightarrow> decimal result" where
  "decimal_constant v = (case v of PInt n \<Rightarrow> ok (of_int n)
     | PBool b \<Rightarrow> ok (if b then 1 else 0)
     | PFloat s \<Rightarrow> (case dec_of_text s of Some q \<Rightarrow> ok q | None \<Rightarrow> raise ValueError)
     | _ \<Rightarrow> raise AssertionError)"

fun evaluate_node :: "ast \<Rightarrow> lines \<Rightarrow> decimal result" where
  "evaluate_node (Constant v) vs = decimal_constant v"
| "evaluate_node (Name s ctx) vs = line vs s"
| "evaluate_node (UnaryOp oper e) vs = rbind (evaluate_node e vs) (\<lambda>a.
     case oper of USub \<Rightarrow> ok (dneg a) | UAdd \<Rightarrow> ok a | _ \<Rightarrow> raise AssertionError)"
| "evaluate_node (BinOp l oper r) vs = rbind (evaluate_node l vs) (\<lambda>a. rbind (evaluate_node r vs) (\<lambda>b.
     case oper of Add \<Rightarrow> ok (dadd a b) | Sub \<Rightarrow> ok (dsub a b) | Mult \<Rightarrow> ok (dmul a b)
     | Div \<Rightarrow> if b = 0 then raise ZeroDivisionError else ok (ddiv a b)
     | _ \<Rightarrow> raise AssertionError))"
| "evaluate_node n vs = raise AssertionError"

definition arithmetic_error :: "pyerr \<Rightarrow> bool" where
  "arithmetic_error e = (e \<in> {ZeroDivisionError, OverflowError})"

text \<open>\<open>required_lines\<close> is a set; its elements are listed in the order of the walk.\<close>

definition built_evaluator :: "ast \<Rightarrow> string list \<Rightarrow> lines \<Rightarrow> formula_outcome result" where
  "built_evaluator body required ls =
     (let missing = sort (filter (\<lambda>n. \<not> has_key ls n) required) in
      if missing \<noteq> [] then not_computed MISSING_LINE [] [(''names'', PStr (join_names missing))]
      else rbind (rmap (\<lambda>n. rbind (line ls n) (\<lambda>v. ok (n, v))) required) (\<lambda>used.
        case evaluate_node body used of
          Inl e \<Rightarrow> if arithmetic_error e
            then not_computed FORMULA_NOT_COMPUTABLE used [(''detail'', PStr ''division by zero'')] else raise e
        | Inr v \<Rightarrow> computed v used None))"

record custom_formula =
  fm_text :: string
  fm_required_lines :: "string list"
  fm_body :: ast

definition formula_evaluate :: "custom_formula \<Rightarrow> lines \<Rightarrow> formula_outcome result" where
  "formula_evaluate f ls = built_evaluator (fm_body f) (fm_required_lines f) ls"

definition parse_tree :: "(string \<Rightarrow> ast option) \<Rightarrow> string \<Rightarrow> ast result" where
  "parse_tree parse text = (case parse text of
     Some (Expression b) \<Rightarrow> ok (Expression b) | _ \<Rightarrow> raise (FormulaRefused ''syntax_error''))"

definition tree_body :: "ast \<Rightarrow> ast" where
  "tree_body t = (case t of Expression b \<Rightarrow> b | _ \<Rightarrow> t)"

definition parse_custom_formula :: "(string \<Rightarrow> ast option) \<Rightarrow> string \<Rightarrow> string list \<Rightarrow> custom_formula result" where
  "parse_custom_formula parse text allowed =
     (if text = [] \<or> length text > max_formula_length then raise (FormulaRefused ''formula_too_long'') else
      rbind (parse_tree parse text) (\<lambda>tree.
      rbind (validate_nodes_and_collect_names tree allowed) (\<lambda>required.
      if required = [] then raise (FormulaRefused ''no_line_referenced'') else
      if tree_depth tree > max_formula_depth then raise (FormulaRefused ''formula_too_deep'') else
      ok \<lparr>fm_text = text, fm_required_lines = required, fm_body = tree_body tree\<rparr>)))"

section \<open>What the two loops compute\<close>

fun subtrees :: "ast \<Rightarrow> ast list" where
  "subtrees (Expression b) = Expression b # subtrees b"
| "subtrees (BinOp l oper r) = BinOp l oper r # subtrees l @ subtrees oper @ subtrees r"
| "subtrees (UnaryOp oper e) = UnaryOp oper e # subtrees oper @ subtrees e"
| "subtrees (Name s ctx) = Name s ctx # subtrees ctx"
| "subtrees (Other c cs) = Other c cs # concat (map subtrees cs)"
| "subtrees n = [n]"

lemma subtrees_children: "subtrees n = n # concat (map subtrees (children n))"
  by (cases n) (simp_all add: children_def)

lemma walk_set: "set (walk ns) = (\<Union>n\<in>set ns. set (subtrees n))"
proof (induction ns rule: walk.induct)
  case (2 n queue)
  have "set (subtrees n) = insert n (\<Union>c\<in>set (children n). set (subtrees c))"
    by (subst subtrees_children) simp
  then show ?case using 2 by auto
qed simp

text \<open>The depth of a tree by recursion over it.\<close>

fun depth :: "ast \<Rightarrow> nat" where
  "depth (Expression b) = Suc (depth b)"
| "depth (BinOp l oper r) = Suc (max (depth l) (max (depth oper) (depth r)))"
| "depth (UnaryOp oper e) = Suc (max (depth oper) (depth e))"
| "depth (Name s ctx) = Suc (depth ctx)"
| "depth (Other c cs) = Suc (foldr max (map depth cs) 0)"
| "depth n = 1"

lemma foldr_max_le: "foldr max (ns :: nat list) 0 \<le> k \<longleftrightarrow> (\<forall>n\<in>set ns. n \<le> k)"
  by (induction ns) auto

lemma depth_le_Suc: "depth n \<le> Suc k \<longleftrightarrow> (\<forall>c\<in>set (children n). depth c \<le> k)"
  by (cases n) (auto simp: children_def foldr_max_le)

lemma depth_pos: "1 \<le> depth n"
  by (cases n) simp_all

lemma depth_loop_le:
  "depth_loop deepest stack \<le> k \<longleftrightarrow> deepest \<le> k \<and> (\<forall>(n, d)\<in>set stack. d + depth n \<le> Suc k)"
proof (induction deepest stack rule: depth_loop.induct)
  case (2 deepest n d stack)
  have "d + depth n \<le> Suc k \<longleftrightarrow> d \<le> k \<and> (\<forall>c\<in>set (children n). (d + 1) + depth c \<le> Suc k)"
  proof (cases "d \<le> k")
    case True
    then have "d + depth n \<le> Suc k \<longleftrightarrow> depth n \<le> Suc (k - d)" by linarith
    also have "\<dots> \<longleftrightarrow> (\<forall>c\<in>set (children n). depth c \<le> k - d)" by (rule depth_le_Suc)
    finally show ?thesis using True by (simp add: le_diff_conv2 add.commute)
  next
    case False
    then show ?thesis using depth_pos [of n] by linarith
  qed
  moreover have "(\<forall>(n, d)\<in>set (rev (map (\<lambda>c. (c, d + 1)) (children n)) @ stack). d + depth n \<le> Suc k)
      \<longleftrightarrow> (\<forall>c\<in>set (children n). (d + 1) + depth c \<le> Suc k) \<and> (\<forall>(n, d)\<in>set stack. d + depth n \<le> Suc k)"
    by (simp add: ball_Un)
  ultimately show ?case unfolding depth_loop.simps 2 by auto
qed simp

text \<open>
  the explicit-stack depth measure of the security check ends on every tree and computes
  the depth of the tree, so a tree passes the limit exactly when it nests that deep.
\<close>

theorem tree_depth_correct: "tree_depth tree = depth tree"
proof -
  have "tree_depth tree \<le> k \<longleftrightarrow> depth tree \<le> k" for k
    by (simp add: tree_depth_def depth_loop_le del: depth_loop.simps)
  then show ?thesis by (metis order_antisym order_refl)
qed

section \<open>What the validator accepts\<close>

definition permitted :: "string list \<Rightarrow> ast \<Rightarrow> bool" where
  "permitted allowed n = (case n of Other c cs \<Rightarrow> False | Constant v \<Rightarrow> numeric_constant v
     | Name s ctx \<Rightarrow> s \<in> set allowed | _ \<Rightarrow> True)"

lemma validate_nodes_ok:
  "(\<exists>req'. validate_nodes allowed req ns = ok req') \<longleftrightarrow> (\<forall>n\<in>set ns. permitted allowed n)"
  by (induction ns arbitrary: req) (auto simp: permitted_def split: ast.splits)

lemma validate_nodes_names:
  "validate_nodes allowed req ns = ok req' \<Longrightarrow>
     set req' = set req \<union> {s. \<exists>ctx. Name s ctx \<in> set ns} \<and> (distinct req \<longrightarrow> distinct req')"
  by (induction ns arbitrary: req) (auto split: ast.splits if_splits)

lemma validate_nodes_refuses:
  "validate_nodes allowed req ns = raise e \<Longrightarrow> \<exists>c. e = FormulaRefused c"
  by (induction ns arbitrary: req) (auto split: ast.splits if_splits)

definition formula_names :: "ast \<Rightarrow> string set" where
  "formula_names tree = {s. \<exists>ctx. Name s ctx \<in> set (subtrees tree)}"

declare walk.simps [simp del] validate_nodes.simps [simp del]

lemma validated:
  "(\<exists>req. validate_nodes_and_collect_names tree allowed = ok req)
     \<longleftrightarrow> (\<forall>n\<in>set (subtrees tree). permitted allowed n)"
  by (simp add: validate_nodes_and_collect_names_def validate_nodes_ok walk_set)

lemma validated_names:
  "validate_nodes_and_collect_names tree allowed = ok req \<Longrightarrow>
     set req = formula_names tree \<and> distinct req"
  using validate_nodes_names [of allowed "[]" "walk [tree]" req]
  by (simp add: validate_nodes_and_collect_names_def formula_names_def walk_set)

text \<open>
  What the \<open>ast\<close> module documents of the tree of an expression: operators and contexts stand
  where the grammar puts them, and the text of a float literal is the \<open>repr\<close> of a float.
\<close>

definition unlisted_leaf :: "ast \<Rightarrow> bool" where
  "unlisted_leaf n = (case n of Other c cs \<Rightarrow> cs = [] | _ \<Rightarrow> False)"

fun is_expr :: "ast \<Rightarrow> bool" where
  "is_expr (BinOp l oper r) \<longleftrightarrow> is_expr l \<and> (oper \<in> {Add, Sub, Mult, Div} \<or> unlisted_leaf oper) \<and> is_expr r"
| "is_expr (UnaryOp oper e) \<longleftrightarrow> (oper \<in> {USub, UAdd} \<or> unlisted_leaf oper) \<and> is_expr e"
| "is_expr (Constant v) \<longleftrightarrow> (case v of PFloat s \<Rightarrow> s \<in> {''inf'', ''-inf'', ''nan''} \<or> dec_of_text s \<noteq> None | _ \<Rightarrow> True)"
| "is_expr (Name s ctx) \<longleftrightarrow> ctx = Load \<or> unlisted_leaf ctx"
| "is_expr (Other c cs) \<longleftrightarrow> True"
| "is_expr n \<longleftrightarrow> False"

definition grammatical :: "ast \<Rightarrow> bool" where
  "grammatical tree = (case tree of Expression b \<Rightarrow> is_expr b | _ \<Rightarrow> False)"

text \<open>
  The depth as the limit is described: literals and names sit at depth one and each operator adds a level.
  The measure of the code also counts the root and the context of a name.
\<close>

fun nesting :: "ast \<Rightarrow> nat" where
  "nesting (BinOp l oper r) = Suc (max (nesting l) (nesting r))"
| "nesting (UnaryOp oper e) = Suc (nesting e)"
| "nesting n = 1"

lemma nesting_le_depth: "nesting n \<le> depth n"
  by (induction n) auto

lemma nesting_pos: "1 \<le> nesting n"
  by (induction n) auto

lemma unlisted_leaf_depth: "unlisted_leaf n \<Longrightarrow> depth n = 1"
  by (cases n) (auto simp: unlisted_leaf_def)

lemma depth_le_nesting:
  "is_expr n \<Longrightarrow> (\<And>c cs. Other c cs \<notin> set (subtrees n)) \<Longrightarrow> depth n \<le> Suc (nesting n)"
proof (induction n)
  case (BinOp l oper r)
  have "depth oper = 1" using BinOp.prems(1) unlisted_leaf_depth by auto
  then show ?case using BinOp nesting_pos [of l] by fastforce
next
  case (UnaryOp oper e)
  have "depth oper = 1" using UnaryOp.prems(1) unlisted_leaf_depth by auto
  then show ?case using UnaryOp nesting_pos [of e] by fastforce
next
  case (Name s ctx)
  then show ?case using unlisted_leaf_depth by auto
qed auto

text \<open>
  the validator accepts exactly the trees of listed nodes, finite literals and known names, with a name
  among them, whose depth in nodes is within the limit.
\<close>

lemma custom_formula_exact:
  "case parse_custom_formula parse text allowed of
     ok f \<Rightarrow> \<exists>b. parse text = Some (Expression b) \<and> text \<noteq> [] \<and> length text \<le> max_formula_length
       \<and> (\<forall>n\<in>set (subtrees b). permitted allowed n) \<and> formula_names b \<noteq> {}
       \<and> depth (Expression b) \<le> max_formula_depth
       \<and> fm_text f = text \<and> fm_body f = b \<and> set (fm_required_lines f) = formula_names b
       \<and> formula_names b \<subseteq> set allowed
   | raise e \<Rightarrow> (\<exists>c. e = FormulaRefused c)
       \<and> \<not> (\<exists>b. parse text = Some (Expression b) \<and> text \<noteq> [] \<and> length text \<le> max_formula_length
            \<and> (\<forall>n\<in>set (subtrees b). permitted allowed n) \<and> formula_names b \<noteq> {}
            \<and> depth (Expression b) \<le> max_formula_depth)"
proof -
  have names: "formula_names (Expression b) = formula_names b" for b
    by (auto simp: formula_names_def)
  have allowed_names: "formula_names b \<subseteq> set allowed" if "\<forall>n\<in>set (subtrees b). permitted allowed n" for b
    using that by (force simp: formula_names_def permitted_def)
  consider (size) "text = [] \<or> length text > max_formula_length"
    | (unparsed) "\<not> (text = [] \<or> length text > max_formula_length)" "\<nexists>b. parse text = Some (Expression b)"
    | (tree) b where "\<not> (text = [] \<or> length text > max_formula_length)" "parse text = Some (Expression b)"
    by blast
  then show ?thesis
  proof cases
    case size
    then show ?thesis by (auto simp: parse_custom_formula_def)
  next
    case unparsed
    then have "parse_tree parse text = raise (FormulaRefused ''syntax_error'')"
      by (auto simp: parse_tree_def split: option.splits ast.splits)
    then show ?thesis using unparsed by (auto simp: parse_custom_formula_def)
  next
    case tree
    let ?v = "validate_nodes_and_collect_names (Expression b) allowed"
    have parsed: "parse_tree parse text = ok (Expression b)" using tree by (simp add: parse_tree_def)
    have all: "(\<exists>req. ?v = ok req) \<longleftrightarrow> (\<forall>n\<in>set (subtrees b). permitted allowed n)"
      by (simp add: validated) (simp add: permitted_def)
    show ?thesis
    proof (cases ?v)
      case (Inl e)
      then have "\<exists>c. e = FormulaRefused c"
        by (auto simp: validate_nodes_and_collect_names_def dest: validate_nodes_refuses)
      then show ?thesis using tree parsed Inl all by (auto simp: parse_custom_formula_def)
    next
      case (Inr req)
      note good = validated_names [OF Inr, unfolded names]
      have "\<forall>n\<in>set (subtrees b). permitted allowed n" using all Inr by blast
      then show ?thesis using tree parsed Inr good allowed_names [of b]
        by (auto simp: parse_custom_formula_def tree_body_def tree_depth_correct)
    qed
  qed
qed

text \<open>
  C11: the sandbox lets nothing but arithmetic through. A formula that is accepted is a text within the limit that
  parses to a tree of listed nodes with finite literals and known lines only, nested no deeper than the documented
  limit, and requires exactly the lines it names, at least one. Every other outcome is \<open>FormulaRefused\<close>, and no such
  formula whose nesting leaves room for the two levels the measure counts extra is refused.
\<close>

theorem custom_formula_accepted:
  assumes "\<And>tree. parse text = Some tree \<Longrightarrow> grammatical tree"
  shows "case parse_custom_formula parse text allowed of
     ok f \<Rightarrow> \<exists>b. parse text = Some (Expression b) \<and> text \<noteq> [] \<and> length text \<le> max_formula_length
       \<and> (\<forall>n\<in>set (subtrees b). permitted allowed n) \<and> formula_names b \<noteq> {} \<and> nesting b \<le> max_formula_depth
       \<and> fm_text f = text \<and> fm_body f = b \<and> set (fm_required_lines f) = formula_names b
       \<and> formula_names b \<subseteq> set allowed
   | raise e \<Rightarrow> (\<exists>c. e = FormulaRefused c)
       \<and> \<not> (\<exists>b. parse text = Some (Expression b) \<and> text \<noteq> [] \<and> length text \<le> max_formula_length
            \<and> (\<forall>n\<in>set (subtrees b). permitted allowed n) \<and> formula_names b \<noteq> {} \<and> nesting b + 2 \<le> max_formula_depth)"
proof -
  have deep: "nesting b \<le> max_formula_depth" if "depth (Expression b) \<le> max_formula_depth" for b
    using that nesting_le_depth [of b] by simp
  have room: "depth (Expression b) \<le> max_formula_depth"
    if "parse text = Some (Expression b)" "\<forall>n\<in>set (subtrees b). permitted allowed n" "nesting b + 2 \<le> max_formula_depth" for b
  proof -
    have "Other c cs \<notin> set (subtrees b)" for c cs using that(2) by (force simp: permitted_def)
    then have "depth b \<le> Suc (nesting b)" using assms [OF that(1)] by (intro depth_le_nesting) (simp_all add: grammatical_def)
    then show ?thesis using that(3) by simp
  qed
  show ?thesis
    using custom_formula_exact [of parse "text" allowed] deep room
    by (cases "parse_custom_formula parse text allowed") (simp_all only: sum.case; blast)+
qed

definition demo_tree :: ast where
  "demo_tree = Expression (BinOp (BinOp (Name ''pat'' Load) Sub (Constant (PInt 10))) Div (Name ''revenue'' Load))"

definition demo_parse :: "string \<Rightarrow> ast option" where
  "demo_parse text = (if text = ''(pat - 10) / revenue'' then Some demo_tree else None)"

definition demo_formula :: custom_formula where
  "demo_formula = \<lparr>fm_text = ''(pat - 10) / revenue'', fm_required_lines = [''revenue'', ''pat''],
     fm_body = tree_body demo_tree\<rparr>"

lemma demo_formula_accepted:
  "parse_custom_formula demo_parse ''(pat - 10) / revenue'' [''ebitda'', ''pat'', ''revenue''] = ok demo_formula"
  by code_simp

lemma demo_grammatical: "demo_parse ''(pat - 10) / revenue'' = Some tree \<Longrightarrow> grammatical tree"
  by (auto simp: demo_parse_def demo_tree_def grammatical_def split: if_splits)

theorem custom_formula_accepted_witness:
  "\<exists>b. demo_parse ''(pat - 10) / revenue'' = Some (Expression b) \<and> nesting b \<le> 20
     \<and> formula_names b \<subseteq> {''ebitda'', ''pat'', ''revenue''}"
  using custom_formula_accepted [of demo_parse "''(pat - 10) / revenue''" "[''ebitda'', ''pat'', ''revenue'']", OF demo_grammatical]
  by (auto simp: demo_formula_accepted max_formula_depth_def)

section \<open>An accepted formula never raises\<close>

lemma formula_names_simps [simp]:
  "formula_names (Name s ctx) = insert s (formula_names ctx)"
  "formula_names (BinOp l oper r) = formula_names l \<union> formula_names oper \<union> formula_names r"
  "formula_names (UnaryOp oper e) = formula_names oper \<union> formula_names e"
  by (auto simp: formula_names_def)

lemma unlisted_leaf_refused: "unlisted_leaf n \<Longrightarrow> \<not> permitted allowed n"
  by (auto simp: unlisted_leaf_def permitted_def split: ast.splits)

lemma decimal_constant_total:
  "is_expr (Constant v) \<Longrightarrow> permitted allowed (Constant v) \<Longrightarrow> \<exists>q. decimal_constant v = ok q"
  by (auto simp: permitted_def numeric_constant_def decimal_constant_def split: pyval.splits option.splits)

lemma subtrees_self: "n \<in> set (subtrees n)"
  by (subst subtrees_children) simp

text \<open>
  The arithmetic a formula stands for, on an assignment of the lines: exact operations rounded to the context, with no
  value when a divisor is zero.
\<close>

fun meaning :: "(string \<Rightarrow> decimal) \<Rightarrow> ast \<Rightarrow> decimal option" where
  "meaning env (Constant v) = (case v of PInt n \<Rightarrow> Some (of_int n) | PFloat s \<Rightarrow> dec_of_text s | _ \<Rightarrow> None)"
| "meaning env (Name s ctx) = Some (env s)"
| "meaning env (UnaryOp oper e) = map_option (\<lambda>a. if oper = USub then rnd (- a) else a) (meaning env e)"
| "meaning env (BinOp l oper r) = (case (meaning env l, meaning env r) of
     (Some a, Some b) \<Rightarrow> (case oper of Add \<Rightarrow> Some (rnd (a + b)) | Sub \<Rightarrow> Some (rnd (a - b)) | Mult \<Rightarrow> Some (rnd (a * b))
       | Div \<Rightarrow> if b = 0 then None else Some (rnd (a / b)) | _ \<Rightarrow> None)
   | _ \<Rightarrow> None)"
| "meaning env n = None"

definition zero_divisor :: "(string \<Rightarrow> decimal) \<Rightarrow> ast \<Rightarrow> bool" where
  "zero_divisor env tree \<longleftrightarrow> (\<exists>l r. BinOp l Div r \<in> set (subtrees tree) \<and> meaning env r = Some 0)"

definition values_of :: "lines \<Rightarrow> string \<Rightarrow> decimal" where
  "values_of ls s = (case lookup ls s of Some v \<Rightarrow> v | None \<Rightarrow> 0)"

text \<open>No value on the way leaves the exponent range of the context.\<close>

definition stays_in_range :: "lines \<Rightarrow> ast \<Rightarrow> bool" where
  "stays_in_range ls tree \<longleftrightarrow> (\<forall>n\<in>set (subtrees tree). \<forall>v. meaning (values_of ls) n = Some v \<longrightarrow> in_exponent_range v)"

lemma evaluate_node_meaning:
  assumes "is_expr e" and "\<forall>n\<in>set (subtrees e). permitted allowed n" and "\<forall>s\<in>formula_names e. lookup vs s = Some (env s)"
  shows "evaluate_node e vs = (case meaning env e of Some v \<Rightarrow> ok v | None \<Rightarrow> raise ZeroDivisionError)
    \<and> (meaning env e = None \<longleftrightarrow> zero_divisor env e)"
  using assms
proof (induction e)
  case (BinOp l oper r)
  have oper: "oper \<in> {Add, Sub, Mult, Div}"
    using BinOp.prems(1,2) unlisted_leaf_refused [of oper allowed] subtrees_self [of oper] by auto
  have ih: "evaluate_node l vs = (case meaning env l of Some v \<Rightarrow> ok v | None \<Rightarrow> raise ZeroDivisionError)"
      "meaning env l = None \<longleftrightarrow> zero_divisor env l"
      "evaluate_node r vs = (case meaning env r of Some v \<Rightarrow> ok v | None \<Rightarrow> raise ZeroDivisionError)"
      "meaning env r = None \<longleftrightarrow> zero_divisor env r"
    using BinOp by auto
  have "zero_divisor env (BinOp l oper r) \<longleftrightarrow> zero_divisor env l \<or> zero_divisor env r \<or> (oper = Div \<and> meaning env r = Some 0)"
    using oper by (auto simp: zero_divisor_def)
  then show ?case using oper ih by (auto simp: dec_defs split: option.splits)
next
  case (UnaryOp oper e)
  have oper: "oper \<in> {USub, UAdd}"
    using UnaryOp.prems(1,2) unlisted_leaf_refused [of oper allowed] subtrees_self [of oper] by auto
  have "zero_divisor env (UnaryOp oper e) \<longleftrightarrow> zero_divisor env e" using oper by (auto simp: zero_divisor_def)
  moreover have "evaluate_node e vs = (case meaning env e of Some v \<Rightarrow> ok v | None \<Rightarrow> raise ZeroDivisionError)"
      "meaning env e = None \<longleftrightarrow> zero_divisor env e" using UnaryOp by auto
  ultimately show ?case using oper by (auto simp: dec_defs split: option.splits)
next
  case (Constant v)
  then show ?case
    by (auto simp: zero_divisor_def permitted_def numeric_constant_def decimal_constant_def split: pyval.splits option.splits)
next
  case (Name s ctx)
  have "zero_divisor env (Name s ctx) \<longleftrightarrow> False"
    using Name.prems unlisted_leaf_refused [of ctx allowed] subtrees_self [of ctx] by (auto simp: zero_divisor_def)
  then show ?case using Name by (auto simp: line_def)
next
  case (Other c cs)
  then show ?case by (simp add: permitted_def)
qed simp_all

lemma used_lines:
  assumes "\<forall>n\<in>set required. has_key ls n"
  shows "\<exists>used. rmap (\<lambda>n. rbind (line ls n) (\<lambda>v. ok (n, v))) required = ok used
     \<and> map fst used = required \<and> (\<forall>n\<in>set required. lookup used n = lookup ls n)"
  using assms
proof (induction required)
  case (Cons n required)
  then obtain used where used: "rmap (\<lambda>n. rbind (line ls n) (\<lambda>v. ok (n, v))) required = ok used"
      "map fst used = required" "\<forall>n\<in>set required. lookup used n = lookup ls n" by auto
  obtain v where "lookup ls n = Some v" using Cons.prems by (auto simp: has_key_def)
  then show ?case using used by (auto simp: line_def)
qed simp

lemma accepted_facts:
  assumes "parse_custom_formula parse text allowed = ok f"
    and "\<And>tree. parse text = Some tree \<Longrightarrow> grammatical tree"
  shows "is_expr (fm_body f)" and "\<forall>n\<in>set (subtrees (fm_body f)). permitted allowed n"
    and "set (fm_required_lines f) = formula_names (fm_body f)"
proof -
  obtain tree required where t: "parse_tree parse text = ok tree"
      "validate_nodes_and_collect_names tree allowed = ok required"
      "f = \<lparr>fm_text = text, fm_required_lines = required, fm_body = tree_body tree\<rparr>"
    using assms(1) by (auto simp: parse_custom_formula_def split: if_splits)
  obtain b where b: "tree = Expression b" "parse text = Some (Expression b)"
    using t(1) by (auto simp: parse_tree_def split: option.splits ast.splits)
  have "\<forall>n\<in>set (subtrees tree). permitted allowed n" using t(2) validated by blast
  then show "\<forall>n\<in>set (subtrees (fm_body f)). permitted allowed n" by (simp add: t(3) b tree_body_def)
  show "is_expr (fm_body f)" using assms(2) [OF b(2)] by (simp add: t(3) b grammatical_def tree_body_def)
  show "set (fm_required_lines f) = formula_names (fm_body f)"
    using validated_names [OF t(2)] by (auto simp: t(3) b tree_body_def formula_names_def)
qed

text \<open>
  C12: a formula that passed the checks never raises. On a statement without one of its lines the outcome says
  \<open>MISSING_LINE\<close>; otherwise, while no value leaves the exponent range, it is the value of the formula's arithmetic, and
  not computable exactly when a divisor evaluates to zero. It reads the lines it names and no other.
\<close>

theorem custom_formula_total:
  assumes "parse_custom_formula parse text allowed = ok f"
    and "\<And>tree. parse text = Some tree \<Longrightarrow> grammatical tree" and "stays_in_range ls (fm_body f)"
  shows "\<exists>out. formula_evaluate f ls = ok out
     \<and> (if \<exists>s\<in>set (fm_required_lines f). \<not> has_key ls s then fo_value out = None \<and> fo_reason out = Some MISSING_LINE
        else if zero_divisor (values_of ls) (fm_body f) then fo_value out = None \<and> fo_reason out = Some FORMULA_NOT_COMPUTABLE
        else \<exists>v. meaning (values_of ls) (fm_body f) = Some v \<and> fo_value out = Some v \<and> fo_reason out = None)
     \<and> set (map fst (fo_inputs_used out)) \<subseteq> set (fm_required_lines f)"
proof -
  note facts = accepted_facts [OF assms(1,2)]
  let ?req = "fm_required_lines f" and ?env = "values_of ls"
  show ?thesis
  proof (cases "\<forall>s\<in>set ?req. has_key ls s")
    case False
    then have "sort (filter (\<lambda>n. \<not> has_key ls n) ?req) \<noteq> []"
      by (metis (mono_tags, lifting) filter_empty_conv set_empty set_sort)
    then show ?thesis using False
      by (auto simp: formula_evaluate_def built_evaluator_def Let_def not_computed_def make_outcome_def)
  next
    case True
    then obtain used where used: "rmap (\<lambda>n. rbind (line ls n) (\<lambda>v. ok (n, v))) ?req = ok used"
        "map fst used = ?req" "\<forall>n\<in>set ?req. lookup used n = lookup ls n" using used_lines by blast
    have "filter (\<lambda>n. \<not> has_key ls n) ?req = []" using True by (simp add: filter_empty_conv)
    then have run: "formula_evaluate f ls = (case evaluate_node (fm_body f) used of
          Inl e \<Rightarrow> if arithmetic_error e
            then not_computed FORMULA_NOT_COMPUTABLE used [(''detail'', PStr ''division by zero'')] else raise e
        | Inr v \<Rightarrow> computed v used None)"
      using used(1) by (simp add: formula_evaluate_def built_evaluator_def)
    have "\<forall>s\<in>formula_names (fm_body f). lookup used s = Some (?env s)"
      using True facts(3) used(3) by (auto simp: has_key_def values_of_def)
    note outcome = evaluate_node_meaning [OF facts(1,2) this]
    have "a \<in> set ?req" if "(a, v) \<in> set used" for a v
      using that unfolding used(2) [symmetric] by force
    then show ?thesis
      using outcome run True
      by (cases "meaning ?env (fm_body f)") (auto simp: computed_def not_computed_def make_outcome_def arithmetic_error_def)
  qed
qed

lemma demo_in_range: "stays_in_range [(''pat'', 30), (''revenue'', r)] (fm_body demo_formula)" if "r \<in> {0, 5}" for r
  using that rnd_eval by (auto simp: stays_in_range_def demo_formula_def demo_tree_def tree_body_def values_of_def lookup_def
      intro!: in_exponent_rangeI)

theorem custom_formula_total_witness:
  "(\<exists>out. formula_evaluate demo_formula [(''pat'', 30), (''revenue'', 0)] = ok out \<and> fo_reason out = Some FORMULA_NOT_COMPUTABLE)
   \<and> (\<exists>out. formula_evaluate demo_formula [(''pat'', 30), (''revenue'', 5)] = ok out \<and> fo_value out = Some 4)"
proof -
  note parts = demo_formula_def demo_tree_def tree_body_def values_of_def lookup_def has_key_def
  have zero: "zero_divisor (values_of [(''pat'', 30), (''revenue'', 0)]) (fm_body demo_formula)"
    "\<not> zero_divisor (values_of [(''pat'', 30), (''revenue'', 5)]) (fm_body demo_formula)"
    "meaning (values_of [(''pat'', 30), (''revenue'', 5)]) (fm_body demo_formula) = Some 4"
    by (simp_all add: zero_divisor_def parts rnd_eval)
  have keys: "\<not> (\<exists>s\<in>set (fm_required_lines demo_formula). \<not> has_key [(''pat'', 30), (''revenue'', r)] s)" for r
    by (simp add: parts)
  have 0: "stays_in_range [(''pat'', 30), (''revenue'', 0)] (fm_body demo_formula)"
    and 5: "stays_in_range [(''pat'', 30), (''revenue'', 5)] (fm_body demo_formula)" by (rule demo_in_range, simp)+
  show ?thesis
    using custom_formula_total [OF demo_formula_accepted demo_grammatical 0] custom_formula_total [OF demo_formula_accepted demo_grammatical 5]
    unfolding if_not_P [OF keys] if_P [OF zero(1)] if_not_P [OF zero(2)] zero(3) by auto
qed

section \<open>Limits of the text\<close>

text \<open>
  The tree counts its root and the context of a name, so a single name has depth three where
  the description of the limit puts it at one; an empty text is refused as too long.
\<close>

lemma single_name_depth: "depth (Expression (Name s Load)) = 3"
  by simp

lemma empty_text_too_long: "parse_custom_formula parse [] allowed = raise (FormulaRefused ''formula_too_long'')"
  by (simp add: parse_custom_formula_def)

end
