(* ===== verification/Rbac.thy ===== *)
theory Rbac
  imports Py_Values
begin

text \<open>
  \<open>security/permissions.py\<close> and \<open>security/rbac.py\<close>: the closed permission vocabulary, principals
  with the constructor checks that bound API keys and personas, the reachability report and the
  caching resolver. The resolver is a step relation over its cache, its generation counters, the
  lookups in flight and the role source, so that a role change during a lookup is an interleaving.
\<close>

section \<open>The vocabulary\<close>

datatype permission =
  VIEW_QUEUE | VIEW_BORROWER | VIEW_CASE | VIEW_MEMO | VIEW_COVENANT | VIEW_FORECAST |
  VIEW_EVIDENCE | VIEW_DOCUMENT | VIEW_AUDIT | UPLOAD_DOCUMENT | RUN_INTAKE |
  REGISTER_COVENANT | APPROVE_COVENANT | RECORD_WAIVER | GENERATE_MEMO | RUN_SIMULATION |
  LOG_ACTION | UPDATE_CASE | RECORD_DISPOSITION | OVERRIDE_RISK_VIEW | PROPOSE_THRESHOLDS |
  APPROVE_THRESHOLDS | MANAGE_USERS | MANAGE_CONNECTORS | MANAGE_JOBS | ASSUME_PERSONA |
  APPROVE_MODEL_PROMOTION | RESOLVE_QUARANTINE | CORRECT_SOURCE_DATA | INGEST_DATA |
  INGEST_FINANCIAL_STATEMENTS | EXPORT_EVIDENCE | READ_PERSONAL_DATA

definition all_permissions :: "permission list" where
  "all_permissions = [
     VIEW_QUEUE, VIEW_BORROWER, VIEW_CASE, VIEW_MEMO, VIEW_COVENANT, VIEW_FORECAST,
     VIEW_EVIDENCE, VIEW_DOCUMENT, VIEW_AUDIT, UPLOAD_DOCUMENT, RUN_INTAKE, REGISTER_COVENANT,
     APPROVE_COVENANT, RECORD_WAIVER, GENERATE_MEMO, RUN_SIMULATION, LOG_ACTION, UPDATE_CASE,
     RECORD_DISPOSITION, OVERRIDE_RISK_VIEW, PROPOSE_THRESHOLDS, APPROVE_THRESHOLDS,
     MANAGE_USERS, MANAGE_CONNECTORS, MANAGE_JOBS, ASSUME_PERSONA, APPROVE_MODEL_PROMOTION,
     RESOLVE_QUARANTINE, CORRECT_SOURCE_DATA, INGEST_DATA, INGEST_FINANCIAL_STATEMENTS,
     EXPORT_EVIDENCE, READ_PERSONAL_DATA]"

definition permission_code :: "permission \<Rightarrow> string" where
  "permission_code p = (case p of
     VIEW_QUEUE \<Rightarrow> ''VIEW_QUEUE'' | VIEW_BORROWER \<Rightarrow> ''VIEW_BORROWER'' |
     VIEW_CASE \<Rightarrow> ''VIEW_CASE'' | VIEW_MEMO \<Rightarrow> ''VIEW_MEMO'' |
     VIEW_COVENANT \<Rightarrow> ''VIEW_COVENANT'' |
     VIEW_FORECAST \<Rightarrow> ''VIEW_FORECAST'' |
     VIEW_EVIDENCE \<Rightarrow> ''VIEW_EVIDENCE'' |
     VIEW_DOCUMENT \<Rightarrow> ''VIEW_DOCUMENT'' | VIEW_AUDIT \<Rightarrow> ''VIEW_AUDIT'' |
     UPLOAD_DOCUMENT \<Rightarrow> ''UPLOAD_DOCUMENT'' |
     RUN_INTAKE \<Rightarrow> ''RUN_INTAKE'' |
     REGISTER_COVENANT \<Rightarrow> ''REGISTER_COVENANT'' |
     APPROVE_COVENANT \<Rightarrow> ''APPROVE_COVENANT'' |
     RECORD_WAIVER \<Rightarrow> ''RECORD_WAIVER'' |
     GENERATE_MEMO \<Rightarrow> ''GENERATE_MEMO'' |
     RUN_SIMULATION \<Rightarrow> ''RUN_SIMULATION'' |
     LOG_ACTION \<Rightarrow> ''LOG_ACTION'' | UPDATE_CASE \<Rightarrow> ''UPDATE_CASE'' |
     RECORD_DISPOSITION \<Rightarrow> ''RECORD_DISPOSITION'' |
     OVERRIDE_RISK_VIEW \<Rightarrow> ''OVERRIDE_RISK_VIEW'' |
     PROPOSE_THRESHOLDS \<Rightarrow> ''PROPOSE_THRESHOLDS'' |
     APPROVE_THRESHOLDS \<Rightarrow> ''APPROVE_THRESHOLDS'' |
     MANAGE_USERS \<Rightarrow> ''MANAGE_USERS'' |
     MANAGE_CONNECTORS \<Rightarrow> ''MANAGE_CONNECTORS'' |
     MANAGE_JOBS \<Rightarrow> ''MANAGE_JOBS'' |
     ASSUME_PERSONA \<Rightarrow> ''ASSUME_PERSONA'' |
     APPROVE_MODEL_PROMOTION \<Rightarrow> ''APPROVE_MODEL_PROMOTION'' |
     RESOLVE_QUARANTINE \<Rightarrow> ''RESOLVE_QUARANTINE'' |
     CORRECT_SOURCE_DATA \<Rightarrow> ''CORRECT_SOURCE_DATA'' |
     INGEST_DATA \<Rightarrow> ''INGEST_DATA'' |
     INGEST_FINANCIAL_STATEMENTS \<Rightarrow> ''INGEST_FINANCIAL_STATEMENTS'' |
     EXPORT_EVIDENCE \<Rightarrow> ''EXPORT_EVIDENCE'' |
     READ_PERSONAL_DATA \<Rightarrow> ''READ_PERSONAL_DATA'')"

definition permission_of_code :: "string \<Rightarrow> permission option" where
  "permission_of_code s = find (\<lambda>p. permission_code p = s) all_permissions"

definition coerce_permission :: "pyval \<Rightarrow> permission result" where
  "coerce_permission v = (case text_of v of None \<Rightarrow> raise TypeError
     | Some s \<Rightarrow> (case permission_of_code s of None \<Rightarrow> raise ValueError | Some p \<Rightarrow> ok p))"

lemma all_permissions_exhaustive: "set all_permissions = UNIV"
proof -
  have "p \<in> set all_permissions" for p by (cases p) (simp_all add: all_permissions_def)
  then show ?thesis by auto
qed

lemma permission_of_code_inverse: "permission_of_code (permission_code p) = Some p"
proof -
  have "list_all (\<lambda>p. permission_of_code (permission_code p) = Some p) all_permissions" by code_simp
  then show ?thesis by (simp add: list_all_iff all_permissions_exhaustive)
qed

text \<open>Iterating over a value; a mapping yields its keys and text its characters.\<close>

definition iterate :: "pyval \<Rightarrow> pyval list result" where
  "iterate v = (case v of PList vs \<Rightarrow> ok vs | PMap kvs \<Rightarrow> ok (map fst kvs)
     | PStr s \<Rightarrow> ok (map (\<lambda>c. PStr [c]) s) | PEnum c s \<Rightarrow> ok (map (\<lambda>c. PStr [c]) s) | _ \<Rightarrow> raise TypeError)"

text \<open>\<open>PermissionConfigurationError\<close> is a runtime error.\<close>

definition normalize_permissions :: "pyval \<Rightarrow> permission set result" where
  "normalize_permissions vs =
     (case rbind (iterate vs) (rmap coerce_permission) of
        Inl e \<Rightarrow> if e \<in> {TypeError, ValueError} then raise RuntimeError else raise e
      | Inr ps \<Rightarrow> ok (set ps))"

section \<open>Principals\<close>

datatype principal_kind = USER | API_KEY

definition persona_forbidden :: "permission set" where
  "persona_forbidden = {ASSUME_PERSONA, MANAGE_USERS}"

record principal =
  p_id :: nat
  p_permissions :: "permission set"
  p_kind :: principal_kind
  p_scopes :: "permission set"
  p_acting_admin :: "nat option"
  p_persona_code :: "string option"
  p_persona_expires :: "int option"

definition kind_of :: "pyval \<Rightarrow> principal_kind result" where
  "kind_of v = (case text_of v of Some s \<Rightarrow>
       if s = ''user'' then ok USER else if s = ''api_key'' then ok API_KEY else raise ValueError
     | None \<Rightarrow> raise ValueError)"

definition validate_persona :: "nat \<Rightarrow> principal_kind \<Rightarrow> permission set \<Rightarrow> pyval \<Rightarrow> pyval \<Rightarrow> pyval
    \<Rightarrow> (nat option \<times> string option \<times> int option) result" where
  "validate_persona i kind permissions admin code expires =
     (if admin = PNone \<and> code = PNone \<and> expires = PNone then ok (None, None, None)
      else if admin = PNone \<or> code = PNone \<or> expires = PNone then raise ValueError
      else if kind \<noteq> USER then raise ValueError
      else case uuid_of admin of None \<Rightarrow> raise TypeError | Some a \<Rightarrow>
      if a = i then raise ValueError
      else case text_of code of None \<Rightarrow> raise ValueError | Some c \<Rightarrow>
      if strip c = [] then raise ValueError
      else case expires of PDatetime t \<Rightarrow>
          if permissions \<inter> persona_forbidden \<noteq> {} then raise ValueError
          else ok (Some a, Some (strip c), Some t)
        | PNaive t \<Rightarrow> raise ValueError | _ \<Rightarrow> raise TypeError)"

definition make_principal :: "nat \<Rightarrow> pyval \<Rightarrow> pyval \<Rightarrow> pyval \<Rightarrow> pyval \<Rightarrow> pyval \<Rightarrow> pyval \<Rightarrow> principal result" where
  "make_principal i permissions kind scopes admin code expires =
     rbind (kind_of kind) (\<lambda>k.
     rbind (normalize_permissions permissions) (\<lambda>ps.
     rbind (normalize_permissions scopes) (\<lambda>ss.
     if k \<noteq> API_KEY \<and> ss \<noteq> {} then raise ValueError else
     let granted = (if k = API_KEY then ss else ps) in
     rbind (validate_persona i k granted admin code expires) (\<lambda>(a, c, e).
     ok \<lparr>p_id = i, p_permissions = granted, p_kind = k, p_scopes = ss,
        p_acting_admin = a, p_persona_code = c, p_persona_expires = e\<rparr>))))"

definition permission_values :: "permission set \<Rightarrow> pyval" where
  "permission_values ps = PList (map (\<lambda>p. PEnum ''Permission'' (permission_code p))
     (filter (\<lambda>p. p \<in> ps) all_permissions))"

definition user_principal :: "nat \<Rightarrow> pyval \<Rightarrow> principal result" where
  "user_principal i permissions = rbind (normalize_permissions permissions) (\<lambda>ps.
     make_principal i (permission_values ps) (PEnum ''PrincipalKind'' ''user'') (PList []) PNone PNone PNone)"

definition impersonated :: "nat \<Rightarrow> pyval \<Rightarrow> pyval \<Rightarrow> pyval \<Rightarrow> pyval \<Rightarrow> principal result" where
  "impersonated i permissions admin code expires = rbind (normalize_permissions permissions) (\<lambda>ps.
     make_principal i (permission_values (ps - persona_forbidden)) (PEnum ''PrincipalKind'' ''user'')
       (PList []) admin code expires)"

definition api_key_principal :: "nat \<Rightarrow> pyval \<Rightarrow> principal result" where
  "api_key_principal i scopes = rbind (normalize_permissions scopes) (\<lambda>ss.
     make_principal i (permission_values ss) (PEnum ''PrincipalKind'' ''api_key'') (permission_values ss)
       PNone PNone PNone)"

definition is_impersonating :: "principal \<Rightarrow> bool" where
  "is_impersonating p = (p_acting_admin p \<noteq> None)"

definition human_id :: "principal \<Rightarrow> nat" where
  "human_id p = (case p_acting_admin p of Some a \<Rightarrow> a | None \<Rightarrow> p_id p)"

definition persona_has_expired :: "principal \<Rightarrow> pyval \<Rightarrow> bool result" where
  "persona_has_expired p now = (case p_persona_expires p of None \<Rightarrow> ok False
     | Some t \<Rightarrow> (case now of PDatetime n \<Rightarrow> ok (t \<le> n) | PNaive n \<Rightarrow> raise ValueError
         | _ \<Rightarrow> raise AttributeError))"

definition has_permission :: "principal \<Rightarrow> pyval \<Rightarrow> bool result" where
  "has_permission p v = rbind (coerce_permission v) (\<lambda>q. ok (q \<in> p_permissions p))"

definition authorize :: "principal \<Rightarrow> pyval \<Rightarrow> unit result" where
  "authorize p v = rbind (coerce_permission v) (\<lambda>q.
     ensure (q \<in> p_permissions p) (AuthorizationError ''permission''))"

section \<open>Reachability\<close>

record reachability_report =
  unreachable :: "permission list"
  role_count :: nat

definition permission_reachability :: "(string \<times> pyval) list \<Rightarrow> reachability_report result" where
  "permission_reachability roles =
     rbind (rmap (\<lambda>(code, vs). case normalize_permissions vs of
          Inl e \<Rightarrow> if e \<in> {TypeError, ValueError} then raise RuntimeError else raise e
        | Inr ps \<Rightarrow> ok ps) roles) (\<lambda>grants.
     ok \<lparr>unreachable = filter (\<lambda>p. p \<notin> \<Union> (set grants)) all_permissions, role_count = length roles\<rparr>)"

definition ensure_permissions_reachable :: "(string \<times> pyval) list \<Rightarrow> reachability_report result" where
  "ensure_permissions_reachable roles = rbind (permission_reachability roles) (\<lambda>report.
     if unreachable report \<noteq> [] then raise RuntimeError else ok report)"

section \<open>The caching resolver\<close>

text \<open>
  \<open>RolePermissionResolver\<close> next to the role source it reads. A call of \<open>permissions_for\<close> is two
  critical sections with a read of the source between them; other calls, invalidations and role
  changes run in between. \<open>rs_unannounced\<close> is not state of the program: it names the users whose
  roles changed since the last invalidation that covers them.
\<close>

record lookup_call =
  lc_user :: nat
  lc_generation :: "nat \<times> nat"
  lc_value :: "permission set option"

record resolver_state =
  rs_source :: "nat \<Rightarrow> permission set"
  rs_cache :: "nat \<Rightarrow> permission set option"
  rs_global :: nat
  rs_users :: "nat \<Rightarrow> nat"
  rs_lookup_count :: nat
  rs_calls :: "nat \<Rightarrow> lookup_call option"
  rs_unannounced :: "nat set"

definition generation :: "resolver_state \<Rightarrow> nat \<Rightarrow> nat \<times> nat" where
  "generation s u = (rs_global s, rs_users s u)"

definition invalidate_user :: "nat \<Rightarrow> resolver_state \<Rightarrow> resolver_state" where
  "invalidate_user u s = s\<lparr>rs_users := (rs_users s)(u := rs_users s u + 1),
     rs_cache := (rs_cache s)(u := None), rs_unannounced := rs_unannounced s - {u}\<rparr>"

definition invalidate_all :: "resolver_state \<Rightarrow> resolver_state" where
  "invalidate_all s = s\<lparr>rs_global := rs_global s + 1, rs_cache := (\<lambda>u. None), rs_unannounced := {}\<rparr>"

text \<open>The first critical section: a cached answer, or a call that remembers the generation.\<close>

definition begin_call :: "nat \<Rightarrow> nat \<Rightarrow> resolver_state \<Rightarrow> permission set option \<times> resolver_state" where
  "begin_call t u s = (case rs_cache s u of Some p \<Rightarrow> (Some p, s)
     | None \<Rightarrow> (None, s\<lparr>rs_calls := (rs_calls s)(t \<mapsto>
         \<lparr>lc_user = u, lc_generation = generation s u, lc_value = None\<rparr>)\<rparr>))"

definition read_source :: "nat \<Rightarrow> lookup_call \<Rightarrow> resolver_state \<Rightarrow> resolver_state" where
  "read_source t c s = s\<lparr>rs_lookup_count := rs_lookup_count s + 1,
     rs_calls := (rs_calls s)(t \<mapsto> c\<lparr>lc_value := Some (rs_source s (lc_user c))\<rparr>)\<rparr>"

text \<open>The second critical section: retry after a change, keep an entry that is there, or store.\<close>

definition finish_call :: "nat \<Rightarrow> lookup_call \<Rightarrow> permission set \<Rightarrow> resolver_state
    \<Rightarrow> permission set option \<times> resolver_state" where
  "finish_call t c v s =
     (if lc_generation c \<noteq> generation s (lc_user c) then (None, s\<lparr>rs_calls := (rs_calls s)(t := None)\<rparr>)
      else case rs_cache s (lc_user c) of
          Some p \<Rightarrow> (Some p, s\<lparr>rs_calls := (rs_calls s)(t := None)\<rparr>)
        | None \<Rightarrow> (Some v, s\<lparr>rs_calls := (rs_calls s)(t := None),
            rs_cache := (rs_cache s)(lc_user c \<mapsto> v)\<rparr>))"

datatype resolver_event = Quiet | Returned nat "permission set"

inductive resolver_step :: "resolver_state \<Rightarrow> resolver_event \<Rightarrow> resolver_state \<Rightarrow> bool" where
  Change: "s' = s\<lparr>rs_source := f, rs_unannounced := rs_unannounced s \<union> {u. f u \<noteq> rs_source s u}\<rparr>
     \<Longrightarrow> resolver_step s Quiet s'"
| Invalidate: "s' = invalidate_user u s \<Longrightarrow> resolver_step s Quiet s'"
| InvalidateAll: "s' = invalidate_all s \<Longrightarrow> resolver_step s Quiet s'"
| Hit: "rs_calls s t = None \<Longrightarrow> begin_call t u s = (Some p, s') \<Longrightarrow> resolver_step s (Returned u p) s'"
| Miss: "rs_calls s t = None \<Longrightarrow> begin_call t u s = (None, s') \<Longrightarrow> resolver_step s Quiet s'"
| Read: "rs_calls s t = Some c \<Longrightarrow> lc_value c = None \<Longrightarrow> s' = read_source t c s \<Longrightarrow> resolver_step s Quiet s'"
| Store: "rs_calls s t = Some c \<Longrightarrow> lc_value c = Some v \<Longrightarrow> finish_call t c v s = (Some p, s')
     \<Longrightarrow> resolver_step s (Returned (lc_user c) p) s'"
| Retry: "rs_calls s t = Some c \<Longrightarrow> lc_value c = Some v \<Longrightarrow> finish_call t c v s = (None, s')
     \<Longrightarrow> resolver_step s Quiet s'"

definition empty_resolver :: "(nat \<Rightarrow> permission set) \<Rightarrow> resolver_state" where
  "empty_resolver source = \<lparr>rs_source = source, rs_cache = (\<lambda>u. None), rs_global = 0, rs_users = (\<lambda>u. 0),
     rs_lookup_count = 0, rs_calls = (\<lambda>t. None), rs_unannounced = {}\<rparr>"

inductive resolver_reachable :: "resolver_state \<Rightarrow> bool" where
  Start: "resolver_reachable (empty_resolver source)"
| Step: "resolver_reachable s \<Longrightarrow> resolver_step s e s' \<Longrightarrow> resolver_reachable s'"

definition fresh_for :: "resolver_state \<Rightarrow> nat \<Rightarrow> bool" where
  "fresh_for s u \<longleftrightarrow> rs_cache s u \<in> {None, Some (rs_source s u)}
     \<and> (\<forall>t c v. rs_calls s t = Some c \<and> lc_user c = u \<and> lc_generation c = generation s u
          \<and> lc_value c = Some v \<longrightarrow> v = rs_source s u)"

definition generations_bounded :: "resolver_state \<Rightarrow> bool" where
  "generations_bounded s \<longleftrightarrow> (\<forall>t c. rs_calls s t = Some c \<longrightarrow>
     fst (lc_generation c) \<le> rs_global s \<and> snd (lc_generation c) \<le> rs_users s (lc_user c))"

definition resolver_inv :: "resolver_state \<Rightarrow> bool" where
  "resolver_inv s \<longleftrightarrow> generations_bounded s \<and> (\<forall>u. u \<notin> rs_unannounced s \<longrightarrow> fresh_for s u)"

inductive_cases resolver_stepE: "resolver_step s e s'"

lemma begin_hit: "begin_call t u s = (Some p, s') \<longleftrightarrow> rs_cache s u = Some p \<and> s' = s"
  by (auto simp: begin_call_def split: option.splits)

lemma begin_miss: "begin_call t u s = (None, s') \<longleftrightarrow> rs_cache s u = None
    \<and> s' = s\<lparr>rs_calls := (rs_calls s)(t \<mapsto> \<lparr>lc_user = u, lc_generation = generation s u, lc_value = None\<rparr>)\<rparr>"
  by (auto simp: begin_call_def split: option.splits)

lemma finish_some:
  assumes "finish_call t c v s = (Some p, s')"
  shows "lc_generation c = generation s (lc_user c)"
    and "rs_cache s (lc_user c) = Some p \<and> s' = s\<lparr>rs_calls := (rs_calls s)(t := None)\<rparr>
      \<or> rs_cache s (lc_user c) = None \<and> p = v
        \<and> s' = s\<lparr>rs_calls := (rs_calls s)(t := None), rs_cache := (rs_cache s)(lc_user c \<mapsto> v)\<rparr>"
  using assms by (auto simp: finish_call_def split: if_splits option.splits)

lemma finish_none:
  "finish_call t c v s = (None, s') \<Longrightarrow> s' = s\<lparr>rs_calls := (rs_calls s)(t := None)\<rparr>"
  by (auto simp: finish_call_def split: if_splits option.splits)

lemma generation_update [simp]:
  "generation (s\<lparr>rs_calls := c\<rparr>) u = generation s u"
  "generation (s\<lparr>rs_cache := m\<rparr>) u = generation s u"
  "generation (s\<lparr>rs_lookup_count := n\<rparr>) u = generation s u"
  "generation (s\<lparr>rs_source := f, rs_unannounced := d\<rparr>) u = generation s u"
  by (simp_all add: generation_def)

lemma forget_call:
  assumes "resolver_inv s"
  shows "resolver_inv (s\<lparr>rs_calls := (rs_calls s)(t := None)\<rparr>)"
  using assms by (auto simp: resolver_inv_def generations_bounded_def fresh_for_def split: if_splits)

lemma generations_bounded_step:
  assumes "generations_bounded s" and "resolver_step s e s'"
  shows "generations_bounded s'"
  using assms(2,1)
proof cases
  case (Invalidate u)
  then show ?thesis using assms(1) by (auto simp: generations_bounded_def invalidate_user_def intro: le_SucI)
next
  case InvalidateAll
  then show ?thesis using assms(1) by (auto simp: generations_bounded_def invalidate_all_def intro: le_SucI)
next
  case (Store t c v p)
  from finish_some(2) [OF Store(4)] show ?thesis using assms(1)
    by (auto simp: generations_bounded_def split: if_splits)
next
  case (Retry t c v)
  then show ?thesis using assms(1) finish_none [OF Retry(4)]
    by (auto simp: generations_bounded_def split: if_splits)
qed (auto simp: generations_bounded_def begin_hit begin_miss read_source_def generation_def split: if_splits)

lemma fresh_step:
  assumes "generations_bounded s" and "\<And>u. u \<notin> rs_unannounced s \<Longrightarrow> fresh_for s u"
    and "resolver_step s e s'" and "u \<notin> rs_unannounced s'"
  shows "fresh_for s' u"
  using assms(3)
proof cases
  case (Invalidate w)
  have "generation s' u = generation s u \<and> rs_cache s' u = rs_cache s u \<and> u \<notin> rs_unannounced s" if "u \<noteq> w"
    using that assms(4) Invalidate by (auto simp: invalidate_user_def generation_def)
  moreover have "lc_generation c \<noteq> generation s' w" if "rs_calls s t = Some c" "lc_user c = w" for t c
    using assms(1) that Invalidate by (fastforce simp: generations_bounded_def invalidate_user_def generation_def)
  ultimately show ?thesis using assms(2) [of u] Invalidate
    by (cases "u = w") (auto simp: fresh_for_def invalidate_user_def)
next
  case InvalidateAll
  have "lc_generation c \<noteq> generation s' u" if "rs_calls s t = Some c" for t c
    using assms(1) that InvalidateAll by (fastforce simp: generations_bounded_def invalidate_all_def generation_def)
  then show ?thesis using InvalidateAll by (auto simp: fresh_for_def invalidate_all_def)
next
  case (Store t c v p)
  have still: "u \<notin> rs_unannounced s" using assms(4) finish_some(2) [OF Store(4)] by auto
  from finish_some(2) [OF Store(4)] show ?thesis
    using finish_some(1) [OF Store(4)] assms(2) [OF still] Store(2,3)
    by (auto simp: fresh_for_def split: if_splits)
next
  case (Retry t c v)
  then show ?thesis using assms(2,4) finish_none [OF Retry(4)]
    by (auto simp: fresh_for_def split: if_splits)
next
  case (Change f)
  then show ?thesis using assms(2,4) by (auto simp: fresh_for_def)
next
  case (Hit t w p)
  then show ?thesis using assms(2,4) by (simp add: begin_hit)
next
  case (Miss t w)
  then show ?thesis using assms(2,4) by (auto simp: fresh_for_def begin_miss split: if_splits)
next
  case (Read t c)
  then show ?thesis using assms(2,4) by (auto simp: fresh_for_def read_source_def split: if_splits)
qed

lemma resolver_inv_step: "resolver_inv s \<Longrightarrow> resolver_step s e s' \<Longrightarrow> resolver_inv s'"
  using generations_bounded_step fresh_step unfolding resolver_inv_def by blast

lemma resolver_inv_reachable: "resolver_reachable s \<Longrightarrow> resolver_inv s"
proof (induction rule: resolver_reachable.induct)
  case (Start source)
  then show ?case
    by (simp add: resolver_inv_def generations_bounded_def fresh_for_def empty_resolver_def)
qed (rule resolver_inv_step)

text \<open>
  C13: a role change that has been announced is never missed. In every interleaving of lookups,
  role changes and invalidations, the permissions a lookup returns are the ones the source holds
  for that user, unless the user's roles changed since the last invalidation that covers them.
\<close>

theorem permission_cache_fresh:
  assumes "resolver_reachable s" and "resolver_step s (Returned u ps) s'" and "u \<notin> rs_unannounced s"
  shows "ps = rs_source s u"
proof -
  have fresh: "fresh_for s u" using resolver_inv_reachable [OF assms(1)] assms(3) by (simp add: resolver_inv_def)
  from assms(2) show ?thesis
  proof cases
    case (Hit t)
    then show ?thesis using fresh by (simp add: begin_hit fresh_for_def)
  next
    case (Store t c v)
    then show ?thesis using fresh finish_some [OF Store(4)] by (auto simp: fresh_for_def)
  qed
qed

definition demo_call :: lookup_call where
  "demo_call = \<lparr>lc_user = 3, lc_generation = (0, 0), lc_value = None\<rparr>"

definition demo_asked :: resolver_state where
  "demo_asked = (empty_resolver (\<lambda>u. {VIEW_CASE}))\<lparr>rs_calls := (\<lambda>t. None)(7 \<mapsto> demo_call)\<rparr>"

lemma demo_lookup:
  "resolver_reachable (read_source 7 demo_call demo_asked)"
  "\<exists>s'. resolver_step (read_source 7 demo_call demo_asked) (Returned 3 {VIEW_CASE}) s'"
proof -
  have "resolver_step (empty_resolver (\<lambda>u. {VIEW_CASE})) Quiet demo_asked"
    by (rule Miss [of _ 7 3]) (simp_all add: begin_miss empty_resolver_def demo_asked_def demo_call_def generation_def)
  moreover have "resolver_step demo_asked Quiet (read_source 7 demo_call demo_asked)"
    by (rule Read [of _ 7 demo_call]) (simp_all add: demo_asked_def demo_call_def)
  ultimately show "resolver_reachable (read_source 7 demo_call demo_asked)"
    by (meson resolver_reachable.intros)
  let ?c = "demo_call\<lparr>lc_value := Some {VIEW_CASE}\<rparr>"
  have "\<exists>s'. finish_call 7 ?c {VIEW_CASE} (read_source 7 demo_call demo_asked) = (Some {VIEW_CASE}, s')"
    by (simp add: finish_call_def read_source_def demo_asked_def demo_call_def empty_resolver_def generation_def)
  then obtain s' where "finish_call 7 ?c {VIEW_CASE} (read_source 7 demo_call demo_asked) = (Some {VIEW_CASE}, s')" ..
  from Store [OF _ _ this] have "resolver_step (read_source 7 demo_call demo_asked) (Returned (lc_user ?c) {VIEW_CASE}) s'"
    by (simp add: read_source_def demo_asked_def empty_resolver_def demo_call_def)
  then show "\<exists>s'. resolver_step (read_source 7 demo_call demo_asked) (Returned 3 {VIEW_CASE}) s'"
    by (auto simp: demo_call_def)
qed

theorem permission_cache_fresh_witness:
  "{VIEW_CASE} = rs_source (read_source 7 demo_call demo_asked) 3"
proof -
  obtain s' where "resolver_step (read_source 7 demo_call demo_asked) (Returned 3 {VIEW_CASE}) s'"
    using demo_lookup(2) by blast
  from permission_cache_fresh [OF demo_lookup(1) this] show ?thesis
    by (simp add: read_source_def demo_asked_def empty_resolver_def)
qed

section \<open>What a principal can be\<close>

lemma normalize_permission_values [simp]: "normalize_permissions (permission_values ps) = ok ps"
proof -
  have one: "coerce_permission (PEnum c (permission_code p)) = ok p" for c p
    by (simp add: coerce_permission_def permission_of_code_inverse)
  have "rmap coerce_permission (map (\<lambda>p. PEnum ''Permission'' (permission_code p)) qs) = ok qs" for qs
    by (induction qs) (simp_all add: one)
  moreover have "set (filter (\<lambda>p. p \<in> ps) all_permissions) = ps"
    by (auto simp: all_permissions_exhaustive)
  ultimately show ?thesis by (simp add: normalize_permissions_def permission_values_def iterate_def)
qed

lemma normalize_permissions_Nil [simp]: "normalize_permissions (PList []) = ok {}"
  by (simp add: normalize_permissions_def iterate_def)

lemma kind_of_values [simp]: "kind_of (PEnum c ''user'') = ok USER" "kind_of (PEnum c ''api_key'') = ok API_KEY"
  by (simp_all add: kind_of_def)

lemma validate_persona_ok:
  assumes "validate_persona i k ps admin code expires = ok (a, c, e)"
  shows "(a = None \<and> c = None \<and> e = None)
    \<or> (k = USER \<and> ps \<inter> persona_forbidden = {} \<and> (\<exists>n. a = Some n \<and> n \<noteq> i) \<and> (\<exists>s. c = Some s \<and> s \<noteq> [] \<and> strip s = s)
       \<and> e \<noteq> None)"
  using assms by (auto simp: validate_persona_def split: if_splits option.splits pyval.splits)

text \<open>
  what a principal can hold. However its constructor is called, an API key's permissions are
  exactly its scopes, a session user has no scopes, and a principal that acts for an administrator
  is a session user with a different identity, a persona code and an expiry, and without the
  permissions to assume personas or to manage users.
\<close>

theorem principal_limits:
  assumes "make_principal i permissions kind scopes admin code expires = ok p"
  shows "p_id p = i
     \<and> (p_kind p = API_KEY \<longrightarrow> p_permissions p = p_scopes p \<and> \<not> is_impersonating p)
     \<and> (p_kind p = USER \<longrightarrow> p_scopes p = {})
     \<and> (is_impersonating p \<longrightarrow> human_id p \<noteq> p_id p \<and> p_permissions p \<inter> persona_forbidden = {}
          \<and> p_persona_code p \<noteq> None \<and> p_persona_expires p \<noteq> None)
     \<and> (\<not> is_impersonating p \<longrightarrow> human_id p = i \<and> p_persona_code p = None \<and> p_persona_expires p = None)"
proof -
  obtain k ps ss where parts: "kind_of kind = ok k" "normalize_permissions permissions = ok ps"
      "normalize_permissions scopes = ok ss" "\<not> (k \<noteq> API_KEY \<and> ss \<noteq> {})"
    using assms by (auto simp: make_principal_def split: if_splits)
  let ?granted = "if k = API_KEY then ss else ps"
  obtain a c e where persona: "validate_persona i k ?granted admin code expires = ok (a, c, e)"
      and p: "p = \<lparr>p_id = i, p_permissions = ?granted, p_kind = k, p_scopes = ss,
        p_acting_admin = a, p_persona_code = c, p_persona_expires = e\<rparr>"
    using assms parts by (auto simp: make_principal_def Let_def split: if_splits)
  show ?thesis using validate_persona_ok [OF persona] parts(4)
    by (cases k) (auto simp: p is_impersonating_def human_id_def)
qed

theorem principal_limits_witness:
  "case impersonated 4 (PList [PStr ''VIEW_CASE'', PStr ''MANAGE_USERS'']) (PUuid 9) (PStr '' analyst '')
      (PDatetime 5000000) of
     ok p \<Rightarrow> p_permissions p = {VIEW_CASE} \<and> human_id p \<noteq> p_id p | raise e \<Rightarrow> False"
proof -
  have ps: "normalize_permissions (PList [PStr ''VIEW_CASE'', PStr ''MANAGE_USERS'']) = ok {VIEW_CASE, MANAGE_USERS}"
    by code_simp
  have rest: "{VIEW_CASE, MANAGE_USERS} - persona_forbidden = {VIEW_CASE}" by (auto simp: persona_forbidden_def)
  have "\<exists>p. make_principal 4 (permission_values {VIEW_CASE}) (PEnum ''PrincipalKind'' ''user'') (PList [])
        (PUuid 9) (PStr '' analyst '') (PDatetime 5000000) = ok p
      \<and> p_permissions p = {VIEW_CASE} \<and> is_impersonating p"
    by (simp add: make_principal_def validate_persona_def is_impersonating_def persona_forbidden_def
        strip_def is_space_def)
  then obtain p where made: "make_principal 4 (permission_values {VIEW_CASE}) (PEnum ''PrincipalKind'' ''user'')
        (PList []) (PUuid 9) (PStr '' analyst '') (PDatetime 5000000) = ok p"
      and "p_permissions p = {VIEW_CASE}" "is_impersonating p" by blast
  with principal_limits [OF made] show ?thesis unfolding impersonated_def ps rbind_simps rest by simp
qed

end
