(* ===== verification/Py_Uuid.thy ===== *)
theory Py_Uuid
  imports Py_Values
begin

text \<open>
  \<open>UUID(text)\<close> of the standard library: the prefixes \<open>urn:\<close> and \<open>uuid:\<close> and every hyphen are
  removed, braces are stripped from the ends, 32 characters must remain and they are read by
  \<open>int(text, 16)\<close>, which takes white space around the numeral, a sign, a \<open>0x\<close> prefix and single
  underscores between digits.
\<close>

fun remove_sub :: "string \<Rightarrow> nat \<Rightarrow> string \<Rightarrow> string" where
  "remove_sub pat n [] = []"
| "remove_sub pat n (c # cs) =
     (if 0 < n then remove_sub pat (n - 1) cs
      else if pat \<noteq> [] \<and> take (length pat) (c # cs) = pat then remove_sub pat (length pat - 1) cs
      else c # remove_sub pat 0 cs)"

definition strip_chars :: "char set \<Rightarrow> string \<Rightarrow> string" where
  "strip_chars cs s = rev (dropWhile (\<lambda>c. c \<in> cs) (rev (dropWhile (\<lambda>c. c \<in> cs) s)))"

definition hex_value :: "char \<Rightarrow> nat option" where
  "hex_value c = (let n = of_char c :: nat in
     if 48 \<le> n \<and> n \<le> 57 then Some (n - 48)
     else if 97 \<le> n \<and> n \<le> 102 then Some (n - 87)
     else if 65 \<le> n \<and> n \<le> 70 then Some (n - 55) else None)"

text \<open>Digits with single underscores between them; \<open>after\<close> says that the last character was a digit.\<close>

fun hex_numeral :: "nat \<Rightarrow> bool \<Rightarrow> string \<Rightarrow> nat option" where
  "hex_numeral acc after [] = (if after then Some acc else None)"
| "hex_numeral acc after (c # cs) =
     (if c = CHR ''_'' then (if after then hex_numeral acc False cs else None)
      else case hex_value c of None \<Rightarrow> None | Some d \<Rightarrow> hex_numeral (16 * acc + d) True cs)"

definition int_base16 :: "string \<Rightarrow> int option" where
  "int_base16 s = (case split_sign (strip s) of (neg, t) \<Rightarrow>
     (let n = (if take 2 t \<in> {''0x'', ''0X''} then
            (case drop 2 t of c # cs \<Rightarrow> hex_numeral 0 False (if c = CHR ''_'' then cs else c # cs) | [] \<Rightarrow> None)
          else hex_numeral 0 False t)
      in map_option (\<lambda>k. if neg then - int k else int k) n))"

definition uuid_of_text :: "string \<Rightarrow> nat option" where
  "uuid_of_text s =
     (let t = remove_sub ''-'' 0 (strip_chars {CHR ''{'', CHR ''}''} (remove_sub ''uuid:'' 0 (remove_sub ''urn:'' 0 s)))
      in if length t \<noteq> 32 then None
         else case int_base16 t of None \<Rightarrow> None | Some n \<Rightarrow> if n < 0 then None else Some (nat n))"

end
