(* ===== verification/Audit_Store.thy ===== *)
theory Audit_Store
  imports Audit_Chain Py_Uuid
begin

text \<open>
  Writing the audit trail: \<open>audit/record.py\<close> (the validated write boundary), the in-memory store
  of \<open>audit/store.py\<close> and the table adapter of \<open>db/repositories/audit.py\<close>. The table is the list of
  its rows; the lock and the transaction make an append one step. The identifiers that
  \<open>new_id()\<close> and \<open>uuid5\<close> generate are parameters.
\<close>

section \<open>Stored payloads\<close>

text \<open>The normalised payload as the Python value that is stored, hashed and read back.\<close>

fun json_value :: "json \<Rightarrow> pyval" where
  "json_value JNull = PNone"
| "json_value (JBool b) = PBool b"
| "json_value (JInt n) = PInt n"
| "json_value (JFloat s) = PFloat s"
| "json_value (JStr s) = PStr s"
| "json_value (JArr js) = PList (map json_value js)"
| "json_value (JObj kvs) = PMap (map (\<lambda>(k, j). (PStr k, json_value j)) kvs)"

record audit_record =
  ar_event_type :: string
  ar_subject_type :: string
  ar_subject_id :: nat
  ar_payload :: pyval
  ar_actor_id :: "nat option"
  ar_actor_label :: "string option"
  ar_occurred_at :: int
  ar_request_id :: string
  ar_snapshot :: "nat option"

record audit_event = chain_row +
  ae_id :: nat
  ae_snapshot :: "nat option"
  ae_created_by :: "nat option"
  ae_request_id :: string

definition event_of_record :: "nat \<Rightarrow> audit_record \<Rightarrow> json \<Rightarrow> int \<Rightarrow> string option \<Rightarrow> string \<Rightarrow> audit_event" where
  "event_of_record i r j sequence prev digest =
     \<lparr>row_sequence = sequence, row_occurred_at = PDatetime (ar_occurred_at r),
      row_actor_id = pyopt PUuid (ar_actor_id r), row_actor_label = pyopt PStr (ar_actor_label r),
      row_event_type = PStr (ar_event_type r), row_subject_type = PStr (ar_subject_type r),
      row_subject_id = PUuid (ar_subject_id r), row_payload = json_value j,
      row_prev_hash = prev, row_hash = digest,
      ae_id = i, ae_snapshot = ar_snapshot r, ae_created_by = ar_actor_id r, ae_request_id = ar_request_id r\<rparr>"

definition record_digest :: "(string \<Rightarrow> string) \<Rightarrow> audit_record \<Rightarrow> json \<Rightarrow> int \<Rightarrow> string option \<Rightarrow> string result" where
  "record_digest h r j sequence prev = compute_event_hash h sequence (PDatetime (ar_occurred_at r))
     (if ar_actor_id r \<noteq> None then pyopt PUuid (ar_actor_id r) else pyopt PStr (ar_actor_label r))
     (PStr (ar_event_type r)) (PStr (ar_subject_type r)) (PUuid (ar_subject_id r)) (json_value j) prev"

section \<open>The two stores\<close>

definition memory_append :: "(string \<Rightarrow> string) \<Rightarrow> nat \<Rightarrow> audit_record \<Rightarrow> audit_event list
    \<Rightarrow> (audit_event \<times> audit_event list) result" where
  "memory_append h new_id r rows =
     rbind (normalise_payload (ar_payload r)) (\<lambda>j.
     let previous = (if rows = [] then None else Some (last rows));
         sequence = (case previous of Some p \<Rightarrow> row_sequence p + 1 | None \<Rightarrow> 1);
         prev = map_option row_hash previous
     in rbind (record_digest h r j sequence prev) (\<lambda>digest.
        let row = event_of_record new_id r j sequence prev digest in ok (row, rows @ [row])))"

definition in_bounds :: "int option \<Rightarrow> int option \<Rightarrow> int \<Rightarrow> bool" where
  "in_bounds f t n = ((case f of None \<Rightarrow> True | Some a \<Rightarrow> a \<le> n) \<and> (case t of None \<Rightarrow> True | Some b \<Rightarrow> n \<le> b))"

definition memory_rows :: "audit_event list \<Rightarrow> int option \<Rightarrow> int option \<Rightarrow> audit_event list result" where
  "memory_rows rows f t = rbind (validate_range f t) (\<lambda>u.
     ok (filter (\<lambda>r. in_bounds f t (row_sequence r)) rows))"

definition chain_view :: "audit_event list \<Rightarrow> chain_row list" where
  "chain_view rows = map chain_row.truncate rows"

definition memory_verify :: "(string \<Rightarrow> string) \<Rightarrow> audit_event list \<Rightarrow> int option \<Rightarrow> int option
    \<Rightarrow> chain_break option result" where
  "memory_verify h rows f t = rbind (memory_rows rows None None) (\<lambda>all. verify_chain h (chain_view all) f t)"

text \<open>\<open>ORDER BY sequence DESC LIMIT 1\<close> and \<open>ORDER BY sequence\<close>.\<close>

definition latest :: "audit_event list \<Rightarrow> audit_event option" where
  "latest table = (case table of [] \<Rightarrow> None | r # rs \<Rightarrow> Some (max_key row_sequence r rs))"

text \<open>\<open>supplied\<close> is the previous digest a caller may pass; \<open>AuditChainError\<close> is a value error.\<close>

definition table_append :: "(string \<Rightarrow> string) \<Rightarrow> nat \<Rightarrow> string option option \<Rightarrow> audit_record \<Rightarrow> audit_event list
    \<Rightarrow> (audit_event \<times> audit_event list) result" where
  "table_append h new_id supplied r table =
     (let tail = latest table; expected = map_option row_hash tail in
      if supplied \<noteq> None \<and> supplied \<noteq> Some expected then raise ValueError else
      let sequence = (case tail of Some p \<Rightarrow> row_sequence p + 1 | None \<Rightarrow> 1) in
      rbind (normalise_payload (ar_payload r)) (\<lambda>j.
      rbind (record_digest h r j sequence expected) (\<lambda>digest.
        let row = event_of_record new_id r j sequence expected digest in ok (row, table @ [row]))))"

definition table_rows :: "audit_event list \<Rightarrow> int option \<Rightarrow> int option \<Rightarrow> audit_event list result" where
  "table_rows table f t = rbind (validate_range f t) (\<lambda>u.
     ok (sort_key row_sequence (filter (\<lambda>r. in_bounds f t (row_sequence r)) table)))"

definition table_verify :: "(string \<Rightarrow> string) \<Rightarrow> audit_event list \<Rightarrow> int option \<Rightarrow> int option
    \<Rightarrow> chain_break option result" where
  "table_verify h table f t =
     rbind (table_rows table f t) (\<lambda>rows.
     if rows = [] then ok None else
     case f of None \<Rightarrow> verify_chain h (chain_view rows) None None
     | Some a \<Rightarrow> (case latest (filter (\<lambda>r. row_sequence r < a) table) of
           None \<Rightarrow> verify_chain h (chain_view rows) f None
         | Some p \<Rightarrow> verify_chain h (chain_view (p # rows)) f None))"

section \<open>A stored payload normalises to itself\<close>

lemma normalise_json_value:
  "normalise_value v = ok j \<Longrightarrow> normalise_value (json_value j) = ok j"
  "normalise_items kvs = ok items \<Longrightarrow>
     normalise_items (map (\<lambda>(k, j). (PStr k, json_value j)) items) = ok items"
  "normalise_list vs = ok js \<Longrightarrow> normalise_list (map json_value js) = ok js"
proof (induction v and kvs and vs arbitrary: j and items and js
    rule: normalise_value_normalise_items_normalise_list.induct)
  case (1 c as)
  then show ?case by (auto split: if_splits simp: reference_not_personal)
next
  case (12 k v kvs)
  obtain key where key: "text_of k = Some key" using "12.prems" by (auto split: option.splits)
  obtain j rest where j: "(if is_personal_field key
            then if \<not> is_reference_object v then raise ValueError else reference_object v
            else normalise_value v) = ok j" and rest: "normalise_items kvs = ok rest"
      and items: "items = (key, j) # rest"
    using "12.prems" key by auto
  have tail: "normalise_items (map (\<lambda>(k, j). (PStr k, json_value j)) rest) = ok rest"
    using "12.IH"(2) key j rest by simp
  show ?case
  proof (cases "is_personal_field key")
    case True
    then have "reference_object v = ok j" using j by (simp split: if_splits)
    then obtain s where "j = JObj [(''reference'', JStr s)]" "s \<noteq> []" "strip s = s"
      using reference_object_ok by blast
    then show ?thesis using True tail items
      by (simp add: is_reference_object_def reference_object_def reference_text_def map_get_def)
  next
    case False
    then have "normalise_value (json_value j) = ok j" using "12.IH"(1) key j by simp
    then show ?thesis using False tail items by simp
  qed
qed (auto split: if_splits)

lemma stored_payload_normalises:
  assumes "normalise_payload payload = ok j"
  shows "normalise_payload (json_value j) = ok j"
proof -
  obtain kvs where p: "payload = PMap kvs" "normalise_value (PMap kvs) = ok j"
    using assms by (auto simp: normalise_payload_def simp del: normalise_value.simps split: pyval.splits)
  then obtain items where "j = JObj items" by auto
  then show ?thesis using normalise_json_value(1) [OF p(2)] by (simp add: normalise_payload_def)
qed

text \<open>
  C15: what the audit table stores is what it hashed. The stored form of an accepted payload
  normalises to itself, so re-reading and re-normalising a row yields the payload that was
  written and the canonical text that was hashed.
\<close>

theorem stored_payload_round_trip:
  assumes "normalise_payload payload = ok j"
  shows "normalise_payload (json_value j) = ok j
     \<and> canonical_payload (json_value j) = canonical_payload payload"
  using assms stored_payload_normalises [OF assms] by (simp add: canonical_payload_def)

theorem stored_payload_round_trip_witness:
  "canonical_payload (json_value (JObj [(''email'', JObj [(''reference'', JStr ''b-7'')])]))
     = canonical_payload (PMap [(PStr ''email'', PMap [(PStr ''reference'', PStr '' b-7 '')])])"
proof -
  have "normalise_payload (PMap [(PStr ''email'', PMap [(PStr ''reference'', PStr '' b-7 '')])])
     = ok (JObj [(''email'', JObj [(''reference'', JStr ''b-7'')])])" by code_simp
  from stored_payload_round_trip [OF this] show ?thesis by blast
qed

section \<open>The log as an append-only, verified chain\<close>

definition intact :: "(string \<Rightarrow> string) \<Rightarrow> audit_event list \<Rightarrow> bool" where
  "intact h rows = (verify_chain h (chain_view rows) None None = ok None)"

text \<open>A sequence of appends, in the order in which the lock admits them.\<close>

fun write_all :: "('a \<Rightarrow> audit_event list \<Rightarrow> (audit_event \<times> audit_event list) result) \<Rightarrow> 'a list
    \<Rightarrow> audit_event list \<Rightarrow> audit_event list result" where
  "write_all put [] rows = ok rows"
| "write_all put (c # cs) rows = rbind (put c rows) (\<lambda>(row, rows'). write_all put cs rows')"

locale audit_sink =
  fixes put :: "'a \<Rightarrow> audit_event list \<Rightarrow> (audit_event \<times> audit_event list) result"
    and sound :: "audit_event list \<Rightarrow> bool"
  assumes append_extends: "put c rows = ok (row, rows') \<Longrightarrow> rows' = rows @ [row]"
    and append_sound: "sound rows \<Longrightarrow> put c rows = ok (row, rows') \<Longrightarrow> sound rows'"
begin

lemma write_all_sound: "sound rows \<Longrightarrow> write_all put cs rows = ok rows' \<Longrightarrow> sound rows'"
  by (induction cs arbitrary: rows) (auto dest: append_sound)

lemma write_all_extends: "write_all put cs rows = ok rows' \<Longrightarrow> \<exists>new. rows' = rows @ new \<and> length new = length cs"
proof (induction cs arbitrary: rows)
  case (Cons c cs)
  then obtain row mid where "put c rows = ok (row, mid)" "write_all put cs mid = ok rows'" by auto
  then obtain new where "rows' = (rows @ [row]) @ new" "length new = length cs"
    using Cons.IH append_extends by blast
  then show ?case by (intro exI [of _ "row # new"]) simp
qed simp

end

lemma truncate_simps [simp]:
  "row_sequence (chain_row.truncate r) = row_sequence r"
  "row_hash (chain_row.truncate r) = row_hash r"
  by (simp_all add: chain_row.truncate_def)

lemma event_row_expected:
  "row_expected_hash h (chain_row.truncate (event_of_record i r j n prev digest)) = record_digest h r j n prev"
  unfolding row_expected_hash_def record_digest_def event_of_record_def chain_row.truncate_def
  by (cases "ar_actor_id r") simp_all

lemma link_event:
  assumes "record_digest h r j n prev = ok digest" and "n \<ge> 1"
    and "case previous of None \<Rightarrow> prev = None
         | Some p \<Rightarrow> row_sequence p \<ge> 1 \<and> row_sequence p < n \<and> prev = Some (row_hash p)"
  shows "link_ok h True (map_option chain_row.truncate previous)
    (chain_row.truncate (event_of_record i r j n prev digest))"
proof -
  have fields: "row_sequence (chain_row.truncate (event_of_record i r j n prev digest)) = n"
    "row_prev_hash (chain_row.truncate (event_of_record i r j n prev digest)) = prev"
    "row_hash (chain_row.truncate (event_of_record i r j n prev digest)) = digest"
    by (simp_all add: event_of_record_def chain_row.truncate_def)
  show ?thesis using assms unfolding link_ok_def fields event_row_expected
    by (cases previous) simp_all
qed

lemma intact_linked: "intact h rows \<longleftrightarrow> linked h True None (chain_view rows)"
  by (simp add: intact_def verify_chain_whole verify_rows_ok)

lemma intact_last: "intact h rows \<Longrightarrow> rows \<noteq> [] \<Longrightarrow> row_sequence (last rows) \<ge> 1"
  unfolding intact_linked
  by (induction rows rule: rev_induct) (auto simp: chain_view_def linked_append link_ok_def)

lemma memory_append_sound:
  assumes "intact h rows" and "memory_append h i r rows = ok (row, rows')"
  shows "intact h rows'"
proof -
  let ?previous = "if rows = [] then None else Some (last rows)"
  let ?n = "case ?previous of Some p \<Rightarrow> row_sequence p + 1 | None \<Rightarrow> 1"
  obtain j digest where digest: "record_digest h r j ?n (map_option row_hash ?previous) = ok digest"
      and rows': "rows' = rows @ [event_of_record i r j ?n (map_option row_hash ?previous) digest]"
    using assms(2) unfolding memory_append_def Let_def by auto
  have one: "?n \<ge> 1" using intact_last [OF assms(1)] by (cases "rows = []") auto
  have "case ?previous of None \<Rightarrow> map_option row_hash ?previous = None
      | Some p \<Rightarrow> row_sequence p \<ge> 1 \<and> row_sequence p < ?n \<and> map_option row_hash ?previous = Some (row_hash p)"
    using intact_last [OF assms(1)] by (cases "rows = []") auto
  from link_event [OF digest one this]
  have "link_ok h True (last_or None (chain_view rows))
      (chain_row.truncate (event_of_record i r j ?n (map_option row_hash ?previous) digest))"
    by (cases "rows = []") (simp_all add: last_or_def chain_view_def last_map)
  then show ?thesis using assms(1) unfolding rows' intact_linked by (simp add: chain_view_def linked_append)
qed

lemma memory_append_extends: "memory_append h i r rows = ok (row, rows') \<Longrightarrow> rows' = rows @ [row]"
  unfolding memory_append_def Let_def by auto

lemma intact_sorted: "intact h rows \<Longrightarrow> sorted_wrt (\<lambda>x y. row_sequence x < row_sequence y) rows"
  unfolding intact_linked chain_view_def by (drule linked_sorted) (simp add: sorted_wrt_map)

lemma latest_intact: "intact h rows \<Longrightarrow> latest rows = (if rows = [] then None else Some (last rows))"
proof (cases rows)
  case (Cons r rs)
  have last: "sorted_wrt (\<lambda>x y. row_sequence x < row_sequence y) (r # rs) \<Longrightarrow>
      max_key row_sequence r rs = last (r # rs)"
    by (induction rs arbitrary: r) auto
  assume "intact h rows"
  then have "max_key row_sequence r rs = last (r # rs)" using last intact_sorted Cons by blast
  then show ?thesis by (simp add: latest_def Cons)
qed (simp add: latest_def)

text \<open>On an intact log the table adapter is the in-memory store.\<close>

lemma table_append_memory:
  assumes "intact h rows"
  shows "table_append h i None r rows = memory_append h i r rows"
  unfolding table_append_def memory_append_def Let_def latest_intact [OF assms] by simp

lemma table_append_supplied:
  assumes "table_append h i supplied r rows = ok x"
  shows "table_append h i None r rows = ok x"
  using assms unfolding table_append_def Let_def by (simp split: if_splits)

text \<open>Both stores keep the log intact and its sequence numbers without gaps.\<close>

definition gapless :: "audit_event list \<Rightarrow> bool" where
  "gapless rows = (map row_sequence rows = map int [1..<Suc (length rows)])"

lemma memory_append_gapless:
  assumes "gapless rows" and "memory_append h i r rows = ok (row, rows')"
  shows "gapless rows'"
proof -
  obtain j digest n prev where "rows' = rows @ [event_of_record i r j n prev digest]"
      and n: "n = (case (if rows = [] then None else Some (last rows)) of Some p \<Rightarrow> row_sequence p + 1 | None \<Rightarrow> 1)"
    using assms(2) unfolding memory_append_def Let_def by auto
  moreover have "n = int (length rows) + 1"
  proof (cases rows rule: rev_cases)
    case (snoc xs x)
    have "row_sequence (last rows) = last (map row_sequence rows)" using snoc by simp
    also have "\<dots> = int (length rows)" using assms(1) snoc by (simp add: gapless_def)
    finally show ?thesis using n snoc by simp
  qed (use n in simp)
  ultimately show ?thesis using assms(1) by (simp add: gapless_def event_of_record_def)
qed

interpretation memory: audit_sink "\<lambda>(i, r). memory_append h i r" "\<lambda>rows. intact h rows \<and> gapless rows" for h
  by unfold_locales (auto dest: memory_append_extends memory_append_sound memory_append_gapless)

interpretation table: audit_sink "\<lambda>(i, supplied, r). table_append h i supplied r"
    "\<lambda>rows. intact h rows \<and> gapless rows" for h
proof unfold_locales
  fix c :: "nat \<times> string option option \<times> audit_record" and rows row rows'
  obtain i supplied r where c: "c = (i, supplied, r)" by (cases c)
  assume "(case c of (i, supplied, r) \<Rightarrow> table_append h i supplied r) rows = ok (row, rows')"
  then have put: "table_append h i supplied r rows = ok (row, rows')" by (simp add: c)
  then show "rows' = rows @ [row]" unfolding table_append_def Let_def by (auto split: if_splits)
  assume "intact h rows \<and> gapless rows"
  with table_append_supplied [OF put] table_append_memory [of h rows i r]
  show "intact h rows' \<and> gapless rows'" by (auto dest: memory_append_sound memory_append_gapless)
qed

text \<open>Verification alone, without the numbering, is kept as well.\<close>

interpretation trail: audit_sink "\<lambda>(i, supplied, r). table_append h i supplied r" "intact h" for h
proof unfold_locales
  fix c :: "nat \<times> string option option \<times> audit_record" and rows row rows'
  obtain i supplied r where c: "c = (i, supplied, r)" by (cases c)
  assume put: "(case c of (i, supplied, r) \<Rightarrow> table_append h i supplied r) rows = ok (row, rows')"
  then show "rows' = rows @ [row]" by (rule table.append_extends)
  assume "intact h rows"
  with put table_append_supplied [of h i supplied r rows "(row, rows')"] table_append_memory [of h rows i r]
  show "intact h rows'" by (auto simp: c dest: memory_append_sound)
qed

lemma table_refines_memory:
  assumes "intact h rows" and "gapless rows"
    and "write_all (\<lambda>(i, supplied, r). table_append h i supplied r) calls rows = ok rows'"
  shows "write_all (\<lambda>(i, r). memory_append h i r) (map (\<lambda>(i, supplied, r). (i, r)) calls) rows = ok rows'"
  using assms
proof (induction calls arbitrary: rows)
  case (Cons c calls)
  obtain i supplied r where c: "c = (i, supplied, r)" by (cases c)
  then obtain row mid where put: "table_append h i supplied r rows = ok (row, mid)"
      and rest: "write_all (\<lambda>(i, supplied, r). table_append h i supplied r) calls mid = ok rows'"
    using Cons.prems(3) by auto
  have step: "memory_append h i r rows = ok (row, mid)"
    using table_append_supplied [OF put] table_append_memory [OF Cons.prems(1)] by simp
  have "intact h mid" "gapless mid"
    using memory_append_sound [OF Cons.prems(1) step] memory_append_gapless [OF Cons.prems(2) step] by blast+
  from Cons.IH [OF this rest] show ?case using step by (simp add: c)
qed simp

lemma empty_log: "intact h [] \<and> gapless []"
  by (simp add: intact_linked gapless_def chain_view_def)

text \<open>
  C14: the audit table refines the in-memory log and never breaks its own chain. Whatever events
  are appended, in whatever order, the table holds the same rows as the in-memory store, numbered
  from one without gaps, and verification of the whole chain and of every valid range reports no
  break.
\<close>

theorem audit_table_refines:
  assumes "write_all (\<lambda>(i, supplied, r). table_append h i supplied r) calls [] = ok rows"
  shows "write_all (\<lambda>(i, r). memory_append h i r) (map (\<lambda>(i, supplied, r). (i, r)) calls) [] = ok rows
     \<and> map row_sequence rows = map int [1..<Suc (length calls)]
     \<and> (\<forall>f t. validate_range f t = ok () \<longrightarrow> memory_verify h rows f t = ok None)"
proof -
  have "intact h rows \<and> gapless rows" using table.write_all_sound [OF empty_log assms] .
  moreover have "length rows = length calls" using table.write_all_extends [OF assms] by auto
  moreover have "memory_verify h rows f t = verify_chain h (chain_view rows) f t" for f t
    by (simp add: memory_verify_def memory_rows_def validate_range_def in_bounds_def)
  moreover have "verify_chain h (chain_view rows) f t = ok None"
    if "intact h rows" "validate_range f t = ok ()" for f t
    using that linked_selected [of h "chain_view rows" f t]
    by (simp add: intact_linked) (simp add: verify_chain_def verify_rows_ok)
  ultimately show ?thesis
    using table_refines_memory [OF empty_log [THEN conjunct1] empty_log [THEN conjunct2] assms]
    by (simp add: gapless_def)
qed

definition demo_record :: "string \<Rightarrow> audit_record" where
  "demo_record event = \<lparr>ar_event_type = event, ar_subject_type = ''case'', ar_subject_id = 7,
     ar_payload = PMap [(PStr ''email'', PMap [(PStr ''reference'', PStr ''b-7'')])],
     ar_actor_id = None, ar_actor_label = Some ''engine'', ar_occurred_at = 63902649600000000,
     ar_request_id = ''r-1'', ar_snapshot = None\<rparr>"

lemma demo_writes:
  "case write_all (\<lambda>(i, supplied, r). table_append length_digest i supplied r)
     [(1, None, demo_record ''case.opened''), (2, None, demo_record ''case.closed'')] [] of
   ok rows \<Rightarrow> length rows = 2 | raise e \<Rightarrow> False"
  by code_simp

theorem audit_table_refines_witness:
  "\<exists>rows. write_all (\<lambda>(i, supplied, r). table_append length_digest i supplied r)
     [(1, None, demo_record ''case.opened''), (2, None, demo_record ''case.closed'')] [] = ok rows
   \<and> map row_sequence rows = [1, 2] \<and> memory_verify length_digest rows (Some 2) None = ok None"
proof -
  obtain rows where rows: "write_all (\<lambda>(i, supplied, r). table_append length_digest i supplied r)
     [(1, None, demo_record ''case.opened''), (2, None, demo_record ''case.closed'')] [] = ok rows"
    using demo_writes by (auto split: sum.splits)
  note all = audit_table_refines [OF rows, THEN conjunct2]
  have "map row_sequence rows = [1, 2]"
    by (rule all [THEN conjunct1, THEN trans]) (simp add: upt_rec)
  moreover have valid: "validate_range (Some 2) None = ok ()" by (simp add: validate_range_def)
  have "memory_verify length_digest rows (Some 2) None = ok None"
    by (rule all [THEN conjunct2, rule_format, OF valid])
  ultimately show ?thesis using rows by (intro exI conjI)
qed

section \<open>The write boundary\<close>

text \<open>
  \<open>AuditRecorder.record\<close>. A subject is a pair, as a list of two values; \<open>derive\<close> is \<open>uuid5\<close> on the
  subject type and reference joined by the separator.
\<close>

definition audit_text :: "pyval \<Rightarrow> nat \<Rightarrow> string result" where
  "audit_text v maximum = (case text_of v of None \<Rightarrow> raise ValueError
     | Some s \<Rightarrow> if strip s = [] then raise ValueError
         else if length (strip s) > maximum then raise ValueError
         else if list_ex (\<lambda>c. (of_char c :: nat) < 32 \<or> (of_char c :: nat) = 127) (strip s) then raise ValueError
         else ok (strip s))"

definition audit_optional_uuid :: "pyval \<Rightarrow> nat option result" where
  "audit_optional_uuid v = (case v of PNone \<Rightarrow> ok None | PUuid u \<Rightarrow> ok (Some u)
     | _ \<Rightarrow> (case text_of v of Some s \<Rightarrow>
           (case uuid_of_text s of Some u \<Rightarrow> ok (Some u) | None \<Rightarrow> raise ValueError)
         | None \<Rightarrow> raise TypeError))"

definition audit_subject_uuid :: "(string \<Rightarrow> nat) \<Rightarrow> string \<Rightarrow> pyval \<Rightarrow> nat result" where
  "audit_subject_uuid derive subject_type v = (case v of PUuid u \<Rightarrow> ok u
     | _ \<Rightarrow> (case text_of v of None \<Rightarrow> raise TypeError | Some s \<Rightarrow>
         if strip s = [] then raise TypeError
         else rbind (audit_text (PStr (strip s)) 200) (\<lambda>reference.
           ok (case uuid_of_text reference of Some u \<Rightarrow> u
               | None \<Rightarrow> derive (subject_type @ hash_separator @ reference)))))"

definition audit_subject :: "(string \<Rightarrow> nat) \<Rightarrow> pyval \<Rightarrow> (string \<times> nat) result" where
  "audit_subject derive v = (case v of PList [t, i] \<Rightarrow>
       rbind (audit_text t 50) (\<lambda>subject_type.
       rbind (audit_subject_uuid derive subject_type i) (\<lambda>u. ok (subject_type, u)))
     | _ \<Rightarrow> raise TypeError)"

definition audit_actor_string :: "string \<Rightarrow> (nat option \<times> string option) result" where
  "audit_actor_string s = rbind (audit_text (PStr s) 200) (\<lambda>cleaned.
     ok (case uuid_of_text cleaned of Some u \<Rightarrow> (Some u, None) | None \<Rightarrow> (None, Some cleaned)))"

definition audit_actor :: "pyval \<Rightarrow> (nat option \<times> string option) result" where
  "audit_actor v = (case v of PNone \<Rightarrow> ok (None, None) | PUuid u \<Rightarrow> ok (Some u, None)
     | _ \<Rightarrow> (case text_of v of Some s \<Rightarrow> audit_actor_string s
         | None \<Rightarrow> (case or_none (py_attr v ''id'') of PNone \<Rightarrow> raise TypeError
             | i \<Rightarrow> rbind (audit_optional_uuid i) (\<lambda>u.
                 if u = None then raise TypeError else ok (u, None)))))"

definition audit_instant :: "pyval \<Rightarrow> int result" where
  "audit_instant v = (case v of PDatetime t \<Rightarrow> ok t | _ \<Rightarrow> raise ValueError)"

definition recorded :: "(string \<Rightarrow> nat) \<Rightarrow> string \<Rightarrow> int \<Rightarrow> pyval \<Rightarrow> pyval \<Rightarrow> pyval \<Rightarrow> pyval \<Rightarrow> pyval \<Rightarrow> pyval \<Rightarrow> pyval
    \<Rightarrow> audit_record result" where
  "recorded derive own_request now event_type subject payload actor request_id occurred_at snapshot =
     rbind (audit_subject derive subject) (\<lambda>(st, si).
     rbind (normalise_payload payload) (\<lambda>j.
     rbind (audit_actor actor) (\<lambda>(actor_id, label).
     rbind (audit_instant (if occurred_at = PNone then PDatetime now else occurred_at)) (\<lambda>instant.
     rbind (audit_text (if request_id \<in> {PNone, PStr []} then PStr own_request else request_id) 40) (\<lambda>request.
     rbind (audit_optional_uuid snapshot) (\<lambda>snap.
     rbind (audit_text event_type 100) (\<lambda>event.
     ok \<lparr>ar_event_type = event, ar_subject_type = st, ar_subject_id = si, ar_payload = json_value j,
        ar_actor_id = actor_id, ar_actor_label = label, ar_occurred_at = instant,
        ar_request_id = request, ar_snapshot = snap\<rparr>)))))))"

definition record_event :: "(string \<Rightarrow> string) \<Rightarrow> (string \<Rightarrow> nat) \<Rightarrow> nat \<Rightarrow> string \<Rightarrow> int \<Rightarrow> pyval \<Rightarrow> pyval \<Rightarrow> pyval
    \<Rightarrow> pyval \<Rightarrow> pyval \<Rightarrow> pyval \<Rightarrow> pyval \<Rightarrow> audit_event list \<Rightarrow> (audit_event \<times> audit_event list) result" where
  "record_event h derive new_id own_request now event_type subject payload actor request_id occurred_at snapshot table =
     rbind (recorded derive own_request now event_type subject payload actor request_id occurred_at snapshot)
       (\<lambda>r. table_append h new_id None r table)"

lemma record_event_sound:
  assumes "intact h table" and "record_event h derive i own now et sub p a rid instant snap table = ok (row, table')"
  shows "intact h table'" and "table' = table @ [row]"
proof -
  obtain r where r: "table_append h i None r table = ok (row, table')"
    using assms(2) by (auto simp: record_event_def)
  then have "memory_append h i r table = ok (row, table')" using table_append_memory [OF assms(1)] by simp
  then show "intact h table'" "table' = table @ [row]"
    using memory_append_sound [OF assms(1)] memory_append_extends by blast+
qed

text \<open>What the boundary lets through satisfies the limits of the table's columns.\<close>

lemma audit_text_ok: "audit_text v n = ok s \<Longrightarrow> s \<noteq> [] \<and> strip s = s \<and> length s \<le> n"
  by (auto simp: audit_text_def split: option.splits if_splits)

lemma audit_actor_one:
  assumes "audit_actor v = ok (a, l)" shows "a = None \<or> l = None"
proof -
  have label: "audit_actor_string s = ok (a, l) \<Longrightarrow> a = None \<or> l = None" for s
    by (auto simp: audit_actor_string_def split: option.splits)
  show ?thesis using assms label unfolding audit_actor_def
    by (auto split: pyval.splits option.splits if_splits)
qed

lemma audit_subject_type: "audit_subject derive v = ok (st, si) \<Longrightarrow> length st \<le> 50"
  unfolding audit_subject_def by (auto split: pyval.splits list.splits dest: audit_text_ok)

lemma recorded_limits:
  assumes "recorded derive own now et sub p a rid instant snap = ok r"
  shows "length (ar_event_type r) \<le> 100 \<and> length (ar_subject_type r) \<le> 50 \<and> length (ar_request_id r) \<le> 40
     \<and> (ar_actor_id r = None \<or> ar_actor_label r = None)"
proof -
  obtain st si ai al where "audit_subject derive sub = ok (st, si)" and "audit_actor a = ok (ai, al)"
      and "audit_text et 100 = ok (ar_event_type r)"
      and "audit_text (if rid \<in> {PNone, PStr []} then PStr own else rid) 40 = ok (ar_request_id r)"
      and "ar_subject_type r = st" and "ar_actor_id r = ai" and "ar_actor_label r = al"
    using assms unfolding recorded_def by (elim rbind_okE case_prodE) auto
  then show ?thesis
    using audit_subject_type [of derive sub st si] audit_actor_one [of a ai al] audit_text_ok by simp
qed

end
