(* ===== verification/Maker_Checker.thy ===== *)
theory Maker_Checker
  imports Rbac Audit_Store
begin

text \<open>
  \<open>security/maker_checker.py\<close>: the request of the maker-checker workflow with the checks of its
  constructor, the operation registry with its pairs of permissions, the settings and the
  normalisation of actors and subjects; and the table adapter of \<open>services/registry.py\<close>
  (\<open>SqlAlchemyMakerCheckerRepository\<close>) with the contract the approval service relies on.
\<close>

section \<open>Validated values\<close>

definition max_operation_length :: nat where "max_operation_length = 50"
definition max_subject_type_length :: nat where "max_subject_type_length = 50"
definition max_reason_length :: nat where "max_reason_length = 2000"

datatype mc_state = PENDING | APPROVED | REJECTED | EXPIRED

definition mc_state_value :: "mc_state \<Rightarrow> string" where
  "mc_state_value s = (case s of PENDING \<Rightarrow> ''pending'' | APPROVED \<Rightarrow> ''approved''
     | REJECTED \<Rightarrow> ''rejected'' | EXPIRED \<Rightarrow> ''expired'')"

definition is_letter :: "char \<Rightarrow> bool" where
  "is_letter c = (let n = of_char c :: nat in (65 \<le> n \<and> n \<le> 90) \<or> (97 \<le> n \<and> n \<le> 122))"

definition operation_pattern :: "string \<Rightarrow> bool" where
  "operation_pattern s = (case s of [] \<Rightarrow> False
     | c # cs \<Rightarrow> is_letter c \<and> list_all (\<lambda>d. is_letter d \<or> is_digit d \<or> d \<in> set ''_.-'') cs)"

definition validated_operation :: "pyval \<Rightarrow> string result" where
  "validated_operation v = (case text_of v of None \<Rightarrow> raise (ValidationError ''operation'')
     | Some s \<Rightarrow> if strip s = [] \<or> length (strip s) > max_operation_length \<or> \<not> operation_pattern (strip s)
         then raise (ValidationError ''operation'') else ok (strip s))"

definition control_char :: "char \<Rightarrow> bool" where
  "control_char c = ((of_char c :: nat) < 32)"

definition validated_subject_type :: "pyval \<Rightarrow> string result" where
  "validated_subject_type v = (case text_of v of None \<Rightarrow> raise (ValidationError ''subject_type'')
     | Some s \<Rightarrow> if strip s = [] \<or> length (strip s) > max_subject_type_length
           \<or> list_ex (\<lambda>c. control_char c \<or> (of_char c :: nat) = 127) (strip s)
         then raise (ValidationError ''subject_type'') else ok (strip s))"

definition validated_reason :: "bool \<Rightarrow> pyval \<Rightarrow> string option result" where
  "validated_reason required v = (case v of PNone \<Rightarrow>
       if required then raise (ValidationError ''reason'') else ok None
     | _ \<Rightarrow> (case text_of v of None \<Rightarrow> raise (ValidationError ''reason'')
         | Some s \<Rightarrow> if (strip s = [] \<and> required) \<or> length (strip s) > max_reason_length
               \<or> list_ex (\<lambda>c. control_char c \<and> c \<notin> {CHR 0x09, CHR 0x0A, CHR 0x0D}) (strip s)
             then raise (ValidationError ''reason'')
             else ok (if strip s = [] then None else Some (strip s))))"

fun json_compatible :: "pyval \<Rightarrow> bool" where
  "json_compatible PNone = True"
| "json_compatible (PStr s) = True"
| "json_compatible (PEnum c s) = True"
| "json_compatible (PBool b) = True"
| "json_compatible (PInt n) = True"
| "json_compatible (PFloat s) = (s \<notin> {''inf'', ''-inf'', ''nan''})"
| "json_compatible (PMap kvs) = (\<forall>kv\<in>set kvs. text_of (fst kv) \<noteq> None \<and> json_compatible (snd kv))"
| "json_compatible (PList vs) = (\<forall>v\<in>set vs. json_compatible v)"
| "json_compatible v = False"

definition copy_json_object :: "pyval \<Rightarrow> pyval result" where
  "copy_json_object v = (if is_mapping v \<and> json_compatible v then ok v
     else raise (ValidationError ''payload''))"

record mc_request =
  mr_id :: nat
  mr_subject_type :: string
  mr_subject_id :: nat
  mr_operation :: string
  mr_payload :: pyval
  mr_maker :: nat
  mr_checker :: "nat option"
  mr_state :: mc_state
  mr_created :: int
  mr_decided :: "int option"
  mr_reason :: "string option"
  mr_version :: int

definition make_mc_request :: "mc_request \<Rightarrow> mc_request result" where
  "make_mc_request r =
     rbind (validated_subject_type (PStr (mr_subject_type r))) (\<lambda>st.
     rbind (validated_operation (PStr (mr_operation r))) (\<lambda>operation.
     rbind (copy_json_object (mr_payload r)) (\<lambda>payload.
     rbind (case mr_reason r of None \<Rightarrow> ok None | Some s \<Rightarrow> validated_reason False (PStr s)) (\<lambda>reason.
     if mr_version r < 1 then raise (ValidationError ''version'')
     else ok (r\<lparr>mr_subject_type := st, mr_operation := operation, mr_payload := payload, mr_reason := reason\<rparr>)))))"

section \<open>Operations and settings\<close>

text \<open>
  A callback applies an approved request to the aggregates \<open>'w\<close> and may raise. The callbacks of
  \<open>services/registry.py\<close> and \<open>services/model_governance.py\<close> also record events of their own through
  the audit boundary, which they never read: the events they append, in order, are part of what a
  callback returns.
\<close>

type_synonym audit_write = "nat \<times> string option option \<times> audit_record"
type_synonym 'w callback = "mc_request \<Rightarrow> nat \<Rightarrow> 'w \<Rightarrow> ('w \<times> audit_write list) result"

record 'w approval_operation =
  ao_name :: string
  ao_propose :: permission
  ao_approve :: permission
  ao_callback :: "'w callback"

definition make_operation :: "pyval \<Rightarrow> pyval \<Rightarrow> pyval \<Rightarrow> 'w callback
    \<Rightarrow> 'w approval_operation result" where
  "make_operation name propose approve callback =
     rbind (validated_operation name) (\<lambda>n.
     case rbind (coerce_permission propose) (\<lambda>p. rbind (coerce_permission approve) (\<lambda>a. ok (p, a))) of
       Inl e \<Rightarrow> if e \<in> {TypeError, ValueError} then raise ValueError else raise e
     | Inr (p, a) \<Rightarrow> if p = a then raise ValueError
         else ok \<lparr>ao_name = n, ao_propose = p, ao_approve = a, ao_callback = callback\<rparr>)"

type_synonym 'w registry = "(string \<times> 'w approval_operation) list"

text \<open>\<open>register\<close> coerces the permissions before it builds the definition.\<close>

definition register :: "pyval \<Rightarrow> 'w callback \<Rightarrow> pyval \<Rightarrow> pyval \<Rightarrow> 'w registry
    \<Rightarrow> ('w approval_operation \<times> 'w registry) result" where
  "register name callback propose approve reg =
     rbind (coerce_permission propose) (\<lambda>p.
     rbind (coerce_permission approve) (\<lambda>a.
     rbind (make_operation name propose approve callback) (\<lambda>d.
     if has_key reg (ao_name d) then raise (Conflict ''operation'')
     else ok (d, reg @ [(ao_name d, d)]))))"

definition get_operation :: "'w registry \<Rightarrow> pyval \<Rightarrow> 'w approval_operation result" where
  "get_operation reg name = rbind (validated_operation name) (\<lambda>n.
     case lookup reg n of None \<Rightarrow> raise (ValidationError ''operation'') | Some d \<Rightarrow> ok d)"

record mc_settings =
  ms_expiry_window :: int
  ms_enabled :: "(string \<times> bool) list"

definition is_enabled :: "mc_settings \<Rightarrow> string \<Rightarrow> bool result" where
  "is_enabled settings operation = rbind (validated_operation (PStr operation)) (\<lambda>n.
     ok (case lookup (ms_enabled settings) n of None \<Rightarrow> True | Some b \<Rightarrow> b))"

section \<open>Actors and subjects\<close>

text \<open>A caller is a principal or another object; the latter has no callable \<open>has_permission\<close>.\<close>

datatype mc_actor = Principal principal | Caller pyval

definition actor_id :: "string \<Rightarrow> mc_actor \<Rightarrow> nat result" where
  "actor_id field a = (case a of Principal p \<Rightarrow> ok (p_id p)
     | Caller v \<Rightarrow> (case (case v of PUuid u \<Rightarrow> v | _ \<Rightarrow> or_none (py_attr v ''id'')) of
           PUuid u \<Rightarrow> ok u
         | w \<Rightarrow> (case w of PStr s \<Rightarrow> (case uuid_of_text s of Some u \<Rightarrow> ok u
                | None \<Rightarrow> raise (ValidationError field)) | _ \<Rightarrow> raise (ValidationError field))))"

definition actor_has :: "mc_actor \<Rightarrow> permission \<Rightarrow> bool result" where
  "actor_has a q = (case a of Principal p \<Rightarrow> ok (q \<in> p_permissions p)
     | Caller v \<Rightarrow> (case or_none (py_attr v ''permissions'') of PNone \<Rightarrow> raise (AuthorizationError ''permission'')
         | vs \<Rightarrow> (case rbind (iterate vs) (rmap coerce_permission) of
               Inl e \<Rightarrow> if e \<in> {TypeError, ValueError} then raise (AuthorizationError ''permission'') else raise e
             | Inr ps \<Rightarrow> ok (q \<in> set ps))))"

definition require_permission :: "mc_actor \<Rightarrow> permission \<Rightarrow> unit result" where
  "require_permission a q = rbind (actor_has a q) (\<lambda>b. ensure b (AuthorizationError ''permission''))"

definition coerce_subject_uuid :: "pyval \<Rightarrow> nat result" where
  "coerce_subject_uuid v = (case v of PUuid u \<Rightarrow> ok u
     | _ \<Rightarrow> (case text_of v of Some s \<Rightarrow> (case uuid_of_text s of Some u \<Rightarrow> ok u
             | None \<Rightarrow> raise (ValidationError ''subject_id''))
         | None \<Rightarrow> raise (ValidationError ''subject_id'')))"

text \<open>The forms of a subject: a validated \<open>SubjectRef\<close>, an identifier, a pair, or a mapping.
  Objects read by attribute are left out; the services pass pairs.\<close>

definition subject_ref :: "pyval \<Rightarrow> (string \<times> nat) result" where
  "subject_ref v = (case v of
       PUuid u \<Rightarrow> ok (''subject'', u)
     | PList [PStr t, i] \<Rightarrow> rbind (coerce_subject_uuid i) (\<lambda>u. rbind (validated_subject_type (PStr t)) (\<lambda>st. ok (st, u)))
     | PMap kvs \<Rightarrow>
         (case ((case map_get kvs ''subject_type'' of Some w \<Rightarrow> w | None \<Rightarrow> or_none (map_get kvs ''type'')),
                (case map_get kvs ''subject_id'' of Some w \<Rightarrow> w | None \<Rightarrow> or_none (map_get kvs ''id''))) of
            (PStr t, i) \<Rightarrow> if i = PNone then raise (ValidationError ''subject'')
              else rbind (coerce_subject_uuid i) (\<lambda>u. rbind (validated_subject_type (PStr t)) (\<lambda>st. ok (st, u)))
          | _ \<Rightarrow> raise (ValidationError ''subject''))
     | _ \<Rightarrow> raise (ValidationError ''subject''))"

section \<open>The table adapter\<close>

definition find_request :: "mc_request list \<Rightarrow> nat \<Rightarrow> mc_request option" where
  "find_request table i = find (\<lambda>r. mr_id r = i) table"

definition put_request :: "mc_request \<Rightarrow> mc_request list \<Rightarrow> mc_request list" where
  "put_request r table = map (\<lambda>q. if mr_id q = mr_id r then r else q) table"

text \<open>The primary key refuses a second row with the same identifier.\<close>

definition table_create :: "mc_request \<Rightarrow> mc_request list \<Rightarrow> (mc_request \<times> mc_request list) result" where
  "table_create r table =
     (let row = r\<lparr>mr_checker := None, mr_decided := None, mr_reason := None\<rparr> in
      if find_request table (mr_id r) \<noteq> None then raise (Conflict ''id'')
      else rbind (make_mc_request row) (\<lambda>q. ok (q, table @ [row])))"

definition table_get :: "mc_request list \<Rightarrow> nat \<Rightarrow> mc_request option result" where
  "table_get table i = (case find_request table i of None \<Rightarrow> ok None
     | Some row \<Rightarrow> rbind (make_mc_request row) (\<lambda>r. ok (Some r)))"

definition table_pending :: "mc_request list \<Rightarrow> mc_request list result" where
  "table_pending table = rmap make_mc_request
     (sort_key (\<lambda>r. (mr_created r, mr_id r)) (filter (\<lambda>r. mr_state r = PENDING) table))"

definition locked_pending :: "mc_request list \<Rightarrow> nat \<Rightarrow> int \<Rightarrow> mc_request result" where
  "locked_pending table i version = (case find_request table i of None \<Rightarrow> raise NotFound
     | Some row \<Rightarrow> if mr_state row \<noteq> PENDING then raise (Conflict ''state'')
         else if mr_version row \<noteq> version then raise (Conflict ''version'') else ok row)"

definition table_decide :: "nat \<Rightarrow> nat \<Rightarrow> mc_state \<Rightarrow> int \<Rightarrow> string option \<Rightarrow> int \<Rightarrow> mc_request list
    \<Rightarrow> (mc_request \<times> mc_request list) result" where
  "table_decide i checker state decided reason version table =
     rbind (locked_pending table i version) (\<lambda>row.
     let row' = row\<lparr>mr_checker := Some checker, mr_state := state, mr_decided := Some decided,
       mr_reason := reason, mr_version := mr_version row + 1\<rparr>
     in rbind (make_mc_request row') (\<lambda>r. ok (r, put_request row' table)))"

definition table_expire :: "nat \<Rightarrow> int \<Rightarrow> int \<Rightarrow> mc_request list \<Rightarrow> (mc_request \<times> mc_request list) result" where
  "table_expire i expired version table =
     rbind (locked_pending table i version) (\<lambda>row.
     let row' = row\<lparr>mr_state := EXPIRED, mr_decided := Some expired,
       mr_reason := Some ''Approval window elapsed.'', mr_version := mr_version row + 1\<rparr>
     in rbind (make_mc_request row') (\<lambda>r. ok (r, put_request row' table)))"

section \<open>Clean requests\<close>

text \<open>A request that its own constructor returns unchanged; every stored row is one.\<close>

definition clean :: "mc_request \<Rightarrow> bool" where "clean r \<longleftrightarrow> make_mc_request r = ok r"

definition clean_reason :: "string option \<Rightarrow> bool" where
  "clean_reason reason \<longleftrightarrow> (case reason of None \<Rightarrow> True | Some s \<Rightarrow> validated_reason False (PStr s) = ok (Some s))"

lemma validated_subject_type_idem:
  "validated_subject_type v = ok s \<Longrightarrow> validated_subject_type (PStr s) = ok s"
  by (auto simp: validated_subject_type_def split: option.splits if_splits)

lemma validated_operation_idem: "validated_operation v = ok s \<Longrightarrow> validated_operation (PStr s) = ok s"
  by (auto simp: validated_operation_def split: option.splits if_splits)

lemma validated_reason_text:
  "validated_reason required v = ok (Some s) \<Longrightarrow> validated_reason False (PStr s) = ok (Some s) \<and> s \<noteq> []"
  by (auto simp: validated_reason_def split: option.splits if_splits pyval.splits)

lemma validated_reason_required: "validated_reason True v = ok reason \<Longrightarrow> \<exists>s. reason = Some s \<and> s \<noteq> []"
  by (auto simp: validated_reason_def split: option.splits if_splits pyval.splits)

lemma validated_reason_clean: "validated_reason required v = ok reason \<Longrightarrow> clean_reason reason"
  by (cases reason) (auto simp: clean_reason_def dest: validated_reason_text)

lemma copy_json_ok: "copy_json_object v = ok w \<Longrightarrow> w = v \<and> copy_json_object v = ok v"
  by (auto simp: copy_json_object_def split: if_splits)

lemma clean_iff: "clean r \<longleftrightarrow> validated_subject_type (PStr (mr_subject_type r)) = ok (mr_subject_type r)
    \<and> validated_operation (PStr (mr_operation r)) = ok (mr_operation r)
    \<and> copy_json_object (mr_payload r) = ok (mr_payload r) \<and> clean_reason (mr_reason r) \<and> 1 \<le> mr_version r"
proof
  assume "clean r"
  then obtain st oper payload reason where parts: "validated_subject_type (PStr (mr_subject_type r)) = ok st"
      "validated_operation (PStr (mr_operation r)) = ok oper" "copy_json_object (mr_payload r) = ok payload"
      "(case mr_reason r of None \<Rightarrow> ok None | Some s \<Rightarrow> validated_reason False (PStr s)) = ok reason"
      "1 \<le> mr_version r"
      "r\<lparr>mr_subject_type := st, mr_operation := oper, mr_payload := payload, mr_reason := reason\<rparr> = r"
    unfolding clean_def make_mc_request_def by (auto split: if_splits)
  then have "mr_subject_type r = st" "mr_operation r = oper" "mr_payload r = payload" "mr_reason r = reason"
    by (cases r; simp)+
  with parts show "validated_subject_type (PStr (mr_subject_type r)) = ok (mr_subject_type r)
    \<and> validated_operation (PStr (mr_operation r)) = ok (mr_operation r)
    \<and> copy_json_object (mr_payload r) = ok (mr_payload r) \<and> clean_reason (mr_reason r) \<and> 1 \<le> mr_version r"
    by (auto simp: clean_reason_def split: option.splits)
next
  assume "validated_subject_type (PStr (mr_subject_type r)) = ok (mr_subject_type r)
    \<and> validated_operation (PStr (mr_operation r)) = ok (mr_operation r)
    \<and> copy_json_object (mr_payload r) = ok (mr_payload r) \<and> clean_reason (mr_reason r) \<and> 1 \<le> mr_version r"
  then show "clean r"
    by (cases "mr_reason r") (simp_all add: clean_def make_mc_request_def clean_reason_def)
qed

lemma make_mc_request_clean:
  assumes "make_mc_request r = ok q"
  shows "clean q"
    and "\<exists>st oper reason. q = r\<lparr>mr_subject_type := st, mr_operation := oper, mr_reason := reason\<rparr>
      \<and> (mr_reason r = None \<longrightarrow> reason = None)"
proof -
  obtain st oper payload reason where parts: "validated_subject_type (PStr (mr_subject_type r)) = ok st"
      "validated_operation (PStr (mr_operation r)) = ok oper" "copy_json_object (mr_payload r) = ok payload"
      "(case mr_reason r of None \<Rightarrow> ok None | Some s \<Rightarrow> validated_reason False (PStr s)) = ok reason"
      "1 \<le> mr_version r"
      "q = r\<lparr>mr_subject_type := st, mr_operation := oper, mr_payload := payload, mr_reason := reason\<rparr>"
    using assms unfolding make_mc_request_def by (auto split: if_splits)
  have payload: "payload = mr_payload r" "copy_json_object (mr_payload r) = ok (mr_payload r)"
    using copy_json_ok [OF parts(3)] by auto
  have "clean_reason reason" using parts(4)
    by (auto simp: clean_reason_def split: option.splits dest: validated_reason_text)
  then show "clean q" unfolding clean_iff parts(6)
    using parts validated_subject_type_idem [OF parts(1)] validated_operation_idem [OF parts(2)] payload by simp
  show "\<exists>st oper reason. q = r\<lparr>mr_subject_type := st, mr_operation := oper, mr_reason := reason\<rparr>
      \<and> (mr_reason r = None \<longrightarrow> reason = None)"
    using parts(4,6) payload(1) by (intro exI [of _ st] exI [of _ oper] exI [of _ reason]) auto
qed

lemma window_reason_clean: "clean_reason (Some ''Approval window elapsed.'')"
  unfolding clean_reason_def by code_simp

section \<open>Transitions of the table\<close>

lemma find_request_Some: "find_request table i = Some r \<Longrightarrow> r \<in> set table \<and> mr_id r = i"
  by (auto simp: find_request_def find_Some_iff)

lemma find_request_None: "find_request table i = None \<longleftrightarrow> i \<notin> mr_id ` set table"
  by (auto simp: find_request_def find_None_iff)

lemma find_request_distinct:
  "distinct (map mr_id table) \<Longrightarrow> r \<in> set table \<Longrightarrow> find_request table (mr_id r) = Some r"
  by (induction table) (auto simp: find_request_def)

lemma put_request_ids [simp]: "map mr_id (put_request r table) = map mr_id table"
  by (simp add: put_request_def)

lemma put_request_set: "q \<in> set (put_request r table) \<Longrightarrow> q = r \<or> q \<in> set table"
  by (auto simp: put_request_def split: if_splits)

lemma put_request_other: "q \<in> set table \<Longrightarrow> mr_id q \<noteq> mr_id r \<Longrightarrow> q \<in> set (put_request r table)"
  by (force simp: put_request_def)

lemma put_request_find:
  "find_request table (mr_id r) \<noteq> None \<Longrightarrow> find_request (put_request r table) (mr_id r) = Some r"
  by (induction table) (auto simp: find_request_def put_request_def)

text \<open>
  The contract of a write that ends a request: it finds one pending row, replaces that row by one
  that differs in the decision only, and returns it as its constructor reads it.
\<close>

definition concluded :: "mc_request \<Rightarrow> mc_request \<Rightarrow> bool" where
  "concluded row row' \<longleftrightarrow> mr_state row = PENDING \<and> mr_state row' \<noteq> PENDING
     \<and> mr_id row' = mr_id row \<and> mr_subject_type row' = mr_subject_type row
     \<and> mr_subject_id row' = mr_subject_id row \<and> mr_operation row' = mr_operation row
     \<and> mr_payload row' = mr_payload row \<and> mr_maker row' = mr_maker row
     \<and> mr_created row' = mr_created row \<and> mr_version row' = mr_version row + 1"

locale request_conclusion =
  fixes conclude :: "'a \<Rightarrow> mc_request list \<Rightarrow> (mc_request \<times> mc_request list) result"
  assumes one_row: "conclude a table = ok (r, table') \<Longrightarrow>
    \<exists>row row'. find_request table (mr_id row) = Some row \<and> concluded row row'
      \<and> table' = put_request row' table \<and> make_mc_request row' = ok r"
begin

lemma keeps_ids: "conclude a table = ok (r, table') \<Longrightarrow> map mr_id table' = map mr_id table"
  by (drule one_row) auto

lemma keeps_decided:
  assumes "conclude a table = ok (r, table')" and "distinct (map mr_id table)"
    and "q \<in> set table" and "mr_state q \<noteq> PENDING"
  shows "q \<in> set table'"
proof -
  obtain row row' where step: "find_request table (mr_id row) = Some row" "concluded row row'"
      "table' = put_request row' table" using one_row [OF assms(1)] by blast
  have pending: "mr_state row = PENDING" and same: "mr_id row' = mr_id row"
    using step(2) unfolding concluded_def by blast+
  have "mr_id q \<noteq> mr_id row"
  proof
    assume "mr_id q = mr_id row"
    then have "Some row = Some q" using find_request_distinct [OF assms(2,3)] step(1) by metis
    then show False using pending assms(4) by simp
  qed
  then have "mr_id q \<noteq> mr_id row'" unfolding same .
  then show ?thesis unfolding step(3) by (rule put_request_other [OF assms(3)])
qed

end

interpretation deciding: request_conclusion
  "\<lambda>(i, checker, yes, decided, reason, version).
     table_decide i checker (if yes then APPROVED else REJECTED) decided reason version"
proof unfold_locales
  fix a :: "nat \<times> nat \<times> bool \<times> int \<times> string option \<times> int" and table r table'
  obtain i checker yes decided reason version where a: "a = (i, checker, yes, decided, reason, version)"
    by (cases a)
  assume "(case a of (i, checker, yes, decided, reason, version) \<Rightarrow>
     table_decide i checker (if yes then APPROVED else REJECTED) decided reason version) table = ok (r, table')"
  then obtain row where row: "locked_pending table i version = ok row"
      and rest: "make_mc_request (row\<lparr>mr_checker := Some checker, mr_state := if yes then APPROVED else REJECTED,
        mr_decided := Some decided, mr_reason := reason, mr_version := mr_version row + 1\<rparr>) = ok r"
      "table' = put_request (row\<lparr>mr_checker := Some checker, mr_state := if yes then APPROVED else REJECTED,
        mr_decided := Some decided, mr_reason := reason, mr_version := mr_version row + 1\<rparr>) table"
    unfolding a table_decide_def Let_def by auto
  have "find_request table (mr_id row) = Some row" "mr_state row = PENDING"
    using row by (auto simp: locked_pending_def split: option.splits if_splits dest: find_request_Some)
  then show "\<exists>row row'. find_request table (mr_id row) = Some row \<and> concluded row row'
      \<and> table' = put_request row' table \<and> make_mc_request row' = ok r"
    using rest by (intro exI conjI) (assumption | auto simp: concluded_def)+
qed

interpretation expiring: request_conclusion "\<lambda>(i, expired, version). table_expire i expired version"
proof unfold_locales
  fix a :: "nat \<times> int \<times> int" and table r table'
  obtain i expired version where a: "a = (i, expired, version)" by (cases a)
  assume "(case a of (i, expired, version) \<Rightarrow> table_expire i expired version) table = ok (r, table')"
  then obtain row where row: "locked_pending table i version = ok row"
      and rest: "make_mc_request (row\<lparr>mr_state := EXPIRED, mr_decided := Some expired,
        mr_reason := Some ''Approval window elapsed.'', mr_version := mr_version row + 1\<rparr>) = ok r"
      "table' = put_request (row\<lparr>mr_state := EXPIRED, mr_decided := Some expired,
        mr_reason := Some ''Approval window elapsed.'', mr_version := mr_version row + 1\<rparr>) table"
    unfolding a table_expire_def Let_def by auto
  have "find_request table (mr_id row) = Some row" "mr_state row = PENDING"
    using row by (auto simp: locked_pending_def split: option.splits if_splits dest: find_request_Some)
  then show "\<exists>row row'. find_request table (mr_id row) = Some row \<and> concluded row row'
      \<and> table' = put_request row' table \<and> make_mc_request row' = ok r"
    using rest by (intro exI conjI) (assumption | auto simp: concluded_def)+
qed

end
