(* ===== verification/Approvals.thy ===== *)
theory Approvals
  imports Maker_Checker Audit_Store
begin

text \<open>
  \<open>services/approvals.py\<close>: proposing, deciding and expiring maker-checker requests over the table
  adapter, the audit boundary and the operation callbacks. The service never commits; the unit of
  work of \<open>db/session.py\<close> commits when it ends normally and rolls back on any exception, so an
  operation is a function to an error or to a result with the new state, and \<open>in_unit_of_work\<close>
  keeps the old state on an error. Generated identifiers and the clock are arguments.
\<close>

record 'w approvals =
  ap_table :: "mc_request list"
  ap_audit :: "audit_event list"
  ap_notices :: "(string \<times> pyval) list"
  ap_world :: 'w

record 'w approval_env =
  ev_registry :: "'w registry"
  ev_settings :: mc_settings
  ev_hash :: "string \<Rightarrow> string"
  ev_derive :: "string \<Rightarrow> nat"
  ev_request_id :: string

definition in_unit_of_work :: "('s \<Rightarrow> ('a \<times> 's) result) \<Rightarrow> 's \<Rightarrow> 'a result \<times> 's" where
  "in_unit_of_work f s = (case f s of Inl e \<Rightarrow> (raise e, s) | Inr (x, s') \<Rightarrow> (ok x, s'))"

section \<open>Events\<close>

definition optional_entry :: "string \<Rightarrow> pyval option \<Rightarrow> (pyval \<times> pyval) list" where
  "optional_entry k v = (case v of None \<Rightarrow> [] | Some w \<Rightarrow> [(PStr k, w)])"

definition event_payload :: "mc_request \<Rightarrow> bool \<Rightarrow> bool \<Rightarrow> bool option \<Rightarrow> bool option \<Rightarrow> bool \<Rightarrow> pyval" where
  "event_payload r checker_required no_second approved applied notification = PMap (
     [(PStr ''request_id'', PStr (uuid_text (mr_id r))), (PStr ''operation'', PStr (mr_operation r)),
      (PStr ''subject_type'', PStr (mr_subject_type r)), (PStr ''subject_id'', PStr (uuid_text (mr_subject_id r))),
      (PStr ''maker_id'', PStr (uuid_text (mr_maker r))),
      (PStr ''checker_id'', pyopt (\<lambda>c. PStr (uuid_text c)) (mr_checker r)),
      (PStr ''state'', PStr (mc_state_value (mr_state r))), (PStr ''request_payload'', mr_payload r),
      (PStr ''checker_required'', PBool checker_required), (PStr ''no_second_actor_required'', PBool no_second)]
     @ optional_entry ''approved'' (map_option PBool approved) @ optional_entry ''applied'' (map_option PBool applied)
     @ optional_entry ''reason'' (map_option PStr (mr_reason r))
     @ (if notification then [(PStr ''notification_required'', PBool True)] else []))"

text \<open>The audit boundary reads a principal through its \<open>id\<close>.\<close>

definition actor_value :: "mc_actor \<Rightarrow> pyval" where
  "actor_value a = (case a of Principal p \<Rightarrow> PObj ''Principal'' [(''id'', PUuid (p_id p))] | Caller v \<Rightarrow> v)"

definition audit_request :: "'w approval_env \<Rightarrow> nat \<Rightarrow> int \<Rightarrow> string \<Rightarrow> mc_request \<Rightarrow> pyval \<Rightarrow> pyval
    \<Rightarrow> 'w approvals \<Rightarrow> 'w approvals result" where
  "audit_request ev eid now event r actor payload s =
     rbind (record_event (ev_hash ev) (ev_derive ev) eid (ev_request_id ev) now (PStr event)
              (PList [PStr (mr_subject_type r), PUuid (mr_subject_id r)]) payload actor
              (PStr (ev_request_id ev)) PNone PNone (ap_audit s))
       (\<lambda>(row, log). ok (s\<lparr>ap_audit := log\<rparr>))"

section \<open>Operations\<close>

definition request_expired :: "mc_request \<Rightarrow> int \<Rightarrow> mc_settings \<Rightarrow> bool" where
  "request_expired r now settings = (mr_created r + ms_expiry_window settings \<le> now)"

text \<open>The callback's change of the aggregates, and the events it records before the service records its own.\<close>

definition write_events :: "'w approval_env \<Rightarrow> audit_write list \<Rightarrow> audit_event list \<Rightarrow> audit_event list result" where
  "write_events ev = write_all (\<lambda>(i, supplied, r). table_append (ev_hash ev) i supplied r)"

definition apply_operation :: "'w approval_env \<Rightarrow> 'w approval_operation \<Rightarrow> mc_request \<Rightarrow> nat \<Rightarrow> 'w approvals
    \<Rightarrow> 'w approvals result" where
  "apply_operation ev d r who s =
     rbind (ao_callback d r who (ap_world s)) (\<lambda>(w, events).
     rbind (write_events ev events (ap_audit s)) (\<lambda>log.
     ok (s\<lparr>ap_world := w, ap_audit := log\<rparr>)))"

definition submit :: "'w approval_env \<Rightarrow> nat \<Rightarrow> nat \<Rightarrow> int \<Rightarrow> pyval \<Rightarrow> pyval \<Rightarrow> pyval \<Rightarrow> mc_actor
    \<Rightarrow> 'w approvals \<Rightarrow> (mc_request \<times> 'w approvals) result" where
  "submit ev rid eid now operation subject payload maker s =
     rbind (get_operation (ev_registry ev) operation) (\<lambda>d.
     rbind (actor_id ''maker'' maker) (\<lambda>maker_id.
     rbind (require_permission maker (ao_propose d)) (\<lambda>u.
     rbind (subject_ref subject) (\<lambda>(st, si).
     rbind (make_mc_request \<lparr>mr_id = rid, mr_subject_type = st, mr_subject_id = si, mr_operation = ao_name d,
              mr_payload = payload, mr_maker = maker_id, mr_checker = None, mr_state = PENDING,
              mr_created = now, mr_decided = None, mr_reason = None, mr_version = 1\<rparr>) (\<lambda>request.
     rbind (is_enabled (ev_settings ev) (ao_name d)) (\<lambda>enabled.
     if \<not> enabled then
       rbind (make_mc_request (request\<lparr>mr_state := APPROVED, mr_decided := Some now\<rparr>)) (\<lambda>direct.
       rbind (apply_operation ev d direct maker_id s) (\<lambda>s1.
       rbind (audit_request ev eid now ''maker_checker_disabled_applied'' direct (actor_value maker)
                (event_payload direct False True None (Some True) False) s1) (\<lambda>s'.
       ok (direct, s'))))
     else
       rbind (table_create request (ap_table s)) (\<lambda>(persisted, table).
       if mr_state persisted \<noteq> PENDING then raise (Conflict ''state'') else
       rbind (audit_request ev eid now ''maker_checker_submitted'' persisted (actor_value maker)
                (event_payload persisted True False None None False) (s\<lparr>ap_table := table\<rparr>)) (\<lambda>s'.
       ok (persisted, s')))))))))"

definition expire_locked :: "'w approval_env \<Rightarrow> nat \<Rightarrow> int \<Rightarrow> mc_request \<Rightarrow> 'w approvals
    \<Rightarrow> (mc_request \<times> 'w approvals) result" where
  "expire_locked ev eid now request s =
     rbind (table_expire (mr_id request) now (mr_version request) (ap_table s)) (\<lambda>(expired, table).
     if mr_state expired \<noteq> EXPIRED then raise (Conflict ''state'') else
     let payload = event_payload expired True False None None True in
     rbind (audit_request ev eid now ''maker_checker_expired'' expired PNone payload (s\<lparr>ap_table := table\<rparr>)) (\<lambda>s'.
     ok (expired, s'\<lparr>ap_notices := ap_notices s' @ [(''maker_checker_request_expired'', payload)]\<rparr>)))"

definition request_uuid :: "pyval \<Rightarrow> nat result" where
  "request_uuid v = (case v of PUuid u \<Rightarrow> ok u
     | _ \<Rightarrow> (case text_of v of Some s \<Rightarrow> (case uuid_of_text s of Some u \<Rightarrow> ok u
             | None \<Rightarrow> raise (ValidationError ''request_id''))
         | None \<Rightarrow> raise (ValidationError ''request_id'')))"

definition get_request :: "nat \<Rightarrow> 'w approvals \<Rightarrow> mc_request result" where
  "get_request i s = rbind (table_get (ap_table s) i) (\<lambda>found.
     case found of None \<Rightarrow> raise NotFound | Some r \<Rightarrow> ok r)"

definition decide :: "'w approval_env \<Rightarrow> nat \<Rightarrow> int \<Rightarrow> pyval \<Rightarrow> mc_actor \<Rightarrow> pyval \<Rightarrow> pyval
    \<Rightarrow> 'w approvals \<Rightarrow> (mc_request \<times> 'w approvals) result" where
  "decide ev eid now request_id checker approved reason s =
     rbind (request_uuid request_id) (\<lambda>i.
     rbind (get_request i s) (\<lambda>request.
     rbind (get_operation (ev_registry ev) (PStr (mr_operation request))) (\<lambda>d.
     rbind (actor_id ''checker'' checker) (\<lambda>checker_id.
     rbind (require_permission checker (ao_approve d)) (\<lambda>u.
     if mr_state request \<noteq> PENDING then raise (Conflict ''decided'')
     else if mr_maker request = checker_id then raise (Conflict ''distinct_actor'')
     else case approved of PBool yes \<Rightarrow>
       if request_expired request now (ev_settings ev) then
         rbind (expire_locked ev eid now request s) (\<lambda>x. raise (Conflict ''expired''))
       else
         rbind (validated_reason (\<not> yes) reason) (\<lambda>decision_reason.
         let state = (if yes then APPROVED else REJECTED) in
         rbind (make_mc_request (request\<lparr>mr_checker := Some checker_id, mr_state := state, mr_decided := Some now,
                  mr_reason := decision_reason, mr_version := mr_version request + 1\<rparr>)) (\<lambda>candidate.
         rbind (if yes then apply_operation ev d candidate checker_id s else ok s) (\<lambda>s1.
         rbind (table_decide i checker_id state now decision_reason (mr_version request) (ap_table s1)) (\<lambda>(decided, table).
         if mr_state decided \<noteq> state then raise (Conflict ''state'') else
         rbind (audit_request ev eid now
                  (if yes then ''maker_checker_approved'' else ''maker_checker_rejected'') decided (actor_value checker)
                  (event_payload decided True False (Some yes) (Some yes) False)
                  (s1\<lparr>ap_table := table\<rparr>)) (\<lambda>s'.
         ok (decided, s'))))))
     | _ \<Rightarrow> raise (ValidationError ''approved''))))))"

definition expire_request :: "'w approval_env \<Rightarrow> nat \<Rightarrow> int \<Rightarrow> pyval \<Rightarrow> 'w approvals
    \<Rightarrow> (mc_request \<times> 'w approvals) result" where
  "expire_request ev eid now request_id s =
     rbind (request_uuid request_id) (\<lambda>i.
     rbind (get_request i s) (\<lambda>request.
     if mr_state request \<noteq> PENDING then ok (request, s)
     else if \<not> request_expired request now (ev_settings ev) then ok (request, s)
     else expire_locked ev eid now request s))"

text \<open>The sweep; each expiry takes the next generated event identifier.\<close>

fun expire_each :: "'w approval_env \<Rightarrow> (nat \<Rightarrow> nat) \<Rightarrow> nat \<Rightarrow> int \<Rightarrow> mc_request list \<Rightarrow> 'w approvals
    \<Rightarrow> (mc_request list \<times> 'w approvals) result" where
  "expire_each ev ids n now [] s = ok ([], s)"
| "expire_each ev ids n now (r # rs) s =
     rbind (expire_request ev (ids n) now (PUuid (mr_id r)) s) (\<lambda>(q, s').
     rbind (expire_each ev ids (n + 1) now rs s') (\<lambda>(qs, s'').
     ok ((if mr_state q = EXPIRED then q # qs else qs), s'')))"

definition expire_pending :: "'w approval_env \<Rightarrow> (nat \<Rightarrow> nat) \<Rightarrow> nat \<Rightarrow> int \<Rightarrow> 'w approvals
    \<Rightarrow> (mc_request list \<times> 'w approvals) result" where
  "expire_pending ev ids batch now s =
     rbind (table_pending (ap_table s)) (\<lambda>candidates.
     rbind (expire_each ev ids 1 now (filter (\<lambda>r. mr_state r = PENDING) candidates) s) (\<lambda>(expired, s').
     let sorted = sort_key (\<lambda>r. (case mr_decided r of Some t \<Rightarrow> t | None \<Rightarrow> mr_created r, mr_id r)) expired in
     rbind (record_event (ev_hash ev) (ev_derive ev) (ids 0) (ev_request_id ev) now
              (PStr ''maker_checker_expire_batch_completed'') (PList [PStr ''maker_checker_batch'', PUuid batch])
              (PMap [(PStr ''candidates'', PInt (int (length candidates))), (PStr ''expired'', PInt (int (length sorted))),
                     (PStr ''expired_request_ids'', PList (map (\<lambda>r. PStr (uuid_text (mr_id r))) sorted))])
              PNone (PStr (ev_request_id ev)) PNone PNone (ap_audit s')) (\<lambda>(row, log).
     ok (sorted, s'\<lparr>ap_audit := log\<rparr>))))"

text \<open>The queue of a checker; overdue requests it meets are expired on the way.\<close>

fun list_each :: "'w approval_env \<Rightarrow> (nat \<Rightarrow> nat) \<Rightarrow> nat \<Rightarrow> int \<Rightarrow> mc_actor \<Rightarrow> nat \<Rightarrow> mc_request list \<Rightarrow> 'w approvals
    \<Rightarrow> (mc_request list \<times> 'w approvals) result" where
  "list_each ev ids n now checker checker_id [] s = ok ([], s)"
| "list_each ev ids n now checker checker_id (r # rs) s =
     (if mr_state r \<noteq> PENDING then list_each ev ids n now checker checker_id rs s else
      rbind (get_operation (ev_registry ev) (PStr (mr_operation r))) (\<lambda>d.
      rbind (is_enabled (ev_settings ev) (ao_name d)) (\<lambda>enabled.
      if \<not> enabled \<or> mr_maker r = checker_id then list_each ev ids n now checker checker_id rs s else
      rbind (actor_has checker (ao_approve d)) (\<lambda>allowed.
      if \<not> allowed then list_each ev ids n now checker checker_id rs s
      else if request_expired r now (ev_settings ev) then
        rbind (table_get (ap_table s) (mr_id r)) (\<lambda>locked.
        rbind (case locked of Some q \<Rightarrow>
                 if mr_state q = PENDING \<and> request_expired q now (ev_settings ev)
                 then rbind (expire_locked ev (ids n) now q s) (\<lambda>(e, s'). ok s') else ok s
               | None \<Rightarrow> ok s) (\<lambda>s'.
        list_each ev ids (n + 1) now checker checker_id rs s'))
      else rbind (list_each ev ids n now checker checker_id rs s) (\<lambda>(qs, s'). ok (r # qs, s'))))))"

definition list_pending :: "'w approval_env \<Rightarrow> (nat \<Rightarrow> nat) \<Rightarrow> int \<Rightarrow> mc_actor \<Rightarrow> 'w approvals
    \<Rightarrow> (mc_request list \<times> 'w approvals) result" where
  "list_pending ev ids now checker s =
     rbind (actor_id ''checker'' checker) (\<lambda>checker_id.
     rbind (table_pending (ap_table s)) (\<lambda>pending.
     rbind (list_each ev ids 0 now checker checker_id pending s) (\<lambda>(requests, s').
     ok (sort_key (\<lambda>r. (mr_created r, mr_id r)) requests, s'))))"

section \<open>What one operation does\<close>

definition row_ok :: "int \<Rightarrow> mc_request \<Rightarrow> bool" where
  "row_ok window r \<longleftrightarrow> clean r \<and> (case mr_state r of
       PENDING \<Rightarrow> mr_checker r = None \<and> mr_decided r = None \<and> mr_reason r = None
     | EXPIRED \<Rightarrow> mr_checker r = None \<and> (\<exists>t. mr_decided r = Some t \<and> mr_created r + window \<le> t)
     | _ \<Rightarrow> (\<exists>c t. mr_checker r = Some c \<and> c \<noteq> mr_maker r \<and> mr_decided r = Some t \<and> t < mr_created r + window)
         \<and> (mr_state r = REJECTED \<longrightarrow> mr_reason r \<noteq> None))"

definition good :: "'w approval_env \<Rightarrow> 'w approvals \<Rightarrow> bool" where
  "good ev s \<longleftrightarrow> distinct (map mr_id (ap_table s))
     \<and> (\<forall>r\<in>set (ap_table s). row_ok (ms_expiry_window (ev_settings ev)) r)
     \<and> intact (ev_hash ev) (ap_audit s)"

lemma row_ok_clean: "row_ok w r \<Longrightarrow> clean r"
  by (simp add: row_ok_def)

lemma audit_request_ok:
  assumes "audit_request ev eid now event r actor payload s = ok s'" and "intact (ev_hash ev) (ap_audit s)"
  shows "\<exists>row. s' = s\<lparr>ap_audit := ap_audit s @ [row]\<rparr> \<and> intact (ev_hash ev) (ap_audit s @ [row])"
proof -
  obtain row log where run: "record_event (ev_hash ev) (ev_derive ev) eid (ev_request_id ev) now (PStr event)
              (PList [PStr (mr_subject_type r), PUuid (mr_subject_id r)]) payload actor
              (PStr (ev_request_id ev)) PNone PNone (ap_audit s) = ok (row, log)" and s': "s' = s\<lparr>ap_audit := log\<rparr>"
    using assms(1) unfolding audit_request_def by auto
  from record_event_sound [OF assms(2) run] show ?thesis by (auto simp: s')
qed

lemma audit_request_event:
  assumes "audit_request ev eid now event r actor payload s = ok s'" and "audit_text (PStr event) 100 = ok name"
    and "intact (ev_hash ev) (ap_audit s)"
  shows "\<exists>row. s' = s\<lparr>ap_audit := ap_audit s @ [row]\<rparr> \<and> intact (ev_hash ev) (ap_audit s @ [row])
     \<and> row_event_type row = PStr name"
proof -
  obtain entry row log where entry: "recorded (ev_derive ev) (ev_request_id ev) now (PStr event)
              (PList [PStr (mr_subject_type r), PUuid (mr_subject_id r)]) payload actor
              (PStr (ev_request_id ev)) PNone PNone = ok entry"
      and put: "table_append (ev_hash ev) eid None entry (ap_audit s) = ok (row, log)"
      and s': "s' = s\<lparr>ap_audit := log\<rparr>"
    using assms(1) unfolding audit_request_def record_event_def by auto
  have "ar_event_type entry = name"
    using entry assms(2) unfolding recorded_def by (elim rbind_okE case_prodE) auto
  then have "row_event_type row = PStr name"
    using put unfolding table_append_def Let_def by (auto simp: event_of_record_def)
  moreover have "log = ap_audit s @ [row] \<and> intact (ev_hash ev) log"
    using trail.append_extends [of _ "(eid, None, entry)"] trail.append_sound [OF assms(3), of "(eid, None, entry)"] put
    by simp
  ultimately show ?thesis by (auto simp: s')
qed

text \<open>An operation changes the aggregates and appends its events; the table and the notices stay.\<close>

lemma apply_operation_ok:
  assumes "apply_operation ev d r who s = ok s'" and "intact (ev_hash ev) (ap_audit s)"
  shows "\<exists>w events new. ao_callback d r who (ap_world s) = ok (w, events) \<and> length new = length events
     \<and> write_events ev events (ap_audit s) = ok (ap_audit s @ new)
     \<and> s' = s\<lparr>ap_world := w, ap_audit := ap_audit s @ new\<rparr> \<and> intact (ev_hash ev) (ap_audit s @ new)"
proof -
  obtain w events log where call: "ao_callback d r who (ap_world s) = ok (w, events)"
      and put: "write_events ev events (ap_audit s) = ok log"
      and s': "s' = s\<lparr>ap_world := w, ap_audit := log\<rparr>"
    using assms(1) unfolding apply_operation_def by auto
  obtain new where "log = ap_audit s @ new" "length new = length events"
    using trail.write_all_extends [OF put [unfolded write_events_def]] by blast
  moreover have "intact (ev_hash ev) log" by (rule trail.write_all_sound [OF assms(2) put [unfolded write_events_def]])
  ultimately show ?thesis using call put s' by blast
qed

lemma get_request_ok:
  assumes "get_request i s = ok r" and "good ev s"
  shows "find_request (ap_table s) i = Some r" and "r \<in> set (ap_table s)" and "mr_id r = i"
    and "row_ok (ms_expiry_window (ev_settings ev)) r"
proof -
  obtain row where row: "find_request (ap_table s) i = Some row" "make_mc_request row = ok r"
    using assms(1) by (auto simp: get_request_def table_get_def split: option.splits)
  have "row \<in> set (ap_table s)" "mr_id row = i" using find_request_Some [OF row(1)] by auto
  then have "row_ok (ms_expiry_window (ev_settings ev)) row" using assms(2) by (simp add: good_def)
  moreover then have "r = row" using row(2) row_ok_clean by (simp add: clean_def)
  ultimately show "find_request (ap_table s) i = Some r" "r \<in> set (ap_table s)" "mr_id r = i"
    "row_ok (ms_expiry_window (ev_settings ev)) r"
    using row(1) \<open>row \<in> set (ap_table s)\<close> \<open>mr_id row = i\<close> by simp_all
qed

lemma clean_update:
  assumes "clean r" and "clean_reason reason"
  shows "clean (r\<lparr>mr_checker := c, mr_state := st, mr_decided := t, mr_reason := reason, mr_version := mr_version r + 1\<rparr>)"
  using assms unfolding clean_iff by simp

lemma good_put:
  assumes "good ev s" and "row_ok (ms_expiry_window (ev_settings ev)) r"
    and "intact (ev_hash ev) (ap_audit s')" and "ap_table s' = put_request r (ap_table s)"
  shows "good ev s'"
  using assms put_request_set [of _ r "ap_table s"] unfolding good_def by auto

lemma expire_locked_ok:
  assumes "expire_locked ev eid now r s = ok (q, s')" and "good ev s" and "find_request (ap_table s) (mr_id r) = Some r"
    and "mr_state r = PENDING" and "request_expired r now (ev_settings ev)"
  shows "q = r\<lparr>mr_state := EXPIRED, mr_decided := Some now, mr_reason := Some ''Approval window elapsed.'',
            mr_version := mr_version r + 1\<rparr>"
    and "table_expire (mr_id r) now (mr_version r) (ap_table s) = ok (q, ap_table s')"
    and "good ev s'" and "ap_world s' = ap_world s"
proof -
  let ?row = "r\<lparr>mr_state := EXPIRED, mr_decided := Some now, mr_reason := Some ''Approval window elapsed.'',
      mr_version := mr_version r + 1\<rparr>"
  have "r \<in> set (ap_table s)" using find_request_Some [OF assms(3)] by blast
  then have row: "row_ok (ms_expiry_window (ev_settings ev)) r" using assms(2) by (simp add: good_def)
  have clean: "clean ?row"
    using clean_update [OF row_ok_clean [OF row] window_reason_clean,
        where c = "mr_checker r" and st = EXPIRED and t = "Some now"] by simp
  have table: "table_expire (mr_id r) now (mr_version r) (ap_table s) = ok (?row, put_request ?row (ap_table s))"
    using assms(3,4) clean by (simp add: table_expire_def locked_pending_def clean_def Let_def)
  let ?payload = "event_payload ?row True False None None True"
  obtain s1 where audit: "audit_request ev eid now ''maker_checker_expired'' ?row PNone ?payload
      (s\<lparr>ap_table := put_request ?row (ap_table s)\<rparr>) = ok s1" and q: "q = ?row"
      and s': "s' = s1\<lparr>ap_notices := ap_notices s1 @ [(''maker_checker_request_expired'', ?payload)]\<rparr>"
    using assms(1) unfolding expire_locked_def table by (auto simp: Let_def)
  have intact: "intact (ev_hash ev) (ap_audit s)" using assms(2) by (simp add: good_def)
  obtain e where s1: "s1 = s\<lparr>ap_table := put_request ?row (ap_table s), ap_audit := ap_audit s @ [e]\<rparr>"
      and log: "intact (ev_hash ev) (ap_audit s @ [e])"
    using audit_request_ok [OF audit] intact by auto
  show "q = ?row" by (rule q)
  have tab: "ap_table s' = put_request q (ap_table s)" by (simp add: s' s1 q)
  show "ap_world s' = ap_world s" by (simp add: s' s1)
  show "table_expire (mr_id r) now (mr_version r) (ap_table s) = ok (q, ap_table s')"
    unfolding table tab q ..
  have "row_ok (ms_expiry_window (ev_settings ev)) q"
    using clean row assms(4,5) by (simp add: q row_ok_def request_expired_def)
  then show "good ev s'" by (rule good_put [OF assms(2) _ _ tab]) (simp add: s' s1 log)
qed

lemma event_names:
  "audit_text (PStr ''maker_checker_submitted'') 100 = ok ''maker_checker_submitted''"
  "audit_text (PStr ''maker_checker_approved'') 100 = ok ''maker_checker_approved''"
  "audit_text (PStr ''maker_checker_rejected'') 100 = ok ''maker_checker_rejected''"
  by code_simp+

text \<open>What a decision leaves in the log: the events of its callback, then the row of the decision.\<close>

definition decision_written :: "'w approval_env \<Rightarrow> 'w approval_operation \<Rightarrow> bool \<Rightarrow> nat \<Rightarrow> mc_request
    \<Rightarrow> 'w approvals \<Rightarrow> 'w approvals \<Rightarrow> bool" where
  "decision_written ev d yes c r s s' \<longleftrightarrow> (\<exists>new e. ap_audit s' = ap_audit s @ new @ [e]
     \<and> row_event_type e = PStr (if yes then ''maker_checker_approved'' else ''maker_checker_rejected'')
     \<and> (if yes then \<exists>events. ao_callback d r c (ap_world s) = ok (ap_world s', events)
            \<and> write_events ev events (ap_audit s) = ok (ap_audit s @ new) \<and> length new = length events
        else ap_world s' = ap_world s \<and> new = []))"

lemma decide_effect:
  assumes "decide ev eid now request_id checker approved reason s = ok (r, s')" and "good ev s"
  shows "\<exists>i request d c yes. request_uuid request_id = ok i \<and> find_request (ap_table s) i = Some request
     \<and> get_operation (ev_registry ev) (PStr (mr_operation request)) = ok d
     \<and> actor_id ''checker'' checker = ok c \<and> actor_has checker (ao_approve d) = ok True
     \<and> mr_state request = PENDING \<and> c \<noteq> mr_maker request
     \<and> \<not> request_expired request now (ev_settings ev) \<and> approved = PBool yes
     \<and> r = request\<lparr>mr_checker := Some c, mr_state := if yes then APPROVED else REJECTED,
           mr_decided := Some now, mr_reason := mr_reason r, mr_version := mr_version request + 1\<rparr>
     \<and> (\<not> yes \<longrightarrow> mr_reason r \<noteq> None)
     \<and> table_decide i c (if yes then APPROVED else REJECTED) now (mr_reason r) (mr_version request) (ap_table s)
         = ok (r, ap_table s')
     \<and> ap_notices s' = ap_notices s \<and> decision_written ev d yes c r s s' \<and> good ev s'"
proof -
  obtain i where i: "request_uuid request_id = ok i" using assms(1) unfolding decide_def by auto
  obtain request where request: "get_request i s = ok request" using assms(1) i unfolding decide_def by auto
  note found = get_request_ok [OF request assms(2)]
  obtain d where d: "get_operation (ev_registry ev) (PStr (mr_operation request)) = ok d"
    using assms(1) i request unfolding decide_def by auto
  obtain c where c: "actor_id ''checker'' checker = ok c"
    using assms(1) i request d unfolding decide_def by auto
  have allowed: "actor_has checker (ao_approve d) = ok True"
    using assms(1) i request d c unfolding decide_def by (auto simp: require_permission_def)
  then have require: "require_permission checker (ao_approve d) = ok ()" by (simp add: require_permission_def)
  have pending: "mr_state request = PENDING" and distinct: "c \<noteq> mr_maker request"
    using assms(1) i request d c require unfolding decide_def by (auto split: if_splits)
  obtain yes where yes: "approved = PBool yes"
    using assms(1) i request d c require pending distinct unfolding decide_def
    by (auto split: pyval.splits if_splits)
  have open_: "\<not> request_expired request now (ev_settings ev)"
    using assms(1) i request d c require pending distinct yes unfolding decide_def by (auto split: if_splits)
  obtain why where why: "validated_reason (\<not> yes) reason = ok why"
    using assms(1) i request d c require pending distinct yes open_ unfolding decide_def by (auto split: if_splits)
  let ?state = "if yes then APPROVED else REJECTED"
  let ?row = "request\<lparr>mr_checker := Some c, mr_state := ?state, mr_decided := Some now,
      mr_reason := why, mr_version := mr_version request + 1\<rparr>"
  have clean: "make_mc_request ?row = ok ?row"
    using clean_update [OF row_ok_clean [OF found(4)] validated_reason_clean [OF why],
        where c = "Some c" and st = ?state and t = "Some now"] by (simp add: clean_def)
  have table: "table_decide i c ?state now why (mr_version request) (ap_table s)
      = ok (?row, put_request ?row (ap_table s))"
    using found(1) pending clean unfolding table_decide_def locked_pending_def by (simp add: Let_def)
  obtain s1 where s1: "(if yes then apply_operation ev d ?row c s else ok s) = ok s1"
    using assms(1) i request d c require pending distinct yes open_ why clean unfolding decide_def Let_def
    by auto
  have intact: "intact (ev_hash ev) (ap_audit s)" using assms(2) by (simp add: good_def)
  have "\<exists>w new. s1 = s\<lparr>ap_world := w, ap_audit := ap_audit s @ new\<rparr> \<and> intact (ev_hash ev) (ap_audit s @ new)
      \<and> (if yes then \<exists>events. ao_callback d ?row c (ap_world s) = ok (w, events)
            \<and> write_events ev events (ap_audit s) = ok (ap_audit s @ new) \<and> length new = length events
        else w = ap_world s \<and> new = [])"
  proof (cases yes)
    case True
    with s1 have "apply_operation ev d ?row c s = ok s1" by simp
    from apply_operation_ok [OF this intact] True show ?thesis by auto
  next
    case False
    then show ?thesis using s1 intact by (intro exI [of _ "ap_world s"] exI [of _ "[]"]) simp
  qed
  then obtain w new where new: "s1 = s\<lparr>ap_world := w, ap_audit := ap_audit s @ new\<rparr>"
      "intact (ev_hash ev) (ap_audit s @ new)"
      "if yes then \<exists>events. ao_callback d ?row c (ap_world s) = ok (w, events)
            \<and> write_events ev events (ap_audit s) = ok (ap_audit s @ new) \<and> length new = length events
        else w = ap_world s \<and> new = []" by blast
  have table1: "table_decide i c ?state now why (mr_version request) (ap_table s1)
      = ok (?row, put_request ?row (ap_table s))" using table by (simp add: new(1))
  let ?event = "if yes then ''maker_checker_approved'' else ''maker_checker_rejected''"
  obtain s2 where audit: "audit_request ev eid now ?event
        ?row (actor_value checker) (event_payload ?row True False (Some yes) (Some yes) False)
        (s1\<lparr>ap_table := put_request ?row (ap_table s)\<rparr>) = ok s2" and rs: "r = ?row" "s' = s2"
    using assms(1) i request d c require pending distinct yes open_ why clean s1 table1 unfolding decide_def Let_def
    by auto
  have name: "audit_text (PStr ?event) 100 = ok ?event" by (cases yes) (simp_all add: event_names)
  obtain e where s2: "s2 = s1\<lparr>ap_table := put_request ?row (ap_table s), ap_audit := ap_audit s1 @ [e]\<rparr>"
      and log: "intact (ev_hash ev) (ap_audit s1 @ [e])" and event: "row_event_type e = PStr ?event"
    using audit_request_event [OF audit name] new by auto
  have written: "decision_written ev d yes c r s s'"
    unfolding decision_written_def using event new(3)
    by (intro exI [of _ new] exI [of _ e]) (cases yes; simp add: rs s2 new(1))
  have rejected: "why \<noteq> None" if "\<not> yes" using why that validated_reason_required by fastforce
  have "row_ok (ms_expiry_window (ev_settings ev)) ?row"
    using clean rejected distinct open_ by (auto simp: row_ok_def clean_def request_expired_def)
  then have good: "good ev s'" by (rule good_put [OF assms(2)]) (use log in \<open>simp_all add: rs s2 new(1)\<close>)
  have state: "table_decide i c ?state now (mr_reason r) (mr_version request) (ap_table s) = ok (r, ap_table s')"
    using table by (simp add: rs s2)
  have "ap_notices s' = ap_notices s" by (simp add: rs s2 new(1))
  moreover have "r = request\<lparr>mr_checker := Some c, mr_state := ?state, mr_decided := Some now,
      mr_reason := mr_reason r, mr_version := mr_version request + 1\<rparr>" by (simp add: rs)
  moreover have "\<not> yes \<longrightarrow> mr_reason r \<noteq> None" using rejected by (simp add: rs)
  ultimately show ?thesis
    using i found(1) d c allowed pending distinct open_ yes good state written by blast
qed

lemma submit_effect:
  assumes "submit ev rid eid now operation subject payload maker s = ok (r, s')" and "good ev s"
  shows "good ev s' \<and> set (ap_table s) \<subseteq> set (ap_table s')
     \<and> (\<exists>d m enabled. get_operation (ev_registry ev) operation = ok d \<and> actor_id ''maker'' maker = ok m
          \<and> actor_has maker (ao_propose d) = ok True \<and> is_enabled (ev_settings ev) (ao_name d) = ok enabled
          \<and> mr_maker r = m
          \<and> (if enabled then mr_state r = PENDING \<and> ap_table s' = ap_table s @ [r] \<and> ap_world s' = ap_world s
             else (\<exists>events. ao_callback d r m (ap_world s) = ok (ap_world s', events)) \<and> ap_table s' = ap_table s))"
proof -
  obtain d where d: "get_operation (ev_registry ev) operation = ok d" using assms(1) unfolding submit_def by auto
  obtain m where m: "actor_id ''maker'' maker = ok m" using assms(1) d unfolding submit_def by auto
  have allowed: "actor_has maker (ao_propose d) = ok True"
    using assms(1) d m unfolding submit_def by (auto simp: require_permission_def)
  then have require: "require_permission maker (ao_propose d) = ok ()" by (simp add: require_permission_def)
  obtain st si where subject: "subject_ref subject = ok (st, si)" using assms(1) d m require unfolding submit_def by auto
  let ?new = "\<lparr>mr_id = rid, mr_subject_type = st, mr_subject_id = si, mr_operation = ao_name d,
              mr_payload = payload, mr_maker = m, mr_checker = None, mr_state = PENDING,
              mr_created = now, mr_decided = None, mr_reason = None, mr_version = 1\<rparr>"
  obtain request where request: "make_mc_request ?new = ok request"
    using assms(1) d m require subject unfolding submit_def by auto
  then have clean: "clean request" and fields: "mr_state request = PENDING" "mr_maker request = m"
      "mr_checker request = None" "mr_decided request = None" "mr_reason request = None"
    using make_mc_request_clean [OF request] by auto
  obtain enabled where enabled: "is_enabled (ev_settings ev) (ao_name d) = ok enabled"
    using assms(1) d m require subject request unfolding submit_def by auto
  have intact: "intact (ev_hash ev) (ap_audit s)" using assms(2) by (simp add: good_def)
  have parts: "get_operation (ev_registry ev) operation = ok d \<and> actor_id ''maker'' maker = ok m
          \<and> actor_has maker (ao_propose d) = ok True \<and> is_enabled (ev_settings ev) (ao_name d) = ok enabled"
    using d m allowed enabled by blast
  show ?thesis
  proof (cases enabled)
    case True
    have same: "request\<lparr>mr_checker := None, mr_decided := None, mr_reason := None\<rparr> = request"
      using fields by simp
    have new: "find_request (ap_table s) (mr_id request) = None"
      using assms(1) d m require subject request enabled True unfolding submit_def
      by (auto simp: table_create_def Let_def split: if_splits)
    have created: "table_create request (ap_table s) = ok (request, ap_table s @ [request])"
      using new clean unfolding table_create_def same by (simp add: clean_def)
    obtain s1 where audit: "audit_request ev eid now ''maker_checker_submitted'' request (actor_value maker)
                (event_payload request True False None None False) (s\<lparr>ap_table := ap_table s @ [request]\<rparr>) = ok s1"
        and rs: "r = request" "s' = s1"
      using assms(1) d m require subject request enabled True created fields unfolding submit_def by auto
    obtain e where s1: "s1 = s\<lparr>ap_table := ap_table s @ [request], ap_audit := ap_audit s @ [e]\<rparr>"
        and log: "intact (ev_hash ev) (ap_audit s @ [e])"
      using audit_request_ok [OF audit] intact by auto
    have "row_ok (ms_expiry_window (ev_settings ev)) request" using clean fields by (simp add: row_ok_def)
    then have "good ev s'" using assms(2) new log by (auto simp: good_def rs s1 find_request_None)
    then show ?thesis using parts True fields by (auto simp: rs s1)
  next
    case False
    obtain direct s0 s1 where direct: "make_mc_request (request\<lparr>mr_state := APPROVED, mr_decided := Some now\<rparr>) = ok direct"
        and run: "apply_operation ev d direct m s = ok s0"
        and audit: "audit_request ev eid now ''maker_checker_disabled_applied'' direct (actor_value maker)
                (event_payload direct False True None (Some True) False) s0 = ok s1"
        and rs: "r = direct" "s' = s1"
      using assms(1) d m require subject request enabled False unfolding submit_def by auto
    have maker: "mr_maker direct = m" using make_mc_request_clean(2) [OF direct] fields by auto
    obtain w events new where call: "ao_callback d direct m (ap_world s) = ok (w, events)"
        and s0: "s0 = s\<lparr>ap_world := w, ap_audit := ap_audit s @ new\<rparr>" "intact (ev_hash ev) (ap_audit s @ new)"
      using apply_operation_ok [OF run intact] by blast
    obtain e where s1: "s1 = s0\<lparr>ap_audit := ap_audit s0 @ [e]\<rparr>" and log: "intact (ev_hash ev) (ap_audit s0 @ [e])"
      using audit_request_ok [OF audit] s0 by auto
    then have "good ev s'" using assms(2) s0 by (simp add: good_def rs)
    then show ?thesis using parts False call maker by (auto simp: rs s1 s0)
  qed
qed

lemma expire_request_effect:
  assumes "expire_request ev eid now request_id s = ok (r, s')" and "good ev s"
  shows "good ev s'" and "ap_world s' = ap_world s"
    and "\<forall>q\<in>set (ap_table s). mr_state q \<noteq> PENDING \<longrightarrow> q \<in> set (ap_table s')"
proof -
  obtain i request where request: "request_uuid request_id = ok i" "get_request i s = ok request"
    using assms(1) unfolding expire_request_def by auto
  note found = get_request_ok [OF request(2) assms(2)]
  have here: "find_request (ap_table s) (mr_id request) = Some request" using found(1,3) by simp
  have distinct: "distinct (map mr_id (ap_table s))" using assms(2) by (simp add: good_def)
  consider (same) "s' = s" | (expired) "mr_state request = PENDING" "request_expired request now (ev_settings ev)"
      "expire_locked ev eid now request s = ok (r, s')"
    using assms(1) request unfolding expire_request_def by (auto split: if_splits)
  then have "good ev s' \<and> ap_world s' = ap_world s
    \<and> (\<forall>q\<in>set (ap_table s). mr_state q \<noteq> PENDING \<longrightarrow> q \<in> set (ap_table s'))"
  proof cases
    case expired
    note out = expire_locked_ok [OF expired(3) assms(2) here expired(1,2)]
    show ?thesis
      using out expiring.keeps_decided [of "(mr_id request, now, mr_version request)", simplified, OF out(2) distinct]
      by blast
  qed (use assms(2) in simp)
  then show "good ev s'" and "ap_world s' = ap_world s"
    and "\<forall>q\<in>set (ap_table s). mr_state q \<noteq> PENDING \<longrightarrow> q \<in> set (ap_table s')" by blast+
qed

section \<open>The service as a state machine\<close>

definition decided_kept :: "'w approvals \<Rightarrow> 'w approvals \<Rightarrow> bool" where
  "decided_kept s s' \<longleftrightarrow> (\<forall>q\<in>set (ap_table s). mr_state q \<noteq> PENDING \<longrightarrow> q \<in> set (ap_table s'))"

lemma decided_kept_refl [simp]: "decided_kept s s"
  by (simp add: decided_kept_def)

lemma decided_kept_trans: "decided_kept s t \<Longrightarrow> decided_kept t u \<Longrightarrow> decided_kept s u"
  by (auto simp: decided_kept_def)

lemma expire_each_effect:
  "expire_each ev ids n now rs s = ok (qs, s') \<Longrightarrow> good ev s \<Longrightarrow> good ev s' \<and> decided_kept s s'"
proof (induction rs arbitrary: n s qs)
  case (Cons r rs)
  obtain q s1 qs1 where one: "expire_request ev (ids n) now (PUuid (mr_id r)) s = ok (q, s1)"
      and rest: "expire_each ev ids (n + 1) now rs s1 = ok (qs1, s')"
    using Cons.prems(1) by auto
  note first = expire_request_effect [OF one Cons.prems(2)]
  then have "decided_kept s s1" by (simp add: decided_kept_def)
  then show ?case using Cons.IH [OF rest first(1)] decided_kept_trans by blast
qed simp

lemma expire_pending_effect:
  assumes "expire_pending ev ids batch now s = ok (qs, s')" and "good ev s"
  shows "good ev s' \<and> decided_kept s s'"
proof -
  obtain candidates expired s1 payload row log
    where each: "expire_each ev ids 1 now (filter (\<lambda>r. mr_state r = PENDING) candidates) s = ok (expired, s1)"
      and batch: "record_event (ev_hash ev) (ev_derive ev) (ids 0) (ev_request_id ev) now
              (PStr ''maker_checker_expire_batch_completed'') (PList [PStr ''maker_checker_batch'', PUuid batch])
              payload PNone (PStr (ev_request_id ev)) PNone PNone (ap_audit s1) = ok (row, log)"
      and s': "s' = s1\<lparr>ap_audit := log\<rparr>"
    using assms(1) unfolding expire_pending_def Let_def by (elim rbind_okE) (auto split: prod.splits)
  note swept = expire_each_effect [OF each assms(2)]
  then have "intact (ev_hash ev) (ap_audit s1)" by (simp add: good_def)
  then have "intact (ev_hash ev) log" using record_event_sound(1) batch by blast
  then show ?thesis using swept by (simp add: s' good_def decided_kept_def)
qed

lemma list_each_effect:
  "list_each ev ids n now checker c rs s = ok (qs, s') \<Longrightarrow> good ev s \<Longrightarrow> good ev s' \<and> decided_kept s s'"
proof (induction rs arbitrary: n s qs)
  case (Cons r rs)
  show ?case
  proof (cases "\<exists>m ps. list_each ev ids m now checker c rs s = ok (ps, s')")
    case True
    then show ?thesis using Cons.IH Cons.prems(2) by blast
  next
    case False
    then have pending: "mr_state r = PENDING" using Cons.prems(1) by (auto split: if_splits)
    obtain d where d: "get_operation (ev_registry ev) (PStr (mr_operation r)) = ok d"
      using Cons.prems(1) pending by auto
    obtain enabled where enabled: "is_enabled (ev_settings ev) (ao_name d) = ok enabled"
      using Cons.prems(1) pending d by auto
    have on: "enabled" "mr_maker r \<noteq> c" using Cons.prems(1) False pending d enabled by (auto split: if_splits)
    obtain allowed where allowed: "actor_has checker (ao_approve d) = ok allowed"
      using Cons.prems(1) pending d enabled on by auto
    have due: "allowed" "request_expired r now (ev_settings ev)"
      using Cons.prems(1) False pending d enabled on allowed by (auto split: if_splits)
    obtain locked where locked: "table_get (ap_table s) (mr_id r) = ok locked"
      using Cons.prems(1) pending d enabled on allowed due by auto
    obtain s1 where s1: "(case locked of Some q \<Rightarrow>
                 if mr_state q = PENDING \<and> request_expired q now (ev_settings ev)
                 then rbind (expire_locked ev (ids n) now q s) (\<lambda>(e, s'). ok s') else ok s
               | None \<Rightarrow> ok s) = ok s1"
        and rest: "list_each ev ids (n + 1) now checker c rs s1 = ok (qs, s')"
      using Cons.prems(1) pending d enabled on allowed due locked by auto
    have "good ev s1 \<and> decided_kept s s1"
    proof (cases "s1 = s")
      case changed: False
      then obtain q e where q: "locked = Some q" "mr_state q = PENDING" "request_expired q now (ev_settings ev)"
          "expire_locked ev (ids n) now q s = ok (e, s1)"
        using s1 by (auto split: option.splits if_splits)
      have "get_request (mr_id r) s = ok q" using locked q(1) by (simp add: get_request_def)
      note found = get_request_ok [OF this Cons.prems(2)]
      have here: "find_request (ap_table s) (mr_id q) = Some q" using found(1,3) by simp
      note out = expire_locked_ok [OF q(4) Cons.prems(2) here q(2,3)]
      have "distinct (map mr_id (ap_table s))" using Cons.prems(2) by (simp add: good_def)
      then show ?thesis
        using out expiring.keeps_decided [of "(mr_id q, now, mr_version q)", simplified, OF out(2)]
        by (auto simp: decided_kept_def)
    qed (use Cons.prems(2) in simp)
    then show ?thesis using Cons.IH [OF rest] decided_kept_trans by blast
  qed
qed simp

inductive approvals_step :: "'w approval_env \<Rightarrow> 'w approvals \<Rightarrow> 'w approvals \<Rightarrow> bool" for ev where
  Submit: "submit ev rid eid now operation subject payload maker s = ok (r, s') \<Longrightarrow> approvals_step ev s s'"
| Decide: "decide ev eid now request_id checker approved reason s = ok (r, s') \<Longrightarrow> approvals_step ev s s'"
| Expire: "expire_request ev eid now request_id s = ok (r, s') \<Longrightarrow> approvals_step ev s s'"
| Sweep: "expire_pending ev ids batch now s = ok (qs, s') \<Longrightarrow> approvals_step ev s s'"
| Queue: "list_pending ev ids now checker s = ok (qs, s') \<Longrightarrow> approvals_step ev s s'"

inductive approvals_reachable :: "'w approval_env \<Rightarrow> 'w approvals \<Rightarrow> bool" for ev where
  Start: "approvals_reachable ev \<lparr>ap_table = [], ap_audit = [], ap_notices = [], ap_world = w\<rparr>"
| Step: "approvals_reachable ev s \<Longrightarrow> approvals_step ev s s' \<Longrightarrow> approvals_reachable ev s'"

inductive_cases approvals_stepE: "approvals_step ev s s'"

lemma approvals_step_effect:
  assumes "approvals_step ev s s'" and "good ev s"
  shows "good ev s' \<and> decided_kept s s'"
  using assms(1)
proof cases
  case (Submit rid eid now operation subject payload maker r)
  from submit_effect [OF this assms(2)] show ?thesis by (auto simp: decided_kept_def)
next
  case (Decide eid now request_id checker approved reason r)
  from decide_effect [OF this assms(2)] obtain i c yes version
    where out: "good ev s'" "table_decide i c (if yes then APPROVED else REJECTED) now (mr_reason r) version
      (ap_table s) = ok (r, ap_table s')" by blast
  have "distinct (map mr_id (ap_table s))" using assms(2) by (simp add: good_def)
  then show ?thesis
    using out deciding.keeps_decided [of "(i, c, yes, now, mr_reason r, version)", unfolded prod.case, OF out(2)]
    by (simp add: decided_kept_def)
next
  case (Expire eid now request_id r)
  from expire_request_effect [OF this assms(2)] show ?thesis by (simp add: decided_kept_def)
next
  case (Sweep ids batch now qs)
  from expire_pending_effect [OF this assms(2)] show ?thesis .
next
  case (Queue ids now checker qs)
  then obtain c pending requests where "list_each ev ids 0 now checker c pending s = ok (requests, s')"
    by (auto simp: list_pending_def)
  from list_each_effect [OF this assms(2)] show ?thesis .
qed

lemma good_reachable: "approvals_reachable ev s \<Longrightarrow> good ev s"
proof (induction rule: approvals_reachable.induct)
  case (Start w)
  then show ?case using empty_log by (simp add: good_def)
next
  case (Step s s')
  then show ?case using approvals_step_effect by blast
qed

text \<open>
  C16: the maker-checker workflow keeps its promises in every history. Each request is pending
  without a decision, or approved or rejected by a checker who is not its maker and within its
  window, a rejection with a reason, or expired by nobody and after its window; once it has left
  pending it never changes again; and the audit trail the service wrote verifies.
\<close>

theorem approvals_invariant:
  assumes "approvals_reachable ev s"
  shows "(\<forall>r\<in>set (ap_table s). case mr_state r of
        PENDING \<Rightarrow> mr_checker r = None \<and> mr_decided r = None
      | EXPIRED \<Rightarrow> mr_checker r = None
          \<and> (\<exists>t. mr_decided r = Some t \<and> mr_created r + ms_expiry_window (ev_settings ev) \<le> t)
      | _ \<Rightarrow> (\<exists>c t. mr_checker r = Some c \<and> c \<noteq> mr_maker r \<and> mr_decided r = Some t
            \<and> t < mr_created r + ms_expiry_window (ev_settings ev))
          \<and> (mr_state r = REJECTED \<longrightarrow> mr_reason r \<noteq> None))
     \<and> distinct (map mr_id (ap_table s))
     \<and> verify_chain (ev_hash ev) (chain_view (ap_audit s)) None None = ok None
     \<and> (\<forall>s'. approvals_step ev s s' \<longrightarrow>
          (\<forall>r\<in>set (ap_table s). mr_state r \<noteq> PENDING \<longrightarrow> r \<in> set (ap_table s')))"
proof -
  have good: "good ev s" by (rule good_reachable [OF assms])
  have rows: "\<forall>r\<in>set (ap_table s). row_ok (ms_expiry_window (ev_settings ev)) r"
    using good by (simp add: good_def)
  have each: "case mr_state r of
        PENDING \<Rightarrow> mr_checker r = None \<and> mr_decided r = None
      | EXPIRED \<Rightarrow> mr_checker r = None
          \<and> (\<exists>t. mr_decided r = Some t \<and> mr_created r + ms_expiry_window (ev_settings ev) \<le> t)
      | _ \<Rightarrow> (\<exists>c t. mr_checker r = Some c \<and> c \<noteq> mr_maker r \<and> mr_decided r = Some t
            \<and> t < mr_created r + ms_expiry_window (ev_settings ev))
          \<and> (mr_state r = REJECTED \<longrightarrow> mr_reason r \<noteq> None)" if "r \<in> set (ap_table s)" for r
    using bspec [OF rows that] by (cases "mr_state r") (simp_all add: row_ok_def)
  have kept: "\<forall>s'. approvals_step ev s s' \<longrightarrow>
      (\<forall>r\<in>set (ap_table s). mr_state r \<noteq> PENDING \<longrightarrow> r \<in> set (ap_table s'))"
    using approvals_step_effect [OF _ good] unfolding decided_kept_def by blast
  show ?thesis
  proof (intro conjI)
    show "\<forall>r\<in>set (ap_table s). case mr_state r of
        PENDING \<Rightarrow> mr_checker r = None \<and> mr_decided r = None
      | EXPIRED \<Rightarrow> mr_checker r = None
          \<and> (\<exists>t. mr_decided r = Some t \<and> mr_created r + ms_expiry_window (ev_settings ev) \<le> t)
      | _ \<Rightarrow> (\<exists>c t. mr_checker r = Some c \<and> c \<noteq> mr_maker r \<and> mr_decided r = Some t
            \<and> t < mr_created r + ms_expiry_window (ev_settings ev))
          \<and> (mr_state r = REJECTED \<longrightarrow> mr_reason r \<noteq> None)" using each by blast
  qed (use good kept in \<open>simp_all add: good_def intact_def\<close>)
qed

section \<open>Operations that must succeed do\<close>

lemma normalise_items_append:
  assumes "normalise_items kvs = ok xs" and "normalise_items kvs' = ok ys"
  shows "normalise_items (kvs @ kvs') = ok (xs @ ys)"
  using assms unfolding normalise_items_rmap
  by (induction kvs arbitrary: xs) auto

lemma event_keys_plain:
  "\<not> is_personal_field ''request_id''" "\<not> is_personal_field ''operation''" "\<not> is_personal_field ''subject_type''"
  "\<not> is_personal_field ''subject_id''" "\<not> is_personal_field ''maker_id''" "\<not> is_personal_field ''checker_id''"
  "\<not> is_personal_field ''state''" "\<not> is_personal_field ''request_payload''"
  "\<not> is_personal_field ''checker_required''" "\<not> is_personal_field ''no_second_actor_required''"
  "\<not> is_personal_field ''approved''" "\<not> is_personal_field ''applied''" "\<not> is_personal_field ''reason''"
  "\<not> is_personal_field ''notification_required''"
  by code_simp+

lemma normalise_plain_entry:
  assumes "\<not> is_personal_field k" and "normalise_value v = ok j"
  shows "normalise_items [(PStr k, v)] = ok [(k, j)]"
  using assms by simp

lemma event_payload_normalises:
  assumes "normalise_value (mr_payload r) = ok j"
  shows "\<exists>j'. normalise_payload (event_payload r a b c d n) = ok j'"
proof -
  have optional: "\<exists>ys. normalise_items (optional_entry k v) = ok ys"
    if "\<not> is_personal_field k" "\<And>w. v = Some w \<Longrightarrow> \<exists>j. normalise_value w = ok j" for k v
    using that by (cases v) (auto simp: optional_entry_def)
  have "\<exists>x1. normalise_items (optional_entry ''approved'' (map_option PBool c)) = ok x1"
    by (rule optional [OF event_keys_plain(11)]) auto
  moreover have "\<exists>x2. normalise_items (optional_entry ''applied'' (map_option PBool d)) = ok x2"
    by (rule optional [OF event_keys_plain(12)]) auto
  moreover have "\<exists>x3. normalise_items (optional_entry ''reason'' (map_option PStr (mr_reason r))) = ok x3"
    by (rule optional [OF event_keys_plain(13)]) auto
  ultimately obtain x1 x2 x3 where opts: "normalise_items (optional_entry ''approved'' (map_option PBool c)) = ok x1"
      "normalise_items (optional_entry ''applied'' (map_option PBool d)) = ok x2"
      "normalise_items (optional_entry ''reason'' (map_option PStr (mr_reason r))) = ok x3" by blast
  have checker: "\<exists>y. normalise_value (pyopt (\<lambda>c. PStr (uuid_text c)) (mr_checker r)) = ok y"
    by (cases "mr_checker r") simp_all
  obtain x4 where last: "normalise_items (if n then [(PStr ''notification_required'', PBool True)] else []) = ok x4"
    using event_keys_plain by (cases n) auto
  note rest = normalise_items_append [OF opts(1) normalise_items_append [OF opts(2)
      normalise_items_append [OF opts(3) last]]]
  show ?thesis
    using checker assms event_keys_plain rest
    by (auto simp: event_payload_def normalise_payload_def)
qed

lemma subject_text_audits:
  "clean r \<Longrightarrow> audit_text (PStr (mr_subject_type r)) 50 = ok (mr_subject_type r)"
  unfolding clean_iff validated_subject_type_def audit_text_def
  by (auto simp: max_subject_type_length_def control_char_def split: if_splits)

lemma table_append_total:
  assumes "intact h rows" and "normalise_payload (ar_payload r) = ok j"
  shows "\<exists>row. table_append h i None r rows = ok (row, rows @ [row])"
proof -
  let ?n = "case (if rows = [] then None else Some (last rows)) of Some p \<Rightarrow> row_sequence p + 1 | None \<Rightarrow> 1"
  have one: "\<not> ?n < 1" using intact_last [OF assms(1)] by (cases "rows = []") auto
  have "canonical_payload (json_value j) = ok (json_text j)"
    using stored_payload_normalises [OF assms(2)] by (simp add: canonical_payload_def)
  moreover obtain t where "actor_token (if ar_actor_id r \<noteq> None then pyopt PUuid (ar_actor_id r)
      else pyopt PStr (ar_actor_label r)) = ok t"
    by (cases "ar_actor_id r"; cases "ar_actor_label r") (auto simp: actor_token_def text_token_def)
  ultimately have "\<exists>x. record_digest h r j ?n (map_option row_hash (if rows = [] then None else Some (last rows))) = ok x"
    using one unfolding record_digest_def compute_event_hash_def event_material_def
    by (simp add: utc_timestamp_def text_token_def)
  then show ?thesis using assms(2) unfolding table_append_memory [OF assms(1)] memory_append_def
    by (auto simp: Let_def)
qed

lemma audit_request_total:
  assumes "intact (ev_hash ev) (ap_audit s)" and "clean r" and "normalise_payload payload = ok j"
    and "audit_actor actor = ok who" and "audit_text (PStr (ev_request_id ev)) 40 = ok request"
    and "audit_text (PStr event) 100 = ok event"
  shows "\<exists>s'. audit_request ev eid now event r actor payload s = ok s'"
proof -
  obtain ai al where who: "who = (ai, al)" by (cases who)
  have blank: "ev_request_id ev \<noteq> []" using assms(5) by (auto simp: audit_text_def strip_def split: if_splits)
  let ?row = "\<lparr>ar_event_type = event, ar_subject_type = mr_subject_type r, ar_subject_id = mr_subject_id r,
      ar_payload = json_value j, ar_actor_id = ai, ar_actor_label = al, ar_occurred_at = now,
      ar_request_id = request, ar_snapshot = None\<rparr>"
  have "recorded (ev_derive ev) (ev_request_id ev) now (PStr event)
      (PList [PStr (mr_subject_type r), PUuid (mr_subject_id r)]) payload actor (PStr (ev_request_id ev)) PNone PNone
      = ok ?row"
    using assms(3-6) blank subject_text_audits [OF assms(2)]
    by (simp add: recorded_def audit_subject_def audit_subject_uuid_def audit_instant_def audit_optional_uuid_def who)
  moreover have "normalise_payload (ar_payload ?row) = ok j"
    using stored_payload_normalises [OF assms(3)] by simp
  ultimately show ?thesis
    using table_append_total [OF assms(1), of ?row j eid]
    by (auto simp: audit_request_def record_event_def)
qed

lemma audit_principal: "audit_actor (actor_value (Principal p)) = ok (Some (p_id p), None)"
  by (simp add: actor_value_def audit_actor_def audit_optional_uuid_def py_attr_def text_of_def)

lemma submit_succeeds:
  assumes "good ev s" and "get_operation (ev_registry ev) operation = ok d" and "ao_propose d \<in> p_permissions p"
    and "subject_ref subject = ok (st, si)" and "is_enabled (ev_settings ev) (ao_name d) = ok True"
    and request: "make_mc_request \<lparr>mr_id = rid, mr_subject_type = st, mr_subject_id = si, mr_operation = ao_name d,
              mr_payload = payload, mr_maker = p_id p, mr_checker = None, mr_state = PENDING,
              mr_created = now, mr_decided = None, mr_reason = None, mr_version = 1\<rparr> = ok request"
    and new: "rid \<notin> mr_id ` set (ap_table s)" and "normalise_value payload = ok j"
    and "audit_text (PStr (ev_request_id ev)) 40 = ok own"
  shows "\<exists>s'. submit ev rid eid now operation subject payload (Principal p) s = ok (request, s')"
proof -
  have clean: "clean request" and fields: "mr_state request = PENDING" "mr_id request = rid" "mr_checker request = None"
      "mr_decided request = None" "mr_reason request = None" "mr_payload request = payload"
    using make_mc_request_clean [OF request] by auto
  have same: "request\<lparr>mr_checker := None, mr_decided := None, mr_reason := None\<rparr> = request" using fields by simp
  have created: "table_create request (ap_table s) = ok (request, ap_table s @ [request])"
    using new clean fields unfolding table_create_def same by (simp add: clean_def find_request_None)
  have "normalise_value (mr_payload request) = ok j" using assms(8) fields(6) by simp
  from event_payload_normalises [OF this]
  obtain j' where j': "normalise_payload (event_payload request True False None None False) = ok j'" by blast
  have "intact (ev_hash ev) (ap_audit (s\<lparr>ap_table := ap_table s @ [request]\<rparr>))" using assms(1) by (simp add: good_def)
  from audit_request_total [OF this clean j' audit_principal assms(9) event_names(1)]
  obtain s1 where "audit_request ev eid now ''maker_checker_submitted'' request (actor_value (Principal p))
      (event_payload request True False None None False) (s\<lparr>ap_table := ap_table s @ [request]\<rparr>) = ok s1" by blast
  then show ?thesis using assms(2-5) request created fields
    by (simp add: submit_def actor_id_def require_permission_def actor_has_def)
qed

text \<open>
  C17: a decision needs a second actor, and applies once. When deciding a request returns, the
  request was pending and inside its window, the checker is another identity than its maker and
  holds the approval permission registered for its operation; exactly that row of the table was
  written; the operation's callback ran once, on the decided row, for an approval and not at all
  for a rejection; and the audit trail grew by the events the callback recorded, one row for each,
  and then by exactly one row of the service's own, the decision.
\<close>

theorem decision_by_second_actor:
  assumes "approvals_reachable ev s" and "decide ev eid now request_id checker approved reason s = ok (r, s')"
  shows "\<exists>request d c yes. find_request (ap_table s) (mr_id r) = Some request \<and> mr_state request = PENDING
     \<and> now < mr_created request + ms_expiry_window (ev_settings ev)
     \<and> get_operation (ev_registry ev) (PStr (mr_operation request)) = ok d
     \<and> actor_id ''checker'' checker = ok c \<and> c \<noteq> mr_maker request \<and> actor_has checker (ao_approve d) = ok True
     \<and> approved = PBool yes \<and> mr_state r = (if yes then APPROVED else REJECTED)
     \<and> mr_checker r = Some c \<and> mr_decided r = Some now \<and> mr_version r = mr_version request + 1
     \<and> ap_table s' = put_request r (ap_table s)
     \<and> (\<exists>new e. ap_audit s' = ap_audit s @ new @ [e]
          \<and> row_event_type e = PStr (if yes then ''maker_checker_approved'' else ''maker_checker_rejected'')
          \<and> (if yes then \<exists>events. ao_callback d r c (ap_world s) = ok (ap_world s', events)
                 \<and> write_events ev events (ap_audit s) = ok (ap_audit s @ new) \<and> length new = length events
             else ap_world s' = ap_world s \<and> new = []))"
proof -
  from decide_effect [OF assms(2) good_reachable [OF assms(1)]] obtain i request d c yes where
    e: "find_request (ap_table s) i = Some request"
      "get_operation (ev_registry ev) (PStr (mr_operation request)) = ok d"
      "actor_id ''checker'' checker = ok c" "actor_has checker (ao_approve d) = ok True"
      "mr_state request = PENDING" "c \<noteq> mr_maker request"
      "\<not> request_expired request now (ev_settings ev)" "approved = PBool yes"
    and r: "r = request\<lparr>mr_checker := Some c, mr_state := if yes then APPROVED else REJECTED,
           mr_decided := Some now, mr_reason := mr_reason r, mr_version := mr_version request + 1\<rparr>"
    and t: "table_decide i c (if yes then APPROVED else REJECTED) now (mr_reason r) (mr_version request) (ap_table s)
         = ok (r, ap_table s')"
    and w: "decision_written ev d yes c r s s'" by blast
  have id: "mr_id r = i" by (subst r) (simp add: find_request_Some [OF e(1)])
  obtain mid where mid: "ap_table s' = put_request mid (ap_table s)" "mid = request\<lparr>mr_checker := Some c,
      mr_state := if yes then APPROVED else REJECTED, mr_decided := Some now, mr_reason := mr_reason r,
      mr_version := mr_version request + 1\<rparr>"
    using t e(1,5) by (auto simp: table_decide_def locked_pending_def Let_def)
  then have "ap_table s' = put_request r (ap_table s)" using r by simp
  moreover have "mr_state r = (if yes then APPROVED else REJECTED)" "mr_checker r = Some c" "mr_decided r = Some now"
      "mr_version r = mr_version request + 1" by (subst r, simp)+
  moreover have "now < mr_created request + ms_expiry_window (ev_settings ev)"
    using e(7) by (simp add: request_expired_def)
  ultimately show ?thesis using e w [unfolded decision_written_def] id by blast
qed

lemma decide_total:
  assumes good: "good ev s" and found: "find_request (ap_table s) i = Some request"
    and pending: "mr_state request = PENDING" and operation: "get_operation (ev_registry ev) (PStr (mr_operation request)) = ok d"
    and allowed: "ao_approve d \<in> p_permissions p" and other: "p_id p \<noteq> mr_maker request"
    and window: "now < mr_created request + ms_expiry_window (ev_settings ev)"
    and why: "validated_reason (\<not> yes) reason = ok why"
    and callback: "\<And>r. yes \<Longrightarrow> \<exists>s1. apply_operation ev d r (p_id p) s = ok s1"
    and payload: "normalise_value (mr_payload request) = ok j"
    and own: "audit_text (PStr (ev_request_id ev)) 40 = ok own_id"
  shows "\<exists>r s'. decide ev eid now (PUuid i) (Principal p) (PBool yes) reason s = ok (r, s')
     \<and> mr_id r = i \<and> mr_state r = (if yes then APPROVED else REJECTED) \<and> mr_reason r = why"
proof -
  have row: "row_ok (ms_expiry_window (ev_settings ev)) request"
    using good find_request_Some [OF found] by (simp add: good_def)
  have get: "get_request i s = ok request"
    using found row_ok_clean [OF row] by (simp add: get_request_def table_get_def clean_def)
  let ?state = "if yes then APPROVED else REJECTED"
  let ?row = "request\<lparr>mr_checker := Some (p_id p), mr_state := ?state, mr_decided := Some now,
      mr_reason := why, mr_version := mr_version request + 1\<rparr>"
  have clean: "clean ?row"
    using clean_update [OF row_ok_clean [OF row] validated_reason_clean [OF why],
        where c = "Some (p_id p)" and st = ?state and t = "Some now"] .
  have table: "table_decide i (p_id p) ?state now why (mr_version request) (ap_table s)
      = ok (?row, put_request ?row (ap_table s))"
    using found pending clean unfolding table_decide_def locked_pending_def by (simp add: Let_def clean_def)
  have intact: "intact (ev_hash ev) (ap_audit s)" using good by (simp add: good_def)
  obtain s1 where s1: "(if yes then apply_operation ev d ?row (p_id p) s else ok s) = ok s1"
    using callback [of ?row] by (cases yes) auto
  have kept: "ap_table s1 = ap_table s \<and> intact (ev_hash ev) (ap_audit s1)"
  proof (cases yes)
    case True
    with s1 have "apply_operation ev d ?row (p_id p) s = ok s1" by simp
    from apply_operation_ok [OF this intact] show ?thesis by auto
  qed (use s1 intact in simp)
  have "normalise_value (mr_payload ?row) = ok j" using payload by simp
  from event_payload_normalises [OF this]
  obtain j' where j': "normalise_payload (event_payload ?row True False (Some yes) (Some yes) False) = ok j'" by blast
  have log: "intact (ev_hash ev) (ap_audit (s1\<lparr>ap_table := put_request ?row (ap_table s)\<rparr>))"
    using kept by simp
  let ?event = "if yes then ''maker_checker_approved'' else ''maker_checker_rejected''"
  have "audit_text (PStr ?event) 100 = ok ?event" by (cases yes) (simp_all add: event_names)
  from audit_request_total [OF log clean j' audit_principal own this]
  obtain s2 where "audit_request ev eid now ?event ?row (actor_value (Principal p))
      (event_payload ?row True False (Some yes) (Some yes) False)
      (s1\<lparr>ap_table := put_request ?row (ap_table s)\<rparr>) = ok s2" by blast
  then have "decide ev eid now (PUuid i) (Principal p) (PBool yes) reason s = ok (?row, s2)"
    using get pending operation allowed other window why clean s1 kept table
    by (simp add: decide_def request_uuid_def actor_id_def require_permission_def actor_has_def
        request_expired_def Let_def clean_def)
  then show ?thesis using find_request_Some [OF found] by (intro exI [of _ ?row] exI [of _ s2]) simp
qed


text \<open>
  A covenant registration that one user proposes and another decides; the world counts callbacks,
  and the callback records the registration's own event.
\<close>

definition demo_event :: "nat \<Rightarrow> audit_write" where
  "demo_event who = (300, None, \<lparr>ar_event_type = ''covenant_registration_approved'',
     ar_subject_type = ''covenant_version'', ar_subject_id = 7, ar_payload = PMap [(PStr ''action'', PStr ''approved'')],
     ar_actor_id = Some who, ar_actor_label = None, ar_occurred_at = 2000, ar_request_id = ''req-1'', ar_snapshot = None\<rparr>)"

definition demo_operation :: "nat approval_operation" where
  "demo_operation = \<lparr>ao_name = ''covenant.register'', ao_propose = REGISTER_COVENANT,
     ao_approve = APPROVE_COVENANT, ao_callback = (\<lambda>r c w. ok (w + 1, [demo_event c]))\<rparr>"

definition demo_env :: "nat approval_env" where
  "demo_env = \<lparr>ev_registry = [(''covenant.register'', demo_operation)],
     ev_settings = \<lparr>ms_expiry_window = 604800000000, ms_enabled = []\<rparr>,
     ev_hash = length_digest, ev_derive = (\<lambda>t. 0), ev_request_id = ''req-1''\<rparr>"

definition demo_principal :: "nat \<Rightarrow> permission set \<Rightarrow> nat option \<Rightarrow> principal" where
  "demo_principal i ps admin = \<lparr>p_id = i, p_permissions = ps, p_kind = USER, p_scopes = {}, p_acting_admin = admin,
     p_persona_code = map_option (\<lambda>a. ''analyst'') admin, p_persona_expires = map_option (\<lambda>a. 5000000) admin\<rparr>"

definition demo_start :: "nat approvals" where
  "demo_start = \<lparr>ap_table = [], ap_audit = [], ap_notices = [], ap_world = 0\<rparr>"

definition demo_request :: mc_request where
  "demo_request = \<lparr>mr_id = 100, mr_subject_type = ''covenant'', mr_subject_id = 7,
     mr_operation = ''covenant.register'', mr_payload = PMap [(PStr ''name'', PStr ''DSCR'')], mr_maker = 4,
     mr_checker = None, mr_state = PENDING, mr_created = 1000, mr_decided = None, mr_reason = None, mr_version = 1\<rparr>"

lemma demo_facts:
  "get_operation (ev_registry demo_env) (PStr ''covenant.register'') = ok demo_operation"
  "make_mc_request demo_request = ok demo_request"
  "is_enabled (ev_settings demo_env) ''covenant.register'' = ok True"
  "validated_subject_type (PStr ''covenant'') = ok ''covenant''"
  "normalise_value (PMap [(PStr ''name'', PStr ''DSCR'')]) = ok (JObj [(''name'', JStr ''DSCR'')])"
  "audit_text (PStr (ev_request_id demo_env)) 40 = ok ''req-1''"
proof -
  show "get_operation (ev_registry demo_env) (PStr ''covenant.register'') = ok demo_operation"
    unfolding get_operation_def demo_env_def
    by (simp add: validated_operation_idem [of "PStr ''covenant.register''"])
      (simp add: validated_operation_def operation_pattern_def is_letter_def is_digit_def strip_def is_space_def
        max_operation_length_def)
qed (code_simp+)

definition demo_submitted :: "nat option \<Rightarrow> nat approvals \<Rightarrow> bool" where
  "demo_submitted admin s = (submit demo_env 100 200 1000 (PStr ''covenant.register'')
     (PList [PStr ''covenant'', PUuid 7]) (mr_payload demo_request)
     (Principal (demo_principal 4 {REGISTER_COVENANT} admin)) demo_start = ok (demo_request, s))"

lemma demo_reachable_start: "approvals_reachable demo_env demo_start"
  unfolding demo_start_def by (rule approvals_reachable.Start)

lemma demo_submits: "\<exists>s. demo_submitted admin s"
proof -
  have subject: "subject_ref (PList [PStr ''covenant'', PUuid 7]) = ok (''covenant'', 7)"
    using demo_facts(4) by (simp add: subject_ref_def coerce_subject_uuid_def)
  have name: "ao_name demo_operation = ''covenant.register''" "ao_propose demo_operation = REGISTER_COVENANT"
    by (simp_all add: demo_operation_def)
  have made: "make_mc_request \<lparr>mr_id = 100, mr_subject_type = ''covenant'', mr_subject_id = 7,
      mr_operation = ao_name demo_operation, mr_payload = mr_payload demo_request,
      mr_maker = p_id (demo_principal 4 {REGISTER_COVENANT} admin), mr_checker = None, mr_state = PENDING,
      mr_created = 1000, mr_decided = None, mr_reason = None, mr_version = 1\<rparr> = ok demo_request"
    using demo_facts(2) by (simp add: demo_request_def demo_operation_def demo_principal_def)
  have payload: "normalise_value (mr_payload demo_request) = ok (JObj [(''name'', JStr ''DSCR'')])"
    using demo_facts(5) by (simp add: demo_request_def)
  have enabled: "is_enabled (ev_settings demo_env) (ao_name demo_operation) = ok True"
    unfolding name by (rule demo_facts(3))
  have propose: "ao_propose demo_operation \<in> p_permissions (demo_principal 4 {REGISTER_COVENANT} admin)"
    by (simp add: name demo_principal_def)
  have new: "100 \<notin> mr_id ` set (ap_table demo_start)" by (simp add: demo_start_def)
  show ?thesis unfolding demo_submitted_def
    by (rule submit_succeeds [OF good_reachable [OF demo_reachable_start] demo_facts(1) propose subject enabled
          made new payload demo_facts(6)])
qed

lemma demo_submitted_facts:
  assumes "demo_submitted admin s"
  shows "approvals_reachable demo_env s" and "ap_table s = [demo_request]" and "ap_world s = 0"
    and "find_request (ap_table s) 100 = Some demo_request"
proof -
  show "approvals_reachable demo_env s"
    using approvals_reachable.Step [OF demo_reachable_start]
      approvals_step.Submit [OF assms [unfolded demo_submitted_def]] .
  have op: "ao_name demo_operation = ''covenant.register''" by (simp add: demo_operation_def)
  have on: "enabled = True" if "is_enabled (ev_settings demo_env) (ao_name demo_operation) = ok enabled" for enabled
    using that unfolding op demo_facts(3) by simp
  from submit_effect [OF assms [unfolded demo_submitted_def] good_reachable [OF demo_reachable_start]]
  have "ap_table s = ap_table demo_start @ [demo_request] \<and> ap_world s = ap_world demo_start"
    using on unfolding demo_facts(1) by (metis Inr_inject)
  then show "ap_table s = [demo_request]" "ap_world s = 0" by (simp_all add: demo_start_def)
  then show "find_request (ap_table s) 100 = Some demo_request"
    by (simp add: find_request_def demo_request_def)
qed

theorem approvals_invariant_witness:
  "\<exists>s :: nat approvals. ap_table s = [demo_request] \<and> verify_chain (ev_hash demo_env) (chain_view (ap_audit s)) None None = ok None"
proof -
  obtain s where s: "demo_submitted None s" using demo_submits by blast
  note facts = demo_submitted_facts [OF s]
  note all = approvals_invariant [OF facts(1), THEN conjunct2, THEN conjunct2, THEN conjunct1]
  show ?thesis using facts(2) all by blast
qed

lemma demo_decision:
  "mr_state demo_request = PENDING"
  "get_operation (ev_registry demo_env) (PStr (mr_operation demo_request)) = ok demo_operation"
  "ao_approve demo_operation \<in> p_permissions (demo_principal 5 {APPROVE_COVENANT} admin)"
  "p_id (demo_principal 5 {APPROVE_COVENANT} admin) \<noteq> mr_maker demo_request"
  "2000 < mr_created demo_request + ms_expiry_window (ev_settings demo_env)"
  "validated_reason (\<not> True) PNone = ok None"
  "normalise_value (mr_payload demo_request) = ok (JObj [(''name'', JStr ''DSCR'')])"
proof -
  have "mr_operation demo_request = ''covenant.register''" by (simp add: demo_request_def)
  then show "get_operation (ev_registry demo_env) (PStr (mr_operation demo_request)) = ok demo_operation"
    using demo_facts(1) by simp
  show "normalise_value (mr_payload demo_request) = ok (JObj [(''name'', JStr ''DSCR'')])"
    using demo_facts(5) by (simp add: demo_request_def)
qed (simp_all add: demo_operation_def demo_principal_def demo_request_def demo_env_def validated_reason_def)

lemma demo_applies:
  assumes "approvals_reachable demo_env s"
  shows "\<exists>s1. apply_operation demo_env demo_operation r c s = ok s1"
proof -
  have log: "intact (ev_hash demo_env) (ap_audit s)" using good_reachable [OF assms] by (simp add: good_def)
  have "normalise_payload (ar_payload (snd (snd (demo_event c)))) = ok (JObj [(''action'', JStr ''approved'')])"
    unfolding demo_event_def by code_simp
  from table_append_total [OF log this, of 300]
  show ?thesis by (auto simp: apply_operation_def demo_operation_def write_events_def demo_event_def)
qed

definition demo_decides :: "nat option \<Rightarrow> nat approvals \<Rightarrow> mc_request \<Rightarrow> nat approvals \<Rightarrow> bool" where
  "demo_decides admin s r s' = (decide demo_env 201 2000 (PUuid 100)
     (Principal (demo_principal 5 {APPROVE_COVENANT} admin)) (PBool True) PNone s = ok (r, s'))"


lemma demo_decides_total:
  assumes "demo_submitted admin s"
  shows "\<exists>r s'. demo_decides admin' s r s' \<and> mr_state r = APPROVED"
proof -
  note facts = demo_submitted_facts [OF assms]
  from decide_total [OF good_reachable [OF facts(1)] facts(4) demo_decision(1-6) demo_applies [OF facts(1)]
      demo_decision(7) demo_facts(6)]
  obtain r s' where "demo_decides admin' s r s'" "mr_state r = (if True then APPROVED else REJECTED)"
    unfolding demo_decides_def by blast
  then show ?thesis by (intro exI conjI) (assumption | simp)+
qed

theorem decision_by_second_actor_witness:
  "\<exists>s r s' new e. demo_decides None s r s' \<and> mr_checker r = Some 5 \<and> ap_table s' = put_request r [demo_request]
     \<and> ap_audit s' = ap_audit s @ new @ [e] \<and> length new = 1"
proof -
  obtain s where s: "demo_submitted None s" using demo_submits by blast
  note facts = demo_submitted_facts [OF s]
  obtain r s' where out: "demo_decides None s r s'" using demo_decides_total [OF s] by blast
  have five: "actor_id ''checker'' (Principal (demo_principal 5 {APPROVE_COVENANT} None)) = ok 5"
    by (simp add: actor_id_def demo_principal_def)
  from decision_by_second_actor [OF facts(1) out [unfolded demo_decides_def]]
  obtain request d c yes new e where all: "find_request (ap_table s) (mr_id r) = Some request"
      "get_operation (ev_registry demo_env) (PStr (mr_operation request)) = ok d"
      "actor_id ''checker'' (Principal (demo_principal 5 {APPROVE_COVENANT} None)) = ok c" "mr_checker r = Some c"
      "ap_table s' = put_request r (ap_table s)" "ap_audit s' = ap_audit s @ new @ [e]" "PBool True = PBool yes"
      "if yes then \<exists>events. ao_callback d r c (ap_world s) = ok (ap_world s', events)
             \<and> write_events demo_env events (ap_audit s) = ok (ap_audit s @ new) \<and> length new = length events
       else ap_world s' = ap_world s \<and> new = []" by blast
  have "request = demo_request" using all(1) facts(2) by (simp add: find_request_def split: if_splits)
  then have "d = demo_operation" using all(2) demo_decision(2) by simp
  then have "length new = 1" using all(7,8) by (simp add: demo_operation_def)
  moreover have "mr_checker r = Some 5" using all(3,4) unfolding five by simp
  ultimately show ?thesis using out all(5,6) facts(2) by (intro exI conjI) (assumption | simp)+
qed

section \<open>Two limits of the workflow\<close>

text \<open>
  The distinct-actor rule compares identities, and an administrator who acts as two personas has
  two: the same human proposes the request as one and approves it as the other.
\<close>

lemma same_human_decides:
  "human_id (demo_principal 4 {REGISTER_COVENANT} (Some 9)) = human_id (demo_principal 5 {APPROVE_COVENANT} (Some 9))"
  "\<exists>s r s'. demo_submitted (Some 9) s \<and> demo_decides (Some 9) s r s' \<and> mr_state r = APPROVED"
proof -
  show "human_id (demo_principal 4 {REGISTER_COVENANT} (Some 9)) = human_id (demo_principal 5 {APPROVE_COVENANT} (Some 9))"
    by (simp add: human_id_def demo_principal_def)
  show "\<exists>s r s'. demo_submitted (Some 9) s \<and> demo_decides (Some 9) s r s' \<and> mr_state r = APPROVED"
    using demo_submits demo_decides_total by blast
qed

text \<open>
  A decision on an overdue request expires it and then raises; the unit of work rolls the expiry,
  its audit row and its notice back, so the request is still pending.
\<close>

lemma overdue_decision_not_recorded:
  assumes "good ev s" and "find_request (ap_table s) i = Some request" and "request_expired request now (ev_settings ev)"
  shows "\<exists>e. in_unit_of_work (decide ev eid now (PUuid i) checker approved reason) s = (raise e, s)"
proof (cases "decide ev eid now (PUuid i) checker approved reason s")
  case (Inr x)
  obtain r s' where x: "x = (r, s')" by (cases x)
  have "\<exists>q. find_request (ap_table s) i = Some q \<and> \<not> request_expired q now (ev_settings ev)"
    using decide_effect [OF Inr [unfolded x] assms(1)] by (auto simp: request_uuid_def)
  then show ?thesis using assms(2,3) by auto
qed (simp add: in_unit_of_work_def)

end
