(* ===== verification/Job_Ledger.thy ===== *)
theory Job_Ledger
  imports Py_Values
begin

text \<open>
  The job registry (\<open>scheduler/jobs.py\<close>) and the run ledger (\<open>scheduler/ledger.py\<close>). The table
  \<open>job_run\<close> is the list of its rows in insertion order; a statement of the adapter is a function on
  that list. Starting a run is serialised per job name by the advisory lock, so the check and the insert
  are one function; every transition out of \<open>running\<close> is the conditional update of the source, which
  reports the number of rows it hit. The primary key and a generated run identifier are arguments.
  Seconds are rational numbers; metrics and errors are the values the caller passes. The handler of a
  job is a parameter type: only the runner calls it.
\<close>

section \<open>Policies and definitions\<close>

datatype interruption_policy = RESUME | RESTART

record retry_policy =
  rp_max_attempts :: int
  rp_backoff :: rat

definition make_retry_policy :: "int \<Rightarrow> rat \<Rightarrow> retry_policy result" where
  "make_retry_policy max_attempts backoff =
     (if max_attempts < 1 then raise ValueError
      else if backoff < 0 then raise ValueError
      else ok \<lparr>rp_max_attempts = max_attempts, rp_backoff = backoff\<rparr>)"

record job_policy =
  jp_retry :: retry_policy
  jp_interruption :: interruption_policy
  jp_timeout :: rat

definition make_job_policy :: "retry_policy \<Rightarrow> interruption_policy \<Rightarrow> rat \<Rightarrow> job_policy result" where
  "make_job_policy retry interruption timeout =
     (if timeout \<le> 0 then raise ValueError
      else ok \<lparr>jp_retry = retry, jp_interruption = interruption, jp_timeout = timeout\<rparr>)"

record 'h job_definition =
  jd_name :: pyval
  jd_handler :: 'h
  jd_policy :: "job_policy option"
  jd_schedule :: "string option"

definition job_name :: "'h job_definition \<Rightarrow> string" where
  "job_name d = (case text_of (jd_name d) of Some n \<Rightarrow> n | None \<Rightarrow> [])"

section \<open>The registry\<close>

type_synonym 'h job_registry = "(string \<times> 'h job_definition) list"

definition max_name_length :: nat where "max_name_length = 100"

definition register_job :: "'h job_definition \<Rightarrow> 'h job_registry \<Rightarrow> ('h job_definition \<times> 'h job_registry) result" where
  "register_job d definitions =
     (let name = strip (job_name d) in
      if name = [] \<or> length name > max_name_length then raise (ValidationError ''name'')
      else if jd_policy d = None then raise (ValidationError ''policy'')
      else if has_key definitions name then raise (ValidationError ''name'')
      else ok (d, definitions @ [(name, d)]))"

definition get_job :: "'h job_registry \<Rightarrow> string \<Rightarrow> 'h job_definition result" where
  "get_job definitions name = (case lookup definitions name of Some d \<Rightarrow> ok d | None \<Rightarrow> raise NotFound)"

text \<open>Whatever sequence of registrations built it, a registry holds each name once, stripped, in
  bounds, with a declared policy: a job whose failure behaviour nobody decided is refused.\<close>

inductive registry_built :: "'h job_registry \<Rightarrow> bool" where
  Empty: "registry_built []"
| Register: "registry_built reg \<Longrightarrow> register_job d reg = ok (d', reg') \<Longrightarrow> registry_built reg'"

lemma register_job_ok:
  "register_job d reg = ok (d', reg') \<longleftrightarrow>
     strip (job_name d) \<noteq> [] \<and> length (strip (job_name d)) \<le> max_name_length \<and> jd_policy d \<noteq> None
     \<and> \<not> has_key reg (strip (job_name d)) \<and> d' = d \<and> reg' = reg @ [(strip (job_name d), d)]"
  by (auto simp: register_job_def Let_def)

lemma registry_built_sound:
  assumes "registry_built reg"
  shows "distinct (map fst reg) \<and> (\<forall>(name, d)\<in>set reg. name = strip (job_name d) \<and> name \<noteq> []
     \<and> length name \<le> max_name_length \<and> jd_policy d \<noteq> None)"
  using assms by induction (auto simp: register_job_ok has_key_iff)

lemma lookup_append:
  "lookup (xs @ ys) k = (case lookup xs k of Some v \<Rightarrow> Some v | None \<Rightarrow> lookup ys k)"
  by (induction xs) auto

lemma lookup_mem: "lookup xs k = Some v \<Longrightarrow> (k, v) \<in> set xs"
  by (simp add: lookup_def map_of_SomeD)

lemma get_job_registered:
  assumes "registry_built reg" and "get_job reg name = ok d"
  shows "name = strip (job_name d) \<and> (\<exists>p. jd_policy d = Some p)"
  using registry_built_sound [OF assms(1)] assms(2) lookup_mem [of reg name d]
  by (auto simp: get_job_def split: option.splits)

section \<open>The ledger\<close>

datatype run_state = RUNNING | SUCCEEDED | FAILED | INTERRUPTED | ABANDONED

record job_run =
  jr_id :: nat
  jr_name :: string
  jr_run_id :: string
  jr_trigger :: string
  jr_started :: int
  jr_finished :: "int option"
  jr_state :: run_state
  jr_attempt :: int
  jr_error :: "string option"
  jr_metrics :: "pyval option"
  jr_updated :: int
  jr_created_by :: "nat option"
  jr_request :: string

text \<open>The latest running row of a job. The order of rows that started at one instant is not
  specified by the statement; the first one is taken.\<close>

definition running_run :: "string \<Rightarrow> job_run list \<Rightarrow> job_run option" where
  "running_run name rows =
     (case filter (\<lambda>r. jr_name r = name \<and> jr_state r = RUNNING) rows of
        [] \<Rightarrow> None | r # rs \<Rightarrow> Some (max_key jr_started r rs))"

definition running_runs :: "job_run list \<Rightarrow> job_run list" where
  "running_runs rows = filter (\<lambda>r. jr_state r = RUNNING) rows"

definition start_or_refuse :: "'h job_definition \<Rightarrow> string \<Rightarrow> int \<Rightarrow> string \<Rightarrow> string option \<Rightarrow> int
    \<Rightarrow> nat option \<Rightarrow> nat \<Rightarrow> string \<Rightarrow> job_run list \<Rightarrow> (job_run \<times> job_run list) result" where
  "start_or_refuse d trigger started request run_id attempt created_by new_id new_run_id rows =
     (if attempt < 1 then raise ValueError
      else case running_run (job_name d) rows of
        Some existing \<Rightarrow> raise (Conflict ''already_running'')
      | None \<Rightarrow>
        let run = \<lparr>jr_id = new_id, jr_name = job_name d,
              jr_run_id = (case run_id of Some (c # cs) \<Rightarrow> c # cs | _ \<Rightarrow> new_run_id),
              jr_trigger = trigger, jr_started = started, jr_finished = None, jr_state = RUNNING,
              jr_attempt = attempt, jr_error = None, jr_metrics = None, jr_updated = started,
              jr_created_by = created_by, jr_request = request\<rparr>
        in ok (run, rows @ [run]))"

definition get_run :: "nat \<Rightarrow> job_run list \<Rightarrow> job_run option" where
  "get_run i rows = find (\<lambda>r. jr_id r = i) rows"

text \<open>\<open>UPDATE job_run SET ... WHERE id = i AND state = 'running'\<close>, with its row count.\<close>

definition transition_run :: "nat \<Rightarrow> run_state \<Rightarrow> int \<Rightarrow> string option \<Rightarrow> pyval option \<Rightarrow> job_run list
    \<Rightarrow> job_run option \<times> job_run list" where
  "transition_run i state finished error metrics rows =
     (let hit = (\<lambda>r. jr_id r = i \<and> jr_state r = RUNNING);
          rows' = map (\<lambda>r. if hit r then r\<lparr>jr_state := state, jr_finished := Some finished, jr_error := error,
                    jr_metrics := metrics, jr_updated := finished\<rparr> else r) rows
      in if length (filter hit rows) \<noteq> 1 then (None, rows') else (get_run i rows', rows'))"

definition succeed_run :: "nat \<Rightarrow> int \<Rightarrow> pyval option \<Rightarrow> job_run list \<Rightarrow> job_run option \<times> job_run list" where
  "succeed_run i finished metrics rows = transition_run i SUCCEEDED finished None metrics rows"

definition fail_run :: "nat \<Rightarrow> int \<Rightarrow> string \<Rightarrow> job_run list \<Rightarrow> job_run option \<times> job_run list" where
  "fail_run i finished error rows = transition_run i FAILED finished (Some error) None rows"

definition interrupt_run :: "nat \<Rightarrow> int \<Rightarrow> job_run list \<Rightarrow> job_run option \<times> job_run list" where
  "interrupt_run i finished rows =
     transition_run i INTERRUPTED finished (Some ''Interrupted by a scheduler restart.'') None rows"

definition abandon_run :: "nat \<Rightarrow> int \<Rightarrow> job_run list \<Rightarrow> job_run option \<times> job_run list" where
  "abandon_run i finished rows = transition_run i ABANDONED finished
     (Some ''Abandoned at graceful shutdown: exceeded the shutdown grace period.'') None rows"

section \<open>What the ledger keeps\<close>

text \<open>A row is open exactly while it is running; the job of a running row has no other. A row that
  was closed never changes, and a running row only ever changes by being closed.\<close>

definition run_ok :: "job_run \<Rightarrow> bool" where
  "run_ok r \<longleftrightarrow> 1 \<le> jr_attempt r \<and> jr_run_id r \<noteq> [] \<and> (jr_state r = RUNNING \<longleftrightarrow> jr_finished r = None)
     \<and> (jr_state r = RUNNING \<longrightarrow> jr_error r = None \<and> jr_metrics r = None)"

definition single_running :: "job_run list \<Rightarrow> bool" where
  "single_running rows \<longleftrightarrow> (\<forall>q\<in>set rows. \<forall>r\<in>set rows.
     jr_state q = RUNNING \<and> jr_state r = RUNNING \<and> jr_name q = jr_name r \<longrightarrow> q = r)"

definition ledger_ok :: "job_run list \<Rightarrow> bool" where
  "ledger_ok rows \<longleftrightarrow> distinct (map jr_id rows) \<and> single_running rows \<and> (\<forall>r\<in>set rows. run_ok r)"

definition close_run :: "run_state \<Rightarrow> int \<Rightarrow> string option \<Rightarrow> pyval option \<Rightarrow> job_run \<Rightarrow> job_run" where
  "close_run state finished error metrics r = r\<lparr>jr_state := state, jr_finished := Some finished,
     jr_error := error, jr_metrics := metrics, jr_updated := finished\<rparr>"

definition run_extends :: "job_run \<Rightarrow> job_run \<Rightarrow> bool" where
  "run_extends q r \<longleftrightarrow> r = q \<or> jr_state q = RUNNING
     \<and> (\<exists>state finished error metrics. state \<noteq> RUNNING \<and> r = close_run state finished error metrics q)"

definition ledger_extends :: "job_run list \<Rightarrow> job_run list \<Rightarrow> bool" where
  "ledger_extends rows rows' \<longleftrightarrow> (\<exists>kept new. rows' = kept @ new \<and> list_all2 run_extends rows kept)"

lemma run_extends_refl [simp]: "run_extends r r"
  by (simp add: run_extends_def)

lemma close_run_fields [simp]:
  "jr_id (close_run state finished error metrics r) = jr_id r"
  "jr_name (close_run state finished error metrics r) = jr_name r"
  "jr_run_id (close_run state finished error metrics r) = jr_run_id r"
  "jr_attempt (close_run state finished error metrics r) = jr_attempt r"
  "jr_trigger (close_run state finished error metrics r) = jr_trigger r"
  "jr_state (close_run state finished error metrics r) = state"
  "jr_finished (close_run state finished error metrics r) = Some finished"
  by (simp_all add: close_run_def)

lemma run_extends_fields:
  "run_extends q r \<Longrightarrow> jr_id r = jr_id q \<and> jr_name r = jr_name q \<and> jr_run_id r = jr_run_id q
     \<and> jr_attempt r = jr_attempt q \<and> jr_trigger r = jr_trigger q \<and> (jr_state q \<noteq> RUNNING \<longrightarrow> r = q)"
  by (auto simp: run_extends_def)

lemma list_all2_run_extends_refl [simp]: "list_all2 run_extends rows rows"
  by (rule list.rel_refl) simp

lemma ledger_extends_append [simp]: "ledger_extends rows (rows @ new)"
  unfolding ledger_extends_def using list_all2_run_extends_refl by blast

lemma ledger_extends_refl [simp]: "ledger_extends rows rows"
  using ledger_extends_append [of rows "[]"] by simp

lemma ledger_extends_row:
  assumes "ledger_extends rows rows'" and "q \<in> set rows"
  shows "\<exists>r\<in>set rows'. run_extends q r"
proof -
  obtain kept new where "rows' = kept @ new" and all2: "list_all2 run_extends rows kept"
    using assms(1) by (auto simp: ledger_extends_def)
  moreover obtain i where "i < length rows" and "rows ! i = q" using assms(2) by (auto simp: in_set_conv_nth)
  ultimately show ?thesis using list_all2_lengthD [OF all2] list_all2_nthD [OF all2, of i] by auto
qed

lemma running_run_None:
  "running_run name rows = None \<longleftrightarrow> (\<forall>r\<in>set rows. \<not> (jr_name r = name \<and> jr_state r = RUNNING))"
  unfolding running_run_def
  by (cases "filter (\<lambda>r. jr_name r = name \<and> jr_state r = RUNNING) rows")
    (auto simp: filter_empty_conv filter_eq_Cons_iff)

lemma running_run_Some:
  assumes "running_run name rows = Some r"
  shows "r \<in> set rows \<and> jr_name r = name \<and> jr_state r = RUNNING"
proof -
  obtain q qs where rows: "filter (\<lambda>r. jr_name r = name \<and> jr_state r = RUNNING) rows = q # qs"
      and "r = max_key jr_started q qs"
    using assms by (auto simp: running_run_def split: list.splits)
  then have "r \<in> set (filter (\<lambda>r. jr_name r = name \<and> jr_state r = RUNNING) rows)"
    using max_key_in_Cons [of jr_started q qs] by simp
  then show ?thesis by simp
qed

lemma start_or_refuse_ok:
  "start_or_refuse d trigger started request run_id attempt by_id new_id new_run_id rows = ok (run, rows')
   \<longleftrightarrow> 1 \<le> attempt \<and> running_run (job_name d) rows = None \<and> rows' = rows @ [run]
     \<and> run = \<lparr>jr_id = new_id, jr_name = job_name d,
              jr_run_id = (case run_id of Some (c # cs) \<Rightarrow> c # cs | _ \<Rightarrow> new_run_id),
              jr_trigger = trigger, jr_started = started, jr_finished = None, jr_state = RUNNING,
              jr_attempt = attempt, jr_error = None, jr_metrics = None, jr_updated = started,
              jr_created_by = by_id, jr_request = request\<rparr>"
  by (auto simp: start_or_refuse_def Let_def split: option.splits)

lemma start_keeps_ledger:
  assumes "start_or_refuse d trigger started request run_id attempt by_id new_id new_run_id rows = ok (run, rows')"
    and "ledger_ok rows" and "new_id \<notin> jr_id ` set rows" and "new_run_id \<noteq> []"
  shows "ledger_ok rows' \<and> ledger_extends rows rows'"
proof -
  from assms(1) have rows': "rows' = rows @ [run]" and "1 \<le> attempt"
    and none: "\<forall>r\<in>set rows. \<not> (jr_name r = jr_name run \<and> jr_state r = RUNNING)"
    and new: "jr_id run = new_id" "jr_attempt run = attempt" "jr_state run = RUNNING" "jr_finished run = None"
      "jr_error run = None" "jr_metrics run = None"
      "jr_run_id run = (case run_id of Some (c # cs) \<Rightarrow> c # cs | _ \<Rightarrow> new_run_id)"
    unfolding start_or_refuse_ok running_run_None by simp_all
  have "run_ok run" using new \<open>1 \<le> attempt\<close> assms(4) by (simp add: run_ok_def split: option.splits list.splits)
  moreover have "single_running (rows @ [run])"
    using assms(2) none unfolding ledger_ok_def single_running_def by fastforce
  ultimately show ?thesis using assms(2,3) new(1) by (simp add: ledger_ok_def rows')
qed

lemma get_run_Some: "get_run i rows = Some r \<Longrightarrow> r \<in> set rows \<and> jr_id r = i"
  by (auto simp: get_run_def find_Some_iff)

lemma get_run_unique:
  "distinct (map jr_id rows) \<Longrightarrow> r \<in> set rows \<Longrightarrow> get_run (jr_id r) rows = Some r"
  by (induction rows) (auto simp: get_run_def rev_image_eqI)

definition put_run :: "job_run \<Rightarrow> job_run list \<Rightarrow> job_run list" where
  "put_run r rows = map (\<lambda>q. if jr_id q = jr_id r then r else q) rows"

lemma hit_unique:
  "distinct (map jr_id rows) \<Longrightarrow> r \<in> set rows \<Longrightarrow> jr_state r = RUNNING \<Longrightarrow>
   filter (\<lambda>q. jr_id q = jr_id r \<and> jr_state q = RUNNING) rows = [r]"
proof (induction rows)
  case (Cons q rows)
  show ?case
  proof (cases "q = r")
    case True
    then have "filter (\<lambda>q. jr_id q = jr_id r \<and> jr_state q = RUNNING) rows = []"
      using Cons.prems(1) by (auto simp: filter_empty_conv rev_image_eqI)
    then show ?thesis using True Cons.prems(3) by simp
  next
    case False
    then have "r \<in> set rows" and "jr_id q \<noteq> jr_id r" using Cons.prems(1,2) by force+
    then show ?thesis using Cons.IH Cons.prems by simp
  qed
qed simp

lemma transition_hit:
  assumes "ledger_ok rows" and "r \<in> set rows" and "jr_state r = RUNNING"
  shows "transition_run (jr_id r) state finished error metrics rows
     = (Some (close_run state finished error metrics r), put_run (close_run state finished error metrics r) rows)"
proof -
  let ?r = "close_run state finished error metrics r"
  have ids: "distinct (map jr_id rows)" using assms(1) by (simp add: ledger_ok_def)
  have same: "q = r" if "q \<in> set rows" "jr_id q = jr_id r" for q
    using ids that assms(2) by (auto simp: distinct_map inj_on_def)
  have rows': "map (\<lambda>q. if jr_id q = jr_id r \<and> jr_state q = RUNNING then q\<lparr>jr_state := state,
      jr_finished := Some finished, jr_error := error, jr_metrics := metrics, jr_updated := finished\<rparr> else q) rows
      = put_run ?r rows"
    using same assms(3) by (auto simp: put_run_def close_run_def)
  have "?r \<in> set (put_run ?r rows)" using assms(2) by (force simp: put_run_def close_run_def)
  moreover have "map jr_id (put_run ?r rows) = map jr_id rows" by (auto simp: put_run_def close_run_def)
  ultimately have "get_run (jr_id r) (put_run ?r rows) = Some ?r"
    using get_run_unique [of "put_run ?r rows" ?r] ids by (simp add: close_run_def)
  then show ?thesis
    using hit_unique [OF ids assms(2,3)] rows' by (simp add: transition_run_def Let_def)
qed

lemma transition_miss:
  assumes "\<And>r. r \<in> set rows \<Longrightarrow> jr_id r = i \<Longrightarrow> jr_state r \<noteq> RUNNING"
  shows "transition_run i state finished error metrics rows = (None, rows)"
proof -
  have "filter (\<lambda>r. jr_id r = i \<and> jr_state r = RUNNING) rows = []"
    using assms by (auto simp: filter_empty_conv)
  moreover have "map (\<lambda>r. if jr_id r = i \<and> jr_state r = RUNNING then f r else r) rows = rows" for f
    using assms by (intro map_idI) auto
  ultimately show ?thesis by (simp add: transition_run_def Let_def)
qed

lemma put_closed_keeps_ledger:
  assumes "ledger_ok rows" and "r \<in> set rows" and "jr_state r = RUNNING" and "state \<noteq> RUNNING"
  shows "ledger_ok (put_run (close_run state finished error metrics r) rows)
    \<and> ledger_extends rows (put_run (close_run state finished error metrics r) rows)"
proof -
  let ?r = "close_run state finished error metrics r"
  have closed: "jr_id ?r = jr_id r" "jr_name ?r = jr_name r" "jr_state ?r = state" "run_extends r ?r"
    using assms(3,4) unfolding run_extends_def by (simp, simp, simp, blast)
  have ids: "map jr_id (put_run ?r rows) = map jr_id rows" by (simp add: put_run_def closed)
  have row: "q \<in> set rows \<or> q = ?r" if "q \<in> set (put_run ?r rows)" for q
    using that by (auto simp: put_run_def split: if_splits)
  have same: "q = r" if "q \<in> set rows" "jr_id q = jr_id r" for q
    using assms(1,2) that by (auto simp: ledger_ok_def distinct_map inj_on_def)
  have "run_ok ?r" using assms by (auto simp: ledger_ok_def run_ok_def close_run_def)
  then have rows: "\<forall>q\<in>set (put_run ?r rows). run_ok q"
    using row assms(1) by (auto simp: ledger_ok_def)
  have "single_running (put_run ?r rows)"
    unfolding single_running_def
  proof (intro ballI impI)
    fix p q
    assume p: "p \<in> set (put_run ?r rows)" and q: "q \<in> set (put_run ?r rows)"
      and run: "jr_state p = RUNNING \<and> jr_state q = RUNNING \<and> jr_name p = jr_name q"
    from run assms(4) closed(3) have "p \<noteq> ?r" "q \<noteq> ?r" by auto
    then have "p \<in> set rows" "q \<in> set rows" using row p q by auto
    then show "p = q" using assms(1) run unfolding ledger_ok_def single_running_def by blast
  qed
  then have "ledger_ok (put_run ?r rows)" using assms(1) ids rows by (simp add: ledger_ok_def)
  moreover have "list_all2 run_extends rows (put_run ?r rows)"
    using same closed by (auto simp: put_run_def list_all2_map2 intro!: list.rel_refl_strong)
  ultimately show ?thesis by (auto simp: ledger_extends_def)
qed

lemma transition_cases:
  assumes "ledger_ok rows"
  obtains (Hit) r where "r \<in> set rows" and "jr_id r = i" and "jr_state r = RUNNING"
      and "transition_run i state finished error metrics rows
        = (Some (close_run state finished error metrics r), put_run (close_run state finished error metrics r) rows)"
  | (Miss) "\<forall>r\<in>set rows. jr_id r = i \<longrightarrow> jr_state r \<noteq> RUNNING"
      and "transition_run i state finished error metrics rows = (None, rows)"
proof (cases "\<exists>r\<in>set rows. jr_id r = i \<and> jr_state r = RUNNING")
  case True
  then show ?thesis using Hit transition_hit [OF assms] by metis
next
  case False
  then show ?thesis using Miss transition_miss [of rows i] by metis
qed

lemma run_extends_trans: "run_extends p q \<Longrightarrow> run_extends q r \<Longrightarrow> run_extends p r"
  by (auto simp: run_extends_def)

lemma ledger_extends_trans:
  assumes "ledger_extends a b" and "ledger_extends b c"
  shows "ledger_extends a c"
proof -
  obtain kept new where b: "b = kept @ new" and ab: "list_all2 run_extends a kept"
    using assms(1) by (auto simp: ledger_extends_def)
  obtain kept' new' where c: "c = kept' @ new'" and bc: "list_all2 run_extends (kept @ new) kept'"
    using assms(2) unfolding ledger_extends_def b by blast
  obtain us vs where "kept' = us @ vs" and "list_all2 run_extends kept us"
    using bc by (auto simp: list_all2_append1)
  moreover from this ab have "list_all2 run_extends a us"
    using list_all2_trans [of run_extends run_extends run_extends a kept us] run_extends_trans by blast
  ultimately show ?thesis unfolding ledger_extends_def c by (metis append.assoc)
qed

text \<open>A transition closes at most its own row.\<close>

lemma transition_sound:
  assumes "ledger_ok rows" and "state \<noteq> RUNNING"
    and "transition_run i state finished error metrics rows = (result, rows')"
  shows "ledger_ok rows' \<and> ledger_extends rows rows' \<and> jr_id ` set rows' = jr_id ` set rows
    \<and> (\<forall>r\<in>set rows'. jr_state r = RUNNING \<longrightarrow> r \<in> set rows \<and> jr_id r \<noteq> i)
    \<and> (\<forall>r. result = Some r \<longrightarrow> r \<in> set rows' \<and> jr_id r = i \<and> jr_state r = state)"
  using assms(1)
proof (cases rule: transition_cases [where i = i and state = state and finished = finished and error = error and metrics = metrics])
  case (Hit r)
  let ?r = "close_run state finished error metrics r"
  have rows': "rows' = put_run ?r rows" "result = Some ?r" using Hit(4) assms(3) by simp_all
  have "?r \<in> set rows'" using Hit(1) by (force simp: rows' put_run_def)
  moreover have "map jr_id rows' = map jr_id rows" by (simp add: rows' put_run_def)
  then have "jr_id ` set rows' = jr_id ` set rows" by (metis set_map)
  moreover have "\<forall>q\<in>set rows'. jr_state q = RUNNING \<longrightarrow> q \<in> set rows \<and> jr_id q \<noteq> i"
    using assms(2) Hit(2) by (auto simp: rows' put_run_def)
  ultimately show ?thesis
    using put_closed_keeps_ledger [OF assms(1) Hit(1,3) assms(2)] Hit(2) by (simp add: rows')
next
  case Miss
  then show ?thesis using assms by auto
qed

end
