(* ===== verification/Job_Runner.thy ===== *)
theory Job_Runner
  imports Job_Ledger
begin

text \<open>
  The job runner (\<open>scheduler/runner.py\<close>) on top of the ledger. \<open>apply_terminal\<close> is one finaliser;
  the worker thread, the caller's timeout and a shutdown race to call it. \<open>run_now\<close> follows one
  logical trigger through its retries, with what each attempt meets (clock, generated identifiers, the
  order in which its finalisers reach the ledger, whether a shutdown has begun) given by the
  environment. \<open>system_step\<close> interleaves any number of triggers, workers, timeouts, one shutdown and
  hard restarts, a database transaction being one step.
\<close>

section \<open>Finalising an attempt\<close>

text \<open>How an attempt ends: the handler returns or raises (the text of the error), the caller stops
  waiting, or a shutdown abandons it.\<close>

datatype ending = Returned pyval | Raised string | Timed_out string | Abandoned

definition finalise_with :: "nat \<Rightarrow> int \<Rightarrow> ending \<Rightarrow> job_run list \<Rightarrow> job_run option \<times> job_run list" where
  "finalise_with i now e rows = (case e of
     Returned metrics \<Rightarrow> succeed_run i now (if is_mapping metrics then Some metrics else None) rows
   | Raised message \<Rightarrow> fail_run i now message rows
   | Timed_out message \<Rightarrow> fail_run i now message rows
   | Abandoned \<Rightarrow> abandon_run i now rows)"

definition apply_terminal :: "nat \<Rightarrow> int \<Rightarrow> ending \<Rightarrow> job_run list \<Rightarrow> (job_run \<times> job_run list) result" where
  "apply_terminal i now e rows =
     (case finalise_with i now e rows of
        (Some run, rows') \<Rightarrow> ok (run, rows')
      | (None, rows') \<Rightarrow> (case get_run i rows' of Some run \<Rightarrow> ok (run, rows') | None \<Rightarrow> raise RuntimeError))"

text \<open>The finalisers of one attempt, in the order they reach the ledger; each reports a row and the
  caller returns what the last one reported.\<close>

fun apply_terminals :: "nat \<Rightarrow> (int \<times> ending) list \<Rightarrow> job_run \<times> job_run list \<Rightarrow> (job_run \<times> job_run list) result" where
  "apply_terminals i [] (run, rows) = ok (run, rows)"
| "apply_terminals i ((now, e) # es) (run, rows) = rbind (apply_terminal i now e rows) (apply_terminals i es)"

section \<open>The race of finalisers as an interface\<close>

text \<open>What the runner relies on: a finaliser closes an open record and reports it, and reports a
  loss, changing nothing, when the record is closed. Then the first finaliser decides.\<close>

locale finalisation =
  fixes finish :: "'k \<Rightarrow> 'e \<Rightarrow> 'l \<Rightarrow> 'r option \<times> 'l"
    and get :: "'k \<Rightarrow> 'l \<Rightarrow> 'r option"
    and closed :: "'r \<Rightarrow> bool"
    and valid :: "'l \<Rightarrow> bool"
  assumes finish_open: "valid l \<Longrightarrow> get i l = Some r \<Longrightarrow> \<not> closed r \<Longrightarrow>
      \<exists>r' l'. finish i e l = (Some r', l') \<and> get i l' = Some r' \<and> closed r' \<and> valid l'"
    and finish_closed: "valid l \<Longrightarrow> get i l = Some r \<Longrightarrow> closed r \<Longrightarrow> finish i e l = (None, l)"
begin

definition report :: "'k \<Rightarrow> 'e \<Rightarrow> 'l \<Rightarrow> ('r \<times> 'l) option" where
  "report i e l = (case finish i e l of (Some r, l') \<Rightarrow> Some (r, l')
     | (None, l') \<Rightarrow> map_option (\<lambda>r. (r, l')) (get i l'))"

primrec reports :: "'k \<Rightarrow> 'e list \<Rightarrow> 'r \<times> 'l \<Rightarrow> ('r \<times> 'l) option" where
  "reports i [] s = Some s"
| "reports i (e # es) s = Option.bind (report i e (snd s)) (reports i es)"

lemma report_closed:
  assumes "valid l" and "get i l = Some r" and "closed r"
  shows "report i e l = Some (r, l)"
  using finish_closed [OF assms] assms(2) by (simp add: report_def)

lemma reports_closed:
  assumes "valid l" and "get i l = Some r" and "closed r"
  shows "reports i es (r, l) = Some (r, l)"
  by (induction es) (simp_all add: report_closed [OF assms])

lemma first_wins:
  assumes "valid l" and "get i l = Some r" and "\<not> closed r"
  shows "\<exists>r' l'. finish i e l = (Some r', l') \<and> closed r' \<and> valid l' \<and> get i l' = Some r'
     \<and> reports i (e # es) (r, l) = Some (r', l')"
proof -
  obtain r' l' where first: "finish i e l = (Some r', l')" "get i l' = Some r'" "closed r'" "valid l'"
    using finish_open [OF assms] by blast
  then have "reports i es (r', l') = Some (r', l')" by (intro reports_closed)
  with first show ?thesis by (auto simp: report_def)
qed

end

definition run_closed :: "job_run \<Rightarrow> bool" where
  "run_closed r \<longleftrightarrow> jr_state r \<noteq> RUNNING"

definition ending_state :: "ending \<Rightarrow> run_state" where
  "ending_state e = (case e of Returned m \<Rightarrow> SUCCEEDED | Raised m \<Rightarrow> FAILED | Timed_out m \<Rightarrow> FAILED
     | Abandoned \<Rightarrow> ABANDONED)"

definition ended :: "int \<Rightarrow> ending \<Rightarrow> job_run \<Rightarrow> job_run" where
  "ended now e r = close_run (ending_state e) now
     (case e of Returned m \<Rightarrow> None | Raised m \<Rightarrow> Some m | Timed_out m \<Rightarrow> Some m
      | Abandoned \<Rightarrow> Some ''Abandoned at graceful shutdown: exceeded the shutdown grace period.'')
     (case e of Returned m \<Rightarrow> if is_mapping m then Some m else None | _ \<Rightarrow> None) r"

lemma ended_fields [simp]:
  "jr_id (ended now e r) = jr_id r" "jr_name (ended now e r) = jr_name r"
  "jr_run_id (ended now e r) = jr_run_id r" "jr_attempt (ended now e r) = jr_attempt r"
  "jr_trigger (ended now e r) = jr_trigger r" "jr_state (ended now e r) = ending_state e"
  by (simp_all add: ended_def)

lemma ending_state_closed [simp]: "ending_state e \<noteq> RUNNING"
  by (simp add: ending_state_def split: ending.split)

lemma finalise_transition:
  "\<exists>error metrics. (\<forall>r. ended now e r = close_run (ending_state e) now error metrics r)
     \<and> (\<forall>rows. finalise_with i now e rows = transition_run i (ending_state e) now error metrics rows)"
  by (cases e) (auto simp: ended_def ending_state_def finalise_with_def succeed_run_def fail_run_def abandon_run_def)

lemma get_run_mem:
  assumes "ledger_ok rows"
  shows "get_run i rows = Some r \<longleftrightarrow> r \<in> set rows \<and> jr_id r = i"
  using assms get_run_unique [of rows r] get_run_Some [of i rows r] by (auto simp: ledger_ok_def)

lemma finalise_hit:
  assumes "ledger_ok rows" and "r \<in> set rows" and "jr_state r = RUNNING"
  shows "finalise_with (jr_id r) now e rows = (Some (ended now e r), put_run (ended now e r) rows)"
    and "ledger_ok (put_run (ended now e r) rows)" and "ledger_extends rows (put_run (ended now e r) rows)"
    and "get_run (jr_id r) (put_run (ended now e r) rows) = Some (ended now e r)"
proof -
  obtain error metrics where e: "ended now e r = close_run (ending_state e) now error metrics r"
      "finalise_with (jr_id r) now e rows = transition_run (jr_id r) (ending_state e) now error metrics rows"
    using finalise_transition by metis
  show "finalise_with (jr_id r) now e rows = (Some (ended now e r), put_run (ended now e r) rows)"
    unfolding e by (rule transition_hit [OF assms])
  show valid: "ledger_ok (put_run (ended now e r) rows)"
    and "ledger_extends rows (put_run (ended now e r) rows)"
    unfolding e(1) using put_closed_keeps_ledger [OF assms ending_state_closed] by simp_all
  have "ended now e r \<in> set (put_run (ended now e r) rows)" using assms(2) by (force simp: put_run_def)
  then show "get_run (jr_id r) (put_run (ended now e r) rows) = Some (ended now e r)"
    using get_run_mem [OF valid] by simp
qed

lemma finalise_miss:
  assumes "\<forall>r\<in>set rows. jr_id r = i \<longrightarrow> jr_state r \<noteq> RUNNING"
  shows "finalise_with i now e rows = (None, rows)"
proof -
  obtain error metrics where e: "finalise_with i now e rows = transition_run i (ending_state e) now error metrics rows"
    using finalise_transition [of now e i] by blast
  show ?thesis unfolding e by (rule transition_miss) (use assms in blast)
qed

interpretation job_runs: finalisation "\<lambda>i (now, e). finalise_with i now e" get_run run_closed ledger_ok
proof (unfold_locales, goal_cases)
  case (1 l i r e)
  obtain now d where e: "e = (now, d)" by (cases e)
  from 1 have "r \<in> set l" "jr_id r = i" "jr_state r = RUNNING"
    using get_run_mem by (auto simp: run_closed_def)
  then show ?case using finalise_hit [OF 1(1), of r now d] by (auto simp: e run_closed_def)
next
  case (2 l i r e)
  then have "\<forall>q\<in>set l. jr_id q = i \<longrightarrow> jr_state q \<noteq> RUNNING"
    using get_run_mem [OF 2(1)] by (metis option.inject run_closed_def)
  then show ?case using finalise_miss by (cases e) simp
qed

lemma apply_terminal_report:
  "apply_terminal i now e rows = (case job_runs.report i (now, e) rows of Some x \<Rightarrow> ok x | None \<Rightarrow> raise RuntimeError)"
  by (auto simp: apply_terminal_def job_runs.report_def split: prod.splits option.splits)

lemma apply_terminals_reports:
  "job_runs.reports i es s = Some x \<Longrightarrow> apply_terminals i es s = ok x"
proof (induction es arbitrary: s)
  case (Cons e es)
  obtain now d run rows where es: "e = (now, d)" "s = (run, rows)" by (cases e, cases s)
  from Cons.prems obtain y where "job_runs.report i (now, d) rows = Some y" "job_runs.reports i es y = Some x"
    by (auto simp: es bind_eq_Some_conv)
  then show ?case using Cons.IH by (simp add: es apply_terminal_report)
qed (cases x, simp)

text \<open>The first finaliser of a running row decides what every later one reports.\<close>

lemma first_finaliser:
  assumes "ledger_ok rows" and "r \<in> set rows" and "jr_state r = RUNNING"
  shows "apply_terminals (jr_id r) ((now, e) # es) (r, rows) = ok (ended now e r, put_run (ended now e r) rows)"
proof -
  have "get_run (jr_id r) rows = Some r" using get_run_mem [OF assms(1)] assms(2) by simp
  from job_runs.first_wins [OF assms(1) this, of "(now, e)" es] assms(3)
  have "job_runs.reports (jr_id r) ((now, e) # es) (r, rows) = Some (ended now e r, put_run (ended now e r) rows)"
    using finalise_hit(1) [OF assms, of now e] by (auto simp: run_closed_def)
  then show ?thesis by (rule apply_terminals_reports)
qed

section \<open>One trigger and its retries\<close>

text \<open>What the environment supplies when the \<open>n\<close>-th row of the ledger is about to be started: whether a
  shutdown has begun, the generated identifiers, the clock, and the finalisers of that attempt.
  \<open>as_of\<close> and the borrower only reach the handler, whose behaviour is in the environment; the sleep
  between attempts has no effect on the ledger.\<close>

record attempt_env =
  ae_closing :: bool
  ae_id :: nat
  ae_run_id :: string
  ae_request :: string
  ae_started :: int
  ae_endings :: "(int \<times> ending) list"

definition start_attempt :: "attempt_env \<Rightarrow> 'h job_definition \<Rightarrow> string \<Rightarrow> string option \<Rightarrow> int \<Rightarrow> nat option
    \<Rightarrow> job_run list \<Rightarrow> (job_run \<times> job_run list) result" where
  "start_attempt ae d trigger run_id attempt actor rows =
     start_or_refuse d trigger (ae_started ae) (ae_request ae) run_id attempt actor (ae_id ae) (ae_run_id ae) rows"

definition execute_attempt :: "attempt_env \<Rightarrow> job_run \<Rightarrow> job_run list \<Rightarrow> (job_run \<times> job_run list) result" where
  "execute_attempt ae run rows = apply_terminals (jr_id run) (ae_endings ae) (run, rows)"

definition attempts_left :: "'h job_registry \<Rightarrow> string \<Rightarrow> int \<Rightarrow> nat" where
  "attempts_left registry name attempt = (case lookup registry name of None \<Rightarrow> 0
     | Some d \<Rightarrow> (case jd_policy d of None \<Rightarrow> 0 | Some p \<Rightarrow> nat (rp_max_attempts (jp_retry p) - attempt)))"

text \<open>The rows survive an exception: each attempt commits in its own session.\<close>

function run_now :: "(nat \<Rightarrow> attempt_env) \<Rightarrow> 'h job_registry \<Rightarrow> string \<Rightarrow> string \<Rightarrow> string option \<Rightarrow> int
    \<Rightarrow> nat option \<Rightarrow> job_run list \<Rightarrow> job_run result \<times> job_run list" where
  "run_now env registry name trigger run_id attempt actor rows =
     (let ae = env (length rows) in
      if ae_closing ae then (raise (Conflict ''shutting_down''), rows) else
      case lookup registry name of None \<Rightarrow> (raise NotFound, rows) | Some d \<Rightarrow>
      case jd_policy d of None \<Rightarrow> (raise RuntimeError, rows) | Some policy \<Rightarrow>
      case start_attempt ae d trigger run_id attempt actor rows of Inl e \<Rightarrow> (raise e, rows) | Inr (run, started) \<Rightarrow>
      case execute_attempt ae run started of Inl e \<Rightarrow> (raise e, started) | Inr (outcome, rows') \<Rightarrow>
      if jr_state outcome = FAILED \<and> attempt < rp_max_attempts (jp_retry policy)
      then run_now env registry name ''retry'' (Some (jr_run_id run)) (attempt + 1) actor rows'
      else (ok outcome, rows'))"
  by pat_completeness auto

termination
  by (relation "measure (\<lambda>(env, registry, name, trigger, run_id, attempt, actor, rows).
        attempts_left registry name attempt)") (auto simp: attempts_left_def)

declare run_now.simps [simp del]

text \<open>What a run of attempts leaves: consecutive attempts of one job under one run identifier, all of
  them closed, every one but the last failed, the first with the trigger given.\<close>

definition attempts_of :: "string \<Rightarrow> string \<Rightarrow> int \<Rightarrow> job_run list \<Rightarrow> bool" where
  "attempts_of name run_id first runs \<longleftrightarrow> runs \<noteq> []
     \<and> map jr_attempt runs = map (\<lambda>k. first + int k) [0..<length runs]
     \<and> (\<forall>r\<in>set runs. jr_name r = name \<and> jr_run_id r = run_id \<and> jr_state r \<noteq> RUNNING)
     \<and> (\<forall>r\<in>set (butlast runs). jr_state r = FAILED) \<and> (\<forall>r\<in>set (tl runs). jr_trigger r = ''retry'')"

text \<open>The environment is fair to the ledger from a row on: no shutdown begins, each attempt is finalised
  by somebody, and generated identifiers are new.\<close>

definition serves :: "(nat \<Rightarrow> attempt_env) \<Rightarrow> job_run list \<Rightarrow> bool" where
  "serves env rows \<longleftrightarrow> (\<forall>n\<ge>length rows. \<not> ae_closing (env n) \<and> ae_endings (env n) \<noteq> [] \<and> ae_run_id (env n) \<noteq> []
     \<and> ae_id (env n) \<notin> jr_id ` set rows \<and> (\<forall>m\<ge>length rows. ae_id (env m) = ae_id (env n) \<longrightarrow> m = n))"

lemma serves_now:
  assumes "serves env rows"
  shows "\<not> ae_closing (env (length rows))" and "ae_endings (env (length rows)) \<noteq> []"
    and "ae_run_id (env (length rows)) \<noteq> []" and "ae_id (env (length rows)) \<notin> jr_id ` set rows"
  using assms by (auto simp: serves_def)

lemma serves_next:
  assumes "serves env rows" and "jr_id r = ae_id (env (length rows))"
  shows "serves env (rows @ [r])"
  using assms unfolding serves_def by (auto simp: Suc_le_eq) (metis less_imp_le less_irrefl order.refl)+

lemma put_run_last:
  assumes "jr_id r \<notin> jr_id ` set rows" and "jr_id r' = jr_id r"
  shows "put_run r' (rows @ [r]) = rows @ [r']"
proof -
  have "map (\<lambda>q. if jr_id q = jr_id r' then r' else q) rows = rows" using assms by (intro map_idI) (auto simp: rev_image_eqI)
  then show ?thesis using assms(2) by (simp add: put_run_def)
qed

lemma one_attempt:
  assumes "ledger_ok rows" and "serves env rows" and "running_run (job_name d) rows = None" and "1 \<le> attempt"
  obtains run r started where
    "start_attempt (env (length rows)) d trigger run_id attempt actor rows = ok (run, started)"
    and "execute_attempt (env (length rows)) run started = ok (r, rows @ [r])"
    and "jr_name r = job_name d" and "jr_attempt r = attempt" and "jr_trigger r = trigger" and "jr_state r \<noteq> RUNNING"
    and "jr_run_id r = jr_run_id run"
    and "jr_run_id run = (case run_id of Some (c # cs) \<Rightarrow> c # cs | _ \<Rightarrow> ae_run_id (env (length rows)))"
    and "ledger_ok (rows @ [r])" and "serves env (rows @ [r])" and "jr_run_id run \<noteq> []"
    and "jr_state r = ending_state (snd (hd (ae_endings (env (length rows)))))"
proof -
  let ?ae = "env (length rows)"
  note fair = serves_now [OF assms(2)]
  obtain run where start: "start_attempt ?ae d trigger run_id attempt actor rows = ok (run, rows @ [run])"
    and run: "jr_name run = job_name d" "jr_attempt run = attempt" "jr_trigger run = trigger" "jr_state run = RUNNING"
      "jr_id run = ae_id ?ae"
      "jr_run_id run = (case run_id of Some (c # cs) \<Rightarrow> c # cs | _ \<Rightarrow> ae_run_id ?ae)"
    using assms(3,4) by (auto simp: start_attempt_def start_or_refuse_ok)
  obtain now e es where es: "ae_endings ?ae = (now, e) # es" using fair(2) by (cases "ae_endings ?ae") auto
  have started: "ledger_ok (rows @ [run])"
    using start_keeps_ledger start assms(1) fair(3,4) unfolding start_attempt_def by blast
  have put: "put_run (ended now e run) (rows @ [run]) = rows @ [ended now e run]"
    using fair(4) by (intro put_run_last) (simp_all add: run(5))
  have "execute_attempt ?ae run (rows @ [run]) = ok (ended now e run, rows @ [ended now e run])"
    unfolding execute_attempt_def es put [symmetric] by (rule first_finaliser [OF started]) (simp_all add: run(4))
  moreover have "ledger_ok (rows @ [ended now e run])"
    using finalise_hit(2) [OF started, of run now e] put run(4) by simp
  moreover have "serves env (rows @ [ended now e run])" using run(5) by (intro serves_next [OF assms(2)]) simp
  moreover have "jr_run_id run \<noteq> []" using run(6) fair(3) by (simp split: option.splits list.splits)
  ultimately show thesis using that [OF start] run by (simp add: es)
qed

definition resolved_run_id :: "string option \<Rightarrow> string \<Rightarrow> string" where
  "resolved_run_id run_id new = (case run_id of Some (c # cs) \<Rightarrow> c # cs | _ \<Rightarrow> new)"

definition first_ending :: "attempt_env \<Rightarrow> run_state" where
  "first_ending ae = ending_state (snd (hd (ae_endings ae)))"

lemma attempts_of_Cons:
  assumes "attempts_of name run_id (first + 1) runs" and "jr_trigger (hd runs) = ''retry''"
    and "jr_name r = name" and "jr_run_id r = run_id" and "jr_state r = FAILED" and "jr_attempt r = first"
  shows "attempts_of name run_id first (r # runs)"
proof -
  have "map jr_attempt (r # runs) = map (\<lambda>k. first + int k) (0 # map Suc [0..<length runs])"
    using assms(1,6) by (simp add: attempts_of_def comp_def add_ac)
  also have "0 # map Suc [0..<length runs] = [0..<length (r # runs)]"
    using upt_rec [of 0 "Suc (length runs)"] by (simp add: map_Suc_upt)
  finally have "map jr_attempt (r # runs) = map (\<lambda>k. first + int k) [0..<length (r # runs)]" .
  moreover have "\<forall>q\<in>set runs. jr_trigger q = ''retry''"
    using assms(1,2) by (cases runs) (auto simp: attempts_of_def)
  ultimately show ?thesis using assms unfolding attempts_of_def by auto
qed

lemma run_now_attempts_aux:
  assumes "ledger_ok rows" and "serves env rows" and "lookup registry name = Some d" and "jd_policy d = Some policy"
    and "running_run (job_name d) rows = None" and "1 \<le> attempt"
    and "m = nat (rp_max_attempts (jp_retry policy) - attempt)"
  shows "\<exists>runs. run_now env registry name trigger run_id attempt actor rows = (ok (last runs), rows @ runs)
     \<and> attempts_of (job_name d) (resolved_run_id run_id (ae_run_id (env (length rows)))) attempt runs
     \<and> jr_trigger (hd runs) = trigger \<and> length runs \<le> Suc m
     \<and> (jr_state (last runs) = FAILED \<longrightarrow> length runs = Suc m)
     \<and> (\<forall>k<length runs. jr_state (runs ! k) = first_ending (env (length rows + k)))
     \<and> ledger_ok (rows @ runs) \<and> serves env (rows @ runs)"
  using assms
proof (induction m arbitrary: rows trigger run_id attempt)
  case 0
  obtain run r started where step: "start_attempt (env (length rows)) d trigger run_id attempt actor rows = ok (run, started)"
      "execute_attempt (env (length rows)) run started = ok (r, rows @ [r])" "jr_name r = job_name d"
      "jr_attempt r = attempt" "jr_trigger r = trigger" "jr_state r \<noteq> RUNNING" "jr_run_id r = jr_run_id run"
      "jr_run_id run = (case run_id of Some (c # cs) \<Rightarrow> c # cs | _ \<Rightarrow> ae_run_id (env (length rows)))"
      "ledger_ok (rows @ [r])" "serves env (rows @ [r])" "jr_state r = ending_state (snd (hd (ae_endings (env (length rows)))))"
    using one_attempt [OF 0(1,2,5,6)] by metis
  from 0(7) have "\<not> attempt < rp_max_attempts (jp_retry policy)" by simp
  then have "run_now env registry name trigger run_id attempt actor rows = (ok r, rows @ [r])"
    using step serves_now(1) [OF 0(2)] by (simp add: run_now.simps Let_def 0(3,4))
  moreover have "attempts_of (job_name d) (resolved_run_id run_id (ae_run_id (env (length rows)))) attempt [r]"
    using step by (simp add: attempts_of_def resolved_run_id_def)
  ultimately show ?case using step by (intro exI [of _ "[r]"]) (simp add: first_ending_def)
next
  case (Suc m)
  obtain run r started where step: "start_attempt (env (length rows)) d trigger run_id attempt actor rows = ok (run, started)"
      "execute_attempt (env (length rows)) run started = ok (r, rows @ [r])" "jr_name r = job_name d"
      "jr_attempt r = attempt" "jr_trigger r = trigger" "jr_state r \<noteq> RUNNING" "jr_run_id r = jr_run_id run"
      "jr_run_id run = (case run_id of Some (c # cs) \<Rightarrow> c # cs | _ \<Rightarrow> ae_run_id (env (length rows)))"
      "ledger_ok (rows @ [r])" "serves env (rows @ [r])" "jr_run_id run \<noteq> []"
      "jr_state r = ending_state (snd (hd (ae_endings (env (length rows)))))"
    using one_attempt [OF Suc.prems(1,2,5,6)] by metis
  have more: "attempt < rp_max_attempts (jp_retry policy)" using Suc.prems(7) by simp
  have unfolded: "run_now env registry name trigger run_id attempt actor rows =
     (if jr_state r = FAILED then run_now env registry name ''retry'' (Some (jr_run_id run)) (attempt + 1) actor (rows @ [r])
      else (ok r, rows @ [r]))"
    using step more serves_now(1) [OF Suc.prems(2)] by (subst run_now.simps) (simp add: Let_def Suc.prems(3,4))
  show ?case
  proof (cases "jr_state r = FAILED")
    case False
    moreover have "attempts_of (job_name d) (resolved_run_id run_id (ae_run_id (env (length rows)))) attempt [r]"
      using step by (simp add: attempts_of_def resolved_run_id_def)
    ultimately show ?thesis using step unfolded by (intro exI [of _ "[r]"]) (simp add: first_ending_def)
  next
    case True
    have idle: "running_run (job_name d) (rows @ [r]) = None"
      using Suc.prems(5) step(6) by (simp add: running_run_None)
    have left: "m = nat (rp_max_attempts (jp_retry policy) - (attempt + 1))" using Suc.prems(7) by simp
    have same: "resolved_run_id (Some (jr_run_id run)) x = jr_run_id run" for x
      using step(11) by (simp add: resolved_run_id_def split: list.split)
    from Suc.IH [OF step(9,10) Suc.prems(3,4) idle _ left, of "''retry''" "Some (jr_run_id run)"] Suc.prems(6)
    obtain runs where again: "run_now env registry name ''retry'' (Some (jr_run_id run)) (attempt + 1) actor (rows @ [r])
          = (ok (last runs), (rows @ [r]) @ runs)" "attempts_of (job_name d) (jr_run_id run) (attempt + 1) runs"
        "jr_trigger (hd runs) = ''retry''" "length runs \<le> Suc m" "jr_state (last runs) = FAILED \<longrightarrow> length runs = Suc m"
        "\<forall>k<length runs. jr_state (runs ! k) = first_ending (env (length (rows @ [r]) + k))"
        "ledger_ok ((rows @ [r]) @ runs)" "serves env ((rows @ [r]) @ runs)"
      unfolding same by auto
    have all: "attempts_of (job_name d) (jr_run_id run) attempt (r # runs)"
      by (rule attempts_of_Cons [OF again(2,3) step(3,7) True step(4)])
    have ne: "runs \<noteq> []" using again(2) by (simp add: attempts_of_def)
    have "\<forall>k<length (r # runs). jr_state ((r # runs) ! k) = first_ending (env (length rows + k))"
      using again(6) step(12) by (auto simp: nth_Cons first_ending_def split: nat.split)
    then show ?thesis
      using unfolded True again all ne step(5,8)
      by (intro exI [of _ "r # runs"]) (simp add: resolved_run_id_def)
  qed
qed

section \<open>Reconciliation after a hard restart\<close>

fun interrupt_all :: "int \<Rightarrow> job_run list \<Rightarrow> job_run list \<Rightarrow> job_run list \<times> job_run list" where
  "interrupt_all now [] rows = ([], rows)"
| "interrupt_all now (orphan # orphans) rows =
     (case interrupt_run (jr_id orphan) now rows of
        (None, rows') \<Rightarrow> interrupt_all now orphans rows'
      | (Some run, rows') \<Rightarrow> (case interrupt_all now orphans rows' of (runs, rows'') \<Rightarrow> (run # runs, rows'')))"

definition reconcile_rows :: "int \<Rightarrow> 'h job_registry \<Rightarrow> job_run list \<Rightarrow> job_run list \<times> job_run list" where
  "reconcile_rows now registry rows =
     (case interrupt_all now (running_runs rows) rows of
        (runs, rows') \<Rightarrow> (filter (\<lambda>r. has_key registry (jr_name r)) runs, rows'))"

fun resume_each :: "(nat \<Rightarrow> attempt_env) \<Rightarrow> 'h job_registry \<Rightarrow> job_run list \<Rightarrow> job_run list
    \<Rightarrow> job_run list result \<times> job_run list" where
  "resume_each env registry [] rows = (ok [], rows)"
| "resume_each env registry (r # rs) rows =
     (case lookup registry (jr_name r) of None \<Rightarrow> (raise NotFound, rows) | Some d \<Rightarrow>
      case jd_policy d of None \<Rightarrow> resume_each env registry rs rows | Some policy \<Rightarrow>
      case (if jp_interruption policy = RESUME
            then run_now env registry (job_name d) ''restart-resume'' (Some (jr_run_id r)) (jr_attempt r + 1) None rows
            else run_now env registry (job_name d) ''restart-fresh'' None 1 None rows) of
        (Inl e, rows') \<Rightarrow> (raise e, rows')
      | (Inr run, rows') \<Rightarrow> (case resume_each env registry rs rows' of
           (Inl e, rows'') \<Rightarrow> (raise e, rows'') | (Inr runs, rows'') \<Rightarrow> (ok (run # runs), rows'')))"

definition reconcile :: "(nat \<Rightarrow> attempt_env) \<Rightarrow> int \<Rightarrow> 'h job_registry \<Rightarrow> job_run list
    \<Rightarrow> job_run list result \<times> job_run list" where
  "reconcile env now registry rows =
     (case reconcile_rows now registry rows of (orphans, rows') \<Rightarrow> resume_each env registry orphans rows')"

lemma interrupt_all_sound:
  assumes "interrupt_all now orphans rows = (runs, rows')" and "ledger_ok rows"
  shows "ledger_ok rows' \<and> ledger_extends rows rows' \<and> jr_id ` set rows' = jr_id ` set rows
    \<and> (\<forall>r\<in>set rows'. jr_state r = RUNNING \<longrightarrow> r \<in> set rows \<and> jr_id r \<notin> jr_id ` set orphans)"
  using assms
proof (induction orphans arbitrary: rows runs)
  case (Cons r orphans)
  obtain x mid where mid: "interrupt_run (jr_id r) now rows = (x, mid)" by fastforce
  then obtain runs' where rest: "interrupt_all now orphans mid = (runs', rows')"
    using Cons.prems(1) by (auto split: option.splits prod.splits)
  have one: "ledger_ok mid \<and> ledger_extends rows mid \<and> jr_id ` set mid = jr_id ` set rows
    \<and> (\<forall>q\<in>set mid. jr_state q = RUNNING \<longrightarrow> q \<in> set rows \<and> jr_id q \<noteq> jr_id r)"
    using transition_sound [OF Cons.prems(2) _ mid [unfolded interrupt_run_def]] by simp
  note all = Cons.IH [OF rest conjunct1 [OF one]]
  have ext: "ledger_extends rows rows'" by (rule ledger_extends_trans [of _ mid]) (simp_all add: one all)
  have "q \<in> set rows \<and> jr_id q \<notin> jr_id ` set (r # orphans)" if "q \<in> set rows'" and "jr_state q = RUNNING" for q
  proof -
    from all that have "q \<in> set mid" and "jr_id q \<notin> jr_id ` set orphans" by blast+
    with one that(2) show ?thesis by simp
  qed
  then show ?case using all one ext by (simp del: set_simps)
qed auto

lemma reconciled_idle:
  assumes "reconcile_rows now registry rows = (orphans, rows')" and "ledger_ok rows"
  shows "ledger_ok rows' \<and> ledger_extends rows rows' \<and> running_runs rows' = []"
proof -
  obtain runs where all: "interrupt_all now (running_runs rows) rows = (runs, rows')"
    using assms(1) by (auto simp: reconcile_rows_def split: prod.splits)
  have "jr_state r \<noteq> RUNNING" if "r \<in> set rows'" for r
    using interrupt_all_sound [OF all assms(2)] that by (auto simp: running_runs_def)
  then show ?thesis using interrupt_all_sound [OF all assms(2)] by (simp add: running_runs_def filter_empty_conv)
qed

section \<open>Triggers, workers, timeouts, shutdown and restarts interleaved\<close>

text \<open>A call of \<open>run_now\<close> is admitted (it has seen that no shutdown began), committed (its row is in
  the ledger), then working (the attempt is among the in-flight runs and its thread executes the
  handler). A timeout or a shutdown finalises the row and leaves the thread alone.\<close>

datatype phase = Admitted | Committed nat | Working nat

record 'h run_call =
  ca_job :: "'h job_definition"
  ca_trigger :: string
  ca_run_id :: "string option"
  ca_attempt :: int
  ca_actor :: "nat option"
  ca_phase :: phase

record 'h job_system =
  sy_rows :: "job_run list"
  sy_calls :: "nat \<Rightarrow> 'h run_call option"
  sy_closing :: bool
  sy_resolving :: "nat set"

definition working :: "'h job_system \<Rightarrow> nat \<Rightarrow> bool" where
  "working s i \<longleftrightarrow> (\<exists>t c. sy_calls s t = Some c \<and> ca_phase c = Working i)"

definition start_call :: "int \<Rightarrow> string \<Rightarrow> nat \<Rightarrow> string \<Rightarrow> 'h run_call \<Rightarrow> job_run list \<Rightarrow> (job_run \<times> job_run list) result" where
  "start_call now request i new_run_id c rows =
     start_or_refuse (ca_job c) (ca_trigger c) now request (ca_run_id c) (ca_attempt c) (ca_actor c) i new_run_id rows"

inductive system_step :: "'h job_registry \<Rightarrow> 'h job_system \<Rightarrow> 'h job_system \<Rightarrow> bool" for registry where
  Admit: "\<not> sy_closing s \<Longrightarrow> sy_calls s t = None \<Longrightarrow> get_job registry name = ok (ca_job c) \<Longrightarrow> ca_phase c = Admitted
     \<Longrightarrow> system_step registry s (s\<lparr>sy_calls := (sy_calls s)(t \<mapsto> c)\<rparr>)"
| Start: "sy_calls s t = Some c \<Longrightarrow> ca_phase c = Admitted \<Longrightarrow> i \<notin> jr_id ` set (sy_rows s) \<Longrightarrow> new_run_id \<noteq> []
     \<Longrightarrow> start_call now request i new_run_id c (sy_rows s) = ok (run, rows)
     \<Longrightarrow> system_step registry s (s\<lparr>sy_rows := rows, sy_calls := (sy_calls s)(t \<mapsto> c\<lparr>ca_phase := Committed (jr_id run)\<rparr>)\<rparr>)"
| Refuse: "sy_calls s t = Some c \<Longrightarrow> ca_phase c = Admitted
     \<Longrightarrow> start_call now request i new_run_id c (sy_rows s) = Inl e
     \<Longrightarrow> system_step registry s (s\<lparr>sy_calls := (sy_calls s)(t := None)\<rparr>)"
| Begin: "sy_calls s t = Some c \<Longrightarrow> ca_phase c = Committed i
     \<Longrightarrow> system_step registry s (s\<lparr>sy_calls := (sy_calls s)(t \<mapsto> c\<lparr>ca_phase := Working i\<rparr>)\<rparr>)"
| Finish: "sy_calls s t = Some c \<Longrightarrow> ca_phase c = Working i \<Longrightarrow> e = Returned metrics \<or> e = Raised message
     \<Longrightarrow> apply_terminal i now e (sy_rows s) = ok (run, rows)
     \<Longrightarrow> system_step registry s (s\<lparr>sy_rows := rows, sy_calls := (sy_calls s)(t := None)\<rparr>)"
| Timeout: "sy_calls s t = Some c \<Longrightarrow> ca_phase c = Working i
     \<Longrightarrow> apply_terminal i now (Timed_out message) (sy_rows s) = ok (run, rows)
     \<Longrightarrow> system_step registry s (s\<lparr>sy_rows := rows\<rparr>)"
| Close: "system_step registry s (s\<lparr>sy_closing := True, sy_resolving := {i. working s i}\<rparr>)"
| Resolve: "i \<in> sy_resolving s \<Longrightarrow> \<not> working s i
     \<Longrightarrow> system_step registry s (s\<lparr>sy_resolving := sy_resolving s - {i}\<rparr>)"
| Abandon: "i \<in> sy_resolving s \<Longrightarrow> working s i \<Longrightarrow> apply_terminal i now Abandoned (sy_rows s) = ok (run, rows)
     \<Longrightarrow> system_step registry s (s\<lparr>sy_rows := rows, sy_resolving := sy_resolving s - {i}\<rparr>)"
| Restart: "reconcile_rows now registry (sy_rows s) = (orphans, rows)
     \<Longrightarrow> system_step registry s \<lparr>sy_rows = rows, sy_calls = (\<lambda>t. None), sy_closing = False, sy_resolving = {}\<rparr>"

definition idle_system :: "'h job_system" where
  "idle_system = \<lparr>sy_rows = [], sy_calls = (\<lambda>t. None), sy_closing = False, sy_resolving = {}\<rparr>"

inductive system_reachable :: "'h job_registry \<Rightarrow> 'h job_system \<Rightarrow> bool" for registry where
  Initially: "system_reachable registry idle_system"
| Then: "system_reachable registry s \<Longrightarrow> system_step registry s s' \<Longrightarrow> system_reachable registry s'"

text \<open>A running row has a call that will finalise it.\<close>

definition responsible :: "'h job_system \<Rightarrow> nat \<Rightarrow> bool" where
  "responsible s i \<longleftrightarrow> (\<exists>t c. sy_calls s t = Some c \<and> ca_phase c \<in> {Committed i, Working i})"

definition attended :: "'h job_system \<Rightarrow> bool" where
  "attended s \<longleftrightarrow> (\<forall>r\<in>set (sy_rows s). jr_state r = RUNNING \<longrightarrow> responsible s (jr_id r))"

lemma apply_terminal_sound:
  assumes "apply_terminal i now e rows = ok (run, rows')" and "ledger_ok rows"
  shows "ledger_ok rows' \<and> ledger_extends rows rows'
    \<and> (\<forall>r\<in>set rows'. jr_state r = RUNNING \<longrightarrow> r \<in> set rows \<and> jr_id r \<noteq> i)"
proof -
  obtain error metrics where e: "finalise_with i now e rows = transition_run i (ending_state e) now error metrics rows"
    using finalise_transition [of now e i] by blast
  obtain x where "transition_run i (ending_state e) now error metrics rows = (x, rows')"
    using assms(1) by (auto simp: apply_terminal_def e split: prod.splits option.splits)
  from transition_sound [OF assms(2) ending_state_closed this] show ?thesis by blast
qed

lemma responsible_other:
  assumes "responsible s i" and "\<And>c. sy_calls s t = Some c \<Longrightarrow> ca_phase c \<notin> {Committed i, Working i}"
    and "\<And>u. u \<noteq> t \<Longrightarrow> sy_calls s' u = sy_calls s u"
  shows "responsible s' i"
  using assms unfolding responsible_def by metis

text \<open>A finaliser of row \<open>i\<close> leaves the others attended, whatever becomes of its own call.\<close>

lemma attended_finalised:
  assumes "attended s" and "\<And>r. r \<in> set (sy_rows s') \<Longrightarrow> jr_state r = RUNNING \<Longrightarrow> r \<in> set (sy_rows s) \<and> jr_id r \<noteq> i"
    and "sy_calls s t = Some c" and "ca_phase c = Working i" and "\<And>u. u \<noteq> t \<Longrightarrow> sy_calls s' u = sy_calls s u"
  shows "attended s'"
  unfolding attended_def
proof (intro ballI impI)
  fix r assume "r \<in> set (sy_rows s')" and "jr_state r = RUNNING"
  with assms(2) have r: "r \<in> set (sy_rows s)" "jr_id r \<noteq> i" by blast+
  with assms(1) \<open>jr_state r = RUNNING\<close> have "responsible s (jr_id r)" by (simp add: attended_def)
  then show "responsible s' (jr_id r)"
    by (rule responsible_other [where t = t]) (use assms(3-5) r(2) in auto)
qed

lemma attended_same_rows:
  assumes "attended s" and "sy_rows s' = sy_rows s" and "\<And>i. responsible s i \<Longrightarrow> responsible s' i"
  shows "attended s'"
  using assms by (simp add: attended_def)

lemma system_step_effect:
  assumes "system_step registry s s'" and "ledger_ok (sy_rows s)" and "attended s"
  shows "ledger_ok (sy_rows s') \<and> ledger_extends (sy_rows s) (sy_rows s') \<and> attended s'"
  using assms
proof cases
  case (Admit t name c)
  have "attended s'" using assms(3)
    by (rule attended_same_rows) (use Admit(1,3) in \<open>auto elim: responsible_other [where t = t]\<close>)
  then show ?thesis using assms(2) by (simp add: Admit(1))
next
  case (Start t c i new_run_id now request run rows)
  note start = Start(6) [unfolded start_call_def]
  from start have rows: "rows = sy_rows s @ [run]" by (simp add: start_or_refuse_ok)
  have "responsible s' (jr_id r)" if r: "r \<in> set (sy_rows s')" "jr_state r = RUNNING" for r
  proof (cases "r = run")
    case True
    then show ?thesis by (auto simp: responsible_def Start(1))
  next
    case False
    with r rows have "r \<in> set (sy_rows s)" by (simp add: Start(1))
    with assms(3) r(2) have "responsible s (jr_id r)" by (simp add: attended_def)
    then show ?thesis
      by (rule responsible_other [where t = t]) (simp_all add: Start(1,2,3))
  qed
  then show ?thesis using start_keeps_ledger [OF start assms(2) Start(4,5)] by (simp add: attended_def Start(1))
next
  case (Refuse t c now request i new_run_id e)
  have "attended s'" using assms(3)
    by (rule attended_same_rows) (use Refuse(1-3) in \<open>auto elim: responsible_other [where t = t]\<close>)
  then show ?thesis using assms(2) by (simp add: Refuse(1))
next
  case (Begin t c i)
  have same: "sy_rows s' = sy_rows s" by (simp add: Begin(1))
  have kept: "responsible s' j" if "responsible s j" for j
  proof (cases "j = i")
    case True
    then show ?thesis by (auto simp: responsible_def Begin(1))
  next
    case False
    from that show ?thesis by (rule responsible_other [where t = t]) (use Begin(1-3) False in auto)
  qed
  show ?thesis using attended_same_rows [OF assms(3) same kept] assms(2) by (simp add: same)
next
  case (Finish t c i e metrics message now run rows)
  note effect = apply_terminal_sound [OF Finish(5) assms(2)]
  have "attended s'" using assms(3)
    by (rule attended_finalised [where t = t and c = c and i = i]) (use effect Finish(1-3) in auto)
  then show ?thesis using effect by (simp add: Finish(1))
next
  case (Timeout t c i now message run rows)
  note effect = apply_terminal_sound [OF Timeout(4) assms(2)]
  have "attended s'" using assms(3)
    by (rule attended_finalised [where t = t and c = c and i = i]) (use effect Timeout(1-3) in auto)
  then show ?thesis using effect by (simp add: Timeout(1))
next
  case Close
  then show ?thesis using assms(2,3) by (simp add: attended_def responsible_def)
next
  case (Resolve i)
  then show ?thesis using assms(2,3) by (simp add: attended_def responsible_def)
next
  case (Abandon i now run rows)
  note effect = apply_terminal_sound [OF Abandon(4) assms(2)]
  obtain t c where call: "sy_calls s t = Some c" "ca_phase c = Working i" using Abandon(3) by (auto simp: working_def)
  have "attended s'"
    by (rule attended_finalised [OF assms(3) _ call]) (use effect in \<open>simp_all add: Abandon(1)\<close>)
  then show ?thesis using effect by (simp add: Abandon(1))
next
  case (Restart now orphans rows)
  from reconciled_idle [OF Restart(2) assms(2)] show ?thesis
    by (simp add: Restart(1) attended_def running_runs_def filter_empty_conv)
qed

lemma system_reachable_inv:
  "system_reachable registry s \<Longrightarrow> ledger_ok (sy_rows s) \<and> attended s"
proof (induction rule: system_reachable.induct)
  case Initially
  show ?case by (simp add: idle_system_def ledger_ok_def single_running_def attended_def)
next
  case (Then s s')
  then show ?case using system_step_effect by blast
qed

text \<open>
  C19: In every interleaving of triggers, worker threads, timeouts, a shutdown and hard restarts, a job has
  at most one running row, a row is open exactly while it is running, every running row has a call that
  is about to execute or is executing it, no step changes a closed row or loses a row, and a restart
  leaves nothing running.
\<close>

theorem job_ledger_invariant:
  assumes "system_reachable registry s"
  shows "distinct (map jr_id (sy_rows s))
    \<and> (\<forall>q\<in>set (sy_rows s). \<forall>r\<in>set (sy_rows s).
         jr_state q = RUNNING \<and> jr_state r = RUNNING \<and> jr_name q = jr_name r \<longrightarrow> q = r)
    \<and> (\<forall>r\<in>set (sy_rows s). (jr_state r = RUNNING \<longleftrightarrow> jr_finished r = None)
         \<and> (jr_state r = RUNNING \<longrightarrow> responsible s (jr_id r)))
    \<and> (\<forall>s'. system_step registry s s' \<longrightarrow> (\<forall>q\<in>set (sy_rows s). \<exists>r\<in>set (sy_rows s').
         jr_id r = jr_id q \<and> jr_name r = jr_name q \<and> jr_run_id r = jr_run_id q \<and> jr_attempt r = jr_attempt q
         \<and> (jr_state q \<noteq> RUNNING \<longrightarrow> r = q)))
    \<and> (\<forall>now orphans rows. reconcile_rows now registry (sy_rows s) = (orphans, rows) \<longrightarrow> running_runs rows = [])"
proof -
  note inv = system_reachable_inv [OF assms]
  have valid: "ledger_ok (sy_rows s)" and att: "attended s" using inv by blast+
  have kept: "\<exists>r\<in>set (sy_rows s'). jr_id r = jr_id q \<and> jr_name r = jr_name q \<and> jr_run_id r = jr_run_id q
      \<and> jr_attempt r = jr_attempt q \<and> (jr_state q \<noteq> RUNNING \<longrightarrow> r = q)"
    if "system_step registry s s'" and "q \<in> set (sy_rows s)" for s' q
  proof -
    have "ledger_extends (sy_rows s) (sy_rows s')" using system_step_effect [OF that(1) valid att] by blast
    from ledger_extends_row [OF this that(2)] obtain r where "r \<in> set (sy_rows s')" and "run_extends q r" by blast
    with run_extends_fields [OF this(2)] show ?thesis by (intro bexI [of _ r]) simp_all
  qed
  have idle: "running_runs rows = []" if "reconcile_rows now registry (sy_rows s) = (orphans, rows)" for now orphans rows
    using reconciled_idle [OF that valid] by blast
  have single: "single_running (sy_rows s)" and ids: "distinct (map jr_id (sy_rows s))"
    and rows: "run_ok r" if "r \<in> set (sy_rows s)" for r
    using valid that by (simp_all add: ledger_ok_def)
  have "(jr_state r = RUNNING \<longleftrightarrow> jr_finished r = None) \<and> (jr_state r = RUNNING \<longrightarrow> responsible s (jr_id r))"
    if "r \<in> set (sy_rows s)" for r
    using rows [OF that] att that by (simp add: run_ok_def attended_def)
  then show ?thesis
    using valid kept idle by (intro conjI) (simp_all add: ledger_ok_def single_running_def)
qed

text \<open>
  C20: One trigger of a registered job that is not running, in a ledger it is alone to write, returns a
  row of the ledger: it leaves consecutive attempts under one run identifier, each closed with what its
  first finaliser says, each but the last failed; it never exceeds the declared number of attempts, and
  gives up on a failure only when that number is spent.
\<close>

theorem run_now_attempts:
  assumes "ledger_ok rows" and "serves env rows" and "lookup registry name = Some d" and "jd_policy d = Some policy"
    and "running_run (job_name d) rows = None" and "1 \<le> attempt" and "attempt \<le> rp_max_attempts (jp_retry policy)"
  shows "\<exists>runs. run_now env registry name trigger run_id attempt actor rows = (ok (last runs), rows @ runs)
     \<and> runs \<noteq> [] \<and> jr_trigger (hd runs) = trigger
     \<and> (\<forall>k<length runs. jr_name (runs ! k) = job_name d \<and> jr_attempt (runs ! k) = attempt + int k
         \<and> jr_run_id (runs ! k) = resolved_run_id run_id (ae_run_id (env (length rows)))
         \<and> jr_state (runs ! k) = first_ending (env (length rows + k))
         \<and> jr_state (runs ! k) \<noteq> RUNNING
         \<and> (Suc k < length runs \<longrightarrow> jr_state (runs ! k) = FAILED)
         \<and> (0 < k \<longrightarrow> jr_trigger (runs ! k) = ''retry''))
     \<and> jr_attempt (last runs) \<le> rp_max_attempts (jp_retry policy)
     \<and> (jr_state (last runs) = FAILED \<longrightarrow> jr_attempt (last runs) = rp_max_attempts (jp_retry policy))"
proof -
  let ?m = "nat (rp_max_attempts (jp_retry policy) - attempt)"
  obtain runs where runs: "run_now env registry name trigger run_id attempt actor rows = (ok (last runs), rows @ runs)"
      "attempts_of (job_name d) (resolved_run_id run_id (ae_run_id (env (length rows)))) attempt runs"
      "jr_trigger (hd runs) = trigger" "length runs \<le> Suc ?m" "jr_state (last runs) = FAILED \<longrightarrow> length runs = Suc ?m"
      "\<forall>k<length runs. jr_state (runs ! k) = first_ending (env (length rows + k))"
    using run_now_attempts_aux [OF assms(1-6) refl] by blast
  have count: "jr_attempt (runs ! k) = attempt + int k" if "k < length runs" for k
  proof -
    have "map jr_attempt runs ! k = map (\<lambda>k. attempt + int k) [0..<length runs] ! k"
      using runs(2) by (simp add: attempts_of_def)
    then show ?thesis using that by simp
  qed
  have "jr_state (runs ! k) = FAILED" if "Suc k < length runs" for k
    using runs(2) that nth_mem [of k "butlast runs"] by (simp add: attempts_of_def nth_butlast)
  moreover have "jr_trigger (runs ! k) = ''retry''" if "0 < k" and "k < length runs" for k
    using runs(2) that nth_mem [of "k - 1" "tl runs"] by (simp add: attempts_of_def nth_tl)
  moreover have "runs \<noteq> []" using runs(2) by (simp add: attempts_of_def)
  moreover from this have "jr_attempt (last runs) = attempt + int (length runs - 1)"
    using count [of "length runs - 1"] by (simp add: last_conv_nth)
  ultimately show ?thesis
    using runs count assms(7) by (intro exI [of _ runs]) (auto simp: attempts_of_def of_nat_diff)
qed

section \<open>Two histories\<close>

definition demo_policy :: job_policy where
  "demo_policy = \<lparr>jp_retry = \<lparr>rp_max_attempts = 3, rp_backoff = 0\<rparr>, jp_interruption = RESUME, jp_timeout = 1800\<rparr>"

definition demo_job :: "unit job_definition" where
  "demo_job = \<lparr>jd_name = PStr ''nightly.rank'', jd_handler = (), jd_policy = Some demo_policy, jd_schedule = None\<rparr>"

definition demo_jobs :: "unit job_registry" where
  "demo_jobs = [(''nightly.rank'', demo_job)]"

definition demo_call :: "string \<Rightarrow> string option \<Rightarrow> int \<Rightarrow> phase \<Rightarrow> unit run_call" where
  "demo_call trigger run_id attempt p = \<lparr>ca_job = demo_job, ca_trigger = trigger, ca_run_id = run_id,
     ca_attempt = attempt, ca_actor = None, ca_phase = p\<rparr>"

definition demo_run :: "nat \<Rightarrow> string \<Rightarrow> int \<Rightarrow> job_run" where
  "demo_run i trigger attempt = \<lparr>jr_id = i, jr_name = ''nightly.rank'', jr_run_id = ''run-1'', jr_trigger = trigger,
     jr_started = attempt, jr_finished = None, jr_state = RUNNING, jr_attempt = attempt, jr_error = None,
     jr_metrics = None, jr_updated = attempt, jr_created_by = None, jr_request = ''req''\<rparr>"

definition demo_system :: "job_run list \<Rightarrow> unit run_call option \<Rightarrow> unit run_call option \<Rightarrow> unit job_system" where
  "demo_system rows c d = \<lparr>sy_rows = rows, sy_calls = (\<lambda>t. None)(0 := c, 1 := d), sy_closing = False, sy_resolving = {}\<rparr>"

lemmas demo_defs = demo_system_def demo_call_def demo_run_def

lemma demo_system_set [simp]:
  "(demo_system rows c d)\<lparr>sy_rows := rows'\<rparr> = demo_system rows' c d"
  "(demo_system rows c d)\<lparr>sy_calls := (sy_calls (demo_system rows' c d))(0 := x)\<rparr> = demo_system rows x d"
  "(demo_system rows c d)\<lparr>sy_calls := (sy_calls (demo_system rows' c d))(Suc 0 := x)\<rparr> = demo_system rows c x"
  by (auto simp: demo_system_def)

lemma demo_system_get [simp]:
  "sy_rows (demo_system rows c d) = rows" "sy_closing (demo_system rows c d) = False"
  "sy_calls (demo_system rows c d) 0 = c" "sy_calls (demo_system rows c d) (Suc 0) = d"
  by (simp_all add: demo_system_def)

lemma demo_committed:
  "system_reachable demo_jobs (demo_system [demo_run 1 ''scheduled'' 1]
     (Some (demo_call ''scheduled'' None 1 (Committed 1))) None)"
proof -
  have "idle_system = demo_system [] None None" by (auto simp: idle_system_def demo_system_def)
  then have "system_reachable demo_jobs (demo_system [] None None)"
    using system_reachable.Initially [of demo_jobs] by simp
  then have "system_reachable demo_jobs (demo_system [] (Some (demo_call ''scheduled'' None 1 Admitted)) None)"
    by (rule system_reachable.Then)
      (use system_step.Admit [of "demo_system [] None None" 0 demo_jobs "''nightly.rank''" "demo_call ''scheduled'' None 1 Admitted"]
        in \<open>simp add: get_job_def demo_jobs_def demo_call_def\<close>)
  then show ?thesis
    by (rule system_reachable.Then)
      (use system_step.Start [of "demo_system [] (Some (demo_call ''scheduled'' None 1 Admitted)) None" 0
          "demo_call ''scheduled'' None 1 Admitted" 1 "''run-1''" 1 "''req''" "demo_run 1 ''scheduled'' 1"
          "[demo_run 1 ''scheduled'' 1]" demo_jobs]
        in \<open>simp add: start_call_def start_or_refuse_ok demo_call_def demo_run_def job_name_def demo_job_def running_run_def\<close>)
qed

lemma demo_timed_out:
  "system_reachable demo_jobs (demo_system [ended 2 (Timed_out ''slow'') (demo_run 1 ''scheduled'' 1)]
     (Some (demo_call ''scheduled'' None 1 (Working 1))) None)"
proof -
  have "system_reachable demo_jobs (demo_system [demo_run 1 ''scheduled'' 1] (Some (demo_call ''scheduled'' None 1 (Working 1))) None)"
    by (rule system_reachable.Then [OF demo_committed])
      (use system_step.Begin [of "demo_system [demo_run 1 ''scheduled'' 1] (Some (demo_call ''scheduled'' None 1 (Committed 1))) None"
          0 "demo_call ''scheduled'' None 1 (Committed 1)" 1 demo_jobs] in \<open>simp add: demo_call_def\<close>)
  moreover have "apply_terminal 1 2 (Timed_out ''slow'') [demo_run 1 ''scheduled'' 1]
      = ok (ended 2 (Timed_out ''slow'') (demo_run 1 ''scheduled'' 1), [ended 2 (Timed_out ''slow'') (demo_run 1 ''scheduled'' 1)])"
    by (simp add: apply_terminal_def finalise_with_def fail_run_def transition_run_def get_run_def demo_run_def
        ended_def close_run_def ending_state_def)
  ultimately show ?thesis
    by (elim system_reachable.Then)
      (use system_step.Timeout [of "demo_system [demo_run 1 ''scheduled'' 1] (Some (demo_call ''scheduled'' None 1 (Working 1))) None"
          0 "demo_call ''scheduled'' None 1 (Working 1)" 1 2 "''slow''"] in \<open>simp add: demo_call_def\<close>)
qed

text \<open>A timeout closes the row of an attempt whose handler is still executing; the retry then starts the
  handler of the same job a second time beside it, although the runner is to run one attempt at a time
  per job name.\<close>

lemma timed_out_handler_overlaps:
  "\<exists>s. system_reachable demo_jobs s \<and> working s 1 \<and> working s 2 \<and> map jr_name (sy_rows s) = [''nightly.rank'', ''nightly.rank'']"
proof -
  let ?old = "ended 2 (Timed_out ''slow'') (demo_run 1 ''scheduled'' 1)"
  let ?c = "Some (demo_call ''scheduled'' None 1 (Working 1))"
  let ?d = "demo_call ''retry'' (Some ''run-1'') 2"
  have "system_reachable demo_jobs (demo_system [?old] ?c (Some (?d Admitted)))"
    by (rule system_reachable.Then [OF demo_timed_out])
      (use system_step.Admit [of "demo_system [?old] ?c None" "Suc 0" demo_jobs "''nightly.rank''" "?d Admitted"]
        in \<open>simp add: get_job_def demo_jobs_def demo_call_def\<close>)
  then have "system_reachable demo_jobs (demo_system [?old, demo_run 2 ''retry'' 2] ?c (Some (?d (Committed 2))))"
    by (rule system_reachable.Then)
      (use system_step.Start [of "demo_system [?old] ?c (Some (?d Admitted))" "Suc 0" "?d Admitted" 2 "''run-2''" 2 "''req''"
          "demo_run 2 ''retry'' 2" "[?old, demo_run 2 ''retry'' 2]" demo_jobs]
        in \<open>simp add: start_call_def start_or_refuse_ok demo_call_def demo_run_def job_name_def demo_job_def
              running_run_def ending_state_def\<close>)
  then have "system_reachable demo_jobs (demo_system [?old, demo_run 2 ''retry'' 2] ?c (Some (?d (Working 2))))"
    by (rule system_reachable.Then)
      (use system_step.Begin [of "demo_system [?old, demo_run 2 ''retry'' 2] ?c (Some (?d (Committed 2)))" "Suc 0" "?d (Committed 2)" 2 demo_jobs]
        in \<open>simp add: demo_call_def\<close>)
  moreover have "working (demo_system [?old, demo_run 2 ''retry'' 2] ?c (Some (?d (Working 2)))) 1"
    unfolding working_def by (rule exI [of _ 0]) (simp add: demo_call_def)
  moreover have "working (demo_system [?old, demo_run 2 ''retry'' 2] ?c (Some (?d (Working 2)))) 2"
    unfolding working_def by (rule exI [of _ "Suc 0"]) (simp add: demo_call_def)
  ultimately show ?thesis by (intro exI) (auto simp: demo_run_def)
qed

text \<open>A shutdown waits for the attempts it finds in flight. A call that has committed its row and not yet
  entered them is neither waited for nor abandoned: the shutdown is complete and the row still running.\<close>

lemma shutdown_misses_committed_run:
  "\<exists>s. system_reachable demo_jobs s \<and> sy_closing s \<and> sy_resolving s = {} \<and> running_runs (sy_rows s) \<noteq> []"
proof -
  let ?s = "demo_system [demo_run 1 ''scheduled'' 1] (Some (demo_call ''scheduled'' None 1 (Committed 1))) None"
  have none: "{i. working ?s i} = {}"
    by (auto simp: working_def demo_system_def demo_call_def split: if_splits)
  have "system_reachable demo_jobs (?s\<lparr>sy_closing := True, sy_resolving := {}\<rparr>)"
    by (rule system_reachable.Then [OF demo_committed]) (use system_step.Close [of demo_jobs ?s] none in simp)
  then show ?thesis by (intro exI conjI) (assumption, simp_all add: running_runs_def demo_run_def)
qed

text \<open>A name declared with outer blanks is registered stripped and written to the ledger as declared, so
  the reconciliation of a restart does not find the job of such a row and never resumes it.\<close>

lemma blank_name_not_resumed:
  assumes "d = \<lparr>jd_name = PStr '' report'', jd_handler = (), jd_policy = Some demo_policy, jd_schedule = None\<rparr>"
    and "start_or_refuse d ''manual'' 1 ''req'' None 1 None 1 ''run-1'' [] = ok (r, rows)"
  shows "register_job d [] = ok (d, [(''report'', d)]) \<and> fst (reconcile_rows 2 [(''report'', d)] rows) = []"
proof -
  have "rows = [r] \<and> jr_name r = '' report'' \<and> jr_state r = RUNNING \<and> jr_id r = 1"
    using assms(2) by (simp add: start_or_refuse_ok assms(1) job_name_def)
  moreover have "register_job d [] = ok (d, [(''report'', d)])"
    by (simp add: register_job_ok assms(1) job_name_def strip_def is_space_def max_name_length_def)
  ultimately show ?thesis
    by (simp add: reconcile_rows_def running_runs_def interrupt_run_def transition_run_def get_run_def)
qed

text \<open>A concrete environment for the theorem on triggers: the first attempt raises, the second returns.\<close>

definition demo_env :: "nat \<Rightarrow> attempt_env" where
  "demo_env n = \<lparr>ae_closing = False, ae_id = n, ae_run_id = ''run-1'', ae_request = ''req'', ae_started = int n,
     ae_endings = [(int n + 1, if n = 0 then Raised ''ValueError: no data'' else Returned PNone)]\<rparr>"

theorem run_now_attempts_witness:
  "\<exists>runs. run_now demo_env demo_jobs ''nightly.rank'' ''scheduled'' None 1 None [] = (ok (last runs), runs) \<and> runs \<noteq> []
     \<and> jr_state (runs ! 0) = FAILED"
proof -
  have "serves demo_env []" by (simp add: serves_def demo_env_def)
  moreover have "ledger_ok []" by (simp add: ledger_ok_def single_running_def)
  moreover have "lookup demo_jobs ''nightly.rank'' = Some demo_job" "jd_policy demo_job = Some demo_policy"
    by (simp_all add: demo_jobs_def demo_job_def)
  ultimately obtain runs where
    "run_now demo_env demo_jobs ''nightly.rank'' ''scheduled'' None 1 None [] = (ok (last runs), runs)" "runs \<noteq> []"
    "\<forall>k<length runs. jr_state (runs ! k) = first_ending (demo_env (length ([] :: job_run list) + k))"
    using run_now_attempts [of "[]" demo_env demo_jobs "''nightly.rank''" demo_job demo_policy 1 "''scheduled''" None None]
    by (auto simp: running_run_def demo_policy_def)
  then show ?thesis by (intro exI [of _ runs]) (auto simp: first_ending_def demo_env_def ending_state_def)
qed

theorem job_ledger_invariant_witness:
  "jr_state (demo_run 1 ''scheduled'' 1) = RUNNING \<and> responsible (demo_system [demo_run 1 ''scheduled'' 1]
     (Some (demo_call ''scheduled'' None 1 (Committed 1))) None) (jr_id (demo_run 1 ''scheduled'' 1))"
  using job_ledger_invariant [OF demo_committed] by (simp add: demo_run_def)

end
