(* ===== verification/Job_Pipeline.thy ===== *)
theory Job_Pipeline
  imports Job_Runner
begin

text \<open>
  The nightly pipeline (\<open>scheduler/pipeline.py\<close>): six registered jobs driven in order under one run
  identifier. The pipeline only calls \<open>run_now\<close> of the runner and reads the ledger; the business logic
  of a step is the handler type. \<open>as_of\<close> is handed to the handlers and left out.
\<close>

section \<open>Steps and their registration\<close>

definition step_ingest :: string where "step_ingest = ''nightly.ingest''"
definition step_test :: string where "step_test = ''nightly.test''"
definition step_score :: string where "step_score = ''nightly.score''"
definition step_rank :: string where "step_rank = ''nightly.rank''"
definition step_update_cases :: string where "step_update_cases = ''nightly.update_cases''"
definition step_dispatch :: string where "step_dispatch = ''nightly.dispatch''"

definition pipeline_steps :: "string list" where
  "pipeline_steps = [step_ingest, step_test, step_score, step_rank, step_update_cases, step_dispatch]"

definition pipeline_job_name :: string where "pipeline_job_name = ''nightly.pipeline''"

lemmas step_names = step_ingest_def step_test_def step_score_def step_rank_def step_update_cases_def
  step_dispatch_def

definition default_step_policy :: "int \<Rightarrow> rat \<Rightarrow> rat \<Rightarrow> job_policy result" where
  "default_step_policy max_attempts backoff timeout =
     rbind (make_retry_policy max_attempts backoff) (\<lambda>retry. make_job_policy retry RESUME timeout)"

definition default_pipeline_policy :: "job_policy result" where
  "default_pipeline_policy = default_step_policy 3 0 1800"

fun register_steps :: "(string \<times> 'h) list \<Rightarrow> job_policy \<Rightarrow> string list \<Rightarrow> 'h job_registry
    \<Rightarrow> ('h job_definition list \<times> 'h job_registry) result" where
  "register_steps handlers policy [] reg = ok ([], reg)"
| "register_steps handlers policy (s # ss) reg =
     (case lookup handlers s of None \<Rightarrow> raise KeyError | Some h \<Rightarrow>
      rbind (register_job \<lparr>jd_name = PStr s, jd_handler = h, jd_policy = Some policy, jd_schedule = None\<rparr> reg)
        (\<lambda>(d, reg'). rbind (register_steps handlers policy ss reg') (\<lambda>(ds, reg''). ok (d # ds, reg''))))"

definition register_nightly_pipeline :: "'h job_registry \<Rightarrow> (string \<times> 'h) list \<Rightarrow> job_policy option
    \<Rightarrow> ('h job_definition list \<times> 'h job_registry) result" where
  "register_nightly_pipeline reg handlers policy =
     (if filter (\<lambda>s. \<not> has_key handlers s) pipeline_steps \<noteq> [] then raise ValueError
      else rbind (case policy of Some p \<Rightarrow> ok p | None \<Rightarrow> default_pipeline_policy)
        (\<lambda>p. register_steps handlers p pipeline_steps reg))"

lemma register_steps_lookup:
  assumes "register_steps handlers policy ss reg = ok (ds, reg')"
  shows "(\<forall>s\<in>set ss. strip s = s \<longrightarrow> (\<exists>d. lookup reg' s = Some d \<and> jd_policy d = Some policy \<and> job_name d = s))
    \<and> (\<forall>s d. lookup reg s = Some d \<longrightarrow> lookup reg' s = Some d)"
  using assms
proof (induction ss arbitrary: reg ds)
  case (Cons s ss)
  obtain h where "lookup handlers s = Some h" using Cons.prems by (cases "lookup handlers s") auto
  then obtain d mid ds' where one: "register_job \<lparr>jd_name = PStr s, jd_handler = h, jd_policy = Some policy, jd_schedule = None\<rparr> reg = ok (d, mid)"
      and rest: "register_steps handlers policy ss mid = ok (ds', reg')"
    using Cons.prems by auto
  have d: "job_name d = s" "jd_policy d = Some policy" and mid: "mid = reg @ [(strip s, d)]" "\<not> has_key reg (strip s)"
    using one by (auto simp: register_job_ok job_name_def)
  have "lookup mid (strip s) = Some d" using mid by (simp add: lookup_append has_key_def)
  then have "strip s = s \<longrightarrow> lookup reg' s = Some d" using Cons.IH [OF rest] by metis
  moreover have "\<forall>t e. lookup reg t = Some e \<longrightarrow> lookup mid t = Some e" using mid by (simp add: lookup_append)
  ultimately show ?case using Cons.IH [OF rest] d by auto
qed simp

section \<open>One pipeline run\<close>

text \<open>Some running row of a pipeline job under another run identifier, if there is one.\<close>

definition overlapping_run :: "string \<Rightarrow> job_run list \<Rightarrow> job_run option" where
  "overlapping_run run_id rows = find (\<lambda>r. jr_name r \<in> set (pipeline_steps @ [pipeline_job_name])
     \<and> jr_state r = RUNNING \<and> jr_run_id r \<noteq> run_id) rows"

record pipeline_result =
  pr_run_id :: string
  pr_borrower :: "string option"
  pr_completed :: "string list"
  pr_failed :: "string option"
  pr_runs :: "job_run list"

definition pipeline_success :: "pipeline_result \<Rightarrow> bool" where
  "pipeline_success p \<longleftrightarrow> pr_failed p = None \<and> length (pr_completed p) = length pipeline_steps"

fun run_steps :: "(nat \<Rightarrow> attempt_env) \<Rightarrow> 'h job_registry \<Rightarrow> string \<Rightarrow> string \<Rightarrow> nat option \<Rightarrow> string list
    \<Rightarrow> string list \<Rightarrow> job_run list \<Rightarrow> job_run list
    \<Rightarrow> (string list \<times> string option \<times> job_run list) result \<times> job_run list" where
  "run_steps env registry trigger run_id actor [] completed runs rows = (ok (completed, None, runs), rows)"
| "run_steps env registry trigger run_id actor (s # ss) completed runs rows =
     (case run_now env registry s trigger (Some run_id) 1 actor rows of
        (Inl e, rows') \<Rightarrow> (raise e, rows')
      | (Inr run, rows') \<Rightarrow>
          if jr_state run \<noteq> SUCCEEDED then (ok (completed, Some s, runs @ [run]), rows')
          else run_steps env registry trigger run_id actor ss (completed @ [s]) (runs @ [run]) rows')"

definition run_nightly_pipeline :: "(nat \<Rightarrow> attempt_env) \<Rightarrow> 'h job_registry \<Rightarrow> string \<Rightarrow> string option \<Rightarrow> string
    \<Rightarrow> string option \<Rightarrow> nat option \<Rightarrow> string list \<Rightarrow> job_run list \<Rightarrow> pipeline_result result \<times> job_run list" where
  "run_nightly_pipeline env registry trigger run_id new_run_id borrower actor steps rows =
     (let resolved = resolved_run_id run_id new_run_id in
      if steps = [] \<or> \<not> set steps \<subseteq> set pipeline_steps then (raise ValueError, rows) else
      case overlapping_run resolved rows of Some r \<Rightarrow> (raise RuntimeError, rows) | None \<Rightarrow>
      case run_steps env registry trigger resolved actor steps [] [] rows of
        (Inl e, rows') \<Rightarrow> (raise e, rows')
      | (Inr (completed, failed, runs), rows') \<Rightarrow>
          (ok \<lparr>pr_run_id = resolved, pr_borrower = borrower, pr_completed = completed, pr_failed = failed,
               pr_runs = runs\<rparr>, rows'))"

text \<open>The handler of the composite job: a halted run is an exception, so its own attempt fails.\<close>

definition pipeline_handler :: "pipeline_result result \<Rightarrow> pyval result" where
  "pipeline_handler outcome = rbind outcome (\<lambda>p.
     if \<not> pipeline_success p then raise RuntimeError
     else ok (PMap [(PStr ''success'', PBool (pipeline_success p)),
       (PStr ''completed_steps'', PList (map PStr (pr_completed p))), (PStr ''failed_step'', pyopt PStr (pr_failed p))]))"

section \<open>What a run leaves in the ledger\<close>

definition runnable :: "'h job_registry \<Rightarrow> string \<Rightarrow> bool" where
  "runnable registry s \<longleftrightarrow> (\<exists>d p. lookup registry s = Some d \<and> jd_policy d = Some p \<and> job_name d = s
     \<and> 1 \<le> rp_max_attempts (jp_retry p))"

definition idle_in :: "job_run list \<Rightarrow> string \<Rightarrow> bool" where
  "idle_in rows s \<longleftrightarrow> (\<forall>r\<in>set rows. jr_name r = s \<longrightarrow> jr_state r \<noteq> RUNNING)"

text \<open>One block of attempts per step, up to the first that does not succeed.\<close>

definition halted_after :: "string list \<Rightarrow> string \<Rightarrow> nat \<Rightarrow> job_run list list \<Rightarrow> bool" where
  "halted_after steps run_id k blocks \<longleftrightarrow> k \<le> length steps
     \<and> list_all2 (\<lambda>s b. attempts_of s run_id 1 b) (take (Suc k) steps) blocks
     \<and> (\<forall>j<k. jr_state (last (blocks ! j)) = SUCCEEDED)
     \<and> (k < length steps \<longrightarrow> jr_state (last (blocks ! k)) \<noteq> SUCCEEDED)"

lemma run_one_step:
  assumes "ledger_ok rows" and "serves env rows" and "runnable registry s" and "idle_in rows s" and "run_id \<noteq> []"
  obtains b where "run_now env registry s trigger (Some run_id) 1 actor rows = (ok (last b), rows @ b)"
    and "attempts_of s run_id 1 b" and "ledger_ok (rows @ b)" and "serves env (rows @ b)"
    and "\<forall>r\<in>set b. \<exists>n. jr_state r = first_ending (env n)"
proof -
  obtain d p where d: "lookup registry s = Some d" "jd_policy d = Some p" "job_name d = s"
    using assms(3) by (auto simp: runnable_def)
  have "running_run (job_name d) rows = None" using assms(4) by (auto simp: running_run_None idle_in_def d(3))
  from run_now_attempts_aux [OF assms(1,2) d(1,2) this order_refl refl, of trigger "Some run_id" actor]
  obtain runs where runs: "run_now env registry s trigger (Some run_id) 1 actor rows = (ok (last runs), rows @ runs)"
      "attempts_of s (resolved_run_id (Some run_id) (ae_run_id (env (length rows)))) 1 runs"
      "ledger_ok (rows @ runs)" "serves env (rows @ runs)"
      "\<forall>k<length runs. jr_state (runs ! k) = first_ending (env (length rows + k))"
    unfolding d(3) by blast
  have "resolved_run_id (Some run_id) x = run_id" for x using assms(5) by (simp add: resolved_run_id_def split: list.split)
  moreover have "\<forall>r\<in>set runs. \<exists>n. jr_state r = first_ending (env n)" using runs(5) by (metis in_set_conv_nth)
  ultimately show thesis using runs by (intro that [of runs]) simp_all
qed

lemma idle_after:
  "attempts_of s run_id first b \<Longrightarrow> idle_in rows t \<Longrightarrow> idle_in (rows @ b) t"
  by (auto simp: idle_in_def attempts_of_def)

lemma run_steps_blocks:
  assumes "ledger_ok rows" and "serves env rows" and "\<forall>s\<in>set steps. runnable registry s \<and> idle_in rows s"
    and "run_id \<noteq> []"
  shows "\<exists>k blocks. run_steps env registry trigger run_id actor steps completed runs rows
      = (ok (completed @ take k steps, if k < length steps then Some (steps ! k) else None, runs @ map last blocks),
         rows @ concat blocks)
    \<and> halted_after steps run_id k blocks
    \<and> (\<forall>r\<in>set (concat blocks). \<exists>n. jr_state r = first_ending (env n))"
  using assms
proof (induction steps arbitrary: rows completed runs)
  case Nil
  show ?case by (intro exI [of _ 0] exI [of _ "[]"]) (simp add: halted_after_def)
next
  case (Cons s ss)
  have s: "runnable registry s" "idle_in rows s" using Cons.prems(3) by simp_all
  obtain b where b: "run_now env registry s trigger (Some run_id) 1 actor rows = (ok (last b), rows @ b)"
      "attempts_of s run_id 1 b" "ledger_ok (rows @ b)" "serves env (rows @ b)"
      "\<forall>r\<in>set b. \<exists>n. jr_state r = first_ending (env n)"
    using run_one_step [OF Cons.prems(1,2) s Cons.prems(4)] by metis
  show ?case
  proof (cases "jr_state (last b) = SUCCEEDED")
    case False
    then show ?thesis using b by (intro exI [of _ 0] exI [of _ "[b]"]) (simp add: halted_after_def)
  next
    case True
    have "\<forall>t\<in>set ss. runnable registry t \<and> idle_in (rows @ b) t" using Cons.prems(3) idle_after [OF b(2)] by simp
    from Cons.IH [OF b(3,4) this Cons.prems(4), of "completed @ [s]" "runs @ [last b]"] obtain k blocks where
      rest: "run_steps env registry trigger run_id actor ss (completed @ [s]) (runs @ [last b]) (rows @ b)
        = (ok ((completed @ [s]) @ take k ss, if k < length ss then Some (ss ! k) else None, (runs @ [last b]) @ map last blocks),
           (rows @ b) @ concat blocks)" "halted_after ss run_id k blocks"
      "\<forall>r\<in>set (concat blocks). \<exists>n. jr_state r = first_ending (env n)"
      by blast
    have "halted_after (s # ss) run_id (Suc k) (b # blocks)"
      using rest(2) b(2) True by (auto simp: halted_after_def nth_Cons split: nat.split)
    moreover have "run_steps env registry trigger run_id actor (s # ss) completed runs rows
        = (ok (completed @ take (Suc k) (s # ss), if Suc k < length (s # ss) then Some ((s # ss) ! Suc k) else None,
             runs @ map last (b # blocks)), rows @ concat (b # blocks))"
      using b(1) True rest(1) by simp
    moreover have "\<forall>r\<in>set (concat (b # blocks)). \<exists>n. jr_state r = first_ending (env n)" using b(5) rest(3) by auto
    ultimately show ?thesis by blast
  qed
qed

lemma halted_after_blocks:
  assumes "halted_after steps run_id k blocks"
  shows "length blocks = min (Suc k) (length steps)"
    and "\<And>j r. j < length blocks \<Longrightarrow> r \<in> set (blocks ! j) \<Longrightarrow>
      jr_name r = steps ! j \<and> jr_run_id r = run_id \<and> jr_state r \<noteq> RUNNING"
    and "\<And>r. r \<in> set (concat blocks) \<Longrightarrow> jr_name r \<in> set (take (Suc k) steps)"
proof -
  have all2: "list_all2 (\<lambda>s b. attempts_of s run_id 1 b) (take (Suc k) steps) blocks"
    using assms by (simp add: halted_after_def)
  show len: "length blocks = min (Suc k) (length steps)" using list_all2_lengthD [OF all2] by simp
  show "jr_name r = steps ! j \<and> jr_run_id r = run_id \<and> jr_state r \<noteq> RUNNING"
    if "j < length blocks" "r \<in> set (blocks ! j)" for j r
    using list_all2_nthD2 [OF all2 that(1)] that len by (simp add: attempts_of_def)
  then show "jr_name r \<in> set (take (Suc k) steps)" if "r \<in> set (concat blocks)" for r
  proof -
    obtain j where "j < length blocks" "r \<in> set (blocks ! j)" using \<open>r \<in> set (concat blocks)\<close> by (metis set_concat UN_E in_set_conv_nth)
    then show ?thesis using list_all2_nthD2 [OF all2, of j] len nth_mem [of j "take (Suc k) steps"]
      by (simp add: attempts_of_def)
  qed
qed

lemma pipeline_runs:
  assumes "\<forall>s\<in>set steps. runnable registry s \<and> idle_in rows s" and "ledger_ok rows" and "serves env rows"
    and "overlapping_run (resolved_run_id run_id new_run_id) rows = None" and "new_run_id \<noteq> []"
    and "steps \<noteq> []" and "set steps \<subseteq> set pipeline_steps"
  shows "\<exists>k blocks p. run_nightly_pipeline env registry trigger run_id new_run_id borrower actor steps rows
       = (ok p, rows @ concat blocks) \<and> pr_run_id p = resolved_run_id run_id new_run_id
     \<and> pr_completed p = take k steps \<and> pr_failed p = (if k < length steps then Some (steps ! k) else None)
     \<and> pr_runs p = map last blocks \<and> halted_after steps (resolved_run_id run_id new_run_id) k blocks
     \<and> (\<forall>r\<in>set (concat blocks). \<exists>n. jr_state r = first_ending (env n))"
proof -
  have "resolved_run_id run_id new_run_id \<noteq> []"
    using assms(5) by (simp add: resolved_run_id_def split: option.split list.split)
  from run_steps_blocks [OF assms(2,3,1) this, of trigger actor "[]" "[]"] obtain k blocks where
    "run_steps env registry trigger (resolved_run_id run_id new_run_id) actor steps [] [] rows
      = (ok (take k steps, if k < length steps then Some (steps ! k) else None, map last blocks), rows @ concat blocks)"
    "halted_after steps (resolved_run_id run_id new_run_id) k blocks"
    "\<forall>r\<in>set (concat blocks). \<exists>n. jr_state r = first_ending (env n)" by auto
  then show ?thesis using assms(4,6,7)
    by (intro exI [of _ k] exI [of _ blocks]) (simp add: run_nightly_pipeline_def Let_def)
qed

lemma pipeline_names: "\<forall>s\<in>set pipeline_steps. strip s = s"
  by (simp add: pipeline_steps_def step_names strip_def is_space_def)

lemma registered_runnable:
  assumes "register_nightly_pipeline reg handlers policy = ok (defs, registry)"
    and "\<forall>p. policy = Some p \<longrightarrow> 1 \<le> rp_max_attempts (jp_retry p)"
  shows "\<forall>s\<in>set pipeline_steps. runnable registry s"
proof -
  obtain p where p: "(case policy of Some p \<Rightarrow> ok p | None \<Rightarrow> default_pipeline_policy) = ok p"
      and steps: "register_steps handlers p pipeline_steps reg = ok (defs, registry)"
    using assms(1) by (auto simp: register_nightly_pipeline_def split: if_splits)
  have "1 \<le> rp_max_attempts (jp_retry p)"
    using p assms(2) by (auto simp: default_pipeline_policy_def default_step_policy_def make_retry_policy_def
        make_job_policy_def split: option.splits)
  then show ?thesis
    using conjunct1 [OF register_steps_lookup [OF steps]] pipeline_names by (auto simp: runnable_def)
qed

text \<open>
  C21: A run of the registered nightly pipeline executes its six steps in order under one run identifier
  and halts at the first step whose last attempt does not succeed: exactly the steps before it are
  reported completed, no row of a later step is written, no row is left running, and the composite job
  reports success exactly when all six succeeded.
\<close>

theorem nightly_pipeline_halts:
  assumes "register_nightly_pipeline reg handlers policy = ok (defs, registry)"
    and "\<forall>p. policy = Some p \<longrightarrow> 1 \<le> rp_max_attempts (jp_retry p)"
    and "ledger_ok rows" and "serves env rows" and "\<forall>s\<in>set pipeline_steps. idle_in rows s"
    and "overlapping_run (resolved_run_id run_id new_run_id) rows = None" and "new_run_id \<noteq> []"
  shows "\<exists>k blocks p. run_nightly_pipeline env registry trigger run_id new_run_id borrower actor pipeline_steps rows
       = (ok p, rows @ concat blocks)
     \<and> k \<le> 6 \<and> length blocks = min (Suc k) 6 \<and> pr_runs p = map last blocks
     \<and> (\<forall>j<length blocks. blocks ! j \<noteq> [] \<and> (\<forall>r\<in>set (blocks ! j). jr_name r = pipeline_steps ! j
         \<and> jr_run_id r = resolved_run_id run_id new_run_id \<and> jr_state r \<noteq> RUNNING))
     \<and> (\<forall>j<k. jr_state (last (blocks ! j)) = SUCCEEDED) \<and> (k < 6 \<longrightarrow> jr_state (last (blocks ! k)) \<noteq> SUCCEEDED)
     \<and> pr_completed p = take k pipeline_steps \<and> pr_failed p = (if k < 6 then Some (pipeline_steps ! k) else None)
     \<and> (\<forall>r\<in>set (concat blocks). jr_name r \<in> set (take (Suc k) pipeline_steps))
     \<and> (pipeline_success p \<longleftrightarrow> k = 6) \<and> ((\<exists>m. pipeline_handler (ok p) = ok m) \<longleftrightarrow> k = 6)"
proof -
  have six: "length pipeline_steps = 6" "pipeline_steps \<noteq> []" by (simp_all add: pipeline_steps_def)
  have "\<forall>s\<in>set pipeline_steps. runnable registry s \<and> idle_in rows s"
    using registered_runnable [OF assms(1,2)] assms(5) by blast
  from pipeline_runs [OF this assms(3,4,6,7) six(2) subset_refl] obtain k blocks p where
    run: "run_nightly_pipeline env registry trigger run_id new_run_id borrower actor pipeline_steps rows = (ok p, rows @ concat blocks)"
      "pr_completed p = take k pipeline_steps" "pr_failed p = (if k < 6 then Some (pipeline_steps ! k) else None)"
      "pr_runs p = map last blocks" "halted_after pipeline_steps (resolved_run_id run_id new_run_id) k blocks"
    unfolding six(1) by blast
  note blocks = halted_after_blocks [OF run(5)]
  have halt: "k \<le> 6" "\<forall>j<k. jr_state (last (blocks ! j)) = SUCCEEDED" "k < 6 \<longrightarrow> jr_state (last (blocks ! k)) \<noteq> SUCCEEDED"
      "list_all2 (\<lambda>s b. attempts_of s (resolved_run_id run_id new_run_id) 1 b) (take (Suc k) pipeline_steps) blocks"
    using run(5) by (simp_all add: halted_after_def six(1))
  have "blocks ! j \<noteq> []" if "j < length blocks" for j
    using list_all2_nthD2 [OF halt(4) that] by (simp add: attempts_of_def)
  moreover have "pipeline_success p \<longleftrightarrow> k = 6" using run(2,3) halt(1) by (auto simp: pipeline_success_def six(1))
  ultimately show ?thesis
    using run blocks halt by (intro exI [of _ k] exI [of _ blocks] exI [of _ p]) (simp add: six(1) pipeline_handler_def)
qed

section \<open>Concrete runs\<close>

definition demo_handlers :: "(string \<times> unit) list" where
  "demo_handlers = map (\<lambda>s. (s, ())) pipeline_steps"

lemma demo_pipeline_registers:
  "\<exists>defs registry. register_nightly_pipeline [] demo_handlers None = ok (defs, registry)"
  by (simp add: register_nightly_pipeline_def default_pipeline_policy_def default_step_policy_def make_retry_policy_def
      make_job_policy_def demo_handlers_def pipeline_steps_def step_names register_job_def Let_def job_name_def
      strip_def is_space_def max_name_length_def lookup_append has_key_def)

definition steady_env :: "nat \<Rightarrow> attempt_env" where
  "steady_env n = \<lparr>ae_closing = False, ae_id = n, ae_run_id = ''run-1'', ae_request = ''req'', ae_started = int n,
     ae_endings = [(int n + 1, Returned PNone)]\<rparr>"

lemma steady_serves: "serves steady_env []" and empty_ledger: "ledger_ok []"
  by (simp_all add: serves_def steady_env_def ledger_ok_def single_running_def)

theorem nightly_pipeline_halts_witness:
  "\<exists>registry k p rows. run_nightly_pipeline steady_env (registry :: unit job_registry) ''scheduled'' None ''run-1'' None None pipeline_steps []
     = (ok p, rows) \<and> k \<le> 6 \<and> pr_completed p = take k pipeline_steps"
proof -
  obtain defs registry where reg: "register_nightly_pipeline [] demo_handlers None = ok (defs, registry)"
    using demo_pipeline_registers by blast
  from nightly_pipeline_halts [OF reg _ empty_ledger steady_serves, of None "''run-1''" "''scheduled''" None None]
  show ?thesis by (auto simp: idle_in_def overlapping_run_def)
qed

text \<open>The selection of steps is not checked for repetition: naming the first step six times makes a run
  that reports success although no other step has run.\<close>

lemma repeated_step_reports_success:
  assumes "register_nightly_pipeline [] demo_handlers None = ok (defs, registry)"
  shows "\<exists>p rows. run_nightly_pipeline steady_env registry ''manual'' None ''run-1'' None None (replicate 6 step_ingest) []
     = (ok p, rows) \<and> pipeline_success p \<and> (\<forall>r\<in>set rows. jr_name r = step_ingest)"
proof -
  have steps: "\<forall>s\<in>set (replicate 6 step_ingest). runnable registry s \<and> idle_in [] s"
      "set (replicate 6 step_ingest) \<subseteq> set pipeline_steps"
    using registered_runnable [OF assms] by (simp_all add: idle_in_def pipeline_steps_def)
  have ne: "''run-1'' \<noteq> []" "replicate 6 step_ingest \<noteq> []" by simp_all
  have none: "overlapping_run (resolved_run_id None ''run-1'') [] = None" by (simp add: overlapping_run_def)
  from pipeline_runs [OF steps(1) empty_ledger steady_serves none ne steps(2), of "''manual''" None None]
  obtain k blocks p where run: "run_nightly_pipeline steady_env registry ''manual'' None ''run-1'' None None (replicate 6 step_ingest) []
        = (ok p, [] @ concat blocks)" "pr_completed p = take k (replicate 6 step_ingest)"
      "pr_failed p = (if k < length (replicate 6 step_ingest) then Some (replicate 6 step_ingest ! k) else None)"
      "halted_after (replicate 6 step_ingest) (resolved_run_id None ''run-1'') k blocks"
      "\<forall>r\<in>set (concat blocks). \<exists>n. jr_state r = first_ending (steady_env n)"
    by blast
  note blocks = halted_after_blocks [OF run(4)]
  have all: "jr_state r = SUCCEEDED" if "r \<in> set (concat blocks)" for r
    using run(5) that by (auto simp: first_ending_def steady_env_def ending_state_def)
  have "\<not> k < 6"
  proof
    assume k: "k < 6"
    then have len: "k < length blocks" using blocks(1) by simp
    have all2: "list_all2 (\<lambda>s b. attempts_of s (resolved_run_id None ''run-1'') 1 b) (take (Suc k) (replicate 6 step_ingest)) blocks"
      using run(4) by (simp only: halted_after_def)
    have "blocks ! k \<noteq> []" using list_all2_nthD2 [OF all2 len] by (simp add: attempts_of_def)
    then have "last (blocks ! k) \<in> set (blocks ! k)" by simp
    then have "jr_state (last (blocks ! k)) = SUCCEEDED" using all len by (metis UN_I nth_mem set_concat)
    then show False using run(4) k by (simp add: halted_after_def)
  qed
  then have "pipeline_success p" using run(2,3) by (simp add: pipeline_success_def pipeline_steps_def)
  moreover have "\<forall>r\<in>set (concat blocks). jr_name r = step_ingest" using blocks(3) set_take_subset by fastforce
  ultimately show ?thesis using run(1) by simp
qed

end
