(* ===== verification/Rate_Limit.thy ===== *)
theory Rate_Limit
  imports Py_Values
begin

text \<open>
  Request rate limiting (\<open>security/ratelimit.py\<close>): rules, the in-memory store, the limiter that maps
  categories to rules, and the decision of the middleware. An instant and a window are microseconds; the
  ordered dictionary of the store is the list of its items, the least recently used key first, and a deque
  its elements from the left. The lock of the store makes one \<open>consume\<close> a step. The ceiling of the float
  seconds is the exact one, which it is for windows below \<open>2 ^ 33\<close> seconds.
\<close>

section \<open>Rules and settings\<close>

record rate_rule =
  rl_limit :: int
  rl_window :: int

definition make_rate_rule :: "int \<Rightarrow> int \<Rightarrow> rate_rule result" where
  "make_rate_rule limit window =
     (if limit \<le> 0 then raise ValueError else if window \<le> 0 then raise ValueError
      else ok \<lparr>rl_limit = limit, rl_window = window\<rparr>)"

definition rate_minute :: int where "rate_minute = 60 * 1000000"

definition per_minute :: "int \<Rightarrow> rate_rule result" where
  "per_minute limit = make_rate_rule limit rate_minute"

record rate_settings =
  rs_authentication :: rate_rule
  rs_password_reset :: rate_rule
  rs_api :: rate_rule
  rs_api_prefix :: string
  rs_password_prefixes :: "string list"
  rs_authentication_prefixes :: "string list"

definition starts_with :: "string \<Rightarrow> string \<Rightarrow> bool" where
  "starts_with s p \<longleftrightarrow> take (length p) s = p"

definition make_rate_settings :: "rate_settings \<Rightarrow> rate_settings result" where
  "make_rate_settings s =
     (if \<not> starts_with (rs_api_prefix s) ''/'' then raise ValueError
      else if filter (\<lambda>p. \<not> starts_with p ''/'') (rs_password_prefixes s @ rs_authentication_prefixes s) \<noteq> []
      then raise ValueError else ok s)"

definition default_rate_settings :: rate_settings where
  "default_rate_settings = \<lparr>rs_authentication = \<lparr>rl_limit = 10, rl_window = rate_minute\<rparr>,
     rs_password_reset = \<lparr>rl_limit = 5, rl_window = 15 * rate_minute\<rparr>,
     rs_api = \<lparr>rl_limit = 120, rl_window = rate_minute\<rparr>,
     rs_api_prefix = ''/api/'',
     rs_password_prefixes = [''/password/'', ''/forgot-password'', ''/reset-password''],
     rs_authentication_prefixes = [''/sign-in'', ''/sign-out'', ''/mfa/'', ''/sso/'']\<rparr>"

lemma default_rate_settings_ok: "make_rate_settings default_rate_settings = ok default_rate_settings"
  by (simp add: make_rate_settings_def default_rate_settings_def starts_with_def)

section \<open>The store\<close>

record rate_decision =
  rd_allowed :: bool
  rd_limit :: int
  rd_remaining :: int
  rd_retry_after :: int
  rd_reset_at :: int

type_synonym rate_store = "(string \<times> int list) list"

definition make_store :: "int \<Rightarrow> rate_store result" where
  "make_store max_keys = (if max_keys \<le> 0 then raise ValueError else ok [])"

definition instant_of :: "int \<Rightarrow> int result" where
  "instant_of t = (if 0 \<le> t \<and> t \<le> max_instant then ok t else raise OverflowError)"

definition ceil_seconds :: "int \<Rightarrow> int" where
  "ceil_seconds us = - ((- us) div 1000000)"

text \<open>The entry of the key moved to the end, an empty one made when there is none, the least recently
  used key evicted at capacity.\<close>

definition touch :: "int \<Rightarrow> string \<Rightarrow> rate_store \<Rightarrow> rate_store \<times> int list" where
  "touch max_keys key hits = (case lookup hits key of
     None \<Rightarrow> (if int (length hits) \<ge> max_keys then tl hits else hits, [])
   | Some ts \<Rightarrow> (filter (\<lambda>e. fst e \<noteq> key) hits, ts))"

text \<open>The result and the store it leaves: the append precedes the computation that may overflow.\<close>

definition consume :: "int \<Rightarrow> string \<Rightarrow> rate_rule \<Rightarrow> int \<Rightarrow> rate_store \<Rightarrow> rate_decision result \<times> rate_store" where
  "consume max_keys key rule now hits =
     (case instant_of (now - rl_window rule) of Inl e \<Rightarrow> (raise e, hits) | Inr cutoff \<Rightarrow>
      (case touch max_keys key hits of (others, stored) \<Rightarrow>
       let timestamps = dropWhile (\<lambda>t. t \<le> cutoff) stored in
       if int (length timestamps) \<ge> rl_limit rule then
         (rbind (instant_of (hd timestamps + rl_window rule)) (\<lambda>reset_at.
            ok \<lparr>rd_allowed = False, rd_limit = rl_limit rule, rd_remaining = 0,
                rd_retry_after = max 1 (ceil_seconds (reset_at - now)), rd_reset_at = reset_at\<rparr>),
          others @ [(key, timestamps)])
       else
         (rbind (instant_of (now + rl_window rule)) (\<lambda>reset_at.
            ok \<lparr>rd_allowed = True, rd_limit = rl_limit rule,
                rd_remaining = rl_limit rule - int (length (timestamps @ [now])),
                rd_retry_after = 0, rd_reset_at = reset_at\<rparr>),
          others @ [(key, timestamps @ [now])])))"

section \<open>The limiter and the middleware\<close>

definition rule_for :: "rate_settings \<Rightarrow> string \<Rightarrow> rate_rule result" where
  "rule_for s category =
     (if category = ''authentication'' then ok (rs_authentication s)
      else if category = ''password_reset'' then ok (rs_password_reset s)
      else if category = ''api'' then ok (rs_api s) else raise ValueError)"

definition rate_key :: "string \<Rightarrow> string \<Rightarrow> string" where
  "rate_key category key = category @ '':'' @ key"

definition check_rate :: "rate_settings \<Rightarrow> int \<Rightarrow> string \<Rightarrow> string \<Rightarrow> int \<Rightarrow> rate_store
    \<Rightarrow> rate_decision result \<times> rate_store" where
  "check_rate s max_keys category key now hits =
     (if key = [] then (raise ValueError, hits)
      else case rule_for s category of Inl e \<Rightarrow> (raise e, hits)
        | Inr rule \<Rightarrow> consume max_keys (rate_key category key) rule now hits)"

definition category_for_path :: "rate_settings \<Rightarrow> string \<Rightarrow> string option" where
  "category_for_path s path =
     (if starts_with path (rs_api_prefix s) then Some ''api''
      else if filter (starts_with path) (rs_password_prefixes s) \<noteq> [] then Some ''password_reset''
      else if filter (starts_with path) (rs_authentication_prefixes s) \<noteq> [] then Some ''authentication''
      else None)"

definition client_key :: "pyval \<Rightarrow> string" where
  "client_key client = (case client of PList (c # cs) \<Rightarrow> (case text_of c of Some host \<Rightarrow> host | None \<Rightarrow> ''unknown-client'')
     | _ \<Rightarrow> ''unknown-client'')"

text \<open>What the middleware does with a request: hand it on, or answer 429 with the retry header. The
  audit of a refusal is caught and logged whatever it raises, so it does not change the outcome.\<close>

datatype rate_outcome = Handed_on | Refused rate_decision

definition rate_middleware :: "rate_settings \<Rightarrow> int \<Rightarrow> string \<Rightarrow> string \<Rightarrow> pyval \<Rightarrow> int \<Rightarrow> rate_store
    \<Rightarrow> rate_outcome result \<times> rate_store" where
  "rate_middleware s max_keys scope_type path client now hits =
     (if scope_type \<noteq> ''http'' then (ok Handed_on, hits)
      else case category_for_path s path of None \<Rightarrow> (ok Handed_on, hits)
        | Some category \<Rightarrow> (case check_rate s max_keys category (client_key client) now hits of
            (d, hits') \<Rightarrow> (rbind d (\<lambda>d. ok (if rd_allowed d then Handed_on else Refused d)), hits')))"

section \<open>The window it implements\<close>

text \<open>The reference keeps every admitted request and admits one when fewer than the limit of its key
  were admitted in the window that ends now.\<close>

type_synonym request = "string \<times> int"




fun run_store :: "int \<Rightarrow> (string \<Rightarrow> rate_rule) \<Rightarrow> request list \<Rightarrow> rate_store \<Rightarrow> rate_decision result list \<times> rate_store" where
  "run_store max_keys rules [] hits = ([], hits)"
| "run_store max_keys rules (q # qs) hits =
     (case consume max_keys (fst q) (rules (fst q)) (snd q) hits of (d, hits') \<Rightarrow>
      case run_store max_keys rules qs hits' of (ds, hits'') \<Rightarrow> (d # ds, hits''))"




























section \<open>Where the text and the code differ\<close>

text \<open>The rule is documented as a fixed window. A request one window after the first is still refused
  when later ones of the old window fill the sliding one.\<close>

lemma not_a_fixed_window:
  "rd_allowed (projr (fst (run_store 9 (\<lambda>k. \<lparr>rl_limit = 2, rl_window = 60\<rparr>) [(''a'', 100), (''a'', 159), (''a'', 160), (''a'', 161)] []) ! 2))
   \<and> \<not> rd_allowed (projr (fst (run_store 9 (\<lambda>k. \<lparr>rl_limit = 2, rl_window = 60\<rparr>) [(''a'', 100), (''a'', 159), (''a'', 160), (''a'', 161)] []) ! 3))"
  by (simp add: consume_def touch_def instant_of_def max_instant_def max_ordinal_def Let_def)

text \<open>At capacity a new key evicts the least recently used one with its count: a refused key is admitted
  again at once when other keys have come in between.\<close>

lemma evicted_key_starts_over:
  "map (rd_allowed \<circ> projr) (fst (run_store 1 (\<lambda>k. \<lparr>rl_limit = 1, rl_window = 60\<rparr>)
     [(''a'', 100), (''a'', 101), (''b'', 102), (''a'', 103)] [])) = [True, False, True, True]"
  by (simp add: consume_def touch_def instant_of_def max_instant_def max_ordinal_def Let_def)

end
