(* ===== verification/Test_Calendar.thy ===== *)
theory Test_Calendar
  imports Py_Values
begin

text \<open>
  The testing calendar (\<open>domain/covenants/calendar.py\<close>): fiscal period ends, the adjustment of a due
  date that falls on a weekend or a holiday, the occurrences of a schedule, the moves of a schedule row
  and the scope of a retest trigger. Parameters the source validates at run time are dynamic values;
  the holidays are the list of the set's elements.
\<close>

section \<open>Vocabulary\<close>

definition valid_frequencies :: "string list" where
  "valid_frequencies = [''monthly'', ''quarterly'', ''half_yearly'', ''annual'', ''on_event'']"

definition frequency_offsets :: "(string \<times> int list) list" where
  "frequency_offsets = [(''monthly'', [0, 1, 2, 3, 4, 5, 6, 7, 8, 9, 10, 11]), (''quarterly'', [2, 5, 8, 11]),
     (''half_yearly'', [5, 11]), (''annual'', [11])]"

definition first_due_search_days :: int where "first_due_search_days = 400"

datatype adjustment = NEXT_BUSINESS_DAY | PREVIOUS_BUSINESS_DAY | NO_ADJUSTMENT

definition adjustment_value :: "adjustment \<Rightarrow> string" where
  "adjustment_value c = (case c of NEXT_BUSINESS_DAY \<Rightarrow> ''next_business_day''
     | PREVIOUS_BUSINESS_DAY \<Rightarrow> ''previous_business_day'' | NO_ADJUSTMENT \<Rightarrow> ''none'')"

definition coerce_convention :: "pyval \<Rightarrow> adjustment result" where
  "coerce_convention v = (case text_of v of None \<Rightarrow> raise TypeError
     | Some s \<Rightarrow> if s = ''next_business_day'' then ok NEXT_BUSINESS_DAY
         else if s = ''previous_business_day'' then ok PREVIOUS_BUSINESS_DAY
         else if s = ''none'' then ok NO_ADJUSTMENT else raise ValueError)"

definition calendar_date :: "pyval \<Rightarrow> date result" where
  "calendar_date v = (case date_of v of Some d \<Rightarrow> ok d | None \<Rightarrow> raise TypeError)"

record fiscal_calendar =
  fc_start_month :: int
  fc_weekend :: adjustment
  fc_holiday :: adjustment
  fc_holidays :: "date list"

definition make_fiscal_calendar :: "pyval \<Rightarrow> pyval \<Rightarrow> pyval \<Rightarrow> pyval list \<Rightarrow> fiscal_calendar result" where
  "make_fiscal_calendar start_month weekend holiday holidays =
     (case plain_int start_month of None \<Rightarrow> raise TypeError | Some m \<Rightarrow>
      if \<not> (1 \<le> m \<and> m \<le> 12) then raise ValueError else
      rbind (coerce_convention weekend) (\<lambda>w. rbind (coerce_convention holiday) (\<lambda>h.
      rbind (rmap calendar_date holidays) (\<lambda>days.
      ok \<lparr>fc_start_month = m, fc_weekend = w, fc_holiday = h, fc_holidays = days\<rparr>))))"

definition holiday_row :: "pyval \<Rightarrow> pyval result" where
  "holiday_row row = (case text_of (pyfield row ''date'') of None \<Rightarrow> raise TypeError
     | Some s \<Rightarrow> if strip s = [] then raise TypeError
         else case date_of_iso (strip s) of None \<Rightarrow> raise ValueError | Some d \<Rightarrow> ok (PDate d))"

definition calendar_from_mapping :: "pyval \<Rightarrow> fiscal_calendar result" where
  "calendar_from_mapping v = (case v of
     PMap kvs \<Rightarrow>
       (case pyfield_default v ''holidays'' (PList []) of
          PList rows \<Rightarrow> rbind (rmap holiday_row rows) (\<lambda>days.
            make_fiscal_calendar (pyfield v ''fiscal_year_start_month'')
              (pyfield_default v ''weekend_adjustment'' (PEnum ''AdjustmentConvention'' ''next_business_day''))
              (pyfield_default v ''holiday_adjustment'' (PEnum ''AdjustmentConvention'' ''next_business_day'')) days)
        | _ \<Rightarrow> raise TypeError)
   | _ \<Rightarrow> raise TypeError)"

section \<open>Fiscal period ends\<close>

definition last_day_of_month :: "int \<Rightarrow> int \<Rightarrow> date result" where
  "last_day_of_month year month =
     (if month = 12 then mk_date year 12 31 else rbind (mk_date year (month + 1) 1) (\<lambda>d. add_days d (- 1)))"

definition end_months :: "string \<Rightarrow> int \<Rightarrow> int list result" where
  "end_months frequency start_month = (case lookup frequency_offsets frequency of None \<Rightarrow> raise ValueError
     | Some offsets \<Rightarrow> ok (sort (remdups (map (\<lambda>k. (start_month - 1 + k) mod 12 + 1) offsets))))"

definition year_months :: "int \<Rightarrow> int \<Rightarrow> int list \<Rightarrow> (int \<times> int) list" where
  "year_months from_year to_year months = [(y, m). y \<leftarrow> [from_year..to_year], m \<leftarrow> months]"

definition period_end_dates :: "string \<Rightarrow> int \<Rightarrow> date \<Rightarrow> date \<Rightarrow> date list result" where
  "period_end_dates frequency start_month start until =
     (if frequency = ''on_event'' then raise ValueError
      else if until \<le> start then ok []
      else rbind (end_months frequency start_month) (\<lambda>months.
        rbind (rmap (\<lambda>(y, m). last_day_of_month y m)
            (year_months (year_of start - 1) (year_of until + 1) months)) (\<lambda>candidates.
        ok (sort (remdups (filter (\<lambda>d. start \<le> d \<and> d < until) candidates))))))"

definition first_due_date :: "date \<Rightarrow> string \<Rightarrow> int \<Rightarrow> date option result" where
  "first_due_date effective_from frequency start_month =
     (if frequency = ''on_event'' then ok None else
      rbind (add_days effective_from first_due_search_days) (\<lambda>horizon.
      rbind (period_end_dates frequency start_month effective_from horizon) (\<lambda>boundaries.
      case boundaries of [] \<Rightarrow> raise RuntimeError | d # ds \<Rightarrow> ok (Some d))))"

section \<open>Business days\<close>

definition is_business_day :: "date \<Rightarrow> fiscal_calendar \<Rightarrow> bool" where
  "is_business_day day cal = (if weekday day \<in> {5, 6} then False else day \<notin> set (fc_holidays cal))"

text \<open>The loop that walks to a business day; it ends there or by leaving the range of dates.\<close>

function seek_business_day :: "fiscal_calendar \<Rightarrow> bool \<Rightarrow> date \<Rightarrow> date result" where
  "seek_business_day cal forward day =
     (if is_business_day day cal then ok day
      else case add_days day (if forward then 1 else - 1) of Inl e \<Rightarrow> Inl e
        | Inr next_day \<Rightarrow> seek_business_day cal forward next_day)"
  by pat_completeness auto

termination
  by (relation "measure (\<lambda>(cal, forward, day). nat (if forward then max_ordinal - day else day))")
    (auto simp: add_days_def Let_def min_ordinal_def split: if_splits)

declare seek_business_day.simps [simp del]

definition adjustment_reason :: "date \<Rightarrow> bool \<Rightarrow> adjustment \<Rightarrow> date \<Rightarrow> string" where
  "adjustment_reason raw holiday c adjusted =
     iso_date raw @ '' fell on '' @ (if holiday then ''a holiday'' else ''a weekend'') @ ''; adjusted to the ''
     @ (if c = NEXT_BUSINESS_DAY then ''next'' else ''previous'') @ '' business day '' @ iso_date adjusted
     @ '' per the '' @ adjustment_value c @ '' convention.''"

definition adjust_due_date :: "date \<Rightarrow> fiscal_calendar \<Rightarrow> (date \<times> string option) result" where
  "adjust_due_date raw cal =
     (if is_business_day raw cal then ok (raw, None) else
      let is_holiday = raw \<in> set (fc_holidays cal);
          c = (if is_holiday then fc_holiday cal else fc_weekend cal) in
      if c = NO_ADJUSTMENT then ok (raw, None) else
      rbind (add_days raw (if c = NEXT_BUSINESS_DAY then 1 else - 1)) (\<lambda>first.
      rbind (seek_business_day cal (c = NEXT_BUSINESS_DAY) first) (\<lambda>adjusted.
      ok (adjusted, Some (adjustment_reason raw is_holiday c adjusted)))))"

section \<open>The occurrences of a schedule\<close>

record occurrence =
  oc_period_end :: date
  oc_due_date :: date
  oc_reason :: "string option"

definition make_occurrence :: "date \<Rightarrow> date \<Rightarrow> string option \<Rightarrow> occurrence result" where
  "make_occurrence period_end due_date reason =
     (case reason of Some r \<Rightarrow> if strip r = [] then raise ValueError
          else ok \<lparr>oc_period_end = period_end, oc_due_date = due_date, oc_reason = reason\<rparr>
      | None \<Rightarrow> ok \<lparr>oc_period_end = period_end, oc_due_date = due_date, oc_reason = reason\<rparr>)"

definition adjusted_occurrence :: "fiscal_calendar \<Rightarrow> date \<Rightarrow> occurrence result" where
  "adjusted_occurrence cal boundary =
     rbind (adjust_due_date boundary cal) (\<lambda>(due_date, reason). make_occurrence boundary due_date reason)"

definition generate_schedule_occurrences :: "pyval \<Rightarrow> pyval \<Rightarrow> pyval \<Rightarrow> fiscal_calendar \<Rightarrow> pyval \<Rightarrow> occurrence list result" where
  "generate_schedule_occurrences effective_from effective_to frequency cal horizon_end =
     rbind (calendar_date effective_from) (\<lambda>start.
     rbind (calendar_date horizon_end) (\<lambda>horizon.
     rbind (if effective_to = PNone then ok horizon else rbind (calendar_date effective_to) (\<lambda>t. ok (min t horizon)))
       (\<lambda>window_end.
     case text_of frequency of None \<Rightarrow> raise ValueError | Some f \<Rightarrow>
     if f \<notin> set valid_frequencies then raise ValueError
     else if f = ''on_event'' then ok []
     else rbind (period_end_dates f (fc_start_month cal) start window_end)
       (rmap (adjusted_occurrence cal)))))"

section \<open>The moves of a schedule row\<close>

definition schedule_state :: "pyval \<Rightarrow> string result" where
  "schedule_state schedule = (case text_of (pyfield schedule ''state'') of None \<Rightarrow> raise ValueError
     | Some s \<Rightarrow> if strip s = [] then raise ValueError else ok (lower (strip s)))"

definition schedule_due_date :: "pyval \<Rightarrow> date result" where
  "schedule_due_date schedule = calendar_date (pyfield schedule ''due_date'')"

definition not_applicable_state :: "pyval \<Rightarrow> pyval \<Rightarrow> string option result" where
  "not_applicable_state schedule cutoff =
     rbind (calendar_date cutoff) (\<lambda>c. rbind (schedule_state schedule) (\<lambda>s. rbind (schedule_due_date schedule) (\<lambda>d.
     ok (if s \<in> {''due'', ''missed''} \<and> c \<le> d then Some ''not_applicable'' else None))))"

definition is_missed :: "pyval \<Rightarrow> pyval \<Rightarrow> bool result" where
  "is_missed schedule as_of =
     rbind (calendar_date as_of) (\<lambda>t. rbind (schedule_state schedule) (\<lambda>s. rbind (schedule_due_date schedule) (\<lambda>d.
     ok (s = ''due'' \<and> d < t))))"

section \<open>Retest triggers\<close>

datatype trigger_kind = STATEMENT | RESTATEMENT | WAIVER | EXCEPTION | CONDUCT

record retest_trigger =
  rt_kind :: trigger_kind
  rt_as_of :: date
  rt_borrower :: "nat option"
  rt_facility :: "nat option"
  rt_covenant :: "nat option"
  rt_version :: "nat option"
  rt_period :: "string option"

definition trigger_scope :: "retest_trigger \<Rightarrow> nat option" where
  "trigger_scope t = (case rt_kind t of STATEMENT \<Rightarrow> rt_borrower t | RESTATEMENT \<Rightarrow> rt_borrower t
     | CONDUCT \<Rightarrow> rt_facility t | WAIVER \<Rightarrow> rt_covenant t | EXCEPTION \<Rightarrow> rt_version t)"

definition optional_trigger_id :: "pyval \<Rightarrow> nat option result" where
  "optional_trigger_id v = (if v = PNone then ok None
     else case uuid_of v of Some u \<Rightarrow> ok (Some u) | None \<Rightarrow> raise TypeError)"

definition make_retest_trigger :: "trigger_kind \<Rightarrow> pyval \<Rightarrow> pyval \<Rightarrow> pyval \<Rightarrow> pyval \<Rightarrow> pyval \<Rightarrow> string option
    \<Rightarrow> retest_trigger result" where
  "make_retest_trigger kind as_of borrower facility covenant version period =
     rbind (calendar_date as_of) (\<lambda>d. rbind (optional_trigger_id borrower) (\<lambda>b. rbind (optional_trigger_id facility) (\<lambda>f.
     rbind (optional_trigger_id covenant) (\<lambda>c. rbind (optional_trigger_id version) (\<lambda>v.
     if (case period of Some p \<Rightarrow> strip p = [] | None \<Rightarrow> False) then raise ValueError else
     let t = \<lparr>rt_kind = kind, rt_as_of = d, rt_borrower = b, rt_facility = f, rt_covenant = c, rt_version = v,
              rt_period = period\<rparr> in
     if trigger_scope t = None then raise ValueError else ok t)))))"

section \<open>Every fiscal boundary, and no other date\<close>

definition fiscal_boundary :: "string \<Rightarrow> int \<Rightarrow> date \<Rightarrow> bool" where
  "fiscal_boundary frequency start_month d \<longleftrightarrow> (\<exists>y m offsets k. 1 \<le> y \<and> y \<le> 9999 \<and> 1 \<le> m \<and> m \<le> 12
     \<and> d = ymd2ord y m (days_in_month y m) \<and> lookup frequency_offsets frequency = Some offsets \<and> k \<in> set offsets
     \<and> m = (start_month - 1 + k) mod 12 + 1)"

lemma days_before_next_month:
  assumes "1 \<le> m" and "m < 12"
  shows "days_before_month y (m + 1) = days_before_month y m + days_in_month y m"
proof -
  have "m = 1 \<or> m = 2 \<or> m = 3 \<or> m = 4 \<or> m = 5 \<or> m = 6 \<or> m = 7 \<or> m = 8 \<or> m = 9 \<or> m = 10 \<or> m = 11"
    using assms by presburger
  then show ?thesis by (elim disjE) (simp_all add: month_offsets month_lengths)
qed

lemma month_end_valid:
  assumes "1 \<le> y" and "y \<le> 9999" and "1 \<le> m" and "m \<le> 12"
  shows "valid_ymd y m (days_in_month y m)" and "valid_ymd y m 1" and "1 < ymd2ord y m (days_in_month y m)"
proof -
  have "28 \<le> days_in_month y m" using month_cases [OF assms(3,4)] by (elim disjE) (simp_all add: month_lengths)
  then show "valid_ymd y m (days_in_month y m)" and first: "valid_ymd y m 1" using assms by (simp_all add: valid_ymd_def)
  show "1 < ymd2ord y m (days_in_month y m)"
    using ymd2ord_bounds(1) [OF first] \<open>28 \<le> days_in_month y m\<close> by (simp add: ymd2ord_def)
qed

lemma last_day_of_month_ok:
  assumes "1 \<le> y" and "y \<le> 9999" and "1 \<le> m" and "m \<le> 12"
  shows "last_day_of_month y m = ok (ymd2ord y m (days_in_month y m))"
proof (cases "m = 12")
  case True
  then show ?thesis using assms by (simp add: last_day_of_month_def mk_date_def valid_ymd_def month_lengths)
next
  case False
  then have m: "m < 12" using assms(4) by simp
  have first: "valid_ymd y (m + 1) 1" using month_end_valid(2) [of y "m + 1"] assms m by simp
  have last: "ymd2ord y (m + 1) 1 - 1 = ymd2ord y m (days_in_month y m)"
    by (simp add: ymd2ord_def days_before_next_month [OF assms(3) m])
  have "1 < ymd2ord y m (days_in_month y m)" "ymd2ord y m (days_in_month y m) \<le> max_ordinal"
    using month_end_valid [OF assms] ymd2ord_bounds(2) by simp_all
  then show ?thesis using False first last by (simp add: last_day_of_month_def mk_date_def add_days_def min_ordinal_def)
qed

lemma last_day_of_month_year:
  "last_day_of_month y m = ok d \<Longrightarrow> 1 \<le> y \<and> y \<le> 9999"
  by (auto simp: last_day_of_month_def mk_date_def valid_ymd_def split: if_splits)

lemma end_months_ok:
  "end_months f s = ok months \<longleftrightarrow> (\<exists>offsets. lookup frequency_offsets f = Some offsets
     \<and> months = sort (remdups (map (\<lambda>k. (s - 1 + k) mod 12 + 1) offsets)))"
  by (auto simp: end_months_def split: option.splits)

lemma end_months_range:
  assumes "end_months f s = ok months" and "m \<in> set months"
  shows "1 \<le> m" and "m \<le> 12"
proof -
  obtain k where "m = k mod 12 + 1" using assms by (auto simp: end_months_ok)
  then show "1 \<le> m" and "m \<le> 12" by simp_all
qed

lemma image_pairs: "(\<lambda>p. g (fst p) (snd p)) ` S = {d. \<exists>y m. (y, m) \<in> S \<and> d = g y m}"
  by force

lemma period_end_dates_exact:
  assumes "period_end_dates f s start until = ok ds" and "1 \<le> start"
  shows "sorted ds \<and> distinct ds \<and> (\<forall>d. d \<in> set ds \<longleftrightarrow> start \<le> d \<and> d < until \<and> fiscal_boundary f s d)"
proof (cases "until \<le> start")
  case True
  then show ?thesis using assms(1) by (auto simp: period_end_dates_def split: if_splits)
next
  case False
  obtain months candidates where months: "end_months f s = ok months"
    and cand: "rmap (\<lambda>(y, m). last_day_of_month y m) (year_months (year_of start - 1) (year_of until + 1) months) = ok candidates"
    and ds: "ds = sort (remdups (filter (\<lambda>d. start \<le> d \<and> d < until) candidates))"
    using assms(1) False by (auto simp: period_end_dates_def split: if_splits)
  have pairs: "(y, m) \<in> set (year_months (year_of start - 1) (year_of until + 1) months) \<longleftrightarrow> year_of start - 1 \<le> y \<and> y \<le> year_of until + 1 \<and> m \<in> set months" for y m
    by (auto simp: year_months_def)
  have ends: "last_day_of_month y m = ok (ymd2ord y m (days_in_month y m)) \<and> 1 \<le> y \<and> y \<le> 9999"
    if "(y, m) \<in> set (year_months (year_of start - 1) (year_of until + 1) months)" for y m
  proof -
    have "\<exists>d. last_day_of_month y m = ok d" using cand that by (auto simp: rmap_Inr_iff)
    then have y: "1 \<le> y" "y \<le> 9999" using last_day_of_month_year by blast+
    have "m \<in> set months" using that unfolding pairs by blast
    then show ?thesis using last_day_of_month_ok [OF y] end_months_range [OF months] y by blast
  qed
  let ?ym = "set (year_months (year_of start - 1) (year_of until + 1) months)"
  have "set candidates = (\<lambda>p. projr (last_day_of_month (fst p) (snd p))) ` ?ym"
    using cand unfolding rmap_Inr_iff by (simp add: case_prod_unfold)
  also have "\<dots> = (\<lambda>p. ymd2ord (fst p) (snd p) (days_in_month (fst p) (snd p))) ` ?ym"
  proof (rule image_cong [OF refl])
    fix p assume "p \<in> ?ym"
    then have "(fst p, snd p) \<in> ?ym" by simp
    then show "projr (last_day_of_month (fst p) (snd p)) = ymd2ord (fst p) (snd p) (days_in_month (fst p) (snd p))"
      using ends by simp
  qed
  finally have all: "set candidates = {d. \<exists>y m. (y, m) \<in> ?ym \<and> d = ymd2ord y m (days_in_month y m)}"
    unfolding image_pairs [of "\<lambda>y m. ymd2ord y m (days_in_month y m)"] .
  have members: "d \<in> set candidates \<longleftrightarrow> (\<exists>y m. (y, m) \<in> ?ym \<and> d = ymd2ord y m (days_in_month y m))" for d
    unfolding all by (rule mem_Collect_eq)
  have "d \<in> set candidates \<longleftrightarrow> fiscal_boundary f s d" if d: "start \<le> d" "d < until" for d
  proof
    assume "d \<in> set candidates"
    then obtain y m where ym: "(y, m) \<in> set (year_months (year_of start - 1) (year_of until + 1) months)" "d = ymd2ord y m (days_in_month y m)" unfolding members by blast
    then have m: "m \<in> set months" unfolding pairs by blast
    then obtain offsets k where "lookup frequency_offsets f = Some offsets" "k \<in> set offsets" "m = (s - 1 + k) mod 12 + 1"
      using months by (auto simp: end_months_ok)
    then show "fiscal_boundary f s d"
      using ends [OF ym(1)] ym(2) end_months_range [OF months m] unfolding fiscal_boundary_def by blast
  next
    assume "fiscal_boundary f s d"
    then obtain y m offsets k where ym: "1 \<le> y" "y \<le> 9999" "1 \<le> m" "m \<le> 12" "d = ymd2ord y m (days_in_month y m)"
        and k: "lookup frequency_offsets f = Some offsets" "k \<in> set offsets" "m = (s - 1 + k) mod 12 + 1"
      unfolding fiscal_boundary_def by blast
    have m: "m \<in> set months" using months k by (auto simp: end_months_ok)
    have "year_of d = y" using year_of_ymd2ord month_end_valid(1) ym by simp
    moreover have "year_of start \<le> year_of d" "year_of d \<le> year_of until"
      using year_of_mono [of start d] year_of_mono [of d until] assms(2) d by simp_all
    ultimately have "(y, m) \<in> set (year_months (year_of start - 1) (year_of until + 1) months)"
      unfolding pairs using m by simp
    then show "d \<in> set candidates" unfolding members using ym(5) by blast
  qed
  then show ?thesis unfolding ds by auto
qed

lemma period_end_dates_total:
  assumes "lookup frequency_offsets f = Some offsets" and "f \<noteq> ''on_event''"
    and "2 \<le> year_of start" and "year_of until \<le> 9998"
  shows "\<exists>ds. period_end_dates f s start until = ok ds"
proof (cases "until \<le> start")
  case False
  obtain months where months: "end_months f s = ok months" using assms(1) by (simp add: end_months_def)
  have "\<exists>d. (\<lambda>(y, m). last_day_of_month y m) p = ok d"
    if "p \<in> set (year_months (year_of start - 1) (year_of until + 1) months)" for p
    using that assms(3,4) last_day_of_month_ok end_months_range [OF months] by (force simp: year_months_def)
  then have "\<exists>candidates. rmap (\<lambda>(y, m). last_day_of_month y m)
      (year_months (year_of start - 1) (year_of until + 1) months) = ok candidates"
    by (simp add: rmap_Inr_iff)
  then show ?thesis using False assms(2) months by (auto simp: period_end_dates_def)
qed (use assms(2) in \<open>simp add: period_end_dates_def\<close>)

section \<open>The walk to a business day\<close>

definition nearest_business_day :: "fiscal_calendar \<Rightarrow> bool \<Rightarrow> date \<Rightarrow> date \<Rightarrow> bool" where
  "nearest_business_day cal forward day d \<longleftrightarrow> is_business_day d cal \<and>
     (if forward then day \<le> d \<and> (\<forall>x. day \<le> x \<and> x < d \<longrightarrow> \<not> is_business_day x cal)
      else d \<le> day \<and> (\<forall>x. d < x \<and> x \<le> day \<longrightarrow> \<not> is_business_day x cal))"

lemma seek_nearest:
  "seek_business_day cal forward day = ok d \<Longrightarrow> nearest_business_day cal forward day d"
proof (induction cal forward day rule: seek_business_day.induct)
  case (1 cal forward day)
  show ?case
  proof (cases "is_business_day day cal")
    case True
    then have "d = day" using 1(2) by (simp add: seek_business_day.simps)
    then show ?thesis using True by (auto simp: nearest_business_day_def)
  next
    case False
    then obtain e where e: "add_days day (if forward then 1 else - 1) = ok e"
        and rest: "seek_business_day cal forward e = ok d"
      using 1(2) by (subst (asm) seek_business_day.simps) (auto split: sum.splits)
    have near: "nearest_business_day cal forward e d" by (rule "1.IH" [OF False e rest])
    have step: "e = (if forward then day + 1 else day - 1)" using add_days_ok [OF e] by auto
    show ?thesis
    proof (cases forward)
      case True
      then have "is_business_day d cal" "day + 1 \<le> d" "\<And>x. day + 1 \<le> x \<Longrightarrow> x < d \<Longrightarrow> \<not> is_business_day x cal"
        using near step by (auto simp: nearest_business_day_def)
      moreover have "x = day \<or> day + 1 \<le> x" if "day \<le> x" for x using that by linarith
      ultimately show ?thesis using True False unfolding nearest_business_day_def by (smt (verit))
    next
      case fwd: False
      then have "is_business_day d cal" "d \<le> day - 1" "\<And>x. d < x \<Longrightarrow> x \<le> day - 1 \<Longrightarrow> \<not> is_business_day x cal"
        using near step by (auto simp: nearest_business_day_def)
      moreover have "x = day \<or> x \<le> day - 1" if "x \<le> day" for x using that by linarith
      ultimately show ?thesis using fwd False unfolding nearest_business_day_def by (smt (verit))
    qed
  qed
qed

lemma seek_total:
  assumes "is_business_day e cal" and "if forward then day \<le> e \<and> e \<le> max_ordinal \<and> 1 \<le> day else 1 \<le> e \<and> e \<le> day \<and> day \<le> max_ordinal"
  shows "\<exists>d. seek_business_day cal forward day = ok d"
  using assms
proof (induction cal forward day rule: seek_business_day.induct)
  case (1 cal forward day)
  show ?case
  proof (cases "is_business_day day cal")
    case True
    then show ?thesis by (simp add: seek_business_day.simps)
  next
    case False
    then have ne: "day \<noteq> e" using 1(2) by auto
    let ?e = "day + (if forward then 1 else - 1)"
    have e: "add_days day (if forward then 1 else - 1) = ok ?e"
      using 1(3) ne by (auto simp: add_days_def Let_def min_ordinal_def split: if_splits)
    have "\<exists>d. seek_business_day cal forward ?e = ok d"
      by (rule "1.IH" [OF False e 1(2)]) (use 1(3) ne in \<open>auto split: if_splits\<close>)
    then show ?thesis using False e by (subst seek_business_day.simps) simp
  qed
qed

text \<open>Of every week one weekday is not taken by a holiday, once there are more weeks than holidays.\<close>

lemma weekday_in_week: "weekday (d + 7 * k + (- (d + 6)) mod 7) = 0"
  unfolding weekday_def by presburger

lemma business_day_near:
  "\<exists>e. d \<le> e \<and> e < d + 7 * (int (length (fc_holidays cal)) + 1) \<and> is_business_day e cal"
proof (rule ccontr)
  let ?n = "length (fc_holidays cal)"
  assume none: "\<not> ?thesis"
  define f where "f k = d + 7 * int k + (- (d + 6)) mod 7" for k
  have f: "d + 7 * int k \<le> f k \<and> f k < d + 7 * int k + 7 \<and> weekday (f k) = 0" for k
    using weekday_in_week [of d "int k"] by (simp add: f_def)
  have "inj f"
  proof (rule injI)
    fix j k assume "f j = f k"
    then show "j = k" using f [of j] f [of k] by linarith
  qed
  moreover have "f ` {..?n} \<subseteq> set (fc_holidays cal)"
  proof
    fix e assume "e \<in> f ` {..?n}"
    then obtain k where k: "k \<le> ?n" "e = f k" by auto
    then have "d \<le> e" "e < d + 7 * (int ?n + 1)" using f [of k] by simp_all
    then have "\<not> is_business_day e cal" using none by blast
    then show "e \<in> set (fc_holidays cal)" using f [of k] k(2) by (auto simp: is_business_day_def split: if_splits)
  qed
  ultimately have "card {..?n} \<le> card (set (fc_holidays cal))"
    by (metis List.finite_set card_image card_mono inj_on_subset subset_UNIV)
  then show False using card_length [of "fc_holidays cal"] by simp
qed

definition adjusts_to :: "fiscal_calendar \<Rightarrow> date \<Rightarrow> date \<Rightarrow> bool" where
  "adjusts_to cal raw due \<longleftrightarrow> (if is_business_day raw cal then due = raw
     else case (if raw \<in> set (fc_holidays cal) then fc_holiday cal else fc_weekend cal) of
       NO_ADJUSTMENT \<Rightarrow> due = raw
     | NEXT_BUSINESS_DAY \<Rightarrow> raw < due \<and> is_business_day due cal \<and> (\<forall>x. raw \<le> x \<and> x < due \<longrightarrow> \<not> is_business_day x cal)
     | PREVIOUS_BUSINESS_DAY \<Rightarrow> due < raw \<and> is_business_day due cal \<and> (\<forall>x. due < x \<and> x \<le> raw \<longrightarrow> \<not> is_business_day x cal))"

lemma seek_from:
  assumes "\<not> is_business_day raw cal" and "nearest_business_day cal forward (if forward then raw + 1 else raw - 1) d"
  shows "if forward then raw < d \<and> is_business_day d cal \<and> (\<forall>x. raw \<le> x \<and> x < d \<longrightarrow> \<not> is_business_day x cal)
     else d < raw \<and> is_business_day d cal \<and> (\<forall>x. d < x \<and> x \<le> raw \<longrightarrow> \<not> is_business_day x cal)"
  using assms unfolding nearest_business_day_def by (smt (verit))

lemma adjust_total:
  assumes "7 * (int (length (fc_holidays cal)) + 2) \<le> raw" and "raw + 7 * (int (length (fc_holidays cal)) + 2) \<le> max_ordinal"
  shows "\<exists>due reason. adjust_due_date raw cal = ok (due, reason) \<and> adjusts_to cal raw due
     \<and> (reason = None \<longleftrightarrow> due = raw)"
proof (cases "is_business_day raw cal")
  case True
  then show ?thesis by (simp add: adjust_due_date_def adjusts_to_def)
next
  case False
  let ?n = "7 * (int (length (fc_holidays cal)) + 1)"
  let ?c = "if raw \<in> set (fc_holidays cal) then fc_holiday cal else fc_weekend cal"
  let ?fwd = "?c = NEXT_BUSINESS_DAY"
  let ?first = "if ?fwd then raw + 1 else raw - 1"
  have first: "add_days raw (if ?fwd then 1 else - 1) = ok ?first"
    using assms by (auto simp: add_days_def Let_def min_ordinal_def)
  have "\<exists>d. seek_business_day cal ?fwd ?first = ok d"
  proof (cases ?fwd)
    case True
    obtain e where "raw + 1 \<le> e" "e < raw + 1 + ?n" "is_business_day e cal" using business_day_near by blast
    then show ?thesis using True assms by (intro seek_total [of e]) auto
  next
    case False
    obtain e where "raw - ?n \<le> e" "e < raw - ?n + ?n" "is_business_day e cal" using business_day_near by blast
    then show ?thesis using False assms by (intro seek_total [of e]) auto
  qed
  then obtain d where d: "seek_business_day cal ?fwd ?first = ok d" by blast
  show ?thesis
  proof (cases "?c = NO_ADJUSTMENT")
    case True
    then show ?thesis using False by (simp add: adjust_due_date_def adjusts_to_def Let_def)
  next
    case c: False
    have "adjust_due_date raw cal = ok (d, Some (adjustment_reason raw (raw \<in> set (fc_holidays cal)) ?c d))"
      using False c first d by (simp add: adjust_due_date_def Let_def)
    moreover have "if ?fwd then raw < d \<and> is_business_day d cal \<and> (\<forall>x. raw \<le> x \<and> x < d \<longrightarrow> \<not> is_business_day x cal)
     else d < raw \<and> is_business_day d cal \<and> (\<forall>x. d < x \<and> x \<le> raw \<longrightarrow> \<not> is_business_day x cal)"
      by (rule seek_from [OF False seek_nearest [OF d]])
    ultimately show ?thesis using False c by (cases ?c) (auto simp: adjusts_to_def)
  qed
qed

section \<open>The schedule\<close>

lemma adjustment_reason_text: "strip (adjustment_reason raw holiday c d) \<noteq> []"
  unfolding strip_Nil_iff adjustment_reason_def by (intro notI, drule bspec [of _ _ "CHR ''f''"]) (simp_all add: is_space_def)

lemma adjusted_occurrence_total:
  assumes "7 * (int (length (fc_holidays cal)) + 2) \<le> raw" and "raw + 7 * (int (length (fc_holidays cal)) + 2) \<le> max_ordinal"
  shows "\<exists>r. adjusted_occurrence cal raw = ok r \<and> oc_period_end r = raw \<and> adjusts_to cal raw (oc_due_date r)
     \<and> (oc_reason r = None \<longleftrightarrow> oc_due_date r = raw)"
proof -
  obtain due reason where due: "adjust_due_date raw cal = ok (due, reason)" "adjusts_to cal raw due" "reason = None \<longleftrightarrow> due = raw"
    using adjust_total [OF assms] by blast
  have "strip r \<noteq> []" if "reason = Some r" for r
    using due(1) that adjustment_reason_text by (auto simp: adjust_due_date_def Let_def split: if_splits)
  then show ?thesis using due by (auto simp: adjusted_occurrence_def make_occurrence_def split: option.split)
qed

text \<open>The boundaries generated, before their adjustment is set against the window.\<close>

lemma schedule_boundaries:
  assumes "frequency \<in> set valid_frequencies" and "frequency \<noteq> ''on_event''"
    and "window_end = (case effective_to of None \<Rightarrow> horizon | Some t \<Rightarrow> min t horizon)"
    and "2 \<le> year_of start" and "year_of window_end \<le> 9998"
    and "7 * (int (length (fc_holidays cal)) + 2) \<le> start" and "window_end + 7 * (int (length (fc_holidays cal)) + 2) \<le> max_ordinal"
  shows "\<exists>occs. generate_schedule_occurrences (PDate start) (pyopt PDate effective_to) (PStr frequency) cal (PDate horizon) = ok occs
     \<and> sorted (map oc_period_end occs) \<and> distinct (map oc_period_end occs)
     \<and> (\<forall>d. d \<in> oc_period_end ` set occs \<longleftrightarrow> start \<le> d \<and> d < window_end \<and> fiscal_boundary frequency (fc_start_month cal) d)
     \<and> (\<forall>r\<in>set occs. adjusts_to cal (oc_period_end r) (oc_due_date r)
          \<and> (oc_reason r = None \<longleftrightarrow> oc_due_date r = oc_period_end r))"
proof -
  have "\<exists>offsets. lookup frequency_offsets frequency = Some offsets"
    using assms(1,2) by (auto simp: valid_frequencies_def frequency_offsets_def)
  then obtain ds where ds: "period_end_dates frequency (fc_start_month cal) start window_end = ok ds"
    using period_end_dates_total assms(2,4,5) by blast
  have "1 \<le> start" using assms(6) by (smt (verit) of_nat_0_le_iff)
  note exact = period_end_dates_exact [OF ds this]
  have one: "\<exists>r. adjusted_occurrence cal d = ok r \<and> oc_period_end r = d \<and> adjusts_to cal d (oc_due_date r)
     \<and> (oc_reason r = None \<longleftrightarrow> oc_due_date r = d)" if "d \<in> set ds" for d
    using exact that assms(6,7) by (intro adjusted_occurrence_total) force+
  let ?g = "\<lambda>d. projr (adjusted_occurrence cal d)"
  have g: "adjusted_occurrence cal d = ok (?g d)" "oc_period_end (?g d) = d" "adjusts_to cal d (oc_due_date (?g d))"
      "oc_reason (?g d) = None \<longleftrightarrow> oc_due_date (?g d) = d" if "d \<in> set ds" for d
    using one [OF that] by auto
  have occs: "rmap (adjusted_occurrence cal) ds = ok (map ?g ds)" using g(1) by (intro rmap_ok_all) simp
  have "generate_schedule_occurrences (PDate start) (pyopt PDate effective_to) (PStr frequency) cal (PDate horizon) = ok (map ?g ds)"
    using assms(1-3) ds occs by (cases effective_to) (simp_all add: generate_schedule_occurrences_def calendar_date_def)
  moreover have "map oc_period_end (map ?g ds) = ds" using g(2) by (simp add: map_idI)
  moreover have "oc_period_end ` set (map ?g ds) = set ds" using g(2) by force
  ultimately show ?thesis using exact g(3,4) g(2) by (intro exI [of _ "map ?g ds"]) auto
qed

lemma adjusts_to_unique:
  assumes "adjusts_to cal raw d" and "adjusts_to cal raw e"
  shows "d = e"
proof (cases "is_business_day raw cal")
  case False
  show ?thesis
  proof (cases "if raw \<in> set (fc_holidays cal) then fc_holiday cal else fc_weekend cal")
    case NEXT_BUSINESS_DAY
    then show ?thesis using assms False unfolding adjusts_to_def by simp (meson linorder_neqE_linordered_idom order.strict_implies_order)
  next
    case PREVIOUS_BUSINESS_DAY
    then show ?thesis using assms False unfolding adjusts_to_def by simp (meson linorder_neqE_linordered_idom order.strict_implies_order)
  qed (use assms False in \<open>simp add: adjusts_to_def\<close>)
qed (use assms in \<open>simp add: adjusts_to_def\<close>)

text \<open>
  An adjustment moves a due date away from its boundary. It keeps the window when it carries no boundary
  across either of its ends, as when the days next to both ends are business days.
\<close>

definition keeps_window :: "fiscal_calendar \<Rightarrow> string \<Rightarrow> date \<Rightarrow> date \<Rightarrow> bool" where
  "keeps_window cal frequency start window_end \<longleftrightarrow> (\<forall>d due. fiscal_boundary frequency (fc_start_month cal) d \<longrightarrow>
     adjusts_to cal d due \<longrightarrow> (start \<le> d \<longleftrightarrow> start \<le> due) \<and> (d < window_end \<longleftrightarrow> due < window_end))"

lemma same_side:
  assumes "is_business_day (e - 1) cal" and "is_business_day e cal" and "adjusts_to cal d due"
  shows "e \<le> d \<longleftrightarrow> e \<le> due"
proof (cases "due = d")
  case False
  with assms(3) consider "d < due" "\<forall>x. d \<le> x \<and> x < due \<longrightarrow> \<not> is_business_day x cal"
    | "due < d" "\<forall>x. due < x \<and> x \<le> d \<longrightarrow> \<not> is_business_day x cal"
    unfolding adjusts_to_def by (auto split: if_splits adjustment.splits)
  then show ?thesis
  proof cases
    case 1
    then show ?thesis using spec [OF 1(2), of "e - 1"] assms(1) by auto
  next
    case 2
    then show ?thesis using spec [OF 2(2), of e] assms(2) by auto
  qed
qed simp

lemma keeps_windowI:
  assumes "\<forall>x\<in>{start - 1, start, window_end - 1, window_end}. is_business_day x cal"
  shows "keeps_window cal frequency start window_end"
proof -
  have "(start \<le> d \<longleftrightarrow> start \<le> due) \<and> (d < window_end \<longleftrightarrow> due < window_end)" if "adjusts_to cal d due" for d due
    using same_side [OF _ _ that, of start] same_side [OF _ _ that, of window_end] assms by auto
  then show ?thesis by (simp add: keeps_window_def)
qed

text \<open>
  C23: For a frequency with a calendar, dates away from the ends of the date range and a window across
  whose ends no adjustment carries a boundary, generation returns exactly the occurrences due in
  \<open>[start, end)\<close>: the month ends that are fiscal boundaries of the frequency and whose due date lies in
  the window, in order and without repetition, each due on its boundary, or on the nearest business day in
  the direction its convention names when the boundary is a holiday or a weekend day, and with a reason
  exactly when it was moved.
\<close>

theorem schedule_occurrences_exact:
  assumes "frequency \<in> set valid_frequencies" and "frequency \<noteq> ''on_event''"
    and "window_end = (case effective_to of None \<Rightarrow> horizon | Some t \<Rightarrow> min t horizon)"
    and "2 \<le> year_of start" and "year_of window_end \<le> 9998"
    and "7 * (int (length (fc_holidays cal)) + 2) \<le> start" and "window_end + 7 * (int (length (fc_holidays cal)) + 2) \<le> max_ordinal"
    and "keeps_window cal frequency start window_end"
  shows "\<exists>occs. generate_schedule_occurrences (PDate start) (pyopt PDate effective_to) (PStr frequency) cal (PDate horizon) = ok occs
     \<and> sorted (map oc_period_end occs) \<and> distinct (map oc_period_end occs)
     \<and> (\<forall>d due. (\<exists>r\<in>set occs. oc_period_end r = d \<and> oc_due_date r = due) \<longleftrightarrow>
          fiscal_boundary frequency (fc_start_month cal) d \<and> adjusts_to cal d due \<and> start \<le> due \<and> due < window_end)
     \<and> (\<forall>r\<in>set occs. oc_reason r = None \<longleftrightarrow> oc_due_date r = oc_period_end r)"
proof -
  obtain occs where run: "generate_schedule_occurrences (PDate start) (pyopt PDate effective_to) (PStr frequency) cal (PDate horizon)
        = ok occs" "sorted (map oc_period_end occs)" "distinct (map oc_period_end occs)"
      and ends: "\<forall>d. d \<in> oc_period_end ` set occs \<longleftrightarrow>
        start \<le> d \<and> d < window_end \<and> fiscal_boundary frequency (fc_start_month cal) d"
      and due: "\<forall>r\<in>set occs. adjusts_to cal (oc_period_end r) (oc_due_date r)
          \<and> (oc_reason r = None \<longleftrightarrow> oc_due_date r = oc_period_end r)"
    using schedule_boundaries [OF assms(1-7)] by blast
  have window: "start \<le> d \<and> d < window_end \<longleftrightarrow> start \<le> x \<and> x < window_end"
    if "fiscal_boundary frequency (fc_start_month cal) d" "adjusts_to cal d x" for d x
    using assms(8) that unfolding keeps_window_def by blast
  have "(\<exists>r\<in>set occs. oc_period_end r = d \<and> oc_due_date r = x) \<longleftrightarrow>
      fiscal_boundary frequency (fc_start_month cal) d \<and> adjusts_to cal d x \<and> start \<le> x \<and> x < window_end" (is "?l \<longleftrightarrow> ?r") for d x
  proof
    assume ?l
    then show ?r using ends due window by blast
  next
    assume r: ?r
    then have "d \<in> oc_period_end ` set occs" using ends window [of d x] by blast
    then show ?l using due adjusts_to_unique r by blast
  qed
  then show ?thesis using run due by blast
qed

text \<open>The first due date is the least boundary on or after the effective date, at most 366 days away: the
  search horizon of 400 days is enough, so its error branch is dead.\<close>

definition month_end :: "int \<Rightarrow> int \<Rightarrow> date" where
  "month_end y m = ymd2ord y m (days_in_month y m)"

lemma month_end_next_year:
  assumes "1 \<le> m" and "m \<le> 12"
  shows "month_end (y + 1) m \<le> month_end y m + 366" and "month_end y m \<le> days_before_year (y + 1)"
proof -
  have leap: "\<not> (is_leap y \<and> is_leap (y + 1))" unfolding is_leap_def by presburger
  show "month_end (y + 1) m \<le> month_end y m + 366"
    using month_cases [OF assms] leap
    by (elim disjE) (simp_all add: month_end_def ymd2ord_def days_before_year_Suc month_offsets month_lengths)
  show "month_end y m \<le> days_before_year (y + 1)"
    using month_cases [OF assms]
    by (elim disjE) (simp_all add: month_end_def ymd2ord_def days_before_year_Suc month_offsets month_lengths)
qed

lemma first_due_date_least:
  assumes "lookup frequency_offsets f = Some offsets" and "f \<noteq> ''on_event''" and "2 \<le> year_of start" and "1 \<le> start"
    and "year_of (start + 400) \<le> 9998" and "start + 400 \<le> max_ordinal"
  shows "\<exists>d. first_due_date start f s = ok (Some d) \<and> start \<le> d \<and> d \<le> start + 366 \<and> fiscal_boundary f s d
     \<and> (\<forall>e. start \<le> e \<and> fiscal_boundary f s e \<longrightarrow> d \<le> e)"
proof -
  have horizon: "add_days start 400 = ok (start + 400)" using assms(4,6) by (simp add: add_days_def min_ordinal_def)
  obtain ds where ds: "period_end_dates f s start (start + 400) = ok ds"
    using period_end_dates_total [OF assms(1,2,3,5)] by blast
  note exact = period_end_dates_exact [OF ds assms(4)]
  have ne: "offsets \<noteq> []" using assms(1) by (auto simp: frequency_offsets_def split: if_splits)
  define m where "m = (s - 1 + hd offsets) mod 12 + 1"
  have m: "1 \<le> m" "m \<le> 12" by (simp_all add: m_def)
  let ?y = "year_of start"
  have y: "?y + 1 \<le> 9999" using year_of_mono [of start "start + 400"] assms(4,5) by simp
  have boundary: "fiscal_boundary f s (month_end z m)" if "1 \<le> z" "z \<le> 9999" for z
    unfolding fiscal_boundary_def month_end_def using that m assms(1) ne m_def
    by (intro exI [of _ z] exI [of _ m] exI [of _ offsets] exI [of _ "hd offsets"]) simp
  have before: "month_end (?y - 1) m < start"
    using month_end_next_year(2) [OF m, of "?y - 1"] year_of_bounds(2) [OF assms(4)] by simp
  have near: "\<exists>e. start \<le> e \<and> e \<le> start + 366 \<and> fiscal_boundary f s e"
  proof (cases "start \<le> month_end ?y m")
    case True
    then show ?thesis using month_end_next_year(1) [OF m, of "?y - 1"] before boundary [of ?y] assms(3) y
      by (intro exI [of _ "month_end ?y m"]) simp
  next
    case False
    have "month_end (?y + 1) m \<le> start + 366" using month_end_next_year(1) [OF m, of ?y] False by simp
    moreover have "start \<le> month_end (?y + 1) m"
    proof -
      have "1 \<le> days_before_month (?y + 1) m + days_in_month (?y + 1) m"
        using day_of_year_bounds(1) [of m "days_in_month (?y + 1) m" "?y + 1"] m
        by (simp add: days_in_month_def) (use month_cases [OF m] in \<open>elim disjE; simp add: month_offsets month_lengths\<close>)
      then show ?thesis using year_of_bounds(3) [OF assms(4)] by (simp add: month_end_def ymd2ord_def)
    qed
    ultimately show ?thesis using boundary [of "?y + 1"] assms(3) y by (intro exI [of _ "month_end (?y + 1) m"]) simp
  qed
  then obtain e where e: "start \<le> e" "e \<le> start + 366" "fiscal_boundary f s e" by blast
  then have "e \<in> set ds" using exact by auto
  then obtain d rest where rest: "ds = d # rest" by (cases ds) auto
  have d: "start \<le> d" "d < start + 400" "fiscal_boundary f s d" using exact rest by auto
  have least: "d \<le> x" if "start \<le> x" "fiscal_boundary f s x" for x
    using exact that rest d(2) by (cases "x < start + 400") auto
  have "first_due_date start f s = ok (Some d)"
    using assms(2) horizon ds rest by (simp add: first_due_date_def first_due_search_days_def)
  moreover have "d \<le> start + 366" using least [OF e(1,3)] e(2) by linarith
  ultimately show ?thesis using d least by (intro exI [of _ d]) simp
qed

section \<open>Concrete schedules\<close>

text \<open>An April-to-March year, weekends moved forward and holidays back; 30 June 2024 is a Sunday.\<close>

definition demo_calendar :: fiscal_calendar where
  "demo_calendar = \<lparr>fc_start_month = 4, fc_weekend = NEXT_BUSINESS_DAY, fc_holiday = PREVIOUS_BUSINESS_DAY,
     fc_holidays = [738967]\<rparr>"

theorem schedule_occurrences_exact_witness:
  "\<exists>occs. generate_schedule_occurrences (PDate 738946) PNone (PStr ''quarterly'') demo_calendar (PDate 739202) = ok occs
     \<and> (\<exists>r\<in>set occs. oc_period_end r = 739067 \<and> oc_due_date r = 739068)"
proof -
  have years: "year_of 738946 = 2024" "year_of 739202 = 2024" by (simp_all add: year_of_def Let_def)
  have keeps: "keeps_window demo_calendar ''quarterly'' 738946 739202"
    by (rule keeps_windowI) (simp add: is_business_day_def weekday_def demo_calendar_def)
  have june: "fiscal_boundary ''quarterly'' (fc_start_month demo_calendar) 739067"
    unfolding fiscal_boundary_def
    by (intro exI [of _ 2024] exI [of _ 6] exI [of _ "[2, 5, 8, 11]"] exI [of _ 2])
      (simp add: frequency_offsets_def demo_calendar_def ymd2ord_def days_before_year_def days_before_month_def
        days_in_month_def is_leap_def)
  have moved: "adjusts_to demo_calendar 739067 739068"
  proof -
    have "\<not> is_business_day x demo_calendar" if "739067 \<le> x \<and> x < 739068" for x
    proof -
      have "x = 739067" using that by linarith
      then show ?thesis by (simp add: is_business_day_def weekday_def)
    qed
    moreover have "\<not> is_business_day 739067 demo_calendar" "is_business_day 739068 demo_calendar"
      by (simp_all add: is_business_day_def weekday_def demo_calendar_def)
    ultimately show ?thesis by (simp add: adjusts_to_def demo_calendar_def)
  qed
  from schedule_occurrences_exact [where frequency = "''quarterly''" and window_end = 739202 and effective_to = None
        and horizon = 739202 and start = 738946 and cal = demo_calendar, OF _ _ _ _ _ _ _ keeps]
  obtain occs where "generate_schedule_occurrences (PDate 738946) PNone (PStr ''quarterly'') demo_calendar (PDate 739202) = ok occs"
      and "\<forall>d due. (\<exists>r\<in>set occs. oc_period_end r = d \<and> oc_due_date r = due) \<longleftrightarrow>
          fiscal_boundary ''quarterly'' (fc_start_month demo_calendar) d \<and> adjusts_to demo_calendar d due
          \<and> 738946 \<le> due \<and> due < 739202"
    using years by (auto simp: valid_frequencies_def demo_calendar_def max_ordinal_def)
  then show ?thesis using june moved by (intro exI [of _ occs]) simp
qed

text \<open>The window is documented as the due dates generated; it bounds the boundaries, so a covenant that
  ended on 30 June 2024 still gets an occurrence due on Monday 1 July.\<close>

lemma due_after_window:
  "\<exists>r. adjusted_occurrence demo_calendar 739067 = ok r \<and> oc_due_date r = 739068 \<and> ymd2ord 2024 6 30 = 739067"
  by (simp add: adjusted_occurrence_def adjust_due_date_def is_business_day_def weekday_def demo_calendar_def add_days_def
      min_ordinal_def max_ordinal_def seek_business_day.simps make_occurrence_def ymd2ord_def days_before_year_def
      days_before_month_def is_leap_def Let_def adjustment_reason_text)

end
