(* ===== verification/Sma_Banding.thy ===== *)
theory Sma_Banding
  imports Py_Values
begin

text \<open>
  Supervisory banding of facility conduct (\<open>domain/covenants/sma.py\<close>). Conduct rows are dynamic values
  (objects or mappings), as the adapters hand them over; a validated identifier is text or a UUID, and a
  dictionary keyed by identifiers is its list of items in insertion order.
\<close>

section \<open>Bands\<close>

datatype sma_band_value = SMA_NONE | SMA_0 | SMA_1 | SMA_2 | SMA_BEYOND

definition sma_severity :: "sma_band_value \<Rightarrow> nat" where
  "sma_severity b = (case b of SMA_NONE \<Rightarrow> 0 | SMA_0 \<Rightarrow> 1 | SMA_1 \<Rightarrow> 2 | SMA_2 \<Rightarrow> 3 | SMA_BEYOND \<Rightarrow> 4)"

definition sma_band :: "pyval \<Rightarrow> sma_band_value result" where
  "sma_band v = (case plain_int v of None \<Rightarrow> raise TypeError | Some n \<Rightarrow>
     if n < 0 then raise ValueError
     else if n = 0 then ok SMA_NONE
     else if n \<le> 30 then ok SMA_0
     else if n \<le> 60 then ok SMA_1
     else if n \<le> 90 then ok SMA_2
     else ok SMA_BEYOND)"

section \<open>Identifiers and rows\<close>

datatype conduct_id = Text_id string | Uuid_id nat

definition validated_identifier :: "pyval \<Rightarrow> conduct_id result" where
  "validated_identifier v = (case uuid_of v of Some u \<Rightarrow> ok (Uuid_id u)
     | None \<Rightarrow> (case text_of v of None \<Rightarrow> raise TypeError
       | Some s \<Rightarrow> if strip s = [] then raise TypeError else ok (Text_id (strip s))))"

definition conduct_date :: "pyval \<Rightarrow> date result" where
  "conduct_date v = (case date_of v of Some d \<Rightarrow> ok d | None \<Rightarrow> raise TypeError)"

definition conduct_source :: "pyval \<Rightarrow> conduct_id option result" where
  "conduct_source owner = (let v = pyfield owner ''source_id'' in
     if v = PNone then ok None else rbind (validated_identifier v) (\<lambda>i. ok (Some i)))"

record facility_sma =
  fs_facility :: conduct_id
  fs_as_of :: date
  fs_band :: sma_band_value
  fs_days :: "int option"
  fs_reason :: "string option"
  fs_source :: "conduct_id option"

text \<open>The constructor with its consistency checks; identifiers and dates carry their types.\<close>

definition make_facility_sma :: "conduct_id \<Rightarrow> date \<Rightarrow> sma_band_value \<Rightarrow> int option \<Rightarrow> string option
    \<Rightarrow> conduct_id option \<Rightarrow> facility_sma result" where
  "make_facility_sma facility as_of band days reason source =
     rbind (case days of
         Some n \<Rightarrow> if n < 0 then raise ValueError else
           rbind (sma_band (PInt n)) (\<lambda>b. if b \<noteq> band then raise ValueError else ok ())
       | None \<Rightarrow> if band \<noteq> SMA_NONE then raise ValueError
           else if reason = None then raise ValueError else ok ()) (\<lambda>u.
     if (case reason of Some r \<Rightarrow> strip r = [] | None \<Rightarrow> False) then raise ValueError
     else ok \<lparr>fs_facility = facility, fs_as_of = as_of, fs_band = band, fs_days = days, fs_reason = reason,
              fs_source = source\<rparr>)"

definition missing_conduct_reason :: string where
  "missing_conduct_reason = ''no facility conduct was recorded for the requested date''"

definition missing_days_reason :: string where
  "missing_days_reason = ''facility conduct has no days_past_due value''"

section \<open>One facility\<close>

definition derive_facility_sma :: "pyval \<Rightarrow> conduct_id \<Rightarrow> date \<Rightarrow> facility_sma result" where
  "derive_facility_sma conduct facility as_of =
     (if conduct = PNone then make_facility_sma facility as_of SMA_NONE None (Some missing_conduct_reason) None
      else rbind (let d = pyfield conduct ''as_of_date'' in
          if d = PNone then ok True else rbind (conduct_date d) (\<lambda>t. ok (t = as_of))) (\<lambda>same.
        if \<not> same then rbind (conduct_source conduct)
          (make_facility_sma facility as_of SMA_NONE None (Some missing_conduct_reason))
        else let days = pyfield conduct ''days_past_due'' in
        if days = PNone then rbind (conduct_source conduct)
          (make_facility_sma facility as_of SMA_NONE None (Some missing_days_reason))
        else case plain_int days of None \<Rightarrow> raise TypeError | Some n \<Rightarrow>
          rbind (sma_band days) (\<lambda>band. rbind (conduct_source conduct)
            (make_facility_sma facility as_of band (Some n) None))))"

section \<open>The rows of each facility\<close>

definition same_requested_date :: "pyval \<Rightarrow> date \<Rightarrow> bool" where
  "same_requested_date row as_of \<longleftrightarrow> pyfield row ''as_of_date'' = PDate as_of"

definition same_conduct_date :: "pyval \<Rightarrow> pyval \<Rightarrow> bool" where
  "same_conduct_date left right \<longleftrightarrow> pyfield left ''as_of_date'' \<noteq> PNone
     \<and> pyfield left ''as_of_date'' = pyfield right ''as_of_date''"

definition looks_like_record :: "(pyval \<times> pyval) list \<Rightarrow> bool" where
  "looks_like_record kvs \<longleftrightarrow>
     filter (\<lambda>k. map_get kvs k \<noteq> None) [''facility_id'', ''days_past_due'', ''as_of_date'', ''overdue_amount''] \<noteq> []"

fun check_rows :: "pyval list \<Rightarrow> conduct_id \<Rightarrow> unit result" where
  "check_rows [] facility = ok ()"
| "check_rows (row # rows) facility =
     rbind (let d = pyfield row ''as_of_date'' in if d = PNone then ok () else rbind (conduct_date d) (\<lambda>t. ok ())) (\<lambda>u.
     rbind (let i = pyfield row ''facility_id'' in if i = PNone then ok () else
        rbind (validated_identifier i) (\<lambda>r. if r \<noteq> facility then raise ValueError else ok ())) (\<lambda>u.
     check_rows rows facility))"

definition as_rows :: "pyval \<Rightarrow> pyval list" where
  "as_rows v = (case v of PNone \<Rightarrow> [] | PList xs \<Rightarrow> xs | _ \<Rightarrow> [v])"

definition is_date_key :: "pyval \<Rightarrow> bool" where
  "is_date_key v = (case v of PDate d \<Rightarrow> True
     | _ \<Rightarrow> (case text_of v of Some s \<Rightarrow> date_of_iso s \<noteq> None | None \<Rightarrow> False))"

definition rows_for_value :: "pyval \<Rightarrow> date \<Rightarrow> pyval list" where
  "rows_for_value v as_of = (case v of
     PMap kvs \<Rightarrow>
       if looks_like_record kvs then [v]
       else (case lookup kvs (PDate as_of) of Some rows \<Rightarrow> as_rows rows
         | None \<Rightarrow> (case map_get kvs (iso_date as_of) of Some rows \<Rightarrow> as_rows rows
           | None \<Rightarrow> if kvs \<noteq> [] \<and> list_all (\<lambda>kv. is_date_key (fst kv)) kvs then [] else [v]))
   | _ \<Rightarrow> as_rows v)"

type_synonym conduct_rows = "(conduct_id \<times> pyval list) list"

definition put_rows :: "conduct_id \<Rightarrow> pyval list \<Rightarrow> conduct_rows \<Rightarrow> conduct_rows" where
  "put_rows i rows records =
     (if has_key records i then map (\<lambda>(k, v). (k, if k = i then rows else v)) records else records @ [(i, rows)])"

fun rows_of_mapping :: "date \<Rightarrow> (pyval \<times> pyval) list \<Rightarrow> conduct_rows \<Rightarrow> conduct_rows result" where
  "rows_of_mapping as_of [] records = ok records"
| "rows_of_mapping as_of ((raw_id, v) # kvs) records =
     rbind (validated_identifier raw_id) (\<lambda>i.
     rbind (check_rows (rows_for_value v as_of) i) (\<lambda>u.
     rows_of_mapping as_of kvs (put_rows i (rows_for_value v as_of) records)))"

fun rows_of_sequence :: "date \<Rightarrow> pyval list \<Rightarrow> conduct_rows \<Rightarrow> conduct_rows result" where
  "rows_of_sequence as_of [] records = ok records"
| "rows_of_sequence as_of (row # rows) records =
     rbind (validated_identifier (pyfield row ''facility_id'')) (\<lambda>i.
     rbind (check_rows [row] i) (\<lambda>u.
     let existing = (case lookup records i of Some rs \<Rightarrow> rs | None \<Rightarrow> []) in
     if filter (\<lambda>item. same_conduct_date item row \<and> same_requested_date item as_of) existing \<noteq> [] then raise ValueError
     else rows_of_sequence as_of rows (put_rows i (existing @ [row]) records)))"

definition normalise_conduct :: "pyval \<Rightarrow> date \<Rightarrow> conduct_rows result" where
  "normalise_conduct conduct as_of = (case conduct of
     PNone \<Rightarrow> ok []
   | PMap kvs \<Rightarrow> if looks_like_record kvs
       then rbind (validated_identifier (pyfield conduct ''facility_id'')) (\<lambda>i. ok [(i, [conduct])])
       else rows_of_mapping as_of kvs []
   | PList rows \<Rightarrow> rows_of_sequence as_of rows []
   | _ \<Rightarrow> raise TypeError)"

definition select_conduct :: "pyval list \<Rightarrow> date \<Rightarrow> pyval result" where
  "select_conduct rows as_of =
     (let matching = filter (\<lambda>r. same_requested_date r as_of) rows;
          undated = filter (\<lambda>r. pyfield r ''as_of_date'' = PNone) rows in
      if length matching + length undated > 1 then raise ValueError
      else case matching @ undated of r # rs \<Rightarrow> ok r | [] \<Rightarrow> ok PNone)"

section \<open>The borrower\<close>

record borrower_sma =
  bs_borrower :: "conduct_id option"
  bs_as_of :: date
  bs_band :: sma_band_value
  bs_facilities :: "facility_sma list"
  bs_reason :: "string option"

fun unique_identifiers :: "pyval list \<Rightarrow> conduct_id list \<Rightarrow> conduct_id list result" where
  "unique_identifiers [] seen = ok seen"
| "unique_identifiers (v # vs) seen =
     rbind (validated_identifier v) (\<lambda>i. if i \<in> set seen then raise ValueError else unique_identifiers vs (seen @ [i]))"

fun append_new :: "conduct_id list \<Rightarrow> conduct_id list \<Rightarrow> conduct_id list" where
  "append_new seen [] = seen"
| "append_new seen (i # is) = append_new (if i \<in> set seen then seen else seen @ [i]) is"

definition aggregate_missing_reason :: "facility_sma list \<Rightarrow> string option" where
  "aggregate_missing_reason fs =
     (if fs = [] \<or> filter (\<lambda>f. fs_reason f = None) fs \<noteq> [] then None
      else if list_all (\<lambda>f. fs_reason f = fs_reason (hd fs)) fs then fs_reason (hd fs)
      else Some ''facility conduct is incomplete for the requested date'')"

definition derive_one :: "conduct_rows \<Rightarrow> date \<Rightarrow> conduct_id \<Rightarrow> facility_sma result" where
  "derive_one records as_of i =
     rbind (select_conduct (case lookup records i of Some rows \<Rightarrow> rows | None \<Rightarrow> []) as_of) (\<lambda>row.
     derive_facility_sma row i as_of)"

definition derive_borrower_sma :: "pyval \<Rightarrow> pyval \<Rightarrow> pyval \<Rightarrow> pyval list \<Rightarrow> borrower_sma result" where
  "derive_borrower_sma conduct as_of borrower facility_ids =
     rbind (conduct_date as_of) (\<lambda>d.
     rbind (if borrower = PNone then ok None else rbind (validated_identifier borrower) (\<lambda>i. ok (Some i))) (\<lambda>b.
     rbind (unique_identifiers facility_ids []) (\<lambda>expected.
     rbind (normalise_conduct conduct d) (\<lambda>records.
     rbind (rmap (derive_one records d) (append_new expected (map fst records))) (\<lambda>derivations.
     case derivations of
       [] \<Rightarrow> ok \<lparr>bs_borrower = b, bs_as_of = d, bs_band = SMA_NONE, bs_facilities = [], bs_reason = Some missing_conduct_reason\<rparr>
     | f # fs \<Rightarrow> ok \<lparr>bs_borrower = b, bs_as_of = d, bs_band = max_key sma_severity (fs_band f) (map fs_band fs),
         bs_facilities = derivations, bs_reason = aggregate_missing_reason derivations\<rparr>)))))"

definition worst_facility :: "borrower_sma \<Rightarrow> facility_sma option" where
  "worst_facility b = (case filter (\<lambda>f. fs_band f \<noteq> SMA_NONE) (bs_facilities b) of
     [] \<Rightarrow> None | f # fs \<Rightarrow> Some (max_key (\<lambda>f. sma_severity (fs_band f)) f fs))"

section \<open>Properties\<close>

definition days_in_band :: "int \<Rightarrow> sma_band_value \<Rightarrow> bool" where
  "days_in_band n b \<longleftrightarrow> (case b of SMA_NONE \<Rightarrow> n = 0 | SMA_0 \<Rightarrow> 1 \<le> n \<and> n \<le> 30 | SMA_1 \<Rightarrow> 31 \<le> n \<and> n \<le> 60
     | SMA_2 \<Rightarrow> 61 \<le> n \<and> n \<le> 90 | SMA_BEYOND \<Rightarrow> 91 \<le> n)"

lemma sma_band_iff: "sma_band (PInt n) = ok b \<longleftrightarrow> days_in_band n b"
  by (cases b) (auto simp: sma_band_def days_in_band_def)

text \<open>A derivation either carries its days and their band, or no days, no band and a reason.\<close>

definition facility_sound :: "facility_sma \<Rightarrow> bool" where
  "facility_sound f \<longleftrightarrow> (case fs_days f of Some n \<Rightarrow> days_in_band n (fs_band f) \<and> fs_reason f = None
     | None \<Rightarrow> fs_band f = SMA_NONE \<and> fs_reason f \<in> {Some missing_conduct_reason, Some missing_days_reason})"

lemma make_facility_ok:
  "make_facility_sma facility as_of band days reason source = ok f \<Longrightarrow>
   f = \<lparr>fs_facility = facility, fs_as_of = as_of, fs_band = band, fs_days = days, fs_reason = reason, fs_source = source\<rparr>
   \<and> (case days of Some n \<Rightarrow> days_in_band n band | None \<Rightarrow> band = SMA_NONE \<and> reason \<noteq> None)"
  by (auto simp: make_facility_sma_def sma_band_iff split: if_splits option.splits)

lemma derive_facility_sound:
  assumes "derive_facility_sma conduct facility as_of = ok f"
  shows "facility_sound f \<and> fs_facility f = facility \<and> fs_as_of f = as_of
     \<and> (\<forall>n. fs_days f = Some n \<longrightarrow> pyfield conduct ''days_past_due'' = PInt n
          \<and> pyfield conduct ''as_of_date'' \<in> {PNone, PDate as_of})"
proof -
  have date: "conduct_date v = ok d \<longleftrightarrow> v = PDate d" for v d
    by (auto simp: conduct_date_def date_of_def split: pyval.splits option.splits)
  have int: "plain_int v = Some n \<longleftrightarrow> v = PInt n" for v n
    by (auto simp: plain_int_def split: pyval.splits)
  show ?thesis
    using assms unfolding derive_facility_sma_def Let_def
    by (auto simp: facility_sound_def date int dest!: make_facility_ok split: if_splits option.splits)
qed

lemma append_new_distinct: "distinct seen \<Longrightarrow> distinct (append_new seen is) \<and> set (append_new seen is) = set seen \<union> set is"
proof (induction "is" arbitrary: seen)
  case (Cons i "is")
  then show ?case by (cases "i \<in> set seen") auto
qed simp

lemma unique_identifiers_distinct: "unique_identifiers vs seen = ok ids \<Longrightarrow> distinct seen \<Longrightarrow> distinct ids"
proof (induction vs arbitrary: seen)
  case (Cons v vs)
  then show ?case by (auto split: if_splits)
qed simp

lemma aggregate_missing_reason_iff:
  assumes "\<forall>f\<in>set fs. facility_sound f" and "fs \<noteq> []"
  shows "aggregate_missing_reason fs \<noteq> None \<longleftrightarrow> (\<forall>f\<in>set fs. fs_days f = None)"
proof -
  have "fs_reason f = None \<longleftrightarrow> fs_days f \<noteq> None" if "f \<in> set fs" for f
    using assms(1) that by (auto simp: facility_sound_def split: option.splits)
  moreover have "hd fs \<in> set fs" using assms(2) by simp
  ultimately show ?thesis using assms(2) by (auto simp: aggregate_missing_reason_def filter_empty_conv)
qed

lemma unique_identifiers_exact:
  "unique_identifiers vs seen = ok ids \<Longrightarrow> set ids = set seen \<union> {i. \<exists>v\<in>set vs. validated_identifier v = ok i}"
proof (induction vs arbitrary: seen)
  case (Cons v vs)
  then obtain i where i: "validated_identifier v = ok i" "unique_identifiers vs (seen @ [i]) = ok ids"
    by (auto split: if_splits)
  from Cons.IH [OF i(2)] i(1) show ?case by auto
qed simp

text \<open>
  The rows a conduct argument gives a facility, read directly off its three shapes: a sequence of rows, one
  row, and a mapping from facilities to their rows, in which a later entry for a facility replaces an
  earlier one.
\<close>

definition row_facility :: "pyval \<Rightarrow> conduct_id \<Rightarrow> bool" where
  "row_facility row i \<longleftrightarrow> validated_identifier (pyfield row ''facility_id'') = ok i"

definition entries_for :: "(pyval \<times> pyval) list \<Rightarrow> conduct_id \<Rightarrow> (pyval \<times> pyval) list" where
  "entries_for kvs i = filter (\<lambda>(k, v). validated_identifier k = ok i) kvs"

definition conduct_of :: "pyval \<Rightarrow> date \<Rightarrow> conduct_id \<Rightarrow> pyval list" where
  "conduct_of conduct as_of i = (case conduct of
     PList rows \<Rightarrow> filter (\<lambda>row. row_facility row i) rows
   | PMap kvs \<Rightarrow> if looks_like_record kvs then (if row_facility conduct i then [conduct] else [])
       else if entries_for kvs i = [] then [] else rows_for_value (snd (last (entries_for kvs i))) as_of
   | _ \<Rightarrow> [])"

definition names_facility :: "pyval \<Rightarrow> conduct_id \<Rightarrow> bool" where
  "names_facility conduct i \<longleftrightarrow> (case conduct of
     PList rows \<Rightarrow> \<exists>row\<in>set rows. row_facility row i
   | PMap kvs \<Rightarrow> if looks_like_record kvs then row_facility conduct i else entries_for kvs i \<noteq> []
   | _ \<Rightarrow> False)"

definition rows_in :: "conduct_rows \<Rightarrow> conduct_id \<Rightarrow> pyval list" where
  "rows_in records i = (case lookup records i of Some rows \<Rightarrow> rows | None \<Rightarrow> [])"

lemma put_rows_lookup: "lookup (put_rows i rows records) j = (if j = i then Some rows else lookup records j)"
proof -
  have replaced: "lookup (map (\<lambda>(k, v). (k, if k = i then rows else v)) records) j
      = (if j = i then map_option (\<lambda>v. rows) (lookup records i) else lookup records j)"
    by (induction records) auto
  have added: "lookup (records @ [(i, rows)]) j = (case lookup records j of None \<Rightarrow> if j = i then Some rows else None
      | Some v \<Rightarrow> Some v)" by (induction records) auto
  show ?thesis
    by (cases "lookup records i") (auto simp: put_rows_def has_key_def replaced added split: option.split)
qed

lemma put_rows_keys: "fst ` set (put_rows i rows records) = insert i (fst ` set records)"
  using has_key_iff [of records i] by (force simp: put_rows_def)

lemma rows_of_sequence_rows:
  "rows_of_sequence d rows records = ok out \<Longrightarrow>
   rows_in out i = rows_in records i @ filter (\<lambda>row. row_facility row i) rows
   \<and> fst ` set out = fst ` set records \<union> {i. \<exists>row\<in>set rows. row_facility row i}"
proof (induction rows arbitrary: records)
  case (Cons row rows)
  then obtain j where j: "validated_identifier (pyfield row ''facility_id'') = ok j"
    and rest: "rows_of_sequence d rows (put_rows j (rows_in records j @ [row]) records) = ok out"
    by (auto simp: Let_def rows_in_def split: if_splits)
  from Cons.IH [OF rest] j show ?case
    by (auto simp: put_rows_keys row_facility_def rows_in_def put_rows_lookup)
qed simp

lemma rows_of_mapping_rows:
  "rows_of_mapping d kvs records = ok out \<Longrightarrow>
   rows_in out i = (if entries_for kvs i = [] then rows_in records i else rows_for_value (snd (last (entries_for kvs i))) d)
   \<and> fst ` set out = fst ` set records \<union> {i. entries_for kvs i \<noteq> []}"
proof (induction kvs arbitrary: records)
  case (Cons kv kvs)
  obtain k v where kv: "kv = (k, v)" by (cases kv)
  obtain j where j: "validated_identifier k = ok j"
    and rest: "rows_of_mapping d kvs (put_rows j (rows_for_value v d) records) = ok out"
    using Cons.prems by (auto simp: kv)
  have "entries_for (kv # kvs) i = (if i = j then [kv] else []) @ entries_for kvs i" for i
    using j by (auto simp: entries_for_def kv)
  with Cons.IH [OF rest] show ?case by (auto simp: put_rows_keys rows_in_def put_rows_lookup kv)
qed (simp add: entries_for_def)

lemma normalise_conduct_rows:
  assumes "normalise_conduct conduct d = ok records"
  shows "rows_in records i = conduct_of conduct d i" and "i \<in> fst ` set records \<longleftrightarrow> names_facility conduct i"
proof -
  have "rows_in records i = conduct_of conduct d i \<and> (i \<in> fst ` set records \<longleftrightarrow> names_facility conduct i)"
  proof (cases conduct)
    case (PMap kvs)
    show ?thesis
    proof (cases "looks_like_record kvs")
      case True
      then show ?thesis using assms
        by (auto simp: PMap normalise_conduct_def conduct_of_def names_facility_def row_facility_def rows_in_def)
    next
      case False
      then have "rows_of_mapping d kvs [] = ok records" using assms by (simp add: PMap normalise_conduct_def)
      from rows_of_mapping_rows [OF this, of i] False show ?thesis
        by (auto simp: PMap conduct_of_def names_facility_def rows_in_def)
    qed
  next
    case (PList rows)
    then have "rows_of_sequence d rows [] = ok records" using assms by (simp add: normalise_conduct_def)
    from rows_of_sequence_rows [OF this, of i] show ?thesis
      by (auto simp: PList conduct_of_def names_facility_def rows_in_def)
  qed (use assms in \<open>simp_all add: normalise_conduct_def conduct_of_def names_facility_def rows_in_def\<close>)
  then show "rows_in records i = conduct_of conduct d i" "i \<in> fst ` set records \<longleftrightarrow> names_facility conduct i" by blast+
qed

text \<open>The row that counts is the one of the requested date, or an undated one; there is at most one.\<close>

definition current_row :: "pyval \<Rightarrow> date \<Rightarrow> bool" where
  "current_row row d \<longleftrightarrow> pyfield row ''as_of_date'' \<in> {PNone, PDate d}"

lemma select_conduct_row:
  assumes "select_conduct rows d = ok row"
  shows "(row \<in> set rows \<and> current_row row d \<and> (\<forall>q\<in>set rows. current_row q d \<longrightarrow> q = row))
     \<or> (row = PNone \<and> (\<forall>q\<in>set rows. \<not> current_row q d))"
proof -
  let ?all = "filter (\<lambda>r. same_requested_date r d) rows @ filter (\<lambda>r. pyfield r ''as_of_date'' = PNone) rows"
  have all: "set ?all = {q \<in> set rows. current_row q d}" by (auto simp: current_row_def same_requested_date_def)
  have run: "length ?all \<le> 1" "row = (case ?all of r # rs \<Rightarrow> r | [] \<Rightarrow> PNone)"
    using assms by (auto simp: select_conduct_def Let_def split: if_splits list.splits)
  show ?thesis
  proof (cases ?all)
    case Nil
    then have "{q \<in> set rows. current_row q d} = {}" using all by (metis list.set(1))
    then show ?thesis using run(2) unfolding Nil by auto
  next
    case (Cons r rs)
    then have one: "?all = [r]" using run(1) by (cases rs) auto
    then have "{q \<in> set rows. current_row q d} = {r}" using all by (metis empty_set list.simps(15))
    moreover have "row = r" using run(2) unfolding one by simp
    ultimately show ?thesis by blast
  qed
qed

lemma derive_facility_days:
  assumes "derive_facility_sma row i d = ok f" and "row = PNone \<or> current_row row d"
  shows "fs_days f = Some n \<longleftrightarrow> row \<noteq> PNone \<and> pyfield row ''days_past_due'' = PInt n"
proof -
  have date: "conduct_date (PDate d) = ok d" by (simp add: conduct_date_def date_of_def)
  have int: "plain_int v = Some m \<longleftrightarrow> v = PInt m" for v m
    by (auto simp: plain_int_def split: pyval.splits)
  show ?thesis
    using assms date unfolding derive_facility_sma_def Let_def current_row_def
    by (auto simp: int dest!: make_facility_ok split: if_splits option.splits)
qed

lemma derive_one_days:
  assumes "derive_one records d i = ok f"
  shows "fs_days f = Some n \<longleftrightarrow>
     (\<exists>row\<in>set (rows_in records i). current_row row d \<and> pyfield row ''days_past_due'' = PInt n)"
proof -
  obtain row where row: "select_conduct (rows_in records i) d = ok row" "derive_facility_sma row i d = ok f"
    using assms by (auto simp: derive_one_def rows_in_def)
  have none: "pyfield PNone x \<noteq> PInt n" for x by (simp add: pyfield_def py_attr_def or_none_def)
  from select_conduct_row [OF row(1)] show ?thesis
  proof (elim disjE conjE)
    assume here: "row \<in> set (rows_in records i)" "current_row row d"
      and only: "\<forall>q\<in>set (rows_in records i). current_row q d \<longrightarrow> q = row"
    have "fs_days f = Some n \<longleftrightarrow> row \<noteq> PNone \<and> pyfield row ''days_past_due'' = PInt n"
      using derive_facility_days [OF row(2)] here(2) by blast
    then show ?thesis using here only none by metis
  next
    assume "row = PNone" and empty: "\<forall>q\<in>set (rows_in records i). \<not> current_row q d"
    then have "fs_days f \<noteq> Some n" using derive_facility_days [OF row(2)] by blast
    then show ?thesis using empty by blast
  qed
qed

text \<open>
  C24: A derivation for a borrower has exactly the facilities asked for and the facilities its conduct
  names, each once. A facility has days past due exactly when its conduct has a row for the requested
  date, or an undated one, that carries them, and then it has the band of those days; one without
  has no band and says why, so that missing data never reads as current. The borrower has the worst band
  of its facilities, and a reason exactly when no facility has days past due.
\<close>

theorem borrower_sma_worst:
  assumes "derive_borrower_sma conduct as_of borrower facility_ids = ok r"
  shows "distinct (map fs_facility (bs_facilities r))
    \<and> fs_facility ` set (bs_facilities r)
        = {i. (\<exists>v\<in>set facility_ids. validated_identifier v = ok i) \<or> names_facility conduct i}
    \<and> (\<forall>f\<in>set (bs_facilities r). \<forall>n. fs_days f = Some n \<longleftrightarrow>
         (\<exists>row\<in>set (conduct_of conduct (fs_as_of f) (fs_facility f)).
            current_row row (fs_as_of f) \<and> pyfield row ''days_past_due'' = PInt n))
    \<and> (\<forall>f\<in>set (bs_facilities r). as_of = PDate (fs_as_of f) \<and> (case fs_days f of
         Some n \<Rightarrow> days_in_band n (fs_band f) \<and> fs_reason f = None
       | None \<Rightarrow> fs_band f = SMA_NONE \<and> fs_reason f \<noteq> None))
    \<and> (\<forall>f\<in>set (bs_facilities r). sma_severity (fs_band f) \<le> sma_severity (bs_band r))
    \<and> (bs_band r \<noteq> SMA_NONE \<longrightarrow> (\<exists>f\<in>set (bs_facilities r). fs_band f = bs_band r))
    \<and> (bs_reason r \<noteq> None \<longleftrightarrow> (\<forall>f\<in>set (bs_facilities r). fs_days f = None))"
proof -
  obtain d b expected records derivations where d: "conduct_date as_of = ok d"
    and expected: "unique_identifiers facility_ids [] = ok expected"
    and records: "normalise_conduct conduct d = ok records"
    and fs: "rmap (derive_one records d) (append_new expected (map fst records)) = ok derivations"
    and r: "r = (case derivations of [] \<Rightarrow> \<lparr>bs_borrower = b, bs_as_of = d, bs_band = SMA_NONE, bs_facilities = [],
          bs_reason = Some missing_conduct_reason\<rparr>
     | f # fs \<Rightarrow> \<lparr>bs_borrower = b, bs_as_of = d, bs_band = max_key sma_severity (fs_band f) (map fs_band fs),
         bs_facilities = derivations, bs_reason = aggregate_missing_reason derivations\<rparr>)"
    using assms by (auto simp: derive_borrower_sma_def split: list.splits)
  let ?ids = "append_new expected (map fst records)"
  have facilities: "bs_facilities r = derivations" by (simp add: r split: list.split)
  have days: "fs_days f = Some n \<longleftrightarrow> (\<exists>row\<in>set (conduct_of conduct (fs_as_of f) (fs_facility f)).
            current_row row (fs_as_of f) \<and> pyfield row ''days_past_due'' = PInt n)" if "f \<in> set derivations" for f n
  proof -
    have "\<exists>i. derive_one records d i = ok f" using rmap_set [OF fs \<open>f \<in> set derivations\<close>] by blast
    then obtain i where i: "derive_one records d i = ok f" ..
    then have "fs_facility f = i" "fs_as_of f = d" using derive_facility_sound by (fastforce simp: derive_one_def)+
    then show ?thesis using derive_one_days [OF i, of n] normalise_conduct_rows(1) [OF records, of i] by simp
  qed
  have one: "facility_sound f \<and> fs_as_of f = d" if "f \<in> set derivations" for f
    using rmap_set [OF fs that] derive_facility_sound by (fastforce simp: derive_one_def)
  have ids: "map fs_facility derivations = ?ids"
  proof (rule nth_equalityI)
    show "length (map fs_facility derivations) = length ?ids" using rmap_length [OF fs] by simp
    fix k assume "k < length (map fs_facility derivations)"
    then have "derive_one records d (?ids ! k) = ok (derivations ! k)" using rmap_nth [OF fs] rmap_length [OF fs] by simp
    then show "map fs_facility derivations ! k = ?ids ! k"
      using derive_facility_sound \<open>k < _\<close> by (fastforce simp: derive_one_def)
  qed
  have "distinct expected" using unique_identifiers_distinct [OF expected] by simp
  then have all: "distinct ?ids" "set ?ids = set expected \<union> set (map fst records)"
    using append_new_distinct by blast+
  have "set expected = {i. \<exists>v\<in>set facility_ids. validated_identifier v = ok i}"
    using unique_identifiers_exact [OF expected] by simp
  then have asked: "fs_facility ` set derivations
      = {i. (\<exists>v\<in>set facility_ids. validated_identifier v = ok i) \<or> names_facility conduct i}"
    using all(2) ids normalise_conduct_rows(2) [OF records] by (metis (mono_tags, lifting) Collect_disj_eq Collect_cong image_set mem_Collect_eq set_eqI)
  have band: "(\<forall>f\<in>set derivations. sma_severity (fs_band f) \<le> sma_severity (bs_band r))
      \<and> (bs_band r \<noteq> SMA_NONE \<longrightarrow> (\<exists>f\<in>set derivations. fs_band f = bs_band r))"
  proof (cases derivations)
    case (Cons f fs)
    have b: "bs_band r = max_key sma_severity (fs_band f) (map fs_band fs)" by (simp add: r Cons)
    have "sma_severity (fs_band g) \<le> sma_severity (bs_band r)" if "g \<in> set derivations" for g
      unfolding b by (rule max_key_ge) (use that in \<open>auto simp: Cons\<close>)
    moreover have "bs_band r \<in> set (fs_band f # map fs_band fs)" unfolding b by (rule max_key_in_Cons)
    ultimately show ?thesis by (auto simp: Cons)
  qed (simp add: r)
  have reason: "bs_reason r \<noteq> None \<longleftrightarrow> (\<forall>f\<in>set derivations. fs_days f = None)"
  proof (cases derivations)
    case (Cons f fs)
    then show ?thesis using aggregate_missing_reason_iff [of derivations] one by (simp add: r)
  qed (simp add: r)
  have "as_of = PDate d" using d by (auto simp: conduct_date_def date_of_def split: pyval.splits option.splits)
  moreover have "case fs_days f of Some n \<Rightarrow> days_in_band n (fs_band f) \<and> fs_reason f = None
       | None \<Rightarrow> fs_band f = SMA_NONE \<and> fs_reason f \<noteq> None" if "f \<in> set derivations" for f
    using one [OF that] by (auto simp: facility_sound_def split: option.splits)
  ultimately show ?thesis
    unfolding facilities using all(1) ids asked band reason one days by simp
qed

definition demo_conduct :: pyval where
  "demo_conduct = PList [PObj ''Conduct'' [(''facility_id'', PStr ''F1''), (''as_of_date'', PDate 738000), (''days_past_due'', PInt 61)],
     PObj ''Conduct'' [(''facility_id'', PStr ''F2''), (''as_of_date'', PDate 738000), (''days_past_due'', PInt 30)]]"

lemma demo_derived:
  "\<exists>r. derive_borrower_sma demo_conduct (PDate 738000) PNone [PStr ''F3''] = ok r \<and> bs_band r = SMA_2"
  by (simp add: derive_borrower_sma_def demo_conduct_def conduct_date_def validated_identifier_def uuid_of_def strip_def is_space_def
      normalise_conduct_def same_conduct_date_def same_requested_date_def put_rows_def derive_one_def select_conduct_def Let_def
      derive_facility_sma_def conduct_source_def make_facility_sma_def sma_band_def missing_conduct_reason_def sma_severity_def
      plain_int_def)

theorem borrower_sma_worst_witness:
  "\<exists>r. derive_borrower_sma demo_conduct (PDate 738000) PNone [PStr ''F3''] = ok r \<and> bs_band r = SMA_2
     \<and> distinct (map fs_facility (bs_facilities r))"
proof -
  obtain r where "derive_borrower_sma demo_conduct (PDate 738000) PNone [PStr ''F3''] = ok r" "bs_band r = SMA_2"
    using demo_derived by blast
  then show ?thesis using borrower_sma_worst by blast
qed

end
