(* ===== verification/Forecast_Trend.thy ===== *)
theory Forecast_Trend
  imports Py_Values
begin

text \<open>
  The trend of a ratio series and the pressure of sustained evidence (\<open>domain/forecast/trend.py\<close>).
  Observations and evidence arrive as dynamic values and are normalised by \<open>from_value\<close>; the keyword
  aliases that only the direct constructor accepts are left out. The exponentiation of the source squares
  differences of indexes and their mean, which are short decimals, so one rounding is exact.
\<close>

section \<open>Helpers of the module\<close>

text \<open>The first of the names that is present, of a mapping or of an object.\<close>

fun read_present :: "pyval \<Rightarrow> string list \<Rightarrow> pyval \<Rightarrow> pyval" where
  "read_present v [] default_value = default_value"
| "read_present v (n # ns) default_value =
     (case (case v of PMap kvs \<Rightarrow> map_get kvs n | _ \<Rightarrow> py_attr v n) of Some x \<Rightarrow> x | None \<Rightarrow> read_present v ns default_value)"

definition clean_text :: "pyval \<Rightarrow> nat \<Rightarrow> string result" where
  "clean_text v max_length = (case text_of v of None \<Rightarrow> raise TypeError
     | Some s \<Rightarrow> let t = strip s in
         if t = [] then raise ValueError
         else if length t > max_length then raise ValueError
         else if \<not> list_all (\<lambda>c. 32 \<le> (of_char c :: nat) \<and> (of_char c :: nat) \<noteq> 127) t then raise ValueError
         else ok t)"

definition day_of_value :: "pyval \<Rightarrow> date result" where
  "day_of_value v = (case v of PDate d \<Rightarrow> ok d
     | _ \<Rightarrow> (case text_of v of Some s \<Rightarrow> (case date_of_iso s of Some d \<Rightarrow> ok d | None \<Rightarrow> raise ValueError)
         | None \<Rightarrow> raise TypeError))"

definition positive_int :: "pyval \<Rightarrow> int result" where
  "positive_int v = (case plain_int v of None \<Rightarrow> raise ValueError | Some n \<Rightarrow> if n \<le> 0 then raise ValueError else ok n)"

definition boolean :: "pyval \<Rightarrow> bool result" where
  "boolean v = (case v of PBool b \<Rightarrow> ok b | _ \<Rightarrow> raise TypeError)"

definition optional :: "(pyval \<Rightarrow> 'a result) \<Rightarrow> pyval \<Rightarrow> 'a option result" where
  "optional f v = (if v = PNone then ok None else rbind (f v) (\<lambda>x. ok (Some x)))"

section \<open>Observations\<close>

text \<open>\<open>Direction.MIN\<close> and \<open>Direction.MAX\<close>.\<close>

datatype direction = AT_LEAST | AT_MOST

definition direction_value :: "direction \<Rightarrow> string" where
  "direction_value d = (case d of AT_LEAST \<Rightarrow> ''min'' | AT_MOST \<Rightarrow> ''max'')"

definition direction_of :: "pyval \<Rightarrow> direction result" where
  "direction_of v = (case text_of v of None \<Rightarrow> raise TypeError
     | Some s \<Rightarrow> if lower (strip s) = ''min'' then ok AT_LEAST else if lower (strip s) = ''max'' then ok AT_MOST
         else raise ValueError)"

datatype source_id = No_source | Uuid_source nat | Text_source string

record observation =
  ob_on :: date
  ob_value :: "decimal option"
  ob_complete :: bool
  ob_computable :: bool
  ob_period_days :: "int option"
  ob_source :: source_id
  ob_reason :: "string option"

definition source_of :: "pyval \<Rightarrow> source_id result" where
  "source_of v = (if v = PNone then ok No_source else case uuid_of v of Some u \<Rightarrow> ok (Uuid_source u)
     | None \<Rightarrow> if text_of v = None then raise TypeError else rbind (clean_text v 200) (\<lambda>t. ok (Text_source t)))"

definition make_observation :: "pyval \<Rightarrow> pyval \<Rightarrow> pyval \<Rightarrow> pyval \<Rightarrow> pyval \<Rightarrow> pyval \<Rightarrow> pyval \<Rightarrow> observation result" where
  "make_observation observed_on value is_complete computable period_days source reason =
     rbind (if observed_on = PNone then raise TypeError else day_of_value observed_on) (\<lambda>d.
     rbind (boolean is_complete) (\<lambda>complete. rbind (boolean computable) (\<lambda>computable.
     rbind (optional to_decimal value) (\<lambda>q. rbind (optional positive_int period_days) (\<lambda>n.
     rbind (source_of source) (\<lambda>s. rbind (optional (\<lambda>v. clean_text v 200) reason) (\<lambda>r.
     ok \<lparr>ob_on = d, ob_value = q, ob_complete = complete, ob_computable = computable, ob_period_days = n,
         ob_source = s, ob_reason = r\<rparr>)))))))"

text \<open>An observation of the model, as the object adapters pass on unchanged, or any other value.\<close>

datatype series_item = Observed observation | Adapter pyval

definition observation_from_value :: "series_item \<Rightarrow> observation result" where
  "observation_from_value item = (case item of Observed o' \<Rightarrow> ok o'
     | Adapter v \<Rightarrow> make_observation
         (read_present v [''observed_on'', ''period_end'', ''as_of_date'', ''date'', ''event_date''] PNone)
         (read_present v [''value'', ''observed_value''] PNone)
         (read_present v [''is_complete'', ''complete''] (PBool True))
         (read_present v [''computable'', ''is_computable''] (PBool True))
         (read_present v [''period_days''] PNone)
         (read_present v [''source_id'', ''id''] PNone)
         (read_present v [''reason'', ''exclusion_reason'', ''not_computable_reason''] PNone))"

definition usable :: "observation \<Rightarrow> bool" where
  "usable b \<longleftrightarrow> ob_complete b \<and> ob_computable b \<and> ob_value b \<noteq> None"

definition exclusion_reason :: "observation \<Rightarrow> string option" where
  "exclusion_reason b = (if usable b then None
     else case ob_reason b of Some r \<Rightarrow> Some r
     | None \<Rightarrow> if \<not> ob_complete b then Some ''observation is incomplete''
         else if \<not> ob_computable b then Some ''observation is not computable''
         else Some ''observation value is unavailable'')"

definition source_text :: "source_id \<Rightarrow> string" where
  "source_text s = (case s of No_source \<Rightarrow> [] | Uuid_source u \<Rightarrow> uuid_text u | Text_source t \<Rightarrow> t)"

definition observation_sort_key :: "observation \<Rightarrow> date \<times> string" where
  "observation_sort_key b = (ob_on b, source_text (ob_source b))"

section \<open>The least-squares trend\<close>

record trend_result =
  tr_slope :: decimal
  tr_drift :: decimal
  tr_current :: "decimal option"
  tr_period_length :: "decimal option"
  tr_usable :: "observation list"
  tr_excluded :: "observation list"
  tr_reason :: "string option"
  tr_intercept :: "decimal option"

definition distinct_dates :: "observation list \<Rightarrow> nat" where
  "distinct_dates bs = length (remdups (map ob_on bs))"

definition sufficient_trend :: "trend_result \<Rightarrow> bool" where
  "sufficient_trend t \<longleftrightarrow> length (tr_usable t) \<ge> 2 \<and> distinct_dates (tr_usable t) \<ge> 2"

definition observed_value :: "observation \<Rightarrow> decimal" where
  "observed_value b = (case ob_value b of Some q \<Rightarrow> q | None \<Rightarrow> 0)"

definition average_period_days :: "observation list \<Rightarrow> decimal result" where
  "average_period_days bs =
     (let explicit = concat (map (\<lambda>b. case ob_period_days b of Some n \<Rightarrow> [of_int n] | None \<Rightarrow> []) bs) in
      if length explicit = length bs then ddiv_checked (dsum explicit) (of_nat (length explicit))
      else let total_days = ob_on (last bs) - ob_on (hd bs) in
        if total_days \<le> 0 then raise ValueError
        else ddiv_checked (of_int total_days) (of_nat (length bs - 1)))"

definition mean :: "decimal list \<Rightarrow> decimal" where
  "mean xs = ddiv (dsum xs) (of_nat (length xs))"

definition indexes :: "decimal list \<Rightarrow> decimal list" where
  "indexes xs = map of_nat [0..<length xs]"

definition slope_numerator :: "decimal list \<Rightarrow> decimal list \<Rightarrow> decimal" where
  "slope_numerator xs ys =
     dsum (map (\<lambda>(x, y). dmul (dsub x (mean xs)) (dsub y (mean ys))) (zip xs ys))"

definition slope_denominator :: "decimal list \<Rightarrow> decimal" where
  "slope_denominator xs = dsum (map (\<lambda>x. dmul (dsub x (mean xs)) (dsub x (mean xs))) xs)"

definition flat_trend :: "decimal option \<Rightarrow> decimal option \<Rightarrow> observation list \<Rightarrow> observation list \<Rightarrow> string \<Rightarrow> trend_result" where
  "flat_trend current length_days selected excluded reason =
     \<lparr>tr_slope = 0, tr_drift = 0, tr_current = current, tr_period_length = length_days, tr_usable = selected,
      tr_excluded = excluded, tr_reason = Some reason, tr_intercept = current\<rparr>"

definition outside_window :: "observation \<Rightarrow> observation" where
  "outside_window b = b\<lparr>ob_computable := False, ob_reason := Some ''outside configured recent period window''\<rparr>"

text \<open>The last \<open>n\<close> usable observations and what the window drops.\<close>

definition recent_window :: "int option \<Rightarrow> observation list \<Rightarrow> observation list \<times> observation list" where
  "recent_window periods bs = (case periods of None \<Rightarrow> (bs, [])
     | Some n \<Rightarrow> if int (length bs) > n then (drop (length bs - nat n) bs, map outside_window (take (length bs - nat n) bs))
         else (bs, []))"

definition positive_decimal :: "pyval \<Rightarrow> decimal result" where
  "positive_decimal v = rbind (to_decimal v) (\<lambda>q. if q \<le> 0 then raise ValueError else ok q)"

definition fit_observations :: "observation list \<Rightarrow> int option \<Rightarrow> decimal option \<Rightarrow> trend_result result" where
  "fit_observations observations periods configured =
     (let ordered = sort_key observation_sort_key observations in
      case recent_window periods (filter usable ordered) of (selected, dropped) \<Rightarrow>
      let excluded = sort_key observation_sort_key (filter (\<lambda>b. \<not> usable b) ordered @ dropped) in
      if selected = [] then
        ok (flat_trend None configured [] excluded ''no usable complete observations'')
      else if length selected < 2 \<or> distinct_dates selected < 2 then
        ok (flat_trend (ob_value (last selected)) configured selected excluded ''fewer than two usable observations'')
      else let ys = map observed_value selected; xs = indexes ys in
        if slope_denominator xs = 0 then
          ok (flat_trend (ob_value (last selected)) configured selected excluded ''fewer than two distinct observation dates'')
        else let slope = ddiv (slope_numerator xs ys) (slope_denominator xs) in
          rbind (case configured of Some q \<Rightarrow> ok q | None \<Rightarrow> average_period_days selected) (\<lambda>length_days.
          rbind (ddiv_checked slope length_days) (\<lambda>drift.
          ok \<lparr>tr_slope = slope, tr_drift = drift, tr_current = ob_value (last selected),
              tr_period_length = Some length_days, tr_usable = selected, tr_excluded = excluded, tr_reason = None,
              tr_intercept = Some (dsub (mean ys) (dmul slope (mean xs)))\<rparr>)))"

definition fit_trend :: "series_item list \<Rightarrow> pyval \<Rightarrow> pyval \<Rightarrow> trend_result result" where
  "fit_trend series recent_periods period_days =
     rbind (rmap observation_from_value series) (\<lambda>observations.
     rbind (optional positive_int recent_periods) (\<lambda>periods.
     rbind (optional positive_decimal period_days) (\<lambda>configured.
     fit_observations observations periods configured)))"

section \<open>Evidence pressure\<close>

record pressure_term =
  pt_evidence :: pyval
  pt_materiality :: decimal
  pt_decay :: decimal
  pt_contribution :: decimal
  pt_signed :: decimal
  pt_included :: bool
  pt_reason :: string

record pressure_result =
  pr_direction :: direction
  pr_magnitude :: decimal
  pr_signed :: decimal
  pr_terms :: "pressure_term list"

definition excluded_pressure_term :: "pyval \<Rightarrow> string \<Rightarrow> pressure_term" where
  "excluded_pressure_term i reason = \<lparr>pt_evidence = i, pt_materiality = 0, pt_decay = 0, pt_contribution = 0,
     pt_signed = 0, pt_included = False, pt_reason = reason\<rparr>"

definition materiality_of :: "pyval \<Rightarrow> decimal option result" where
  "materiality_of item =
     (let pct = read_present item [''materiality_pct''] PNone in
      if pct \<noteq> PNone then rbind (to_decimal pct) (\<lambda>q. ok (Some (ddiv q 100)))
      else optional to_decimal (read_present item [''materiality''] PNone))"

definition pressure_term_of :: "direction \<Rightarrow> pyval \<Rightarrow> pressure_term result" where
  "pressure_term_of d item =
     (let i = read_present item [''id'', ''evidence_id''] PNone in
      if text_of (read_present item [''state''] PNone) \<noteq> Some ''sustained''
      then ok (excluded_pressure_term i ''evidence is not sustained'') else
      rbind (boolean (read_present item [''counts_toward_pressure''] (PBool True))) (\<lambda>counts.
      if \<not> counts then ok (excluded_pressure_term i ''evidence does not count toward pressure'') else
      rbind (materiality_of item) (\<lambda>materiality. case materiality of
        None \<Rightarrow> ok (excluded_pressure_term i ''materiality is unavailable'')
      | Some m \<Rightarrow> if m < 0 then raise ValueError else
          (let decay_value = read_present item [''decay_factor''] PNone in
           if decay_value = PNone then ok (excluded_pressure_term i ''decay factor is unavailable'') else
           rbind (to_decimal decay_value) (\<lambda>decay.
           if \<not> (0 \<le> decay \<and> decay \<le> 1) then raise ValueError else
           let contribution = dmul m decay in
           ok \<lparr>pt_evidence = i, pt_materiality = m, pt_decay = decay, pt_contribution = contribution,
               pt_signed = (if d = AT_MOST then contribution else dneg contribution), pt_included = True,
               pt_reason = ''sustained evidence included in pressure''\<rparr>)))))"

definition evidence_pressure :: "pyval list \<Rightarrow> pyval \<Rightarrow> pressure_result result" where
  "evidence_pressure items direction =
     rbind (direction_of direction) (\<lambda>d.
     rbind (rmap (pressure_term_of d) items) (\<lambda>terms.
     let signed_total = dsum (map pt_signed (filter pt_included terms)) in
     ok \<lparr>pr_direction = d, pr_magnitude = dabs signed_total, pr_signed = signed_total, pr_terms = terms\<rparr>))"

section \<open>What the trend and the pressure guarantee\<close>

text \<open>A trend without enough observations is flat and says why.\<close>

lemma average_period_days_ok:
  assumes "2 \<le> length bs" and "\<forall>b\<in>set bs. \<forall>n. ob_period_days b = Some n \<longrightarrow> 0 < n" and "ob_on (hd bs) < ob_on (last bs)"
  shows "\<exists>q. average_period_days bs = ok q \<and> 0 < q"
proof -
  let ?explicit = "concat (map (\<lambda>b. case ob_period_days b of Some n \<Rightarrow> [of_int n :: decimal] | None \<Rightarrow> []) bs)"
  show ?thesis
  proof (cases "length ?explicit = length bs")
    case True
    have pos: "0 < q" if "q \<in> set ?explicit" for q
      using that assms(2) by (auto split: option.splits)
    have "0 < length ?explicit" using True assms(1) by (metis le_zero_eq neq0_conv not_numeral_le_zero)
    then have "?explicit \<noteq> []" by (rule length_greater_0_conv [THEN iffD1])
    then have "hd ?explicit \<in> set ?explicit" by (rule hd_in_set)
    then have "0 < dsum ?explicit" using pos by (intro dsum_positive) (force simp: less_imp_le)+
    moreover have "0 < (of_nat (length ?explicit) :: decimal)" using \<open>0 < length ?explicit\<close> by (simp only: of_nat_0_less_iff)
    ultimately have "0 < ddiv (dsum ?explicit) (of_nat (length ?explicit))"
      by (simp only: ddiv_def rnd_pos_iff divide_pos_pos)
    moreover have "bs \<noteq> []" using assms(1) by auto
    ultimately show ?thesis using True by (simp add: average_period_days_def ddiv_checked_def)
  next
    case False
    then show ?thesis using assms(1,3) by (simp add: average_period_days_def ddiv_checked_def ddiv_def Let_def)
  qed
qed

lemma slope_denominator_pos:
  assumes "2 \<le> length ys"
  shows "0 < slope_denominator (indexes ys)"
proof -
  let ?xs = "indexes ys" and ?f = "\<lambda>x. dmul (dsub x (mean (indexes ys))) (dsub x (mean (indexes ys)))"
  have "0 \<in> set ?xs" "1 \<in> set ?xs" using assms by (auto simp: indexes_def image_iff intro!: bexI [of _ 0] bexI [of _ 1])
  then have "\<exists>x\<in>set ?xs. x - mean ?xs \<noteq> 0"
  proof (cases "mean ?xs = 0")
    case True
    then show ?thesis using \<open>1 \<in> set ?xs\<close> by (intro bexI [of _ 1]) simp_all
  next
    case False
    then show ?thesis using \<open>0 \<in> set ?xs\<close> by (intro bexI [of _ 0]) simp_all
  qed
  then obtain x where x: "x \<in> set ?xs" "dsub x (mean ?xs) \<noteq> 0" by (auto simp: dsub_def)
  then have "0 < ?f x" unfolding dmul_def rnd_pos_iff by (simp only: zero_less_mult_iff linorder_neq_iff) blast
  moreover have "0 \<le> ?f y" for y by (simp add: dmul_def)
  ultimately have "0 < dsum (map ?f ?xs)" using x(1) by (intro dsum_positive) auto
  then show ?thesis by (simp add: slope_denominator_def)
qed

definition observation_ok :: "observation \<Rightarrow> bool" where
  "observation_ok b \<longleftrightarrow> (\<forall>n. ob_period_days b = Some n \<longrightarrow> 0 < n)"

lemma positive_int_pos: "positive_int v = ok n \<Longrightarrow> 0 < n"
  by (auto simp: positive_int_def split: option.splits if_splits)

lemma optional_pos: "optional positive_int v = ok x \<Longrightarrow> x = Some n \<Longrightarrow> 0 < n"
  using positive_int_pos by (auto simp: optional_def split: if_splits)

lemma make_observation_ok: "make_observation a b c d e f g = ok r \<Longrightarrow> observation_ok r"
  using optional_pos by (fastforce simp: make_observation_def observation_ok_def)

lemma distinct_dates_span:
  assumes "sorted (map ob_on bs)" and "2 \<le> distinct_dates bs"
  shows "ob_on (hd bs) < ob_on (last bs)"
proof (rule ccontr)
  assume flat: "\<not> ?thesis"
  have ne: "bs \<noteq> []" using assms(2) by (auto simp: distinct_dates_def)
  have "ob_on b = ob_on (hd bs)" if b: "b \<in> set bs" for b
  proof -
    obtain k where k: "k < length bs" "b = bs ! k" using b by (auto simp: in_set_conv_nth)
    have "ob_on (bs ! 0) \<le> ob_on (bs ! k)" "ob_on (bs ! k) \<le> ob_on (bs ! (length bs - 1))"
      using assms(1) k(1) sorted_nth_mono [of "map ob_on bs"] by force+
    then show ?thesis using flat ne k(2) by (simp add: hd_conv_nth last_conv_nth)
  qed
  then have "set (map ob_on bs) \<subseteq> {ob_on (hd bs)}" by auto
  then have "card (set (map ob_on bs)) \<le> 1" using card_mono [of "{ob_on (hd bs)}"] by fastforce
  then show False using assms(2) by (simp add: distinct_dates_def length_remdups_card_conv)
qed

lemma sorted_by_date: "sorted (map ob_on (sort_key observation_sort_key bs))"
proof -
  have "sorted (map observation_sort_key (sort_key observation_sort_key bs))" by simp
  then show ?thesis unfolding sorted_map by (rule sorted_wrt_mono_rel [rotated]) (auto simp: observation_sort_key_def less_eq_prod_def)
qed

lemma recent_window_parts:
  assumes "recent_window periods bs = (selected, dropped)" and "\<forall>n. periods = Some n \<longrightarrow> 0 < n"
  shows "\<exists>k. selected = drop k bs" and "bs \<noteq> [] \<longrightarrow> selected \<noteq> []"
  using assms by (auto simp: recent_window_def split: option.splits if_splits intro: exI [of _ 0])

text \<open>The parts of a fit that \<open>fit_observations\<close> selects.\<close>

lemma fit_observations_selected:
  assumes "fit_observations bs periods configured = ok t" and "\<forall>n. periods = Some n \<longrightarrow> 0 < n"
  shows "set (tr_usable t) \<subseteq> {b \<in> set bs. usable b}" and "tr_usable t = [] \<longleftrightarrow> \<not> (\<exists>b\<in>set bs. usable b)"
    and "tr_current t = None \<longleftrightarrow> tr_usable t = []" and "tr_usable t \<noteq> [] \<longrightarrow> tr_current t = ob_value (last (tr_usable t))"
    and "tr_reason t = None \<longleftrightarrow> sufficient_trend t"
    and "tr_reason t \<noteq> None \<longrightarrow> tr_slope t = 0 \<and> tr_drift t = 0" and "sorted (map ob_on (tr_usable t))"
proof -
  let ?ordered = "sort_key observation_sort_key bs"
  obtain selected dropped where window: "recent_window periods (filter usable ?ordered) = (selected, dropped)" by fastforce
  obtain k where k: "selected = drop k (filter usable ?ordered)" using recent_window_parts(1) [OF window assms(2)] by blast
  have members: "set selected \<subseteq> {b \<in> set bs. usable b}" using set_drop_subset [of k "filter usable ?ordered"] by (auto simp: k)
  have none: "selected = [] \<longleftrightarrow> \<not> (\<exists>b\<in>set bs. usable b)"
  proof
    assume "selected = []"
    then have "filter usable ?ordered = []" using recent_window_parts(2) [OF window assms(2)] by fast
    then show "\<not> (\<exists>b\<in>set bs. usable b)" by (simp add: filter_empty_conv)
  next
    assume unusable: "\<not> (\<exists>b\<in>set bs. usable b)"
    show "selected = []"
    proof (rule ccontr)
      assume "selected \<noteq> []"
      then have "hd selected \<in> {b \<in> set bs. usable b}" by (intro subsetD [OF members] hd_in_set)
      then show False using unusable by (auto dest: bspec)
    qed
  qed
  have current: "ob_value (last selected) \<noteq> None" if "selected \<noteq> []"
    using subsetD [OF members last_in_set [OF that]] by (simp add: usable_def)
  have denominator: "slope_denominator (indexes (map observed_value selected)) \<noteq> 0" if "2 \<le> length selected"
    using slope_denominator_pos [of "map observed_value selected"] that by simp
  have sorted: "sorted (map ob_on selected)" unfolding k drop_map [symmetric]
    by (intro sorted_wrt_drop) (rule sorted_filter [OF sorted_by_date])
  have parts: "tr_usable t = selected \<and> (tr_current t = None \<longleftrightarrow> selected = [])
      \<and> (selected \<noteq> [] \<longrightarrow> tr_current t = ob_value (last selected)) \<and> (tr_reason t = None \<longleftrightarrow> sufficient_trend t)
      \<and> (tr_reason t \<noteq> None \<longrightarrow> tr_slope t = 0 \<and> tr_drift t = 0)"
  proof (cases "length selected < 2 \<or> distinct_dates selected < 2")
    case True
    then show ?thesis using assms(1) window current
      by (cases "selected = []") (auto simp: fit_observations_def Let_def flat_trend_def sufficient_trend_def)
  next
    case False
    then have ne: "selected \<noteq> []" by auto
    show ?thesis using assms(1) window current [OF ne] ne denominator False
      by (auto simp: fit_observations_def Let_def sufficient_trend_def)
  qed
  show "set (tr_usable t) \<subseteq> {b \<in> set bs. usable b}" "tr_usable t = [] \<longleftrightarrow> \<not> (\<exists>b\<in>set bs. usable b)"
    "tr_current t = None \<longleftrightarrow> tr_usable t = []" "tr_usable t \<noteq> [] \<longrightarrow> tr_current t = ob_value (last (tr_usable t))"
    "tr_reason t = None \<longleftrightarrow> sufficient_trend t" "tr_reason t \<noteq> None \<longrightarrow> tr_slope t = 0 \<and> tr_drift t = 0"
    "sorted (map ob_on (tr_usable t))"
    using parts members none sorted by blast+
qed

text \<open>The fit never raises on observations the constructor accepts: its two error branches, no period
  length and a vanishing denominator, cannot be reached.\<close>

lemma fit_observations_returns:
  assumes "\<forall>b\<in>set bs. observation_ok b" and "\<forall>n. periods = Some n \<longrightarrow> 0 < n" and "\<forall>q. configured = Some q \<longrightarrow> 0 < q"
  shows "\<exists>t. fit_observations bs periods configured = ok t"
proof -
  let ?ordered = "sort_key observation_sort_key bs"
  obtain selected dropped where window: "recent_window periods (filter usable ?ordered) = (selected, dropped)" by fastforce
  obtain k where k: "selected = drop k (filter usable ?ordered)" using recent_window_parts(1) [OF window assms(2)] by blast
  have members: "set selected \<subseteq> set bs" using set_drop_subset [of k "filter usable ?ordered"] by (auto simp: k)
  show ?thesis
  proof (cases "length selected < 2 \<or> distinct_dates selected < 2")
    case True
    then show ?thesis using window by (simp add: fit_observations_def Let_def)
  next
    case False
    then have two: "2 \<le> length selected" "2 \<le> distinct_dates selected" by auto
    have "sorted (map ob_on selected)" unfolding k drop_map [symmetric]
      by (intro sorted_wrt_drop) (rule sorted_filter [OF sorted_by_date])
    then have span: "ob_on (hd selected) < ob_on (last selected)" using distinct_dates_span two(2) by blast
    have "\<forall>b\<in>set selected. \<forall>n. ob_period_days b = Some n \<longrightarrow> 0 < n"
      using members assms(1) by (auto simp: observation_ok_def)
    from average_period_days_ok [OF two(1) this span]
    obtain q where "(case configured of Some q \<Rightarrow> ok q | None \<Rightarrow> average_period_days selected) = ok q" "0 < q"
      using assms(3) by (cases configured) auto
    then show ?thesis using window by (auto simp: fit_observations_def Let_def ddiv_checked_def)
  qed
qed

lemma fit_trend_okE:
  assumes "fit_trend series rp pd = ok t"
  obtains bs periods configured where "rmap observation_from_value series = ok bs"
    and "fit_observations bs periods configured = ok t" and "\<forall>n. periods = Some n \<longrightarrow> 0 < n"
proof -
  obtain bs periods configured where parts: "rmap observation_from_value series = ok bs"
      "optional positive_int rp = ok periods" "fit_observations bs periods configured = ok t"
    using assms by (auto simp: fit_trend_def)
  show thesis by (rule that [OF parts(1,3)]) (use parts(2) optional_pos in blast)
qed

text \<open>Pressure has the sign of the deterioration, its magnitude is that of the signed total, and an item
  that is not sustained, or of unknown weight, adds nothing.\<close>

lemma pressure_term_sign:
  assumes "pressure_term_of d item = ok t"
  shows "if d = AT_MOST then 0 \<le> pt_signed t else pt_signed t \<le> 0"
  using assms unfolding pressure_term_of_def Let_def excluded_pressure_term_def
  by (auto simp: dneg_def dmul_nonneg not_less simp del: read_present.simps split: if_splits option.splits)

lemma evidence_pressure_sign:
  assumes "evidence_pressure items direction = ok r"
  shows "0 \<le> pr_magnitude r \<and> pr_signed r = (if pr_direction r = AT_MOST then pr_magnitude r else - pr_magnitude r)
    \<and> length (pr_terms r) = length items"
proof -
  obtain d terms where d: "direction_of direction = ok d" and terms: "rmap (pressure_term_of d) items = ok terms"
      and r: "r = \<lparr>pr_direction = d, pr_magnitude = dabs (dsum (map pt_signed (filter pt_included terms))),
         pr_signed = dsum (map pt_signed (filter pt_included terms)), pr_terms = terms\<rparr>"
    using assms by (auto simp: evidence_pressure_def Let_def)
  let ?signed = "map pt_signed (filter pt_included terms)"
  have sign: "if d = AT_MOST then 0 \<le> pt_signed t else pt_signed t \<le> 0" if "t \<in> set terms" for t
    using rmap_set [OF terms that] pressure_term_sign by blast
  have rounded: "rnd (foldl dadd (rnd a) xs) = foldl dadd (rnd a) xs" for a xs
    by (induction xs arbitrary: a) (simp_all add: dadd_def)
  have idem: "rnd (dsum xs) = dsum xs" for xs using rounded [of 0 xs] by (simp add: dsum_def)
  have neg: "dsum xs \<le> 0" if "\<forall>x\<in>set xs. x \<le> 0" for xs
  proof -
    have "list_all2 (\<le>) xs (map (\<lambda>x. 0) xs)" using that by (simp add: list_all2_map2 list.rel_refl_strong list_all2_conv_all_nth)
    then have "dsum xs \<le> dsum (map (\<lambda>x. 0) xs)" by (rule dsum_mono)
    also have "foldl dadd 0 (map (\<lambda>x. 0) xs) = 0" by (induction xs) (simp_all add: dadd_def)
    then have "dsum (map (\<lambda>x. 0) xs) = 0" by (simp add: dsum_def)
    finally show ?thesis .
  qed
  show ?thesis
  proof (cases "d = AT_MOST")
    case True
    then have "0 \<le> dsum ?signed" using sign by (intro dsum_nonneg) auto
    then show ?thesis using True idem rmap_length [OF terms] by (simp add: r dabs_def)
  next
    case False
    then have "dsum ?signed \<le> 0" using sign by (intro neg) auto
    then show ?thesis using False idem rmap_length [OF terms] by (simp add: r dabs_def rnd_neg)
  qed
qed

text \<open>
  A fit returns whenever its inputs normalise. It keeps only usable observations, takes the latest as the
  current value, and is flat with a reason exactly when fewer than two usable dates remain.
\<close>

theorem fit_trend_returns:
  assumes "rmap observation_from_value series = ok bs" and "optional positive_int rp = ok periods"
    and "optional positive_decimal pd = ok configured" and "\<forall>b. Observed b \<in> set series \<longrightarrow> observation_ok b"
  shows "\<exists>t. fit_trend series rp pd = ok t \<and> set (tr_usable t) \<subseteq> {b \<in> set bs. usable b}
    \<and> sorted (map ob_on (tr_usable t))
    \<and> (tr_current t = None \<longleftrightarrow> \<not> (\<exists>b\<in>set bs. usable b))
    \<and> (tr_usable t \<noteq> [] \<longrightarrow> tr_current t = ob_value (last (tr_usable t)))
    \<and> (tr_reason t = None \<longleftrightarrow> sufficient_trend t)
    \<and> (tr_reason t \<noteq> None \<longrightarrow> tr_slope t = 0 \<and> tr_drift t = 0)"
proof -
  have good: "\<forall>b\<in>set bs. observation_ok b"
  proof
    fix b assume "b \<in> set bs"
    from rmap_set [OF assms(1) this] obtain item where item: "item \<in> set series" "observation_from_value item = ok b" by blast
    show "observation_ok b"
    proof (cases item)
      case (Observed c)
      then show ?thesis using item assms(4) by (simp add: observation_from_value_def)
    next
      case (Adapter v)
      then show ?thesis using item(2) make_observation_ok by (simp add: observation_from_value_def del: read_present.simps)
    qed
  qed
  have periods: "\<forall>n. periods = Some n \<longrightarrow> 0 < n" using optional_pos [OF assms(2)] by simp
  have "\<forall>q. configured = Some q \<longrightarrow> 0 < q"
    using assms(3) by (auto simp: optional_def positive_decimal_def split: if_splits)
  from fit_observations_returns [OF good periods this]
  obtain t where t: "fit_observations bs periods configured = ok t" ..
  have "fit_trend series rp pd = ok t" using assms(1-3) t by (simp add: fit_trend_def)
  then show ?thesis using fit_observations_selected [OF t periods] by (intro exI [of _ t] conjI) simp_all
qed

theorem fit_trend_returns_witness:
  "\<exists>t. fit_trend [Adapter (PMap [(PStr ''date'', PDate 9), (PStr ''value'', PDec 3)])] PNone PNone = ok t \<and> tr_current t \<noteq> None"
proof -
  let ?series = "[Adapter (PMap [(PStr ''date'', PDate 9), (PStr ''value'', PDec 3)])]"
  let ?b = "\<lparr>ob_on = 9, ob_value = Some 3, ob_complete = True, ob_computable = True, ob_period_days = None,
     ob_source = No_source, ob_reason = None\<rparr>"
  have b: "rmap observation_from_value ?series = ok [?b]"
    by (simp add: observation_from_value_def make_observation_def map_get_def day_of_value_def boolean_def optional_def source_of_def)
  have n: "optional positive_int PNone = ok None" "optional positive_decimal PNone = ok None" by (simp_all add: optional_def)
  have "usable ?b" by (simp add: usable_def)
  with fit_trend_returns [OF b n] show ?thesis by fastforce
qed

end
