(* ===== verification/Forecast_Path.thy ===== *)
theory Forecast_Path
  imports Forecast_Trend
begin

text \<open>
  The daily projection (\<open>domain/forecast/path.py\<close>): the latest usable observation is day zero, the trend
  and the directional pressure are the two terms of the daily drift. The pressure is a scalar of any dynamic type
  or the result of \<open>evidence_pressure\<close>.
\<close>

section \<open>Points and projections\<close>

record path_point =
  pp_day :: int
  pp_value :: "decimal option"
  pp_trend :: decimal
  pp_pressure :: decimal

record projection =
  pj_current :: "decimal option"
  pj_threshold :: decimal
  pj_direction :: direction
  pj_horizon :: int
  pj_slope :: decimal
  pj_drift :: decimal
  pj_pressure :: decimal
  pj_pressure_term :: decimal
  pj_net :: decimal
  pj_path :: "path_point list"
  pj_trend :: trend_result
  pj_pressure_result :: "pressure_result option"
  pj_requested :: decimal
  pj_reason :: "string option"
  pj_inputs :: "(pyval \<times> pyval) list"

definition make_projection :: "projection \<Rightarrow> projection result" where
  "make_projection p = (if pj_horizon p < 0 then raise ValueError
     else if int (length (pj_path p)) \<noteq> pj_horizon p + 1 then raise ValueError
     else if pj_path p \<noteq> [] \<and> pp_day (hd (pj_path p)) \<noteq> 0 then raise ValueError
     else ok p)"

datatype pressure_input = Pressure_result pressure_result | Pressure_scalar pyval

section \<open>The pressure that is applied\<close>

definition signed_pressure :: "decimal \<Rightarrow> direction \<Rightarrow> decimal" where
  "signed_pressure magnitude d = (if d = AT_MOST then magnitude else dneg magnitude)"

definition non_negative :: "decimal \<Rightarrow> decimal result" where
  "non_negative q = (if q < 0 then raise ValueError else ok q)"

definition horizon :: "pyval \<Rightarrow> int result" where
  "horizon v = (case plain_int v of None \<Rightarrow> raise ValueError | Some n \<Rightarrow> if n < 0 then raise ValueError else ok n)"

definition pressure_values ::
    "pressure_input \<Rightarrow> direction \<Rightarrow> (pressure_result option \<times> decimal \<times> decimal) result" where
  "pressure_values pressure d = (case pressure of
     Pressure_result pr \<Rightarrow>
       (let magnitude = (if pr_direction pr = d then pr_magnitude pr else dabs (pr_signed pr)) in
        rbind (non_negative magnitude) (\<lambda>m. ok (Some pr, m, signed_pressure magnitude d)))
   | Pressure_scalar v \<Rightarrow> rbind (to_decimal v) (\<lambda>q. rbind (non_negative q) (\<lambda>m. ok (None, m, signed_pressure m d))))"

section \<open>The projection\<close>

definition path_points :: "decimal option \<Rightarrow> decimal \<Rightarrow> decimal \<Rightarrow> decimal \<Rightarrow> int \<Rightarrow> path_point list" where
  "path_points current drift term net h =
     map (\<lambda>i. \<lparr>pp_day = int i,
               pp_value = map_option (\<lambda>c. dadd c (dmul net (of_nat i))) current,
               pp_trend = dmul drift (of_nat i), pp_pressure = dmul term (of_nat i)\<rparr>) [0..<nat (h + 1)]"

definition term_record :: "pressure_term \<Rightarrow> pyval" where
  "term_record t = PMap [(PStr ''evidence_id'', pt_evidence t), (PStr ''materiality'', PDec (pt_materiality t)),
     (PStr ''decay_factor'', PDec (pt_decay t)), (PStr ''contribution'', PDec (pt_contribution t)),
     (PStr ''signed_contribution'', PDec (pt_signed t)), (PStr ''included'', PBool (pt_included t)),
     (PStr ''reason'', PStr (pt_reason t))]"

definition formula_inputs ::
    "trend_result \<Rightarrow> decimal \<Rightarrow> direction \<Rightarrow> int \<Rightarrow> decimal \<Rightarrow> decimal \<Rightarrow> decimal \<Rightarrow> pressure_result option
      \<Rightarrow> (pyval \<times> pyval) list" where
  "formula_inputs t threshold d h requested term net pr =
     [(PStr ''current_value'', pyopt PDec (tr_current t)), (PStr ''threshold'', PDec threshold),
      (PStr ''direction'', PStr (direction_value d)), (PStr ''horizon_days'', PInt h),
      (PStr ''slope_per_period'', PDec (tr_slope t)), (PStr ''period_length_days'', pyopt PDec (tr_period_length t)),
      (PStr ''per_day_drift'', PDec (tr_drift t)), (PStr ''requested_pressure'', PDec requested),
      (PStr ''pressure_term'', PDec term), (PStr ''net_per_day_drift'', PDec net),
      (PStr ''usable_observation_count'', PInt (int (length (tr_usable t)))),
      (PStr ''excluded_observation_count'', PInt (int (length (tr_excluded t)))),
      (PStr ''pressure_terms'', PList (map term_record (case pr of Some r \<Rightarrow> pr_terms r | None \<Rightarrow> [])))]"

definition projection_reason :: "trend_result \<Rightarrow> decimal \<Rightarrow> string option" where
  "projection_reason t requested =
     (if tr_reason t = None \<and> \<not> sufficient_trend t \<and> requested \<noteq> 0
      then Some ''pressure not applied because fewer than two usable observations exist'' else tr_reason t)"

definition applied_pressure :: "trend_result \<Rightarrow> decimal \<Rightarrow> decimal" where
  "applied_pressure t signed = (if sufficient_trend t then signed else 0)"

definition project ::
    "series_item list \<Rightarrow> pressure_input \<Rightarrow> pyval \<Rightarrow> pyval \<Rightarrow> pyval \<Rightarrow> pyval \<Rightarrow> pyval \<Rightarrow> projection result" where
  "project series pressure horizon_days threshold direction recent_periods period_days =
     rbind (direction_of direction) (\<lambda>d.
     rbind (horizon horizon_days) (\<lambda>h.
     rbind (to_decimal threshold) (\<lambda>q.
     rbind (fit_trend series recent_periods period_days) (\<lambda>t.
     rbind (pressure_values pressure d) (\<lambda>(pr, requested, signed).
     let term = applied_pressure t signed; net = dadd (tr_drift t) term in
     make_projection \<lparr>pj_current = tr_current t, pj_threshold = q, pj_direction = d, pj_horizon = h,
       pj_slope = tr_slope t, pj_drift = tr_drift t, pj_pressure = requested, pj_pressure_term = term, pj_net = net,
       pj_path = path_points (tr_current t) (tr_drift t) term net h, pj_trend = t, pj_pressure_result = pr,
       pj_requested = requested, pj_reason = projection_reason t requested,
       pj_inputs = formula_inputs t q d h requested term net pr\<rparr>)))))"

definition project_with_evidence ::
    "series_item list \<Rightarrow> pyval list \<Rightarrow> pyval \<Rightarrow> pyval \<Rightarrow> pyval \<Rightarrow> pyval \<Rightarrow> pyval \<Rightarrow> projection result" where
  "project_with_evidence series evidence horizon_days threshold direction recent_periods period_days =
     rbind (direction_of direction) (\<lambda>d.
     rbind (evidence_pressure evidence (PEnum ''Direction'' (direction_value d))) (\<lambda>pr.
     project series (Pressure_result pr) horizon_days threshold (PEnum ''Direction'' (direction_value d))
       recent_periods period_days))"

section \<open>What a projection guarantees\<close>

text \<open>The checks of the constructor never fail on the points \<open>project\<close> builds.\<close>

lemma path_points_length [simp]: "length (path_points c dr te n h) = nat (h + 1)"
  by (simp add: path_points_def)

lemma path_points_nth [simp]:
  "i < nat (h + 1) \<Longrightarrow> path_points c dr te n h ! i =
     \<lparr>pp_day = int i, pp_value = map_option (\<lambda>c. dadd c (dmul n (of_nat i))) c,
      pp_trend = dmul dr (of_nat i), pp_pressure = dmul te (of_nat i)\<rparr>"
  by (simp add: path_points_def del: upt_Suc)

lemma make_projection_ok:
  assumes "pj_path p = path_points c dr te n (pj_horizon p)" and "0 \<le> pj_horizon p"
  shows "make_projection p = ok p"
proof -
  have "path_points c dr te n (pj_horizon p) \<noteq> []" using assms(2) by (auto simp: path_points_def)
  then have "pp_day (hd (pj_path p)) = 0" using assms by (simp add: hd_conv_nth)
  then show ?thesis using assms by (simp add: make_projection_def)
qed

lemma horizon_ok: "horizon v = ok h \<Longrightarrow> 0 \<le> h"
  by (auto simp: horizon_def split: option.splits if_splits)

lemma project_okE:
  assumes "project series pressure hv tv dv rp pd = ok p"
  obtains t pr requested signed where "direction_of dv = ok (pj_direction p)" and "horizon hv = ok (pj_horizon p)"
    and "to_decimal tv = ok (pj_threshold p)" and "fit_trend series rp pd = ok t"
    and "pressure_values pressure (pj_direction p) = ok (pr, requested, signed)"
    and "pj_trend p = t" and "pj_pressure p = requested" and "pj_current p = tr_current t"
    and "pj_net p = dadd (tr_drift t) (applied_pressure t signed)"
    and "pj_path p = path_points (tr_current t) (tr_drift t) (applied_pressure t signed) (pj_net p) (pj_horizon p)"
    and "pj_reason p = projection_reason t requested"
proof -
  obtain d h q t pr requested signed where parts: "direction_of dv = ok d" "horizon hv = ok h" "to_decimal tv = ok q"
      "fit_trend series rp pd = ok t" "pressure_values pressure d = ok (pr, requested, signed)"
    using assms unfolding project_def by fastforce
  have "0 \<le> h" by (rule horizon_ok) (rule parts)
  then show thesis
    using assms by (intro that [of t pr requested signed]) (auto simp: project_def Let_def parts make_projection_ok)
qed

text \<open>A projection returns whenever its inputs normalise.\<close>

lemma project_returns:
  assumes "direction_of dv = ok d" and "horizon hv = ok h" and "to_decimal tv = ok q" and "fit_trend series rp pd = ok t"
    and "pressure_values pressure d = ok v"
  shows "\<exists>p. project series pressure hv tv dv rp pd = ok p"
proof -
  obtain pr requested signed where v: "v = (pr, requested, signed)" by (cases v) auto
  have "0 \<le> h" by (rule horizon_ok) (rule assms)
  then show ?thesis using assms v by (simp add: project_def Let_def make_projection_ok)
qed

text \<open>The requested magnitude is never negative, and the term applied has the sign of deterioration.\<close>

lemma pressure_values_signed:
  assumes "pressure_values pressure d = ok (pr, requested, signed)"
  shows "0 \<le> requested" and "signed = signed_pressure requested d"
  using assms by (auto simp: pressure_values_def non_negative_def Let_def split: pressure_input.splits if_splits)

text \<open>The order of deterioration: upwards for a ceiling, downwards for a floor.\<close>

definition worse_or_equal :: "direction \<Rightarrow> decimal \<Rightarrow> decimal \<Rightarrow> bool" where
  "worse_or_equal d v w \<longleftrightarrow> (if d = AT_MOST then v \<le> w else w \<le> v)"

lemma projected_value_mono:
  assumes "worse_or_equal d term term'"
  shows "worse_or_equal d (dadd c (dmul (dadd drift term) (of_nat i))) (dadd c (dmul (dadd drift term') (of_nat i)))"
proof -
  have mono: "dadd c (dmul (dadd drift x) (of_nat i)) \<le> dadd c (dmul (dadd drift y) (of_nat i))" if "x \<le> y" for x y
    unfolding dadd_def dmul_def using that
    by (intro rnd_mono add_left_mono mult_right_mono) simp_all
  show ?thesis using assms mono by (auto simp: worse_or_equal_def split: if_splits)
qed

lemma signed_pressure_mono: "p \<le> q \<Longrightarrow> worse_or_equal d (signed_pressure p d) (signed_pressure q d)"
  by (auto simp: worse_or_equal_def signed_pressure_def dneg_def intro: rnd_mono)

text \<open>Two projections of one series that differ in the pressure have the same days and values of the same
  availability, and the one with the larger pressure is nowhere better.\<close>

lemma more_pressure_is_worse:
  assumes "project series x hv tv dv rp pd = ok a" and "project series y hv tv dv rp pd = ok b" and "pj_pressure a \<le> pj_pressure b"
  shows "pj_direction b = pj_direction a" and "pj_threshold b = pj_threshold a" and "pj_trend b = pj_trend a"
    and "list_all2 (\<lambda>p q. pp_day p = pp_day q \<and> rel_option (worse_or_equal (pj_direction a)) (pp_value p) (pp_value q))
       (pj_path a) (pj_path b)"
proof -
  obtain t pr requested signed where a: "direction_of dv = ok (pj_direction a)" "horizon hv = ok (pj_horizon a)"
      "to_decimal tv = ok (pj_threshold a)" "fit_trend series rp pd = ok t"
      "pressure_values x (pj_direction a) = ok (pr, requested, signed)" "pj_trend a = t" "pj_pressure a = requested"
      "pj_net a = dadd (tr_drift t) (applied_pressure t signed)"
      "pj_path a = path_points (tr_current t) (tr_drift t) (applied_pressure t signed) (pj_net a) (pj_horizon a)"
    by (rule project_okE [OF assms(1)]) (rule that)
  obtain t' pr' requested' signed' where b: "direction_of dv = ok (pj_direction b)" "horizon hv = ok (pj_horizon b)"
      "to_decimal tv = ok (pj_threshold b)" "fit_trend series rp pd = ok t'"
      "pressure_values y (pj_direction b) = ok (pr', requested', signed')" "pj_trend b = t'" "pj_pressure b = requested'"
      "pj_net b = dadd (tr_drift t') (applied_pressure t' signed')"
      "pj_path b = path_points (tr_current t') (tr_drift t') (applied_pressure t' signed') (pj_net b) (pj_horizon b)"
    by (rule project_okE [OF assms(2)]) (rule that)
  have same: "t' = t" "pj_direction b = pj_direction a" "pj_horizon b = pj_horizon a" "pj_threshold b = pj_threshold a"
    using a(1-4) b(1-4) by simp_all
  then show "pj_direction b = pj_direction a" "pj_threshold b = pj_threshold a" "pj_trend b = pj_trend a" using a(6) b(6) by simp_all
  have "signed = signed_pressure requested (pj_direction a)" "signed' = signed_pressure requested' (pj_direction a)"
    using pressure_values_signed(2) [OF a(5)] pressure_values_signed(2) [OF b(5)] same(2) by simp_all
  moreover have "requested \<le> requested'" using assms(3) a(7) b(7) by simp
  ultimately have "worse_or_equal (pj_direction a) (applied_pressure t signed) (applied_pressure t signed')"
    using signed_pressure_mono by (auto simp: applied_pressure_def worse_or_equal_def)
  from projected_value_mono [OF this]
  show "list_all2 (\<lambda>p q. pp_day p = pp_day q \<and> rel_option (worse_or_equal (pj_direction a)) (pp_value p) (pp_value q))
       (pj_path a) (pj_path b)"
    unfolding a(9) b(9) same(1,3) a(8) b(8)
    by (cases "tr_current t") (auto simp: list_all2_conv_all_nth)
qed

text \<open>The reason of the projection is that of the trend: its own branch, pressure without a baseline, is dead,
  because the trend then already carries a reason.\<close>

lemma own_reason_unreachable:
  assumes "project series x hv tv dv rp pd = ok p"
  shows "pj_reason p = tr_reason (pj_trend p)"
proof -
  obtain t pr requested signed where t: "fit_trend series rp pd = ok t" "pj_trend p = t" "pj_reason p = projection_reason t requested"
    by (rule project_okE [OF assms]) (rule that)
  obtain bs periods configured where "fit_observations bs periods configured = ok t" "\<forall>n. periods = Some n \<longrightarrow> 0 < n"
    by (rule fit_trend_okE [OF t(1)]) (rule that)
  from fit_observations_selected(5) [OF this] show ?thesis using t(2,3) by (cases "sufficient_trend t") (simp_all add: projection_reason_def)
qed

end
