(* ===== verification/Forecast_Crossing.thy ===== *)
theory Forecast_Crossing
  imports Forecast_Path Covenant_Evaluate
begin

text \<open>
  The first contractual crossing of a projected path (\<open>domain/forecast/crossing.py\<close>): the path and the threshold
  schedule are normalised, the schedule gives the threshold in force on every day, and the scan stops at the first
  day on or beyond it.
\<close>

section \<open>Thresholds and results\<close>

record threshold_change =
  tc_threshold :: decimal
  tc_day :: "int option"
  tc_date :: "date option"
  tc_reason :: "string option"

record threshold_point =
  tp_day :: int
  tp_threshold :: decimal

record crossing_result =
  cr_direction :: direction
  cr_threshold :: decimal
  cr_path :: "path_point list"
  cr_threshold_path :: "threshold_point list"
  cr_day :: "int option"
  cr_date :: "date option"
  cr_value :: "decimal option"
  cr_threshold_used :: "decimal option"
  cr_margin :: "decimal option"
  cr_as_of :: "date option"
  cr_reason :: "string option"
  cr_changes :: "threshold_point list"

definition non_negative_integer :: "pyval \<Rightarrow> int result" where
  "non_negative_integer v = (case plain_int v of None \<Rightarrow> raise ValueError | Some n \<Rightarrow> if n < 0 then raise ValueError else ok n)"

definition make_threshold_change :: "pyval \<Rightarrow> pyval \<Rightarrow> pyval \<Rightarrow> pyval \<Rightarrow> threshold_change result" where
  "make_threshold_change threshold effective_day effective_date reason =
     (if (effective_day = PNone) = (effective_date = PNone) then raise ValueError else
      rbind (to_decimal threshold) (\<lambda>q. rbind (optional non_negative_integer effective_day) (\<lambda>n.
      rbind (optional day_of_value effective_date) (\<lambda>d. rbind (optional (\<lambda>v. clean_text v 200) reason) (\<lambda>r.
      ok \<lparr>tc_threshold = q, tc_day = n, tc_date = d, tc_reason = r\<rparr>)))))"

text \<open>\<open>tuple(point.day for point in points) == tuple(range(len(points)))\<close>.\<close>

definition contiguous :: "int list \<Rightarrow> bool" where
  "contiguous days \<longleftrightarrow> days = map int [0..<length days]"

definition crossing_result_ok :: "crossing_result \<Rightarrow> bool" where
  "crossing_result_ok r \<longleftrightarrow> length (cr_path r) = length (cr_threshold_path r)
     \<and> contiguous (map pp_day (cr_path r)) \<and> contiguous (map tp_day (cr_threshold_path r))
     \<and> (case cr_day r of None \<Rightarrow> cr_date r = None \<and> cr_value r = None \<and> cr_threshold_used r = None \<and> cr_margin r = None
        | Some n \<Rightarrow> 0 \<le> n \<and> n < int (length (cr_path r))
            \<and> cr_value r \<noteq> None \<and> cr_threshold_used r \<noteq> None \<and> cr_margin r \<noteq> None
            \<and> (cr_date r = None \<or> cr_as_of r \<noteq> None))"

text \<open>The reasons the module passes are short texts without control characters.\<close>

definition make_crossing_result :: "crossing_result \<Rightarrow> crossing_result result" where
  "make_crossing_result r = (if crossing_result_ok r then ok r else raise ValueError)"

section \<open>Normalising the path\<close>

datatype path_item = Path_point path_point | Path_value pyval

datatype path_input = Projected projection | Listed "path_item list"

definition normalise_point :: "nat \<Rightarrow> path_item \<Rightarrow> path_point result" where
  "normalise_point i item =
     rbind (case item of Path_point p \<Rightarrow> ok p
       | Path_value v \<Rightarrow> if is_mapping v then
           rbind (non_negative_integer (read_present v [''day'', ''day_offset''] (PInt (int i)))) (\<lambda>n.
           rbind (optional to_decimal (read_present v [''value'', ''projected_value''] PNone)) (\<lambda>q.
           rbind (to_decimal (read_present v [''trend_component''] (PDec 0))) (\<lambda>t.
           rbind (to_decimal (read_present v [''pressure_component''] (PDec 0))) (\<lambda>p.
           ok \<lparr>pp_day = n, pp_value = q, pp_trend = t, pp_pressure = p\<rparr>))))
         else rbind (optional to_decimal v) (\<lambda>q. ok \<lparr>pp_day = int i, pp_value = q, pp_trend = 0, pp_pressure = 0\<rparr>))
     (\<lambda>p. if pp_day p \<noteq> int i then raise ValueError else ok p)"

definition normalise_path :: "path_input \<Rightarrow> path_point list result" where
  "normalise_path input =
     (let items = (case input of Projected p \<Rightarrow> map Path_point (pj_path p) | Listed items \<Rightarrow> items) in
      rmap (\<lambda>(i, item). normalise_point i item) (enumerate 0 items))"

section \<open>Resolving the defaults\<close>

definition resolve_threshold :: "pyval \<Rightarrow> path_input \<Rightarrow> decimal result" where
  "resolve_threshold threshold input =
     (if threshold = PNone then (case input of Projected p \<Rightarrow> ok (pj_threshold p) | Listed _ \<Rightarrow> raise TypeError)
      else to_decimal threshold)"

definition resolve_direction :: "pyval \<Rightarrow> path_input \<Rightarrow> direction result" where
  "resolve_direction d input =
     (if d = PNone then (case input of Projected p \<Rightarrow> ok (pj_direction p) | Listed _ \<Rightarrow> raise TypeError)
      else direction_of d)"

definition resolve_as_of :: "pyval \<Rightarrow> pyval \<Rightarrow> pyval \<Rightarrow> path_input \<Rightarrow> date option result" where
  "resolve_as_of as_of_date as_of current_date input =
     (case filter (\<lambda>v. v \<noteq> PNone) [as_of_date, as_of, current_date] of
        [] \<Rightarrow> ok (case input of
            Projected p \<Rightarrow> (if tr_usable (pj_trend p) = [] then None else Some (ob_on (last (tr_usable (pj_trend p)))))
          | Listed _ \<Rightarrow> None)
      | [v] \<Rightarrow> rbind (day_of_value v) (\<lambda>d. ok (Some d))
      | supplied \<Rightarrow> rbind (rmap day_of_value supplied) (\<lambda>ds.
          if length (remdups ds) \<noteq> 1 then raise ValueError else ok (Some (hd ds))))"

section \<open>Normalising the threshold schedule\<close>

text \<open>A record of the schedule: a \<open>ThresholdChange\<close>, a mapping, a sequence, a text, or a value without
  a length.\<close>

datatype change_record = Change threshold_change | Change_mapping "(pyval \<times> pyval) list"
  | Change_sequence "pyval list" | Change_text string | Change_scalar pyval

datatype change_input = Schedule "change_record list" | Schedule_mapping "(pyval \<times> pyval) list"

definition change_keys :: "string list" where
  "change_keys = [''day'', ''day_offset'', ''effective_day'', ''date'', ''effective_date'', ''effective_on'']"

definition change_records :: "change_input \<Rightarrow> change_record list" where
  "change_records input = (case input of
     Schedule_mapping kvs \<Rightarrow>
       if list_ex (\<lambda>k. map_get kvs k \<noteq> None) change_keys then [Change_mapping kvs]
       else map (\<lambda>(k, v). Change_sequence [k, v]) kvs
   | Schedule changes \<Rightarrow> changes)"

definition date_day :: "pyval \<Rightarrow> date \<Rightarrow> int result" where
  "date_day v as_of = rbind (day_of_value v) (\<lambda>d. if d - as_of < 0 then raise ValueError else ok (d - as_of))"

text \<open>\<open>isinstance(value, CalendarDate | str)\<close>: a datetime is a date too.\<close>

definition date_or_text :: "pyval \<Rightarrow> bool" where
  "date_or_text v = (case v of PDate _ \<Rightarrow> True | PDatetime _ \<Rightarrow> True | PNaive _ \<Rightarrow> True | _ \<Rightarrow> text_of v \<noteq> None)"

definition dated_change :: "pyval \<Rightarrow> pyval \<Rightarrow> pyval \<Rightarrow> date option \<Rightarrow> (int \<times> decimal) result" where
  "dated_change effective_day effective_date threshold as_of =
     (if threshold = PNone then raise ValueError
      else if effective_day \<noteq> PNone \<and> effective_date \<noteq> PNone then raise ValueError
      else if effective_day \<noteq> PNone then
        rbind (non_negative_integer effective_day) (\<lambda>n. rbind (to_decimal threshold) (\<lambda>q. ok (n, q)))
      else if effective_date = PNone then raise ValueError
      else (case as_of of None \<Rightarrow> raise ValueError
        | Some a \<Rightarrow> rbind (date_day effective_date a) (\<lambda>n. rbind (to_decimal threshold) (\<lambda>q. ok (n, q)))))"

definition change_record_values :: "change_record \<Rightarrow> date option \<Rightarrow> (int \<times> decimal) result" where
  "change_record_values c as_of = (case c of
     Change tc \<Rightarrow> (case tc_day tc of Some n \<Rightarrow> ok (n, tc_threshold tc)
       | None \<Rightarrow> (case tc_date tc of None \<Rightarrow> raise AssertionError
           | Some d \<Rightarrow> (case as_of of None \<Rightarrow> raise ValueError
               | Some a \<Rightarrow> rbind (date_day (PDate d) a) (\<lambda>n. ok (n, tc_threshold tc)))))
   | Change_mapping kvs \<Rightarrow> dated_change
       (read_present (PMap kvs) [''effective_day'', ''day'', ''day_offset''] PNone)
       (read_present (PMap kvs) [''effective_date'', ''effective_on'', ''date''] PNone)
       (read_present (PMap kvs) [''threshold'', ''threshold_used'', ''value''] PNone) as_of
   | Change_sequence vs \<Rightarrow> (case vs of
         [day, threshold] \<Rightarrow> dated_change day (if date_or_text day then day else PNone) threshold as_of
       | _ \<Rightarrow> raise ValueError)
   | Change_text _ \<Rightarrow> raise ValueError
   | Change_scalar _ \<Rightarrow> raise TypeError)"

definition make_threshold_point :: "int \<Rightarrow> decimal \<Rightarrow> threshold_point result" where
  "make_threshold_point n q = (if n < 0 then raise ValueError else ok \<lparr>tp_day = n, tp_threshold = q\<rparr>)"

definition normalise_change :: "date option \<Rightarrow> int \<Rightarrow> change_record \<Rightarrow> threshold_point result" where
  "normalise_change as_of h c = rbind (change_record_values c as_of) (\<lambda>(n, q).
     if n > h then raise ValueError else make_threshold_point n q)"

definition normalise_changes :: "change_input \<Rightarrow> date option \<Rightarrow> int \<Rightarrow> threshold_point list result" where
  "normalise_changes input as_of h =
     rbind (rmap (normalise_change as_of h) (change_records input)) (\<lambda>points.
       let ordered = sort_key tp_day points in
       if distinct (map tp_day ordered) then ok ordered else raise ValueError)"

text \<open>The threshold in force on each day of the path; the days are those of checked points.\<close>

fun threshold_path :: "path_point list \<Rightarrow> decimal \<Rightarrow> threshold_point list \<Rightarrow> threshold_point list" where
  "threshold_path [] active changes = []"
| "threshold_path (p # ps) active changes =
     (let now = (case find (\<lambda>c. tp_day c = pp_day p) changes of Some c \<Rightarrow> tp_threshold c | None \<Rightarrow> active) in
      \<lparr>tp_day = pp_day p, tp_threshold = now\<rparr> # threshold_path ps now changes)"

section \<open>The scan\<close>

definition breaches :: "decimal \<Rightarrow> decimal \<Rightarrow> direction \<Rightarrow> bool" where
  "breaches v threshold d = (if d = AT_MOST then v \<ge> threshold else v \<le> threshold)"

definition breach_margin :: "decimal \<Rightarrow> decimal \<Rightarrow> direction \<Rightarrow> decimal" where
  "breach_margin v threshold d = (if d = AT_MOST then dsub v threshold else dsub threshold v)"

definition is_improving :: "path_point list \<Rightarrow> direction \<Rightarrow> bool" where
  "is_improving path d =
     (let vs = concat (map (\<lambda>p. case pp_value p of Some v \<Rightarrow> [v] | None \<Rightarrow> []) path) in
      if length vs < 2 then False
      else (if d = AT_MOST then dsub (last vs) (hd vs) else dsub (hd vs) (last vs)) < 0)"

text \<open>Where the loop over the days ends: on a breach, on a breach behind an unavailable value, or at the end, with
  the flag whether a value was missing.\<close>

datatype scan_end = Crossed int decimal decimal | Blocked | Exhausted bool

fun scan :: "direction \<Rightarrow> bool \<Rightarrow> (path_point \<times> threshold_point) list \<Rightarrow> scan_end" where
  "scan d missing [] = Exhausted missing"
| "scan d missing ((p, t) # rest) = (case pp_value p of
     None \<Rightarrow> scan d True rest
   | Some v \<Rightarrow> if breaches v (tp_threshold t) d
       then (if missing then Blocked else Crossed (pp_day p) v (tp_threshold t))
       else scan d missing rest)"

definition no_crossing_reason :: "path_point list \<Rightarrow> direction \<Rightarrow> bool \<Rightarrow> string" where
  "no_crossing_reason path d missing =
     (if list_all (\<lambda>p. pp_value p = None) path then ''projection path contains no computable values''
      else if missing then ''projection path contains unavailable values''
      else if is_improving path d then ''trajectory is moving away from the threshold for direction '' @
        [CHR 0x27] @ direction_value d @ [CHR 0x27]
      else ''trajectory does not cross the threshold within the forecast horizon'')"

definition no_crossing ::
    "path_point list \<Rightarrow> threshold_point list \<Rightarrow> threshold_point list \<Rightarrow> decimal \<Rightarrow> direction \<Rightarrow> date option \<Rightarrow> string
      \<Rightarrow> crossing_result result" where
  "no_crossing path thresholds changes threshold d as_of reason = make_crossing_result
     \<lparr>cr_direction = d, cr_threshold = threshold, cr_path = path, cr_threshold_path = thresholds, cr_day = None,
      cr_date = None, cr_value = None, cr_threshold_used = None, cr_margin = None, cr_as_of = as_of,
      cr_reason = Some reason, cr_changes = changes\<rparr>"

definition date_of_crossing :: "date option \<Rightarrow> int \<Rightarrow> date option result" where
  "date_of_crossing as_of n = (case as_of of None \<Rightarrow> ok None | Some a \<Rightarrow> rbind (add_days a n) (\<lambda>d. ok (Some d)))"

definition crossing_of_scan ::
    "path_point list \<Rightarrow> threshold_point list \<Rightarrow> threshold_point list \<Rightarrow> decimal \<Rightarrow> direction \<Rightarrow> date option
      \<Rightarrow> crossing_result result" where
  "crossing_of_scan path thresholds changes threshold d as_of =
     (case scan d False (zip path thresholds) of
        Crossed n v used \<Rightarrow> rbind (date_of_crossing as_of n) (\<lambda>crossing_date. make_crossing_result
          \<lparr>cr_direction = d, cr_threshold = threshold, cr_path = path, cr_threshold_path = thresholds, cr_day = Some n,
           cr_date = crossing_date, cr_value = Some v, cr_threshold_used = Some used,
           cr_margin = Some (breach_margin v used d), cr_as_of = as_of, cr_reason = None, cr_changes = changes\<rparr>)
      | Blocked \<Rightarrow> no_crossing path thresholds changes threshold d as_of
          ''projection path contains unavailable values before a possible crossing''
      | Exhausted missing \<Rightarrow> no_crossing path thresholds changes threshold d as_of (no_crossing_reason path d missing))"

definition first_crossing ::
    "path_input \<Rightarrow> pyval \<Rightarrow> pyval \<Rightarrow> pyval \<Rightarrow> pyval \<Rightarrow> pyval \<Rightarrow> change_input \<Rightarrow> change_input option \<Rightarrow> crossing_result result" where
  "first_crossing input threshold direction as_of_date as_of current_date changes schedule =
     rbind (normalise_path input) (\<lambda>path.
     rbind (resolve_threshold threshold input) (\<lambda>q.
     rbind (resolve_direction direction input) (\<lambda>d.
     rbind (resolve_as_of as_of_date as_of current_date input) (\<lambda>a.
     rbind (case schedule of None \<Rightarrow> ok changes
       | Some s \<Rightarrow> if (case changes of Schedule cs \<Rightarrow> cs \<noteq> [] | Schedule_mapping kvs \<Rightarrow> kvs \<noteq> []) then raise ValueError
           else ok s) (\<lambda>chosen.
     rbind (normalise_changes chosen a (max 0 (int (length path) - 1))) (\<lambda>points.
     crossing_of_scan path (threshold_path path q points) points q d a))))))"

definition crossing_for_projection :: "projection \<Rightarrow> pyval \<Rightarrow> change_input \<Rightarrow> crossing_result result" where
  "crossing_for_projection p as_of_date changes =
     first_crossing (Projected p) PNone PNone as_of_date PNone PNone changes None"

section \<open>The scan stops at the first breach\<close>

definition breached_at :: "direction \<Rightarrow> path_point \<Rightarrow> threshold_point \<Rightarrow> bool" where
  "breached_at d p t \<longleftrightarrow> (case pp_value p of None \<Rightarrow> False | Some v \<Rightarrow> breaches v (tp_threshold t) d)"

text \<open>The contractual boundary of the forecast is that of the covenant engine.\<close>

lemma breaches_boundary: "breaches v t d \<longleftrightarrow> at_or_beyond_boundary v t (direction_value d)"
  by (cases d) (simp_all add: breaches_def at_or_beyond_boundary_def direction_value_def)

lemma margin_sign: "0 \<le> breach_margin v t d \<longleftrightarrow> breaches v t d"
  by (auto simp: breach_margin_def breaches_def dsub_def)

lemma scan_blocked: "scan d True xs = Blocked \<or> scan d True xs = Exhausted True"
  by (induction xs) (auto split: option.splits)

lemma scan_crossed:
  "scan d False xs = Crossed n v u \<longleftrightarrow>
     (\<exists>i<length xs. n = pp_day (fst (xs ! i)) \<and> pp_value (fst (xs ! i)) = Some v \<and> u = tp_threshold (snd (xs ! i))
        \<and> breaches v u d \<and> (\<forall>j<i. pp_value (fst (xs ! j)) \<noteq> None \<and> \<not> breached_at d (fst (xs ! j)) (snd (xs ! j))))"
proof (induction xs)
  case Nil
  show ?case by simp
next
  case (Cons x xs)
  obtain p t where x: "x = (p, t)" by (cases x)
  show ?case
  proof (cases "pp_value p")
    case None
    have "scan d True xs \<noteq> Crossed n v u" using scan_blocked [of d xs] by auto
    then show ?thesis using None by (auto simp: x less_Suc_eq_0_disj)
  next
    case (Some w)
    show ?thesis
    proof (cases "breaches w (tp_threshold t) d")
      case True
      then show ?thesis using Some by (auto simp: x less_Suc_eq_0_disj breached_at_def)
    next
      case False
      then have step: "scan d False (x # xs) = scan d False xs" using Some by (simp add: x)
      have here: "\<not> breached_at d p t" using Some False by (simp add: breached_at_def)
      show ?thesis unfolding step Cons.IH using Some False here
        by (auto simp: x Ex_less_Suc2 All_less_Suc2)
    qed
  qed
qed

lemma threshold_path_length [simp]: "length (threshold_path ps a cs) = length ps"
  by (induction ps arbitrary: a) (simp_all add: Let_def)

lemma threshold_path_days [simp]: "map tp_day (threshold_path ps a cs) = map pp_day ps"
  by (induction ps arbitrary: a) (simp_all add: Let_def)

text \<open>Normalised points are numbered from zero.\<close>

lemma normalise_path_days:
  assumes "normalise_path input = ok path"
  shows "map pp_day path = map int [0..<length path]"
proof (rule nth_equalityI)
  show "length (map pp_day path) = length (map int [0..<length path])" by simp
next
  fix i assume "i < length (map pp_day path)"
  then have i: "i < length path" by simp
  obtain items where items: "rmap (\<lambda>(i, item). normalise_point i item) (enumerate 0 items) = ok path"
    using assms by (auto simp: normalise_path_def Let_def)
  have "(\<lambda>(i, item). normalise_point i item) (enumerate 0 items ! i) = ok (path ! i)"
    using rmap_nth [OF items] rmap_length [OF items] i by simp
  then have "pp_day (path ! i) = int i" using rmap_length [OF items] i
    by (auto simp: nth_enumerate_eq normalise_point_def split: if_splits)
  then show "map pp_day path ! i = map int [0..<length path] ! i" using i by simp
qed

text \<open>The threshold of a day is the last change up to that day, or the base.\<close>

definition threshold_in_force_on :: "threshold_point list \<Rightarrow> decimal \<Rightarrow> int \<Rightarrow> decimal" where
  "threshold_in_force_on changes base n =
     (case filter (\<lambda>c. tp_day c \<le> n) changes of [] \<Rightarrow> base | cs \<Rightarrow> tp_threshold (last cs))"

lemma threshold_in_force_on_step:
  assumes "sorted (map tp_day cs)" and "distinct (map tp_day cs)"
  shows "threshold_in_force_on cs base n =
    (case find (\<lambda>c. tp_day c = n) cs of Some c \<Rightarrow> tp_threshold c | None \<Rightarrow> threshold_in_force_on cs base (n - 1))"
  using assms
proof (induction cs arbitrary: base)
  case Nil
  show ?case by (simp add: threshold_in_force_on_def)
next
  case (Cons c cs)
  have unfold: "threshold_in_force_on (c # cs) base m =
      (if tp_day c \<le> m then threshold_in_force_on cs (tp_threshold c) m else base)" for m
  proof -
    have "filter (\<lambda>c. tp_day c \<le> m) cs = []" if "\<not> tp_day c \<le> m"
      using Cons.prems(1) that by (auto simp: filter_empty_conv)
    then show ?thesis by (simp add: threshold_in_force_on_def split: list.split)
  qed
  have later: "find (\<lambda>c. tp_day c = m) cs = None \<and> filter (\<lambda>c. tp_day c \<le> m) cs = []" if m: "m \<le> tp_day c" for m
  proof -
    have "m < tp_day x" if x: "x \<in> set cs" for x
    proof -
      have "tp_day c \<le> tp_day x" using Cons.prems(1) x by simp
      moreover have "tp_day c \<noteq> tp_day x" using Cons.prems(2) imageI [OF x, of tp_day] by auto
      ultimately show ?thesis using m by linarith
    qed
    then show ?thesis by (force simp: find_None_iff filter_empty_conv)
  qed
  show ?case
  proof (cases "n \<le> tp_day c")
    case True
    then show ?thesis using later [OF True] unfolding unfold by (simp add: threshold_in_force_on_def)
  next
    case False
    then show ?thesis using Cons.IH [of "tp_threshold c"] Cons.prems unfolding unfold by simp
  qed
qed

lemma threshold_path_nth:
  assumes "sorted (map tp_day cs)" and "distinct (map tp_day cs)"
    and "\<And>k. k < length ps \<Longrightarrow> pp_day (ps ! k) = m + int k" and "i < length ps"
  shows "tp_threshold (threshold_path ps (threshold_in_force_on cs base (m - 1)) cs ! i) =
    threshold_in_force_on cs base (m + int i)"
  using assms(3,4)
proof (induction ps arbitrary: m i)
  case Nil
  then show ?case by simp
next
  case (Cons p ps)
  have day: "pp_day p = m" using Cons.prems(1) [of 0] by simp
  have now: "(case find (\<lambda>c. tp_day c = pp_day p) cs of Some c \<Rightarrow> tp_threshold c
      | None \<Rightarrow> threshold_in_force_on cs base (m - 1)) = threshold_in_force_on cs base ((m + 1) - 1)"
    using threshold_in_force_on_step [OF assms(1,2), of base m] by (simp add: day)
  have rest: "pp_day (ps ! k) = m + 1 + int k" if "k < length ps" for k
    using Cons.prems(1) [of "Suc k"] that by simp
  show ?case
  proof (cases i)
    case 0
    then show ?thesis using now by (simp add: Let_def)
  next
    case (Suc j)
    then have "j < length ps" using Cons.prems(2) by simp
    from Cons.IH [OF rest this] show ?thesis using now by (simp add: Suc Let_def algebra_simps)
  qed
qed

lemma normalise_change_day: "normalise_change as_of h c = ok t \<Longrightarrow> 0 \<le> tp_day t"
  by (auto simp: normalise_change_def make_threshold_point_def split: if_splits)

lemma normalise_changes_ok:
  assumes "normalise_changes input as_of h = ok cs"
  shows "sorted (map tp_day cs)" and "distinct (map tp_day cs)" and "\<forall>c\<in>set cs. 0 \<le> tp_day c"
proof -
  obtain points where points: "rmap (normalise_change as_of h) (change_records input) = ok points"
      "distinct (map tp_day cs)" "cs = sort_key tp_day points"
    using assms by (auto simp: normalise_changes_def Let_def split: if_splits)
  then show "sorted (map tp_day cs)" "distinct (map tp_day cs)" by simp_all
  show "\<forall>c\<in>set cs. 0 \<le> tp_day c"
  proof
    fix c assume "c \<in> set cs"
    then have "c \<in> set points" by (simp add: points(3))
    from rmap_set [OF points(1) this] show "0 \<le> tp_day c" using normalise_change_day by blast
  qed
qed

lemma before_the_schedule: "\<forall>c\<in>set cs. 0 \<le> tp_day c \<Longrightarrow> threshold_in_force_on cs base (- 1) = base"
proof -
  assume "\<forall>c\<in>set cs. 0 \<le> tp_day c"
  then have "filter (\<lambda>c. tp_day c \<le> - 1) cs = []" by (force simp: filter_empty_conv)
  then show ?thesis by (simp add: threshold_in_force_on_def)
qed

section \<open>What a crossing result guarantees\<close>

lemma first_crossing_okE:
  assumes "first_crossing input tv dv a1 a2 a3 ch sch = ok r"
  obtains path q d a points where "normalise_path input = ok path" and "resolve_threshold tv input = ok q"
    and "resolve_direction dv input = ok d" and "resolve_as_of a1 a2 a3 input = ok a"
    and "sorted (map tp_day points)" and "distinct (map tp_day points)" and "\<forall>c\<in>set points. 0 \<le> tp_day c"
    and "crossing_of_scan path (threshold_path path q points) points q d a = ok r"
    and "normalise_changes (case sch of None \<Rightarrow> ch | Some s \<Rightarrow> s) a (max 0 (int (length path) - 1)) = ok points"
proof -
  obtain path q d a chosen points where parts: "normalise_path input = ok path" "resolve_threshold tv input = ok q"
      "resolve_direction dv input = ok d" "resolve_as_of a1 a2 a3 input = ok a"
      "(case sch of None \<Rightarrow> ok ch
         | Some s \<Rightarrow> if (case ch of Schedule cs \<Rightarrow> cs \<noteq> [] | Schedule_mapping kvs \<Rightarrow> kvs \<noteq> []) then raise ValueError
           else ok s) = ok chosen"
      "normalise_changes chosen a (max 0 (int (length path) - 1)) = ok points"
      "crossing_of_scan path (threshold_path path q points) points q d a = ok r"
    using assms unfolding first_crossing_def by blast
  have "chosen = (case sch of None \<Rightarrow> ch | Some s \<Rightarrow> s)" using parts(5) by (auto split: option.splits if_splits)
  then show thesis
    by (intro that [OF parts(1-4) normalise_changes_ok [OF parts(6)] parts(7)]) (use parts(6) in simp)
qed

text \<open>The constructor accepts whatever the scan produces; only the calendar can overflow.\<close>

lemma scan_crossed_range:
  assumes "scan d False (zip path thresholds) = Crossed n v u" and "map pp_day path = map int [0..<length path]"
  shows "0 \<le> n" and "n < int (length path)"
proof -
  obtain i where i: "i < length (zip path thresholds)" "n = pp_day (fst (zip path thresholds ! i))"
    using assms(1) unfolding scan_crossed by blast
  then have "n = map pp_day path ! i" "i < length path" by simp_all
  then show "0 \<le> n" "n < int (length path)" unfolding assms(2) by simp_all
qed

lemma crossing_of_scan_cases:
  assumes days: "map pp_day path = map int [0..<length path]"
  shows "crossing_of_scan path (threshold_path path q cs) cs q d a =
    (case scan d False (zip path (threshold_path path q cs)) of
       Crossed n v u \<Rightarrow> rbind (date_of_crossing a n) (\<lambda>on. ok
         \<lparr>cr_direction = d, cr_threshold = q, cr_path = path, cr_threshold_path = threshold_path path q cs, cr_day = Some n,
          cr_date = on, cr_value = Some v, cr_threshold_used = Some u, cr_margin = Some (breach_margin v u d),
          cr_as_of = a, cr_reason = None, cr_changes = cs\<rparr>)
     | e \<Rightarrow> ok
         \<lparr>cr_direction = d, cr_threshold = q, cr_path = path, cr_threshold_path = threshold_path path q cs, cr_day = None,
          cr_date = None, cr_value = None, cr_threshold_used = None, cr_margin = None, cr_as_of = a,
          cr_reason = Some (case e of Exhausted missing \<Rightarrow> no_crossing_reason path d missing
            | _ \<Rightarrow> ''projection path contains unavailable values before a possible crossing''), cr_changes = cs\<rparr>)"
proof (cases "scan d False (zip path (threshold_path path q cs))")
  case (Crossed n v u)
  note range = scan_crossed_range [OF Crossed days]
  show ?thesis
  proof (cases a)
    case None
    then show ?thesis using Crossed range days
      by (simp add: crossing_of_scan_def date_of_crossing_def make_crossing_result_def crossing_result_ok_def contiguous_def)
  next
    case (Some b)
    then show ?thesis using Crossed range days
      by (cases "add_days b n") (simp_all add: crossing_of_scan_def date_of_crossing_def make_crossing_result_def
        crossing_result_ok_def contiguous_def)
  qed
qed (use days in \<open>simp_all add: crossing_of_scan_def no_crossing_def make_crossing_result_def crossing_result_ok_def contiguous_def\<close>)

lemma scan_crossed_day:
  assumes days: "map pp_day path = map int [0..<length path]" and len: "length ts = length path"
  shows "(\<exists>v u. scan d False (zip path ts) = Crossed n v u) \<longleftrightarrow>
    (\<exists>i<length path. n = int i \<and> breached_at d (path ! i) (ts ! i)
       \<and> (\<forall>j<i. pp_value (path ! j) \<noteq> None \<and> \<not> breached_at d (path ! j) (ts ! j)))"
    (is "?crossed \<longleftrightarrow> ?first")
proof -
  have day: "pp_day (path ! i) = int i" if "i < length path" for i
    using arg_cong [OF days, of "\<lambda>xs. xs ! i"] that by simp
  have zipped: "zip path ts ! i = (path ! i, ts ! i)" if "i < length path" for i using that len by simp
  have before: "(\<forall>j<i. pp_value (fst (zip path ts ! j)) \<noteq> None \<and> \<not> breached_at d (fst (zip path ts ! j)) (snd (zip path ts ! j)))
      \<longleftrightarrow> (\<forall>j<i. pp_value (path ! j) \<noteq> None \<and> \<not> breached_at d (path ! j) (ts ! j))" if "i < length path" for i
    using zipped that by auto
  show ?thesis
  proof
    assume ?crossed
    then obtain v u i where i: "i < length path" "n = pp_day (fst (zip path ts ! i))" "pp_value (fst (zip path ts ! i)) = Some v"
        "u = tp_threshold (snd (zip path ts ! i))" "breaches v u d"
        and pre: "\<forall>j<i. pp_value (fst (zip path ts ! j)) \<noteq> None \<and> \<not> breached_at d (fst (zip path ts ! j)) (snd (zip path ts ! j))"
      unfolding scan_crossed using len by auto
    then show ?first using before [OF i(1)] day [OF i(1)] zipped [OF i(1)]
      by (intro exI [of _ i]) (simp add: breached_at_def)
  next
    assume ?first
    then obtain i where i: "i < length path" "n = int i" "breached_at d (path ! i) (ts ! i)"
        and pre: "\<forall>j<i. pp_value (path ! j) \<noteq> None \<and> \<not> breached_at d (path ! j) (ts ! j)" by blast
    obtain v where v: "pp_value (path ! i) = Some v" "breaches v (tp_threshold (ts ! i)) d"
      using i(3) by (auto simp: breached_at_def split: option.splits)
    show ?crossed unfolding scan_crossed
      using i v pre before [OF i(1)] day [OF i(1)] len
      by (intro exI [of _ v] exI [of _ "tp_threshold (ts ! i)"] exI [of _ i]) simp
  qed
qed

definition breached_on :: "crossing_result \<Rightarrow> nat \<Rightarrow> bool" where
  "breached_on r i = breached_at (cr_direction r) (cr_path r ! i) (cr_threshold_path r ! i)"

text \<open>The fields of a result, and its day as the first breach.\<close>

lemma first_crossing_parts:
  assumes "first_crossing input tv dv a1 a2 a3 ch sch = ok r"
  shows "normalise_path input = ok (cr_path r)" and "resolve_threshold tv input = ok (cr_threshold r)"
    and "resolve_direction dv input = ok (cr_direction r)" and "resolve_as_of a1 a2 a3 input = ok (cr_as_of r)"
    and "normalise_changes (case sch of None \<Rightarrow> ch | Some s \<Rightarrow> s) (cr_as_of r) (max 0 (int (length (cr_path r)) - 1)) = ok (cr_changes r)"
    and "cr_threshold_path r = threshold_path (cr_path r) (cr_threshold r) (cr_changes r)"
    and "cr_reason r = None \<longleftrightarrow> cr_day r \<noteq> None"
    and "cr_day r = Some n \<longrightarrow> cr_date r = map_option (\<lambda>a. a + n) (cr_as_of r)"
    and "cr_margin r = Some m \<longrightarrow> 0 \<le> m"
    and "cr_day r = Some n \<longleftrightarrow> (\<exists>i<length (cr_path r). n = int i \<and> breached_on r i
        \<and> (\<forall>j<i. pp_value (cr_path r ! j) \<noteq> None \<and> \<not> breached_on r j))"
proof -
  obtain path q d a cs where parts: "normalise_path input = ok path" "resolve_threshold tv input = ok q"
      "resolve_direction dv input = ok d" "resolve_as_of a1 a2 a3 input = ok a"
      "normalise_changes (case sch of None \<Rightarrow> ch | Some s \<Rightarrow> s) a (max 0 (int (length path) - 1)) = ok cs"
      "crossing_of_scan path (threshold_path path q cs) cs q d a = ok r"
    by (rule first_crossing_okE [OF assms]) (rule that)
  let ?scan = "scan d False (zip path (threshold_path path q cs))"
  note days = normalise_path_days [OF parts(1)]
  note cases = crossing_of_scan_cases [OF days, of q cs d a]
  have fields: "cr_path r = path" "cr_threshold_path r = threshold_path path q cs" "cr_direction r = d"
      "cr_changes r = cs" "cr_threshold r = q" "cr_as_of r = a"
    using parts(6) unfolding cases by (auto split: scan_end.splits)
  show "normalise_path input = ok (cr_path r)" "resolve_threshold tv input = ok (cr_threshold r)"
    "resolve_direction dv input = ok (cr_direction r)" "resolve_as_of a1 a2 a3 input = ok (cr_as_of r)"
    "normalise_changes (case sch of None \<Rightarrow> ch | Some s \<Rightarrow> s) (cr_as_of r) (max 0 (int (length (cr_path r)) - 1)) = ok (cr_changes r)"
    "cr_threshold_path r = threshold_path (cr_path r) (cr_threshold r) (cr_changes r)"
    using parts(1-5) by (simp_all add: fields)
  show "cr_reason r = None \<longleftrightarrow> cr_day r \<noteq> None"
    "cr_day r = Some n \<longrightarrow> cr_date r = map_option (\<lambda>a. a + n) (cr_as_of r)"
    using parts(6) unfolding cases
    by (auto simp: date_of_crossing_def dest: add_days_ok split: scan_end.splits option.splits)
  have "cr_margin r = Some m \<longrightarrow> (\<exists>k v u. ?scan = Crossed k v u \<and> m = breach_margin v u d)"
    using parts(6) unfolding cases by (auto split: scan_end.splits)
  then show "cr_margin r = Some m \<longrightarrow> 0 \<le> m" unfolding scan_crossed by (auto simp: margin_sign)
  have "cr_day r = Some n \<longleftrightarrow> (\<exists>v u. ?scan = Crossed n v u)"
    using parts(6) unfolding cases by (auto split: scan_end.splits)
  then show "cr_day r = Some n \<longleftrightarrow> (\<exists>i<length (cr_path r). n = int i \<and> breached_on r i
        \<and> (\<forall>j<i. pp_value (cr_path r ! j) \<noteq> None \<and> \<not> breached_on r j))"
    unfolding scan_crossed_day [OF days threshold_path_length] by (simp add: breached_on_def fields)
qed

text \<open>
  C25: A crossing is reported for day n exactly when the value of day n is on or beyond the threshold in force
  that day, and every day before has a value short of its threshold.
\<close>

theorem first_crossing_exact:
  assumes "first_crossing input tv dv a1 a2 a3 ch sch = ok r"
  shows "(cr_day r = Some n \<longleftrightarrow> (\<exists>i<length (cr_path r). n = int i \<and> breached_on r i
        \<and> (\<forall>j<i. pp_value (cr_path r ! j) \<noteq> None \<and> \<not> breached_on r j)))
    \<and> (\<forall>i<length (cr_path r). tp_threshold (cr_threshold_path r ! i) =
        threshold_in_force_on (cr_changes r) (cr_threshold r) (int i))
    \<and> (cr_reason r = None \<longleftrightarrow> cr_day r \<noteq> None)
    \<and> (\<forall>m. cr_margin r = Some m \<longrightarrow> 0 \<le> m)
    \<and> (cr_day r = Some n \<longrightarrow> cr_date r = map_option (\<lambda>a. a + n) (cr_as_of r))"
proof -
  note parts = first_crossing_parts [OF assms]
  note cs = normalise_changes_ok [OF parts(5)]
  have day: "pp_day (cr_path r ! i) = int i" if "i < length (cr_path r)" for i
    using arg_cong [OF normalise_path_days [OF parts(1)], of "\<lambda>xs. xs ! i"] that by simp
  have "tp_threshold (cr_threshold_path r ! i) = threshold_in_force_on (cr_changes r) (cr_threshold r) (int i)"
    if i: "i < length (cr_path r)" for i
    using threshold_path_nth [OF cs(1,2), of "cr_path r" 0 i "cr_threshold r"] day i before_the_schedule [OF cs(3)] parts(6) by simp
  then show ?thesis using parts(7-10) by blast
qed

text \<open>A projection is scanned as it is, and the thresholds depend on the days of the path only.\<close>

lemma normalise_projected:
  assumes "normalise_path (Projected p) = ok path"
  shows "path = pj_path p"
proof (rule nth_equalityI)
  have run: "rmap (\<lambda>(i, item). normalise_point i item) (enumerate 0 (map Path_point (pj_path p))) = ok path"
    using assms by (simp add: normalise_path_def)
  show len: "length path = length (pj_path p)" using rmap_length [OF run] by simp
  show "path ! i = pj_path p ! i" if "i < length path" for i
    using rmap_nth [OF run, of i] that len by (auto simp: nth_enumerate_eq normalise_point_def split: if_splits)
qed

lemma threshold_path_cong: "map pp_day ps = map pp_day qs \<Longrightarrow> threshold_path ps q cs = threshold_path qs q cs"
proof (induction ps arbitrary: qs q)
  case (Cons p ps)
  then obtain r rs where qs: "qs = r # rs" "pp_day p = pp_day r" "map pp_day ps = map pp_day rs" by (cases qs) auto
  show ?case unfolding qs(1) threshold_path.simps Let_def qs(2) by (simp only: Cons.IH [OF qs(3)])
qed simp

lemma breached_worse:
  assumes "breached_at d p t" and "rel_option (worse_or_equal d) (pp_value p) (pp_value q)"
  shows "breached_at d q t"
proof -
  obtain v where v: "pp_value p = Some v" "breaches v (tp_threshold t) d"
    using assms(1) by (auto simp: breached_at_def split: option.splits)
  then obtain w where w: "pp_value q = Some w" "worse_or_equal d v w" using assms(2) by (auto simp: option_rel_Some1)
  then show ?thesis using v(2) by (cases d) (simp_all add: breached_at_def breaches_def worse_or_equal_def)
qed

text \<open>
  Of two projections of one series, the one under the larger pressure crosses no later: if the smaller
  pressure crosses on a day, the larger one crosses on that day or before.
\<close>

theorem more_pressure_crosses_no_later:
  assumes "project series x hv tv dv rp pd = ok a" and "project series y hv tv dv rp pd = ok b" and "pj_pressure a \<le> pj_pressure b"
    and "crossing_for_projection a as_of ch = ok r" and "crossing_for_projection b as_of ch = ok s" and "cr_day r = Some n"
  shows "\<exists>m\<le>n. cr_day s = Some m"
proof -
  note worse = more_pressure_is_worse [OF assms(1-3)]
  note r = first_crossing_parts [OF assms(4) [unfolded crossing_for_projection_def]]
  note s = first_crossing_parts [OF assms(5) [unfolded crossing_for_projection_def]]
  have paths: "cr_path r = pj_path a" "cr_path s = pj_path b" using normalise_projected r(1) s(1) by blast+
  let ?better = "\<lambda>p q. pp_day p = pp_day q \<and> rel_option (worse_or_equal (pj_direction a)) (pp_value p) (pp_value q)"
  have len: "length (pj_path b) = length (pj_path a)" using list_all2_lengthD [OF worse(4)] by simp
  have point: "?better (pj_path a ! j) (pj_path b ! j)" if "j < length (pj_path a)" for j
    using list_all2_nthD [OF worse(4) that] .
  have "resolve_as_of as_of PNone PNone (Projected b) = resolve_as_of as_of PNone PNone (Projected a)"
    by (simp add: resolve_as_of_def worse(3))
  then have as_of: "cr_as_of s = cr_as_of r" using r(4) s(4) by simp
  have same: "cr_direction r = pj_direction a" "cr_direction s = pj_direction a" "cr_threshold s = cr_threshold r"
    using r(2,3) s(2,3) worse(1,2) by (simp_all add: resolve_direction_def resolve_threshold_def)
  have "cr_changes s = cr_changes r" using r(5) s(5) len as_of by (simp add: paths)
  moreover have "map pp_day (pj_path b) = map pp_day (pj_path a)" using point len by (intro nth_equalityI) simp_all
  ultimately have thresholds: "cr_threshold_path s = cr_threshold_path r"
    using threshold_path_cong [of "pj_path b" "pj_path a"] unfolding r(6) s(6) paths same(3) by simp
  obtain i where i: "i < length (pj_path a)" "n = int i" "breached_on r i"
      and pre: "\<forall>j<i. pp_value (pj_path a ! j) \<noteq> None \<and> \<not> breached_on r j"
    using r(10) [of n] assms(6) by (auto simp: paths)
  have hit: "breached_on s i"
    using i(3) breached_worse conjunct2 [OF point [OF i(1)]] by (simp add: breached_on_def paths same thresholds)
  define k where "k = (LEAST k. breached_on s k)"
  have k: "breached_on s k" "k \<le> i" and least: "\<And>j. j < k \<Longrightarrow> \<not> breached_on s j"
    unfolding k_def using LeastI [of "breached_on s", OF hit] Least_le [of "breached_on s", OF hit] not_less_Least by blast+
  have available: "pp_value (pj_path b ! j) \<noteq> None" if "j < k" for j
    using pre [rule_format, of j] point [of j] that k(2) i(1) by (cases "pp_value (pj_path b ! j)") auto
  have "cr_day s = Some (int k)"
    unfolding s(10) using k i(1) least available len by (intro exI [of _ k]) (simp add: paths)
  then show ?thesis using k(2) i(2) by (intro exI [of _ "int k"]) simp
qed

text \<open>A schedule entry given as a pair of date and threshold, the shape the module resolves against the as-of date,
  always raises: the date is read as the day as well, and a change cannot have both.\<close>

lemma dated_pair_always_raises:
  assumes "date_or_text day"
  shows "change_record_values (Change_sequence [day, threshold]) as_of = raise ValueError"
  using assms by (auto simp: change_record_values_def dated_change_def date_or_text_def text_of_def)

section \<open>Two projections of one series\<close>

definition demo_observation :: "date \<Rightarrow> decimal \<Rightarrow> observation" where
  "demo_observation on v = \<lparr>ob_on = on, ob_value = Some v, ob_complete = True, ob_computable = True,
     ob_period_days = Some 1, ob_source = No_source, ob_reason = None\<rparr>"

lemma demo_fit:
  "fit_observations [demo_observation 100 1, demo_observation 110 2] None None = ok \<lparr>tr_slope = 1, tr_drift = 1,
     tr_current = Some 2, tr_period_length = Some 1, tr_usable = [demo_observation 100 1, demo_observation 110 2],
     tr_excluded = [], tr_reason = None, tr_intercept = Some 1\<rparr>"
proof -
  let ?bs = "[demo_observation 100 1, demo_observation 110 2]"
  have r: "rnd (1 / 2) = 1 / 2" "rnd (1 / 4) = 1 / 4" "rnd (3 / 2) = 3 / 2" "rnd 2 = 2" "rnd 3 = 3"
    by (simp_all add: rnd_eval)
  have dates: "distinct_dates ?bs = 2" "observation_sort_key (demo_observation 100 1) \<le> observation_sort_key (demo_observation 110 2)"
    by (simp_all add: distinct_dates_def sort_key_def demo_observation_def observation_sort_key_def)
  have days: "average_period_days ?bs = ok 1"
    by (simp add: average_period_days_def demo_observation_def ddiv_checked_def ddiv_def dsum_def dadd_def r)
  have means: "mean [0, 1] = 1 / 2" "mean [1, 2] = 3 / 2"
    by (simp_all add: mean_def dsum_def dadd_def ddiv_def r)
  have sums: "slope_denominator [0, 1] = 1 / 2" "slope_numerator [0, 1] [1, 2] = 1 / 2"
    by (simp_all add: slope_denominator_def slope_numerator_def means dsum_def dadd_def dsub_def dmul_def rnd_neg r)
  have parts: "usable (demo_observation on v)" "ob_value (demo_observation on v) = Some v" "observed_value (demo_observation on v) = v" for on v
    by (simp_all add: demo_observation_def usable_def observed_value_def)
  have "indexes [1, 2] = [0, 1]" by (simp add: indexes_def)
  then show ?thesis
    by (simp add: fit_observations_def dates days means sums parts Let_def recent_window_def ddiv_def ddiv_checked_def dsub_def dmul_def r)
qed

lemma demo_values: "path_points (Some 2) dr te n 3 = map (\<lambda>k. \<lparr>pp_day = int k, pp_value = Some (dadd 2 (dmul n (of_nat k))),
    pp_trend = dmul dr (of_nat k), pp_pressure = dmul te (of_nat k)\<rparr>) [0, 1, 2, 3]"
proof -
  have "[0..<nat 4] = [0, 1, 2, 3]" by (simp add: upt_rec)
  then show ?thesis by (simp add: path_points_def comp_def del: upt_Suc)
qed

definition demo_projection :: "decimal \<Rightarrow> projection" where
  "demo_projection p = projr (project (map Observed [demo_observation 100 1, demo_observation 110 2])
     (Pressure_scalar (PDec p)) (PInt 3) (PDec 5) (PStr ''max'') PNone PNone)"

lemma demo_project:
  assumes "0 \<le> p"
  shows "project (map Observed [demo_observation 100 1, demo_observation 110 2]) (Pressure_scalar (PDec p)) (PInt 3) (PDec 5)
     (PStr ''max'') PNone PNone = ok (demo_projection p)" and "pj_pressure (demo_projection p) = p"
    and "pj_threshold (demo_projection p) = 5" and "pj_direction (demo_projection p) = AT_MOST"
    and "pj_path (demo_projection p) = path_points (Some 2) 1 p (dadd 1 p) 3"
    and "tr_usable (pj_trend (demo_projection p)) = [demo_observation 100 1, demo_observation 110 2]"
proof -
  let ?t = "\<lparr>tr_slope = 1, tr_drift = 1,
     tr_current = Some 2, tr_period_length = Some 1, tr_usable = [demo_observation 100 1, demo_observation 110 2],
     tr_excluded = [], tr_reason = None, tr_intercept = Some 1\<rparr> :: trend_result"
  have d: "direction_of (PStr ''max'') = ok AT_MOST" by code_simp
  have t: "fit_trend (map Observed [demo_observation 100 1, demo_observation 110 2]) PNone PNone = ok ?t"
    by (simp add: fit_trend_def observation_from_value_def optional_def demo_fit)
  have s: "sufficient_trend ?t" by (simp add: sufficient_trend_def distinct_dates_def demo_observation_def)
  have h: "horizon (PInt 3) = ok 3" by (simp add: horizon_def)
  have v: "pressure_values (Pressure_scalar (PDec p)) AT_MOST = ok (None, p, p)"
    using assms by (simp add: pressure_values_def non_negative_def signed_pressure_def)
  have q: "to_decimal (PDec 5) = ok 5" by simp
  obtain j where j: "project (map Observed [demo_observation 100 1, demo_observation 110 2]) (Pressure_scalar (PDec p)) (PInt 3) (PDec 5)
     (PStr ''max'') PNone PNone = ok j" using project_returns [OF d h q t v] by blast
  have fields: "pj_pressure j = p" "pj_threshold j = 5" "pj_direction j = AT_MOST" "pj_trend j = ?t"
     "pj_path j = path_points (Some 2) 1 p (dadd 1 p) 3"
    by (rule project_okE [OF j]; use d h q t v s in \<open>simp add: applied_pressure_def\<close>)+
  have "demo_projection p = j" using j by (simp add: demo_projection_def)
  then show "project (map Observed [demo_observation 100 1, demo_observation 110 2]) (Pressure_scalar (PDec p)) (PInt 3) (PDec 5)
     (PStr ''max'') PNone PNone = ok (demo_projection p)" and "pj_pressure (demo_projection p) = p"
    and "pj_threshold (demo_projection p) = 5" and "pj_direction (demo_projection p) = AT_MOST"
    and "pj_path (demo_projection p) = path_points (Some 2) 1 p (dadd 1 p) 3"
    and "tr_usable (pj_trend (demo_projection p)) = [demo_observation 100 1, demo_observation 110 2]"
    using j fields by simp_all
qed

lemma demo_crossing:
  assumes "p = 0 \<or> p = 1"
  shows "\<exists>r. crossing_for_projection (demo_projection p) PNone (Schedule []) = ok r \<and> cr_day r = Some (if p = 0 then 3 else 2)"
proof -
  have r: "rnd 2 = 2" "rnd 3 = 3" "rnd 4 = 4" "rnd 5 = 5" "rnd 6 = 6" "rnd 8 = 8" by (simp_all add: rnd_eval)
  have path: "normalise_path (Projected (demo_projection p)) = ok (path_points (Some 2) 1 p (dadd 1 p) 3)"
    using assms by (auto simp: demo_project(5) normalise_path_def demo_values normalise_point_def)
  have as_of: "resolve_as_of PNone PNone PNone (Projected (demo_projection p)) = ok (Some 110)"
    using assms by (auto simp: resolve_as_of_def demo_project(6)) (simp_all add: demo_observation_def)
  have "scan AT_MOST False (zip (path_points (Some 2) 1 p (dadd 1 p) 3) (threshold_path (path_points (Some 2) 1 p (dadd 1 p) 3) 5 []))
      = (if p = 0 then Crossed 3 5 5 else Crossed 2 6 5)"
    using assms by (auto simp: demo_values breaches_def dadd_def dmul_def r Let_def)
  moreover have "map pp_day (path_points (Some 2) 1 p (dadd 1 p) 3) = map int [0..<length (path_points (Some 2) 1 p (dadd 1 p) 3)]"
    by (simp add: demo_values upt_rec)
  note crossing_of_scan_cases [OF this, of 5 "[]" AT_MOST "Some 110"]
  ultimately have "\<exists>r. crossing_of_scan (path_points (Some 2) 1 p (dadd 1 p) 3)
      (threshold_path (path_points (Some 2) 1 p (dadd 1 p) 3) 5 []) [] 5 AT_MOST (Some 110) = ok r
      \<and> cr_day r = Some (if p = 0 then 3 else 2)"
    using assms by (auto simp: date_of_crossing_def add_days_def min_ordinal_def max_ordinal_def)
  then show ?thesis using assms path as_of
    by (auto simp: crossing_for_projection_def first_crossing_def resolve_threshold_def resolve_direction_def demo_project(3,4)
      normalise_changes_def change_records_def Let_def)
qed

theorem first_crossing_exact_witness:
  "\<exists>r. crossing_for_projection (demo_projection 0) PNone (Schedule []) = ok r \<and> cr_day r = Some 3 \<and> breached_on r 3"
proof -
  obtain r where r: "crossing_for_projection (demo_projection 0) PNone (Schedule []) = ok r" "cr_day r = Some 3"
    using demo_crossing [of 0] by auto
  note exact = first_crossing_exact [OF r(1) [unfolded crossing_for_projection_def], of 3]
  then obtain i where "3 = int i" "breached_on r i" using r(2) by blast
  moreover from this have "i = 3" by simp
  ultimately show ?thesis using r by blast
qed

theorem more_pressure_crosses_no_later_witness:
  "\<exists>s m. crossing_for_projection (demo_projection 1) PNone (Schedule []) = ok s \<and> cr_day s = Some m \<and> m \<le> 3"
proof -
  obtain r where r: "crossing_for_projection (demo_projection 0) PNone (Schedule []) = ok r" "cr_day r = Some 3"
    using demo_crossing [of 0] by auto
  obtain s where s: "crossing_for_projection (demo_projection 1) PNone (Schedule []) = ok s"
    using demo_crossing [of 1] by auto
  have "pj_pressure (demo_projection 0) \<le> pj_pressure (demo_projection 1)" by (simp add: demo_project(2))
  from more_pressure_crosses_no_later [OF demo_project(1) demo_project(1) this r(1) s r(2)] s
  show ?thesis by auto
qed

end
