(* ===== verification/Forecast_Probability.thy ===== *)
theory Forecast_Probability
  imports Py_Values
begin

text \<open>
  The breach probability of one horizon (\<open>domain/forecast/probability.py\<close>): configured weights, three saturated
  signals, the clamp, and the overrides for neutral inputs and for a covenant on or beyond its boundary.
\<close>

section \<open>Weights\<close>

record weights =
  wt_distance :: decimal
  wt_velocity :: decimal
  wt_pressure :: decimal
  wt_max :: decimal

definition default_max_probability :: decimal where "default_max_probability = 99 / 100"

definition make_weights :: "pyval \<Rightarrow> pyval \<Rightarrow> pyval \<Rightarrow> pyval \<Rightarrow> weights result" where
  "make_weights distance velocity pressure max_probability =
     rbind (to_decimal distance) (\<lambda>d. rbind (to_decimal velocity) (\<lambda>v. rbind (to_decimal pressure) (\<lambda>p.
     rbind (to_decimal max_probability) (\<lambda>m.
     if d < 0 \<or> v < 0 \<or> p < 0 then raise ValueError else
     let total = dsum [d, v, p] in
     if total \<le> 0 then raise ValueError
     else if \<not> (0 < m \<and> m < 1) then raise ValueError
     else ok \<lparr>wt_distance = ddiv d total, wt_velocity = ddiv v total, wt_pressure = ddiv p total, wt_max = m\<rparr>))))"

definition weight_aliases :: "(string \<times> string) list" where
  "weight_aliases = [(''distance'', ''distance''), (''distance_weight'', ''distance''), (''velocity'', ''velocity''),
     (''velocity_weight'', ''velocity''), (''pressure'', ''pressure''), (''pressure_weight'', ''pressure''),
     (''max_probability'', ''max_probability'')]"

fun canonical_weights :: "(string \<times> pyval) list \<Rightarrow> (pyval \<times> pyval) list \<Rightarrow> (string \<times> pyval) list result" where
  "canonical_weights seen [] = ok seen"
| "canonical_weights seen ((k, v) # rest) =
     (case (case text_of k of Some s \<Rightarrow> lookup weight_aliases s | None \<Rightarrow> None) of
        None \<Rightarrow> raise ValueError
      | Some n \<Rightarrow> if has_key seen n then raise ValueError else canonical_weights (seen @ [(n, v)]) rest)"

text \<open>The section of a configuration: the first of the two names that is not \<open>None\<close>, or the whole mapping.\<close>

fun config_section :: "string list \<Rightarrow> (pyval \<times> pyval) list \<Rightarrow> (pyval \<times> pyval) list result" where
  "config_section [] config = ok config"
| "config_section (n # ns) config = (case or_none (map_get config n) of
     PNone \<Rightarrow> config_section ns config | PMap kvs \<Rightarrow> ok kvs | _ \<Rightarrow> raise TypeError)"

definition weight_values :: "(pyval \<times> pyval) list \<Rightarrow> (pyval \<times> pyval) list result" where
  "weight_values kvs = (case or_none (map_get kvs ''weights'') of
     PNone \<Rightarrow> ok kvs
   | PMap nested \<Rightarrow>
       if \<not> list_all (\<lambda>(k, v). text_of k \<in> {Some ''weights'', Some ''max_probability''}) kvs then raise ValueError
       else (case map_get kvs ''max_probability'' of
           None \<Rightarrow> ok nested
         | Some m \<Rightarrow> if map_get nested ''max_probability'' \<noteq> None then raise ValueError
             else ok (nested @ [(PStr ''max_probability'', m)]))
   | _ \<Rightarrow> raise TypeError)"

definition weights_from_mapping :: "pyval \<Rightarrow> weights result" where
  "weights_from_mapping config = (case config of
     PMap kvs \<Rightarrow>
       rbind (config_section [''probability'', ''forecast_probability''] kvs) (\<lambda>section_fields.
       rbind (weight_values section_fields) (\<lambda>fields.
       rbind (canonical_weights [] fields) (\<lambda>canonical.
       case (lookup canonical ''distance'', lookup canonical ''velocity'', lookup canonical ''pressure'') of
         (Some d, Some v, Some p) \<Rightarrow> make_weights d v p
           (case lookup canonical ''max_probability'' of Some m \<Rightarrow> m | None \<Rightarrow> PDec default_max_probability)
       | _ \<Rightarrow> raise ValueError)))
   | _ \<Rightarrow> raise TypeError)"

section \<open>Terms and results\<close>

record probability_term =
  pb_name :: string
  pb_input :: decimal
  pb_normalized :: decimal
  pb_weight :: decimal
  pb_horizon_factor :: decimal
  pb_contribution :: decimal

definition in_unit :: "decimal \<Rightarrow> bool" where "in_unit q \<longleftrightarrow> 0 \<le> q \<and> q \<le> 1"

definition make_term :: "probability_term \<Rightarrow> probability_term result" where
  "make_term t = (if strip (pb_name t) = [] then raise ValueError
     else if \<not> in_unit (pb_normalized t) then raise ValueError
     else if \<not> in_unit (pb_weight t) then raise ValueError
     else if \<not> in_unit (pb_horizon_factor t) then raise ValueError
     else if pb_contribution t < 0 then raise ValueError
     else ok t)"

definition weighted_term :: "string \<Rightarrow> decimal \<Rightarrow> decimal \<Rightarrow> decimal \<Rightarrow> decimal \<Rightarrow> probability_term result" where
  "weighted_term n input normalized weight horizon_factor = make_term
     \<lparr>pb_name = n, pb_input = input, pb_normalized = normalized, pb_weight = weight, pb_horizon_factor = horizon_factor,
      pb_contribution = dmul (dmul normalized weight) horizon_factor\<rparr>"

record probability_result =
  pb_probability :: decimal
  pb_raw :: decimal
  pb_max :: decimal
  pb_clamped :: bool
  pb_clamp_reason :: "string option"
  pb_reason :: "string option"
  pb_breached :: bool
  pb_distance :: decimal
  pb_velocity :: decimal
  pb_pressure :: decimal
  pb_horizon :: int
  pb_factor :: decimal
  pb_weights :: weights
  pb_terms :: "probability_term list"
  pb_inputs :: "(pyval \<times> pyval) list"

definition make_probability_result :: "probability_result \<Rightarrow> probability_result result" where
  "make_probability_result r = (if \<not> (0 \<le> pb_probability r \<and> pb_probability r \<le> pb_max r) then raise ValueError
     else if pb_raw r < 0 then raise ValueError
     else if \<not> (0 < pb_max r \<and> pb_max r < 1) then raise ValueError
     else if pb_clamped r \<and> (case pb_clamp_reason r of None \<Rightarrow> True | Some t \<Rightarrow> t = []) then raise ValueError
     else if pb_breached r \<and> pb_probability r \<noteq> pb_max r then raise ValueError
     else if pb_horizon r < 0 then raise ValueError
     else if length (pb_terms r) \<noteq> 3 \<or> set (map pb_name (pb_terms r)) \<noteq> {''distance'', ''velocity'', ''pressure''}
       then raise ValueError
     else ok r)"

section \<open>The mapping\<close>

definition normalise_distance :: "decimal \<Rightarrow> bool \<Rightarrow> decimal" where
  "normalise_distance v neutral = (if neutral then 0 else if v \<le> 0 then 1 else ddiv 1 (dadd 1 v))"

definition saturate :: "decimal \<Rightarrow> decimal" where
  "saturate v = ddiv v (dadd 1 v)"

definition horizon_factor :: "int \<Rightarrow> decimal" where
  "horizon_factor h = ddiv (of_int h) (dadd (of_int h) 1)"

definition horizon_days :: "pyval \<Rightarrow> int result" where
  "horizon_days v = (case plain_int v of None \<Rightarrow> raise ValueError | Some n \<Rightarrow> if n < 0 then raise ValueError else ok n)"

definition neutral_reason :: string where
  "neutral_reason = ''neutral inputs: distance, velocity and pressure provide no signal''"
definition clamp_reason :: string where
  "clamp_reason = ''raw probability exceeded the configured maximum and was clamped''"
definition breach_reason :: string where
  "breach_reason = ''covenant is already in breach; probability is fixed at the configured maximum''"
definition boundary_reason :: string where
  "boundary_reason = ''covenant is at its boundary with a non-neutral signal; probability is fixed at the configured maximum''"

definition neutral_inputs :: "decimal \<Rightarrow> decimal \<Rightarrow> decimal \<Rightarrow> bool \<Rightarrow> bool" where
  "neutral_inputs d v p already \<longleftrightarrow> d = 0 \<and> v = 0 \<and> p = 0 \<and> \<not> already"

definition breach_override :: "decimal \<Rightarrow> decimal \<Rightarrow> decimal \<Rightarrow> bool \<Rightarrow> bool" where
  "breach_override d v p already \<longleftrightarrow> already \<or> d < 0 \<or> (d \<le> 0 \<and> \<not> neutral_inputs d v p already)"

text \<open>The probability, whether it was clamped, the clamp reason and the reason.\<close>

definition clamp_score ::
    "bool \<Rightarrow> bool \<Rightarrow> bool \<Rightarrow> decimal \<Rightarrow> decimal \<Rightarrow> decimal \<times> bool \<times> string option \<times> string option" where
  "clamp_score neutral breached beyond raw maximum =
     (if neutral then (0, False, None, Some neutral_reason)
      else if breached then (maximum, True, Some breach_reason, Some (if beyond then breach_reason else boundary_reason))
      else if raw > maximum then (maximum, True, Some clamp_reason, Some clamp_reason)
      else (raw, False, None, None))"

definition weights_mapping :: "weights \<Rightarrow> pyval" where
  "weights_mapping w = PMap [(PStr ''distance'', PDec (wt_distance w)), (PStr ''velocity'', PDec (wt_velocity w)),
     (PStr ''pressure'', PDec (wt_pressure w)), (PStr ''max_probability'', PDec (wt_max w))]"

definition term_mapping :: "probability_term \<Rightarrow> pyval" where
  "term_mapping t = PMap [(PStr ''input_value'', PDec (pb_input t)), (PStr ''normalized_value'', PDec (pb_normalized t)),
     (PStr ''weight'', PDec (pb_weight t)), (PStr ''horizon_factor'', PDec (pb_horizon_factor t)),
     (PStr ''contribution'', PDec (pb_contribution t))]"

definition probability_inputs :: "decimal list \<Rightarrow> bool \<Rightarrow> probability_result \<Rightarrow> (pyval \<times> pyval) list" where
  "probability_inputs normalized already r =
     [(PStr ''mapping_version'', PStr ''forecast.probability.v1''), (PStr ''distance'', PDec (pb_distance r)),
      (PStr ''velocity'', PDec (pb_velocity r)), (PStr ''pressure'', PDec (pb_pressure r)),
      (PStr ''horizon_days'', PInt (pb_horizon r)), (PStr ''horizon_factor'', PDec (pb_factor r))] @
     zip (map PStr [''normalized_distance'', ''normalized_velocity'', ''normalized_pressure'']) (map PDec normalized) @
     [(PStr ''weights'', weights_mapping (pb_weights r)), (PStr ''raw_score'', PDec (pb_raw r)),
      (PStr ''max_probability'', PDec (pb_max r)), (PStr ''probability'', PDec (pb_probability r)),
      (PStr ''clamped'', PBool (pb_clamped r)), (PStr ''clamp_reason'', pyopt PStr (pb_clamp_reason r)),
      (PStr ''already_breached'', PBool already), (PStr ''breach_override'', PBool (pb_breached r)),
      (PStr ''reason'', pyopt PStr (pb_reason r)),
      (PStr ''terms'', PMap (map (\<lambda>t. (PStr (pb_name t), term_mapping t)) (pb_terms r)))]"

datatype weights_input = Weights weights | Weights_config pyval

definition resolve_weights :: "weights_input \<Rightarrow> weights result" where
  "resolve_weights input = (case input of Weights w \<Rightarrow> ok w | Weights_config v \<Rightarrow> weights_from_mapping v)"

definition probability_of :: "decimal \<Rightarrow> decimal \<Rightarrow> decimal \<Rightarrow> int \<Rightarrow> weights \<Rightarrow> bool \<Rightarrow> probability_result result" where
  "probability_of d v p h w already =
     (let neutral = neutral_inputs d v p already;
          breached = breach_override d v p already;
          nd = normalise_distance d neutral; nv = saturate (max v 0); np = saturate p; hf = horizon_factor h in
      rbind (weighted_term ''distance'' d nd (wt_distance w) 1) (\<lambda>td.
      rbind (weighted_term ''velocity'' v nv (wt_velocity w) hf) (\<lambda>tv.
      rbind (weighted_term ''pressure'' p np (wt_pressure w) hf) (\<lambda>tp.
      let raw = dsum (map pb_contribution [td, tv, tp]) in
      case clamp_score neutral breached (d < 0 \<or> already) raw (wt_max w) of (q, clamped, why_clamped, why) \<Rightarrow>
      let r = \<lparr>pb_probability = q, pb_raw = raw, pb_max = wt_max w, pb_clamped = clamped, pb_clamp_reason = why_clamped,
          pb_reason = why, pb_breached = breached, pb_distance = d, pb_velocity = v, pb_pressure = p, pb_horizon = h,
          pb_factor = hf, pb_weights = w, pb_terms = [td, tv, tp], pb_inputs = []\<rparr> in
      make_probability_result (r\<lparr>pb_inputs := probability_inputs [nd, nv, np] already r\<rparr>)))))"

definition probability :: "pyval \<Rightarrow> pyval \<Rightarrow> pyval \<Rightarrow> pyval \<Rightarrow> weights_input \<Rightarrow> pyval \<Rightarrow> probability_result result" where
  "probability distance velocity pressure horizon weights already_breached =
     rbind (resolve_weights weights) (\<lambda>w.
     rbind (to_decimal distance) (\<lambda>d. rbind (to_decimal velocity) (\<lambda>v. rbind (to_decimal pressure) (\<lambda>p.
     rbind (horizon_days horizon) (\<lambda>h.
     if p < 0 then raise ValueError
     else case already_breached of PBool b \<Rightarrow> probability_of d v p h w b | _ \<Rightarrow> raise TypeError)))))"

definition probability_value :: "pyval \<Rightarrow> pyval \<Rightarrow> pyval \<Rightarrow> pyval \<Rightarrow> weights_input \<Rightarrow> pyval \<Rightarrow> decimal result" where
  "probability_value distance velocity pressure horizon weights already_breached =
     rbind (probability distance velocity pressure horizon weights already_breached) (\<lambda>r. ok (pb_probability r))"

section \<open>Signals and their order\<close>

text \<open>A value the context holds without rounding.\<close>

definition held :: "decimal \<Rightarrow> bool" where "held q \<longleftrightarrow> rnd q = q"

lemma rnd_le_one: "q \<le> 1 \<Longrightarrow> rnd q \<le> 1"
  using rnd_mono [of q 1] by simp

lemma ddiv_unit: "0 \<le> x \<Longrightarrow> x \<le> y \<Longrightarrow> in_unit (ddiv x y)"
  unfolding in_unit_def ddiv_def by (auto intro!: rnd_le_one simp: divide_le_eq_1)

lemma dmul_in_unit: "in_unit x \<Longrightarrow> in_unit y \<Longrightarrow> in_unit (dmul x y)"
  unfolding in_unit_def dmul_def by (auto intro!: rnd_le_one mult_le_one)

lemma held_below_successor: "held x \<Longrightarrow> x \<le> dadd 1 x"
  using rnd_mono [of x "1 + x"] by (simp add: held_def dadd_def)

lemma saturate_unit: "held x \<Longrightarrow> 0 \<le> x \<Longrightarrow> in_unit (saturate x)"
  unfolding saturate_def by (intro ddiv_unit held_below_successor)

lemma normalise_distance_unit: "in_unit (normalise_distance d neutral)"
  using rnd_mono [of 1 "1 + d"] by (auto simp: normalise_distance_def in_unit_def dadd_def ddiv_def intro!: rnd_le_one)

lemma held_of_int: "\<bar>h\<bar> < 10 ^ 28 \<Longrightarrow> held (of_int h)"
  by (simp add: held_def rnd_int)

lemma horizon_factor_unit: "0 \<le> h \<Longrightarrow> h < 10 ^ 28 \<Longrightarrow> in_unit (horizon_factor h)"
  using held_below_successor [OF held_of_int, of h] unfolding horizon_factor_def
  by (intro ddiv_unit) (simp_all add: dadd_def add.commute)

text \<open>A smaller distance is a larger signal, whatever the rounding. The other two signals keep the order where adding
  one is exact.\<close>

lemma normalise_distance_antimono:
  assumes "d' \<le> d" and "\<not> neutral'"
  shows "normalise_distance d neutral \<le> normalise_distance d' neutral'"
proof (cases "neutral \<or> d' \<le> 0")
  case True
  then show ?thesis using assms normalise_distance_unit [of d neutral] normalise_distance_unit [of d' neutral']
    by (auto simp: normalise_distance_def in_unit_def)
next
  case False
  have "0 < dadd 1 d'" using False by (simp add: dadd_def)
  moreover have "dadd 1 d' \<le> dadd 1 d" unfolding dadd_def by (rule rnd_mono) (use assms in simp)
  ultimately have "1 / dadd 1 d \<le> 1 / dadd 1 d'" by (simp add: frac_le)
  then show ?thesis using assms False by (auto simp: normalise_distance_def ddiv_def intro: rnd_mono)
qed

definition exact_successor :: "decimal \<Rightarrow> bool" where
  "exact_successor x \<longleftrightarrow> held x \<and> dadd 1 x = 1 + x"

lemma saturate_mono:
  assumes "0 \<le> x" and "x \<le> y" and "exact_successor x" and "exact_successor y"
  shows "saturate x \<le> saturate y"
proof -
  have "x / (1 + x) \<le> y / (1 + y)" using assms(1,2) by (simp add: divide_simps mult_left_mono algebra_simps)
  then show ?thesis using assms(3,4) by (auto simp: saturate_def exact_successor_def ddiv_def intro: rnd_mono)
qed

lemma horizon_factor_mono:
  assumes "0 \<le> h" and "h \<le> k" and "k + 1 < 10 ^ 28"
  shows "horizon_factor h \<le> horizon_factor k"
proof -
  have exact: "dadd (of_int i) 1 = of_int i + 1" if "0 \<le> i" "i \<le> k" for i
    using rnd_int [of "i + 1"] that assms(3) by (simp add: dadd_def)
  have "(of_int h :: rat) / (of_int h + 1) \<le> of_int k / (of_int k + 1)"
    using assms(1,2) by (simp add: divide_simps mult_left_mono algebra_simps)
  then show ?thesis using exact [of h] exact [of k] assms(1,2) by (auto simp: horizon_factor_def ddiv_def intro: rnd_mono)
qed

section \<open>Range and order of the probability\<close>

definition weights_ok :: "weights \<Rightarrow> bool" where
  "weights_ok w \<longleftrightarrow> in_unit (wt_distance w) \<and> in_unit (wt_velocity w) \<and> in_unit (wt_pressure w) \<and> 0 < wt_max w \<and> wt_max w < 1"

lemma make_weights_ok:
  assumes "make_weights dv vv pv mv = ok w" and "to_decimal dv = ok d" and "to_decimal vv = ok v" and "to_decimal pv = ok p"
    and "held d" and "held v" and "held p"
  shows "weights_ok w"
proof -
  let ?total = "dsum [d, v, p]"
  have pos: "0 \<le> d" "0 \<le> v" "0 \<le> p" using assms(1-4) by (auto simp: make_weights_def Let_def split: if_splits)
  have sum: "?total = rnd (rnd (d + v) + p)" using assms(5) by (simp add: dsum_def dadd_def held_def)
  have "d \<le> rnd (d + v)" "v \<le> rnd (d + v)"
    using rnd_mono [of d "d + v"] rnd_mono [of v "d + v"] assms(5,6) pos by (simp_all add: held_def)
  moreover have "rnd (d + v) \<le> ?total" "p \<le> ?total"
    using rnd_mono [of "rnd (d + v)" "rnd (d + v) + p"] rnd_mono [of p "rnd (d + v) + p"] assms(7) pos unfolding sum
    by (simp_all add: held_def)
  ultimately have "in_unit (ddiv d ?total)" "in_unit (ddiv v ?total)" "in_unit (ddiv p ?total)"
    using pos by (intro ddiv_unit; linarith)+
  then show ?thesis using assms(1-4) by (auto simp: make_weights_def weights_ok_def Let_def split: if_splits)
qed

definition raw_score :: "decimal \<Rightarrow> decimal \<Rightarrow> decimal \<Rightarrow> int \<Rightarrow> weights \<Rightarrow> bool \<Rightarrow> decimal" where
  "raw_score d v p h w already =
     dsum [dmul (dmul (normalise_distance d (neutral_inputs d v p already)) (wt_distance w)) 1,
           dmul (dmul (saturate (max v 0)) (wt_velocity w)) (horizon_factor h),
           dmul (dmul (saturate p) (wt_pressure w)) (horizon_factor h)]"

definition final_score :: "decimal \<Rightarrow> decimal \<Rightarrow> decimal \<Rightarrow> int \<Rightarrow> weights \<Rightarrow> bool \<Rightarrow> decimal" where
  "final_score d v p h w already =
     (if neutral_inputs d v p already then 0
      else if already \<or> d \<le> 0 then wt_max w else min (raw_score d v p h w already) (wt_max w))"

definition inputs_ok :: "decimal \<Rightarrow> decimal \<Rightarrow> int \<Rightarrow> bool" where
  "inputs_ok v p h \<longleftrightarrow> held v \<and> held p \<and> 0 \<le> p \<and> 0 \<le> h \<and> h + 1 < 10 ^ 28"

lemma weighted_term_ok:
  assumes "n \<in> {''distance'', ''velocity'', ''pressure''}" and "in_unit q" and "in_unit w" and "in_unit f"
  shows "weighted_term n input q w f = ok \<lparr>pb_name = n, pb_input = input, pb_normalized = q, pb_weight = w,
    pb_horizon_factor = f, pb_contribution = dmul (dmul q w) f\<rparr>"
proof -
  have "strip n \<noteq> []" using assms(1) by (auto simp: strip_def is_space_def)
  moreover have "in_unit (dmul (dmul q w) f)" using assms(2-4) by (intro dmul_in_unit)
  ultimately show ?thesis using assms(2-4) by (simp add: weighted_term_def make_term_def in_unit_def)
qed

lemma saturated_velocity_unit: "held v \<Longrightarrow> in_unit (saturate (max v 0))"
  by (rule saturate_unit) (auto simp: held_def max_def)

lemma raw_score_nonneg: "inputs_ok v p h \<Longrightarrow> weights_ok w \<Longrightarrow> 0 \<le> raw_score d v p h w already"
  using saturated_velocity_unit [of v] saturate_unit [of p] horizon_factor_unit [of h] normalise_distance_unit
  unfolding raw_score_def inputs_ok_def weights_ok_def in_unit_def
  by (intro dsum_nonneg) (simp add: dmul_nonneg)

lemma probability_of_ok:
  assumes "inputs_ok v p h" and "weights_ok w"
  shows "\<exists>r. probability_of d v p h w already = ok r \<and> pb_probability r = final_score d v p h w already
    \<and> pb_raw r = raw_score d v p h w already \<and> pb_max r = wt_max w
    \<and> (pb_clamped r \<longleftrightarrow> pb_clamp_reason r \<noteq> None)"
proof -
  have units: "in_unit (normalise_distance d (neutral_inputs d v p already))" "in_unit (saturate (max v 0))" "in_unit (saturate p)"
    "in_unit (horizon_factor h)" "in_unit 1" "in_unit (wt_distance w)" "in_unit (wt_velocity w)" "in_unit (wt_pressure w)"
    using assms saturated_velocity_unit saturate_unit horizon_factor_unit normalise_distance_unit
    by (auto simp: inputs_ok_def weights_ok_def in_unit_def [of 1])
  note terms = weighted_term_ok [of "''distance''", OF _ units(1,6,5)] weighted_term_ok [of "''velocity''", OF _ units(2,7,4)]
    weighted_term_ok [of "''pressure''", OF _ units(3,8,4)]
  have raw: "0 \<le> raw_score d v p h w already" using raw_score_nonneg [OF assms] .
  have maximum: "0 < wt_max w" "wt_max w < 1" "0 \<le> h" using assms by (simp_all add: weights_ok_def inputs_ok_def)
  obtain x where x: "x = raw_score d v p h w already" by simp
  show ?thesis
    unfolding probability_of_def Let_def terms [simplified] rbind_simps list.map probability_term.simps final_score_def
      raw_score_def [symmetric] x [symmetric]
    using raw [folded x] maximum
    by (auto simp: make_probability_result_def clamp_score_def breach_override_def neutral_inputs_def
        neutral_reason_def breach_reason_def boundary_reason_def clamp_reason_def)
qed

text \<open>
  C26: On inputs the context holds, a probability is returned and lies between zero and the configured maximum. It is zero
  on neutral inputs, the maximum on or beyond the boundary, and otherwise the weighted score, clamped.
\<close>

theorem probability_returns:
  assumes "resolve_weights wi = ok w" and "weights_ok w" and "to_decimal dv = ok d" and "to_decimal vv = ok v"
    and "to_decimal pv = ok p" and "horizon_days hv = ok h" and "inputs_ok v p h"
  shows "\<exists>r. probability dv vv pv hv wi (PBool already) = ok r \<and> pb_probability r = final_score d v p h w already
    \<and> 0 \<le> pb_probability r \<and> pb_probability r \<le> wt_max w \<and> wt_max w < 1"
proof -
  obtain r where r: "probability_of d v p h w already = ok r" "pb_probability r = final_score d v p h w already"
    using probability_of_ok [OF assms(7,2)] by blast
  have "probability dv vv pv hv wi (PBool already) = ok r" using assms r(1) by (simp add: probability_def inputs_ok_def)
  moreover have "0 \<le> final_score d v p h w already \<and> final_score d v p h w already \<le> wt_max w \<and> wt_max w < 1"
    using assms(2) raw_score_nonneg [OF assms(7,2)] by (auto simp: final_score_def weights_ok_def)
  ultimately show ?thesis using r(2) by auto
qed

lemma raw_score_mono:
  assumes "inputs_ok v p h" and "inputs_ok v' p' h'" and "weights_ok w"
    and "d' \<le> d" and "v \<le> v'" and "p \<le> p'" and "h \<le> h'" and "\<not> neutral_inputs d' v' p' already'"
    and "exact_successor (max v 0)" and "exact_successor (max v' 0)" and "exact_successor p" and "exact_successor p'"
  shows "raw_score d v p h w already \<le> raw_score d' v' p' h' w already'"
proof -
  have mono: "dmul (dmul x u) f \<le> dmul (dmul y u) g" if "x \<le> y" "f \<le> g" "0 \<le> x" "0 \<le> u" "0 \<le> f" for x y u f g
    unfolding dmul_def using that by (intro rnd_mono mult_mono mult_right_mono) simp_all
  have factor: "horizon_factor h \<le> horizon_factor h'" "0 \<le> horizon_factor h"
    using horizon_factor_mono [of h h'] horizon_factor_unit [of h] assms(1,2,7) by (auto simp: inputs_ok_def in_unit_def)
  have signals: "saturate (max v 0) \<le> saturate (max v' 0)" "saturate p \<le> saturate p'"
    "0 \<le> saturate (max v 0)" "0 \<le> saturate p" "0 \<le> normalise_distance d (neutral_inputs d v p already)"
    using assms saturate_mono [of p p'] saturate_mono [of "max v 0" "max v' 0"] saturated_velocity_unit [of v] saturate_unit [of p]
      normalise_distance_unit [of d]
    by (auto simp: inputs_ok_def in_unit_def)
  note distance = normalise_distance_antimono [OF assms(4) assms(8), of "neutral_inputs d v p already"]
  have weights: "0 \<le> wt_distance w" "0 \<le> wt_velocity w" "0 \<le> wt_pressure w" using assms(3) by (simp_all add: weights_ok_def in_unit_def)
  show ?thesis unfolding raw_score_def
    by (intro dsum_mono) (simp add: mono distance factor signals weights)
qed

text \<open>
  C27: With fixed weights, a smaller distance, a larger velocity, a larger pressure, a longer horizon or a reported
  breach never lowers the probability, unless the worse inputs are the neutral tuple, whose probability is zero.
\<close>

theorem probability_monotone:
  assumes "probability_of d v p h w already = ok r" and "probability_of d' v' p' h' w already' = ok s"
    and "inputs_ok v p h" and "inputs_ok v' p' h'" and "weights_ok w"
    and "d' \<le> d" and "v \<le> v'" and "p \<le> p'" and "h \<le> h'" and "already \<longrightarrow> already'" and "\<not> neutral_inputs d' v' p' already'"
    and "exact_successor (max v 0)" and "exact_successor (max v' 0)" and "exact_successor p" and "exact_successor p'"
  shows "pb_probability r \<le> pb_probability s"
proof -
  have scores: "pb_probability r = final_score d v p h w already" "pb_probability s = final_score d' v' p' h' w already'"
    using probability_of_ok [OF assms(3,5), of d already] probability_of_ok [OF assms(4,5), of d' already'] assms(1,2) by auto
  have "raw_score d v p h w already \<le> raw_score d' v' p' h' w already'"
    using assms by (intro raw_score_mono) simp_all
  moreover have "0 \<le> raw_score d' v' p' h' w already'" using raw_score_nonneg assms(4,5) by blast
  moreover have "0 < wt_max w" using assms(5) by (simp add: weights_ok_def)
  ultimately show ?thesis unfolding scores final_score_def using assms(6,10,11) by auto
qed

text \<open>The exception is real: the neutral tuple scores below a covenant with room to spare.\<close>

lemma neutral_scores_below_safe:
  assumes "weights_ok w" and "0 < wt_distance w"
  shows "final_score 0 0 0 h w False < final_score 1 0 0 h w False"
proof -
  have "normalise_distance 1 False = 1 / 2" by (simp add: normalise_distance_def dadd_def ddiv_def rnd_eval)
  then have "0 < raw_score 1 0 0 h w False" using assms(2)
    by (simp add: raw_score_def neutral_inputs_def dsum_def dadd_def dmul_def saturate_def ddiv_def)
  then show ?thesis using assms(1) by (simp add: final_score_def neutral_inputs_def weights_ok_def)
qed

section \<open>Two forecasts\<close>

definition demo_weights :: weights where
  "demo_weights = \<lparr>wt_distance = 1 / 2, wt_velocity = 1 / 4, wt_pressure = 1 / 4, wt_max = 99 / 100\<rparr>"

lemma demo_weights_ok: "weights_ok demo_weights"
  by (simp add: demo_weights_def weights_ok_def in_unit_def)

lemma demo_held: "rnd 2 = 2" "rnd 3 = 3"
  by (simp_all add: rnd_eval)

theorem probability_returns_witness:
  "\<exists>r. probability (PInt 2) (PInt 1) (PInt 1) (PInt 30) (Weights demo_weights) (PBool False) = ok r
     \<and> pb_probability r \<le> wt_max demo_weights"
proof -
  have "\<exists>r. probability (PInt 2) (PInt 1) (PInt 1) (PInt 30) (Weights demo_weights) (PBool False) = ok r
     \<and> pb_probability r = final_score 2 1 1 30 demo_weights False
     \<and> 0 \<le> pb_probability r \<and> pb_probability r \<le> wt_max demo_weights \<and> wt_max demo_weights < 1"
    by (rule probability_returns) (simp_all add: resolve_weights_def demo_weights_ok horizon_days_def inputs_ok_def held_def)
  then show ?thesis by blast
qed

theorem probability_monotone_witness:
  "\<exists>r s. probability_of 2 1 1 30 demo_weights False = ok r \<and> probability_of 1 2 1 90 demo_weights False = ok s
     \<and> pb_probability r \<le> pb_probability s"
proof -
  have ok: "inputs_ok 1 1 30" "inputs_ok 2 1 90" by (simp_all add: inputs_ok_def held_def demo_held)
  obtain r s where rs: "probability_of 2 1 1 30 demo_weights False = ok r" "probability_of 1 2 1 90 demo_weights False = ok s"
    using probability_of_ok [OF ok(1) demo_weights_ok] probability_of_ok [OF ok(2) demo_weights_ok] by blast
  have "pb_probability r \<le> pb_probability s"
    by (rule probability_monotone [OF rs ok demo_weights_ok])
      (simp_all add: neutral_inputs_def exact_successor_def held_def dadd_def demo_held)
  then show ?thesis using rs by blast
qed

end
