(* ===== verification/Forecast_Confidence.thy ===== *)
theory Forecast_Confidence
  imports Py_Values
begin

text \<open>
  The confidence of a forecast and the guard of its display (\<open>domain/forecast/confidence.py\<close>). The printed form of a
  Decimal inside the reason is a parameter: it depends on trailing zeroes, which a rational does not have.
\<close>

section \<open>The T2 floor\<close>

definition default_confidence_floor :: decimal where "default_confidence_floor = 1 / 2"

text \<open>\<open>ConfidenceThresholds\<close> has one field, the floor.\<close>

datatype confidence_thresholds = Confidence_thresholds (confidence_floor: decimal)

definition make_confidence_thresholds :: "pyval \<Rightarrow> confidence_thresholds result" where
  "make_confidence_thresholds v = rbind (to_fraction v) (\<lambda>q. ok (Confidence_thresholds q))"

fun first_attribute :: "pyval \<Rightarrow> string list \<Rightarrow> pyval option" where
  "first_attribute v [] = None"
| "first_attribute v (n # ns) = (case or_none (py_attr v n) of PNone \<Rightarrow> first_attribute v ns | x \<Rightarrow> Some x)"

definition confidence_section :: "pyval \<Rightarrow> pyval result" where
  "confidence_section store = (case store of
     PMap kvs \<Rightarrow> ok (case map_get kvs ''T2'' of Some v \<Rightarrow> v | None \<Rightarrow> store)
   | _ \<Rightarrow> (let got = (case store of PStore kvs \<Rightarrow> or_none (lookup kvs ''T2'') | _ \<Rightarrow> PNone) in
       if got \<noteq> PNone then ok got
       else (case first_attribute store [''T2'', ''t2'', ''confidence''] of Some v \<Rightarrow> ok v | None \<Rightarrow> raise ValueError)))"

definition section_decimal :: "pyval \<Rightarrow> string \<Rightarrow> pyval result" where
  "section_decimal section_value n =
     (case (case section_value of PMap kvs \<Rightarrow> map_get kvs n | _ \<Rightarrow> py_attr section_value n) of
        None \<Rightarrow> raise ValueError
      | Some v \<Rightarrow> (case v of PDec q \<Rightarrow> ok v | PDecSpecial \<Rightarrow> ok v | _ \<Rightarrow> raise TypeError))"

datatype confidence_store = Confidence_configured confidence_thresholds | Confidence_store pyval

definition confidence_from_store :: "confidence_store \<Rightarrow> confidence_thresholds result" where
  "confidence_from_store store = (case store of Confidence_configured t \<Rightarrow> ok t
     | Confidence_store v \<Rightarrow> rbind (confidence_section v) (\<lambda>s.
         rbind (section_decimal s ''confidence_floor'') make_confidence_thresholds))"

definition resolve_floor :: "confidence_store \<Rightarrow> pyval \<Rightarrow> confidence_thresholds result" where
  "resolve_floor thresholds floor_value =
     (if thresholds \<noteq> Confidence_store PNone \<and> floor_value \<noteq> PNone then raise ValueError
      else if floor_value \<noteq> PNone then make_confidence_thresholds floor_value
      else if thresholds \<noteq> Confidence_store PNone then confidence_from_store thresholds
      else make_confidence_thresholds (PDec default_confidence_floor))"

section \<open>Factors and results\<close>

record confidence_factor =
  fc_name :: string
  fc_value :: decimal
  fc_description :: string

definition factor_order :: "string list" where
  "factor_order = [''completeness'', ''evidence_support'', ''staleness'']"

definition make_confidence_factor :: "confidence_factor \<Rightarrow> confidence_factor result" where
  "make_confidence_factor f = (if fc_name f \<notin> set factor_order then raise ValueError
     else if \<not> (0 \<le> fc_value f \<and> fc_value f \<le> 1) then raise ValueError
     else if strip (fc_description f) = [] then raise ValueError
     else ok (f\<lparr>fc_description := strip (fc_description f)\<rparr>))"

record confidence_result =
  cf_confidence :: decimal
  cf_raw :: decimal
  cf_completeness :: decimal
  cf_support :: decimal
  cf_staleness :: int
  cf_completeness_factor :: decimal
  cf_support_factor :: decimal
  cf_staleness_factor :: decimal
  cf_floor :: decimal
  cf_below_floor :: bool
  cf_suppressed :: bool
  cf_limiting :: string
  cf_limiting_value :: decimal
  cf_reason :: string
  cf_factors :: "confidence_factor list"
  cf_inputs :: "(pyval \<times> pyval) list"

definition staleness_factor :: "int \<Rightarrow> decimal" where
  "staleness_factor n = ddiv 1 (dadd 1 (of_int n))"

definition limiting_factor :: "confidence_factor list \<Rightarrow> (string \<times> decimal) result" where
  "limiting_factor factors = (let m = Min (set (map fc_value factors)) in
     if m = 1 then ok (''none'', 1)
     else case find (\<lambda>f. fc_value f = m) factors of Some f \<Rightarrow> ok (fc_name f, m) | None \<Rightarrow> raise RuntimeError)"

definition in_fraction :: "decimal \<Rightarrow> bool" where "in_fraction q \<longleftrightarrow> 0 \<le> q \<and> q \<le> 1"

text \<open>The checks of the constructor, in the order of the source.\<close>

definition make_confidence_result :: "confidence_result \<Rightarrow> confidence_result result" where
  "make_confidence_result r =
     (if \<not> (in_fraction (cf_completeness r) \<and> in_fraction (cf_support r) \<and> in_fraction (cf_completeness_factor r)
         \<and> in_fraction (cf_support_factor r) \<and> in_fraction (cf_staleness_factor r)) then raise ValueError
      else if \<not> in_fraction (cf_confidence r) then raise ValueError
      else if cf_raw r < 0 then raise ValueError
      else if \<not> in_fraction (cf_floor r) then raise ValueError
      else if cf_staleness r < 0 then raise ValueError
      else if cf_staleness_factor r \<noteq> staleness_factor (cf_staleness r) then raise ValueError
      else if cf_completeness_factor r \<noteq> cf_completeness r then raise ValueError
      else if cf_support_factor r \<noteq> cf_support r then raise ValueError
      else if cf_raw r \<noteq> dmul (dmul (cf_completeness_factor r) (cf_support_factor r)) (cf_staleness_factor r) then raise ValueError
      else if cf_confidence r \<noteq> min 1 (max 0 (cf_raw r)) then raise ValueError
      else if cf_below_floor r \<noteq> (cf_confidence r < cf_floor r) then raise ValueError
      else if cf_suppressed r \<noteq> (cf_confidence r < cf_floor r \<or> cf_completeness r = 0) then raise ValueError
      else if cf_limiting r \<notin> set (factor_order @ [''none'']) then raise ValueError
      else if \<not> in_fraction (cf_limiting_value r) then raise ValueError
      else if strip (cf_reason r) = [] then raise ValueError
      else if length (cf_factors r) \<noteq> length factor_order \<or> set (map fc_name (cf_factors r)) \<noteq> set factor_order then raise ValueError
      else if map_of (map (\<lambda>f. (fc_name f, fc_value f)) (cf_factors r)) \<noteq> map_of [(''completeness'', cf_completeness_factor r),
          (''evidence_support'', cf_support_factor r), (''staleness'', cf_staleness_factor r)] then raise ValueError
      else rbind (limiting_factor (cf_factors r)) (\<lambda>expected.
        if (cf_limiting r, cf_limiting_value r) \<noteq> expected then raise ValueError
        else ok (r\<lparr>cf_reason := strip (cf_reason r)\<rparr>)))"

section \<open>The computation\<close>

definition staleness_days :: "pyval \<Rightarrow> int result" where
  "staleness_days v = (case plain_int v of None \<Rightarrow> raise ValueError | Some n \<Rightarrow> if n < 0 then raise ValueError else ok n)"

definition confidence_reason ::
    "(decimal \<Rightarrow> string) \<Rightarrow> decimal \<Rightarrow> decimal \<Rightarrow> decimal \<Rightarrow> bool \<Rightarrow> bool \<Rightarrow> string \<Rightarrow> string" where
  "confidence_reason printed completeness confidence floor_value below suppressed limiting =
     (if completeness = 0 then ''no complete periods available; confidence is zero and probability is absent''
      else if suppressed then
        (if below then ''confidence '' @ printed confidence @ '' is below the T2 floor '' @ printed floor_value @
           ''; probability is absent because '' @ limiting @ '' is the limiting factor''
         else ''probability is absent because no complete periods are available'')
      else if limiting = ''none'' then ''all confidence factors are at their maximum; probability may be shown''
      else ''confidence meets the inclusive T2 floor; '' @ limiting @ '' is the limiting factor'')"

definition factor_mapping :: "confidence_factor \<Rightarrow> pyval \<times> pyval" where
  "factor_mapping f = (PStr (fc_name f), PMap [(PStr ''value'', PDec (fc_value f)), (PStr ''description'', PStr (fc_description f))])"

definition confidence_inputs :: "confidence_result \<Rightarrow> (pyval \<times> pyval) list" where
  "confidence_inputs r =
     [(PStr ''mapping_version'', PStr ''forecast.confidence.v1''), (PStr ''completeness'', PDec (cf_completeness r)),
      (PStr ''evidence_support'', PDec (cf_support r)), (PStr ''staleness_days'', PInt (cf_staleness r)),
      (PStr ''completeness_factor'', PDec (cf_completeness r)), (PStr ''evidence_support_factor'', PDec (cf_support r)),
      (PStr ''staleness_factor'', PDec (cf_staleness_factor r)), (PStr ''confidence_floor'', PDec (cf_floor r)),
      (PStr ''raw_product'', PDec (cf_raw r)), (PStr ''confidence'', PDec (cf_confidence r)),
      (PStr ''below_confidence_floor'', PBool (cf_below_floor r)), (PStr ''probability_suppressed'', PBool (cf_suppressed r)),
      (PStr ''limiting_factor'', PStr (cf_limiting r)), (PStr ''limiting_value'', PDec (cf_limiting_value r)),
      (PStr ''reason'', PStr (cf_reason r)), (PStr ''factors'', PMap (map factor_mapping (cf_factors r)))]"

definition confidence_of :: "(decimal \<Rightarrow> string) \<Rightarrow> decimal \<Rightarrow> decimal \<Rightarrow> int \<Rightarrow> decimal \<Rightarrow> confidence_result result" where
  "confidence_of printed completeness support staleness floor_value =
     (let sf = staleness_factor staleness; raw = dmul (dmul completeness support) sf; q = min 1 (max 0 raw);
          below = q < floor_value; suppressed = below \<or> completeness = 0 in
      rbind (make_confidence_factor \<lparr>fc_name = ''completeness'', fc_value = completeness,
         fc_description = ''fraction of required periods that are complete and usable''\<rparr>) (\<lambda>f1.
      rbind (make_confidence_factor \<lparr>fc_name = ''evidence_support'', fc_value = support,
         fc_description = ''fraction of supporting evidence that passed support checks''\<rparr>) (\<lambda>f2.
      rbind (make_confidence_factor \<lparr>fc_name = ''staleness'', fc_value = sf,
         fc_description = ''reciprocal freshness factor 1 / (1 + staleness_days)''\<rparr>) (\<lambda>f3.
      rbind (limiting_factor [f1, f2, f3]) (\<lambda>(limiting, m).
      let r = \<lparr>cf_confidence = q, cf_raw = raw, cf_completeness = completeness, cf_support = support, cf_staleness = staleness,
          cf_completeness_factor = completeness, cf_support_factor = support, cf_staleness_factor = sf, cf_floor = floor_value,
          cf_below_floor = below, cf_suppressed = suppressed, cf_limiting = limiting, cf_limiting_value = m,
          cf_reason = confidence_reason printed completeness q floor_value below suppressed limiting,
          cf_factors = [f1, f2, f3], cf_inputs = []\<rparr> in
      make_confidence_result (r\<lparr>cf_inputs := confidence_inputs r\<rparr>))))))"

definition confidence ::
    "(decimal \<Rightarrow> string) \<Rightarrow> pyval \<Rightarrow> pyval \<Rightarrow> pyval \<Rightarrow> confidence_store \<Rightarrow> pyval \<Rightarrow> confidence_result result" where
  "confidence printed completeness support staleness thresholds floor_value =
     rbind (to_fraction completeness) (\<lambda>c. rbind (to_fraction support) (\<lambda>s. rbind (staleness_days staleness) (\<lambda>n.
     rbind (resolve_floor thresholds floor_value) (\<lambda>t. confidence_of printed c s n (confidence_floor t)))))"

definition confidence_value ::
    "(decimal \<Rightarrow> string) \<Rightarrow> pyval \<Rightarrow> pyval \<Rightarrow> pyval \<Rightarrow> confidence_store \<Rightarrow> pyval \<Rightarrow> decimal result" where
  "confidence_value printed completeness support staleness thresholds floor_value =
     rbind (confidence printed completeness support staleness thresholds floor_value) (\<lambda>r. ok (cf_confidence r))"

section \<open>The guard\<close>

lemma staleness_factor_unit: "0 \<le> n \<Longrightarrow> 0 < staleness_factor n \<and> staleness_factor n \<le> 1"
proof -
  assume n: "0 \<le> n"
  have "1 \<le> dadd 1 (of_int n)" using rnd_mono [of 1 "1 + of_int n"] n by (simp add: dadd_def)
  then show ?thesis using rnd_mono [of "1 / dadd 1 (of_int n)" 1] by (simp add: staleness_factor_def ddiv_def)
qed

lemma staleness_factor_antimono:
  assumes "0 \<le> m" and "m \<le> n"
  shows "staleness_factor n \<le> staleness_factor m"
proof -
  have "1 \<le> dadd 1 (of_int m)" "dadd 1 (of_int m) \<le> dadd 1 (of_int n)"
    unfolding dadd_def using rnd_mono [of 1 "1 + of_int m"] assms by (simp_all add: rnd_mono)
  then show ?thesis by (auto simp: staleness_factor_def ddiv_def intro!: rnd_mono frac_le)
qed

lemma dmul_fraction: "in_fraction x \<Longrightarrow> in_fraction y \<Longrightarrow> in_fraction (dmul x y)"
  using rnd_mono [of "x * y" 1] mult_le_one [of x y] by (simp add: in_fraction_def dmul_def)

lemma limiting_factor_ok:
  assumes "factors \<noteq> []" and "\<forall>f\<in>set factors. in_fraction (fc_value f)"
  shows "\<exists>n m. limiting_factor factors = ok (n, m) \<and> in_fraction m \<and> (\<forall>f\<in>set factors. m \<le> fc_value f)
    \<and> (m = 1 \<longrightarrow> n = ''none'') \<and> (m \<noteq> 1 \<longrightarrow> (\<exists>f\<in>set factors. n = fc_name f \<and> fc_value f = m))"
proof -
  let ?m = "Min (set (map fc_value factors))"
  have member: "?m \<in> fc_value ` set factors" using Min_in [of "set (map fc_value factors)"] assms(1) by simp
  have least: "\<forall>f\<in>set factors. ?m \<le> fc_value f" using Min_le [of "set (map fc_value factors)"] by simp
  show ?thesis
  proof (cases "?m = 1")
    case True
    then show ?thesis using least by (simp add: limiting_factor_def Let_def in_fraction_def)
  next
    case False
    obtain f where f: "find (\<lambda>f. fc_value f = ?m) factors = Some f"
      using member by (cases "find (\<lambda>f. fc_value f = ?m) factors") (auto simp: find_None_iff)
    then have "f \<in> set factors" "fc_value f = ?m" by (auto simp: find_Some_iff)
    moreover have "limiting_factor factors = ok (fc_name f, ?m)" using False f by (simp add: limiting_factor_def Let_def)
    ultimately show ?thesis using False least assms(2) by fastforce
  qed
qed

lemma make_factor_ok:
  assumes "n \<in> set factor_order" and "in_fraction v" and "strip t = t" and "t \<noteq> []"
  shows "make_confidence_factor \<lparr>fc_name = n, fc_value = v, fc_description = t\<rparr> = ok \<lparr>fc_name = n, fc_value = v, fc_description = t\<rparr>"
  using assms by (simp add: make_confidence_factor_def in_fraction_def)

lemma strip_head: "c # cs = t \<Longrightarrow> \<not> is_space c \<Longrightarrow> strip t \<noteq> []"
  by (auto simp: strip_def dropWhile_eq_Nil_conv)

lemma reason_not_blank: "strip (confidence_reason printed c q f below suppressed limiting) \<noteq> []"
  by (rule strip_head [of "hd (confidence_reason printed c q f below suppressed limiting)" "tl (confidence_reason printed c q f below suppressed limiting)"])
    (auto simp: confidence_reason_def is_space_def)

lemma confidence_of_ok:
  assumes "in_fraction c" and "in_fraction s" and "0 \<le> n" and "in_fraction f"
  shows "\<exists>r. confidence_of printed c s n f = ok r \<and> cf_confidence r = dmul (dmul c s) (staleness_factor n)
    \<and> cf_suppressed r = (cf_confidence r < f \<or> c = 0)
    \<and> (\<forall>g\<in>set (cf_factors r). cf_limiting_value r \<le> fc_value g)
    \<and> (cf_limiting_value r \<noteq> 1 \<longrightarrow> (\<exists>g\<in>set (cf_factors r). cf_limiting r = fc_name g \<and> fc_value g = cf_limiting_value r))
    \<and> map fc_value (cf_factors r) = [c, s, staleness_factor n]"
proof -
  let ?sf = "staleness_factor n" and ?raw = "dmul (dmul c s) (staleness_factor n)"
  have sf: "in_fraction ?sf" using staleness_factor_unit [OF assms(3)] by (simp add: in_fraction_def)
  have raw: "in_fraction ?raw" using assms sf by (intro dmul_fraction)
  have clamp: "min 1 (max 0 ?raw) = ?raw" using raw by (simp add: in_fraction_def)
  have texts: "strip ''fraction of required periods that are complete and usable'' = ''fraction of required periods that are complete and usable''"
    "strip ''fraction of supporting evidence that passed support checks'' = ''fraction of supporting evidence that passed support checks''"
    "strip ''reciprocal freshness factor 1 / (1 + staleness_days)'' = ''reciprocal freshness factor 1 / (1 + staleness_days)''"
    by code_simp+
  obtain f1 f2 f3 where fs:
    "f1 = \<lparr>fc_name = ''completeness'', fc_value = c, fc_description = ''fraction of required periods that are complete and usable''\<rparr>"
    "f2 = \<lparr>fc_name = ''evidence_support'', fc_value = s, fc_description = ''fraction of supporting evidence that passed support checks''\<rparr>"
    "f3 = \<lparr>fc_name = ''staleness'', fc_value = ?sf, fc_description = ''reciprocal freshness factor 1 / (1 + staleness_days)''\<rparr>" by simp
  have made: "make_confidence_factor f1 = ok f1" "make_confidence_factor f2 = ok f2" "make_confidence_factor f3 = ok f3"
    unfolding fs using assms(1,2) sf by (simp_all add: make_factor_ok texts factor_order_def)
  have facts: "fc_value f1 = c" "fc_value f2 = s" "fc_value f3 = ?sf" "fc_name f1 = ''completeness''"
    "fc_name f2 = ''evidence_support''" "fc_name f3 = ''staleness''" by (simp_all add: fs)
  have "\<forall>g\<in>set [f1, f2, f3]. in_fraction (fc_value g)" using assms(1,2) sf by (simp add: facts)
  then obtain l m where lm: "limiting_factor [f1, f2, f3] = ok (l, m)" "in_fraction m" "\<forall>g\<in>set [f1, f2, f3]. m \<le> fc_value g"
      "m = 1 \<longrightarrow> l = ''none''" "m \<noteq> 1 \<longrightarrow> (\<exists>g\<in>set [f1, f2, f3]. l = fc_name g \<and> fc_value g = m)"
    using limiting_factor_ok [of "[f1, f2, f3]"] by blast
  have l: "l \<in> set (factor_order @ [''none''])" using lm(4,5) by (cases "m = 1") (auto simp: facts factor_order_def)
  have names: "set (map fc_name [f1, f2, f3]) = set factor_order" by (simp add: facts factor_order_def)
  show ?thesis
    unfolding confidence_of_def Let_def fs(1) [symmetric] fs(2) [symmetric] fs(3) [symmetric] made rbind_simps lm(1) prod.case
    using assms sf raw lm l names
    by (simp add: make_confidence_result_def clamp reason_not_blank facts in_fraction_def factor_order_def)
qed

text \<open>
  A confidence is returned whenever its inputs normalise. The probability is suppressed exactly when the product is
  below the floor or no period is complete, and the factor named as limiting is a smallest one.
\<close>

theorem confidence_guard:
  assumes "to_fraction cv = ok c" and "to_fraction sv = ok s" and "staleness_days nv = ok n"
    and "resolve_floor thresholds fv = ok (Confidence_thresholds f)" and "in_fraction f"
  shows "\<exists>r. confidence printed cv sv nv thresholds fv = ok r \<and> in_fraction (cf_confidence r)
    \<and> cf_confidence r = dmul (dmul c s) (staleness_factor n)
    \<and> (cf_suppressed r \<longleftrightarrow> cf_confidence r < f \<or> c = 0)
    \<and> (\<forall>g\<in>set (cf_factors r). cf_limiting_value r \<le> fc_value g)
    \<and> map fc_value (cf_factors r) = [c, s, staleness_factor n]"
proof -
  have c: "in_fraction c" "in_fraction s" using to_fraction_ok [OF assms(1)] to_fraction_ok [OF assms(2)] by (simp_all add: in_fraction_def)
  have n: "0 \<le> n" using assms(3) by (auto simp: staleness_days_def split: option.splits if_splits)
  have product: "in_fraction (dmul (dmul c s) (staleness_factor n))"
    using c staleness_factor_unit [OF n] by (intro dmul_fraction) (simp_all add: in_fraction_def)
  obtain r where r: "confidence_of printed c s n f = ok r \<and> cf_confidence r = dmul (dmul c s) (staleness_factor n)
      \<and> cf_suppressed r = (cf_confidence r < f \<or> c = 0) \<and> (\<forall>g\<in>set (cf_factors r). cf_limiting_value r \<le> fc_value g)
      \<and> (cf_limiting_value r \<noteq> 1 \<longrightarrow> (\<exists>g\<in>set (cf_factors r). cf_limiting r = fc_name g \<and> fc_value g = cf_limiting_value r))
      \<and> map fc_value (cf_factors r) = [c, s, staleness_factor n]"
    using confidence_of_ok [OF c n assms(5), of printed] ..
  have "confidence printed cv sv nv thresholds fv = ok r" using assms(1-4) r [THEN conjunct1] by (simp add: confidence_def)
  with r product show ?thesis by (intro exI [of _ r]) simp
qed

theorem confidence_guard_witness:
  "\<exists>r. confidence (\<lambda>q. ''0.5'') (PInt 1) (PInt 1) (PInt 0) (Confidence_store PNone) PNone = ok r \<and> cf_confidence r = 1 \<and> \<not> cf_suppressed r"
proof -
  have f: "to_fraction (PInt 1) = ok 1" by (simp add: to_fraction_def)
  have n: "staleness_days (PInt 0) = ok 0" by (simp add: staleness_days_def)
  have t: "resolve_floor (Confidence_store PNone) PNone = ok (Confidence_thresholds (1 / 2))"
    by (simp add: resolve_floor_def make_confidence_thresholds_def default_confidence_floor_def to_fraction_PDec)
  have h: "in_fraction (1 / 2)" by (simp add: in_fraction_def)
  have "dmul (dmul 1 1) (staleness_factor 0) = 1" by (simp add: staleness_factor_def dmul_def ddiv_def dadd_def)
  with confidence_guard [OF f f n t h, of "\<lambda>q. ''0.5''"] show ?thesis by auto
qed

text \<open>Better data never lowers the confidence: more complete periods, more support, fresher facts.\<close>

lemma confidence_mono:
  assumes "in_fraction c" and "in_fraction s" and "0 \<le> m" and "in_fraction c'" and "in_fraction s'" and "c \<le> c'" and "s \<le> s'" and "m \<le> n"
  shows "dmul (dmul c s) (staleness_factor n) \<le> dmul (dmul c' s') (staleness_factor m)"
proof -
  have "c * s \<le> c' * s'" using assms by (intro mult_mono) (simp_all add: in_fraction_def)
  then have "dmul c s \<le> dmul c' s'" by (simp add: dmul_def rnd_mono)
  moreover have "0 \<le> dmul c s" using dmul_fraction [OF assms(1,2)] by (simp add: in_fraction_def)
  ultimately show ?thesis using staleness_factor_antimono [OF assms(3,8)] staleness_factor_unit [of n] assms(3,8)
    unfolding dmul_def [of "dmul c s"] dmul_def [of "dmul c' s'"] by (intro rnd_mono mult_mono) simp_all
qed

end
