(* ===== verification/Forecast_Attribution.thy ===== *)
theory Forecast_Attribution
  imports Forecast_Confidence
begin

text \<open>
  The attribution of a risk delta to its drivers (\<open>domain/forecast/attribution.py\<close>): signed shares, the T5 cut and the
  row that closes the breakdown.
\<close>

section \<open>The T5 share\<close>









section \<open>Drivers\<close>









section \<open>What an attribution retains\<close>


















end
