(* ===== verification/Sessions.thy ===== *)
theory Sessions
  imports Py_Values Py_Uuid
begin

text \<open>
  Signed browser sessions with server-side revocation and the single use of a challenge (\<open>security/sessions.py\<close>),
  over the in-memory stores of the module. The signed serializer, SHA-256 and HMAC are fields of an environment; tokens,
  nonces and identifiers are arguments. \<open>datetime.fromisoformat\<close> is modelled on the form \<open>isoformat\<close> prints,
  the only one a signed envelope of this module holds.
\<close>

section \<open>Settings, records and the environment\<close>

record session_settings =
  ss_cookie_name :: string
  ss_secret :: string
  ss_idle :: int
  ss_absolute :: int
  ss_challenge :: int
  ss_secure :: bool
  ss_same_site :: string
  ss_path :: string

definition make_session_settings :: "session_settings \<Rightarrow> session_settings result" where
  "make_session_settings s =
     (if length (ss_secret s) < 32 then raise ValueError
      else if ss_cookie_name s = [] \<or> length (ss_cookie_name s) > 128 then raise ValueError
      else if list_ex (\<lambda>c. is_space c \<or> c \<in> set '';,='') (ss_cookie_name s) then raise ValueError
      else if ss_idle s \<le> 0 then raise ValueError
      else if ss_absolute s \<le> 0 then raise ValueError
      else if ss_idle s > ss_absolute s then raise ValueError
      else if ss_challenge s \<le> 0 then raise ValueError
      else if ss_same_site s \<notin> {''lax'', ''strict'', ''none''} then raise ValueError
      else if ss_same_site s = ''none'' \<and> \<not> ss_secure s then raise ValueError
      else if take 1 (ss_path s) \<noteq> ''/'' then raise ValueError
      else ok s)"

record session_record =
  sr_id :: nat
  sr_user :: nat
  sr_token_hash :: string
  sr_issued :: int
  sr_seen :: int
  sr_expires :: int
  sr_absolute :: int
  sr_ip :: "string option"
  sr_agent :: "string option"
  sr_revoked :: "int option"

record session_env =
  se_digest :: "string \<Rightarrow> string"
  se_mac :: "string \<Rightarrow> string \<Rightarrow> string"
  se_dumps :: "pyval \<Rightarrow> string"
  se_loads :: "string \<Rightarrow> pyval option"
  se_audited :: bool

text \<open>An audit entry: event type, subject, payload, actor.\<close>

type_synonym session_entry = "string \<times> nat \<times> (string \<times> pyval) list \<times> nat"

record session_state =
  st_records :: "(string \<times> session_record) list"
  st_claimed :: "(string \<times> int) list"
  st_log :: "session_entry list"

section \<open>The in-memory stores\<close>

definition store_create :: "session_record \<Rightarrow> (string \<times> session_record) list \<Rightarrow> (string \<times> session_record) list result" where
  "store_create r rs = (if has_key rs (sr_token_hash r) then raise ValueError else ok (rs @ [(sr_token_hash r, r)]))"

definition store_save :: "session_record \<Rightarrow> (string \<times> session_record) list \<Rightarrow> (string \<times> session_record) list result" where
  "store_save r rs = (if \<not> has_key rs (sr_token_hash r) then raise KeyError
     else ok (map (\<lambda>(k, old). (k, if k = sr_token_hash r then r else old)) rs))"

definition store_revoke_all :: "nat \<Rightarrow> int \<Rightarrow> (string \<times> session_record) list \<Rightarrow> nat \<times> (string \<times> session_record) list" where
  "store_revoke_all user now rs =
     (let hit = (\<lambda>r. sr_user r = user \<and> sr_revoked r = None) in
      (length (filter (\<lambda>(k, r). hit r) rs), map (\<lambda>(k, r). (k, if hit r then r\<lparr>sr_revoked := Some now\<rparr> else r)) rs))"

definition claim_nonce :: "string \<Rightarrow> int \<Rightarrow> int \<Rightarrow> (string \<times> int) list \<Rightarrow> bool \<times> (string \<times> int) list" where
  "claim_nonce nonce expires now claimed =
     (let live = filter (\<lambda>(n, e). e > now) claimed in
      if has_key live nonce then (False, live) else (True, live @ [(nonce, expires)]))"

definition release_nonce :: "string \<Rightarrow> (string \<times> int) list \<Rightarrow> (string \<times> int) list" where
  "release_nonce nonce claimed = filter (\<lambda>(n, e). n \<noteq> nonce) claimed"

section \<open>Envelopes\<close>

definition add_instant :: "int \<Rightarrow> int \<Rightarrow> int result" where
  "add_instant t d = (if 0 \<le> t + d \<and> t + d \<le> max_instant then ok (t + d) else raise OverflowError)"

definition client_hash :: "session_env \<Rightarrow> string \<Rightarrow> string option \<Rightarrow> string option" where
  "client_hash ev key v = (case v of None \<Rightarrow> None | Some s \<Rightarrow> if s = [] then None else Some (se_mac ev key s))"

definition parse_payload :: "session_env \<Rightarrow> string option \<Rightarrow> (pyval \<times> pyval) list option" where
  "parse_payload ev cookie = (case cookie of None \<Rightarrow> None
     | Some c \<Rightarrow> if c = [] \<or> length c > 4096 then None
         else (case se_loads ev c of Some (PMap kvs) \<Rightarrow> Some kvs | _ \<Rightarrow> None))"

definition has_exactly :: "string list \<Rightarrow> (pyval \<times> pyval) list \<Rightarrow> bool" where
  "has_exactly names kvs \<longleftrightarrow> set (map (\<lambda>(k, v). text_of k) kvs) = set (map Some names)"

definition equals_one :: "pyval \<Rightarrow> bool" where
  "equals_one v = (case v of PInt n \<Rightarrow> n = 1 | PBool b \<Rightarrow> b | PFloat s \<Rightarrow> dec_of_text s = Some 1 | _ \<Rightarrow> False)"

definition parse_session :: "session_env \<Rightarrow> string option \<Rightarrow> (nat \<times> string) option" where
  "parse_session ev cookie = (case parse_payload ev cookie of None \<Rightarrow> None
     | Some kvs \<Rightarrow>
       if \<not> has_exactly [''v'', ''sid'', ''token''] kvs then None
       else if \<not> equals_one (or_none (map_get kvs ''v'')) then None
       else (case (text_of (or_none (map_get kvs ''sid'')), text_of (or_none (map_get kvs ''token''))) of
           (Some s, Some t) \<Rightarrow> if t = [] \<or> length t > 256 then None
             else (case uuid_of_text s of Some u \<Rightarrow> Some (u, t) | None \<Rightarrow> None)
         | _ \<Rightarrow> None))"

definition serialize_session :: "session_env \<Rightarrow> nat \<Rightarrow> string \<Rightarrow> string" where
  "serialize_session ev sid token =
     se_dumps ev (PMap [(PStr ''v'', PInt 1), (PStr ''sid'', PStr (uuid_text sid)), (PStr ''token'', PStr token)])"

definition session_audit :: "session_env \<Rightarrow> string \<Rightarrow> nat \<Rightarrow> (string \<times> pyval) list \<Rightarrow> nat \<Rightarrow> session_state \<Rightarrow> session_state" where
  "session_audit ev event subject payload actor st =
     (if se_audited ev then st\<lparr>st_log := st_log st @ [(event, subject, payload, actor)]\<rparr> else st)"

section \<open>Sessions\<close>

definition issue :: "session_env \<Rightarrow> session_settings \<Rightarrow> nat \<Rightarrow> string option \<Rightarrow> string option \<Rightarrow> int \<Rightarrow> string \<Rightarrow> nat
    \<Rightarrow> session_state \<Rightarrow> (string \<times> session_record) result \<times> session_state" where
  "issue ev cfg user ip agent now token sid st =
     (case add_instant now (ss_absolute cfg) of Inl e \<Rightarrow> (raise e, st) | Inr absolute \<Rightarrow>
      case add_instant now (ss_idle cfg) of Inl e \<Rightarrow> (raise e, st) | Inr idle \<Rightarrow>
      let r = \<lparr>sr_id = sid, sr_user = user, sr_token_hash = se_digest ev token, sr_issued = now, sr_seen = now,
          sr_expires = min idle absolute, sr_absolute = absolute, sr_ip = client_hash ev (ss_secret cfg) ip,
          sr_agent = client_hash ev (ss_secret cfg) agent, sr_revoked = None\<rparr> in
      case store_create r (st_records st) of Inl e \<Rightarrow> (raise e, st) | Inr rs \<Rightarrow>
        (ok (serialize_session ev sid token, r),
         session_audit ev ''authentication_session_issued'' user [(''session_id'', PStr (uuid_text sid))] user
           (st\<lparr>st_records := rs\<rparr>)))"

definition live_at :: "int \<Rightarrow> session_record \<Rightarrow> bool" where
  "live_at now r \<longleftrightarrow> sr_revoked r = None \<and> now < sr_absolute r \<and> now < sr_expires r"

definition stored_session :: "session_env \<Rightarrow> string option \<Rightarrow> session_state \<Rightarrow> session_record option" where
  "stored_session ev cookie st = (case parse_session ev cookie of None \<Rightarrow> None
     | Some (sid, token) \<Rightarrow> (case lookup (st_records st) (se_digest ev token) of None \<Rightarrow> None
         | Some r \<Rightarrow> if sr_id r \<noteq> sid then None else Some r))"

definition validate :: "session_env \<Rightarrow> string option \<Rightarrow> int \<Rightarrow> session_state \<Rightarrow> session_record option" where
  "validate ev cookie now st = (case parse_session ev cookie of None \<Rightarrow> None
     | Some (sid, token) \<Rightarrow> (case stored_session ev cookie st of None \<Rightarrow> None
         | Some r \<Rightarrow> if sr_token_hash r \<noteq> se_digest ev token then None
             else if live_at now r then Some r else None))"

text \<open>A refresh reads and checks the record, then writes a changed copy of what it read.\<close>

definition refreshed_record :: "session_env \<Rightarrow> session_settings \<Rightarrow> string option \<Rightarrow> string option \<Rightarrow> int \<Rightarrow> session_record
    \<Rightarrow> session_record option result" where
  "refreshed_record ev cfg ip agent now r =
     rbind (add_instant now (ss_idle cfg)) (\<lambda>idle.
       let expires = min idle (sr_absolute r) in
       if now \<ge> expires then ok None else
       ok (Some (r\<lparr>sr_seen := now, sr_expires := expires,
         sr_ip := (case client_hash ev (ss_secret cfg) ip of None \<Rightarrow> sr_ip r | Some h \<Rightarrow> if h = [] then sr_ip r else Some h),
         sr_agent := (case client_hash ev (ss_secret cfg) agent of None \<Rightarrow> sr_agent r | Some h \<Rightarrow> if h = [] then sr_agent r else Some h)\<rparr>)))"

definition refresh_write :: "session_env \<Rightarrow> session_record \<Rightarrow> session_state \<Rightarrow> session_record result \<times> session_state" where
  "refresh_write ev r st = (case store_save r (st_records st) of Inl e \<Rightarrow> (raise e, st)
     | Inr rs \<Rightarrow> (ok r, session_audit ev ''authentication_session_refreshed'' (sr_user r)
         [(''session_id'', PStr (uuid_text (sr_id r)))] (sr_user r) (st\<lparr>st_records := rs\<rparr>)))"

definition refresh :: "session_env \<Rightarrow> session_settings \<Rightarrow> string option \<Rightarrow> string option \<Rightarrow> string option \<Rightarrow> int
    \<Rightarrow> session_state \<Rightarrow> (string \<times> session_record) option result \<times> session_state" where
  "refresh ev cfg cookie ip agent now st =
     (case validate ev cookie now st of None \<Rightarrow> (ok None, st) | Some r \<Rightarrow>
      case refreshed_record ev cfg ip agent now r of Inl e \<Rightarrow> (raise e, st)
      | Inr None \<Rightarrow> (ok None, st)
      | Inr (Some new) \<Rightarrow> (case refresh_write ev new st of
          (Inl e, st') \<Rightarrow> (raise e, st')
        | (Inr saved, st') \<Rightarrow> (ok (Some (the cookie, saved)), st')))"

definition revoke :: "session_env \<Rightarrow> string option \<Rightarrow> int \<Rightarrow> session_state \<Rightarrow> bool result \<times> session_state" where
  "revoke ev cookie now st = (case stored_session ev cookie st of None \<Rightarrow> (ok False, st)
     | Some r \<Rightarrow> if sr_revoked r \<noteq> None then (ok False, st)
         else (case store_save (r\<lparr>sr_revoked := Some now\<rparr>) (st_records st) of Inl e \<Rightarrow> (raise e, st)
           | Inr rs \<Rightarrow> (ok True, session_audit ev ''authentication_session_revoked'' (sr_user r)
               [(''session_id'', PStr (uuid_text (sr_id r))), (''reason'', PStr ''logout'')] (sr_user r) (st\<lparr>st_records := rs\<rparr>))))"

fun split_words :: "string \<Rightarrow> string \<Rightarrow> string list" where
  "split_words word [] = (if word = [] then [] else [word])"
| "split_words word (c # cs) =
     (if is_space c then (if word = [] then [] else [word]) @ split_words [] cs else split_words (word @ [c]) cs)"

definition join_words :: "string list \<Rightarrow> string" where
  "join_words ws = (case ws of [] \<Rightarrow> [] | w # rest \<Rightarrow> w @ concat (map (\<lambda>v. '' '' @ v) rest))"

definition safe_reason :: "pyval \<Rightarrow> string result" where
  "safe_reason v = (case text_of v of None \<Rightarrow> raise ValueError
     | Some s \<Rightarrow> if strip s = [] then raise ValueError else ok (take 100 (join_words (split_words [] s))))"

text \<open>The rows are revoked before the reason is checked.\<close>

definition revoke_all :: "session_env \<Rightarrow> nat \<Rightarrow> int \<Rightarrow> pyval \<Rightarrow> session_state \<Rightarrow> nat result \<times> session_state" where
  "revoke_all ev user now reason st =
     (case store_revoke_all user now (st_records st) of (n, rs) \<Rightarrow>
      let st' = st\<lparr>st_records := rs\<rparr> in
      case safe_reason reason of Inl e \<Rightarrow> (raise e, st')
        | Inr s \<Rightarrow> (ok n, session_audit ev ''authentication_sessions_revoked'' user
            [(''count'', PInt (int n)), (''reason'', PStr s)] user st'))"

section \<open>Challenges\<close>

record challenge =
  ch_cookie :: string
  ch_user :: nat
  ch_purpose :: string
  ch_issued :: int
  ch_expires :: int
  ch_claims :: "(pyval \<times> pyval) list"
  ch_nonce :: string

definition challenge_purposes :: "string list" where
  "challenge_purposes = [''mfa'', ''mfa_enrollment'', ''password_change'']"

definition iso_instant_auto :: "int \<Rightarrow> string" where
  "iso_instant_auto t =
     (let r = t mod 86400000000; s = r div 1000000 in
      iso_date (t div 86400000000 + 1) @ ''T''
      @ padded 2 (s div 3600) @ '':'' @ padded 2 (s div 60 mod 60) @ '':'' @ padded 2 (s mod 60)
      @ (if r mod 1000000 = 0 then [] else ''.'' @ padded 6 (r mod 1000000)) @ ''+00:00'')"

definition after_char :: "char \<Rightarrow> string \<Rightarrow> string option" where
  "after_char c s = (case s of [] \<Rightarrow> None | d # ds \<Rightarrow> if d = c then Some ds else None)"

definition instant_of_iso :: "string \<Rightarrow> int option" where
  "instant_of_iso s =
     (case date_of_iso (take 10 s) of None \<Rightarrow> None | Some d \<Rightarrow>
      case after_char CHR ''T'' (drop 10 s) of None \<Rightarrow> None | Some r1 \<Rightarrow>
      case digits_value 2 r1 of None \<Rightarrow> None | Some (h, r2) \<Rightarrow>
      case after_char CHR '':'' r2 of None \<Rightarrow> None | Some r3 \<Rightarrow>
      case digits_value 2 r3 of None \<Rightarrow> None | Some (m, r4) \<Rightarrow>
      case after_char CHR '':'' r4 of None \<Rightarrow> None | Some r5 \<Rightarrow>
      case digits_value 2 r5 of None \<Rightarrow> None | Some (sec, r6) \<Rightarrow>
      case (case after_char CHR ''.'' r6 of None \<Rightarrow> Some (0, r6) | Some r7 \<Rightarrow> digits_value 6 r7) of None \<Rightarrow> None
      | Some (us, r8) \<Rightarrow>
        if r8 = ''+00:00'' \<and> h < 24 \<and> m < 60 \<and> sec < 60
        then Some ((d - 1) * 86400000000 + ((h * 60 + m) * 60 + sec) * 1000000 + us) else None)"

definition issue_challenge :: "session_env \<Rightarrow> session_settings \<Rightarrow> nat \<Rightarrow> string \<Rightarrow> (pyval \<times> pyval) list \<Rightarrow> int \<Rightarrow> string
    \<Rightarrow> challenge result" where
  "issue_challenge ev cfg user purpose claims now nonce =
     (if purpose \<notin> set challenge_purposes then raise ValueError else
      rbind (add_instant now (ss_challenge cfg)) (\<lambda>expires.
      if \<not> list_all (\<lambda>(k, v). text_of k \<noteq> None) claims then raise TypeError else
      ok \<lparr>ch_cookie = se_dumps ev (PMap [(PStr ''v'', PInt 1), (PStr ''sub'', PStr (uuid_text user)),
            (PStr ''purpose'', PStr purpose), (PStr ''iat'', PStr (iso_instant_auto now)),
            (PStr ''exp'', PStr (iso_instant_auto expires)), (PStr ''nonce'', PStr nonce), (PStr ''claims'', PMap claims)]),
          ch_user = user, ch_purpose = purpose, ch_issued = now, ch_expires = expires, ch_claims = claims, ch_nonce = nonce\<rparr>))"

definition read_challenge :: "session_env \<Rightarrow> string option \<Rightarrow> string option \<Rightarrow> int \<Rightarrow> challenge option" where
  "read_challenge ev cookie purpose now = (case parse_payload ev cookie of None \<Rightarrow> None
     | Some kvs \<Rightarrow>
       if \<not> has_exactly [''v'', ''sub'', ''purpose'', ''iat'', ''exp'', ''nonce'', ''claims''] kvs then None
       else if \<not> equals_one (or_none (map_get kvs ''v'')) then None
       else (case (text_of (or_none (map_get kvs ''sub'')), text_of (or_none (map_get kvs ''purpose'')),
             text_of (or_none (map_get kvs ''iat'')), text_of (or_none (map_get kvs ''exp'')),
             text_of (or_none (map_get kvs ''nonce'')), or_none (map_get kvs ''claims'')) of
           (Some sub, Some p, Some iat, Some ex, Some nonce, PMap claims) \<Rightarrow>
             if p \<notin> set challenge_purposes then None
             else if (case purpose of Some q \<Rightarrow> p \<noteq> q | None \<Rightarrow> False) then None
             else if nonce = [] then None
             else (case (uuid_of_text sub, instant_of_iso iat, instant_of_iso ex) of
                 (Some user, Some issued, Some expires) \<Rightarrow>
                   if issued > now \<or> now \<ge> expires then None
                   else Some \<lparr>ch_cookie = the cookie, ch_user = user, ch_purpose = p, ch_issued = issued,
                     ch_expires = expires, ch_claims = claims, ch_nonce = nonce\<rparr>
               | _ \<Rightarrow> None)
         | _ \<Rightarrow> None))"

definition claim_challenge :: "challenge \<Rightarrow> int \<Rightarrow> session_state \<Rightarrow> bool \<times> session_state" where
  "claim_challenge c now st = (case claim_nonce (ch_nonce c) (ch_expires c) now (st_claimed st) of
     (granted, claimed) \<Rightarrow> (granted, st\<lparr>st_claimed := claimed\<rparr>))"

definition release_challenge :: "challenge \<Rightarrow> session_state \<Rightarrow> session_state" where
  "release_challenge c st = st\<lparr>st_claimed := release_nonce (ch_nonce c) (st_claimed st)\<rparr>"

section \<open>Cookies\<close>

definition cookie_attributes :: "session_settings \<Rightarrow> (string \<times> pyval) list" where
  "cookie_attributes cfg = [(''key'', PStr (ss_cookie_name cfg)), (''httponly'', PBool True), (''secure'', PBool (ss_secure cfg)),
     (''samesite'', PStr (ss_same_site cfg)), (''path'', PStr (ss_path cfg)), (''max_age'', PInt (max 1 (ss_idle cfg div 1000000)))]"

definition challenge_cookie_attributes :: "session_settings \<Rightarrow> string \<Rightarrow> (string \<times> pyval) list" where
  "challenge_cookie_attributes cfg n = [(''key'', PStr n), (''httponly'', PBool True), (''secure'', PBool (ss_secure cfg)),
     (''samesite'', PStr (ss_same_site cfg)), (''path'', PStr (ss_path cfg)), (''max_age'', PInt (max 1 (ss_challenge cfg div 1000000)))]"

section \<open>Histories\<close>

datatype session_event = Issue nat "string option" "string option" int string nat
  | Refresh "string option" "string option" "string option" int | Revoke "string option" int
  | Revoke_all nat int pyval | Claim challenge int | Release challenge

fun session_step :: "session_env \<Rightarrow> session_settings \<Rightarrow> session_state \<Rightarrow> session_event \<Rightarrow> session_state" where
  "session_step ev cfg st (Issue user ip agent now token sid) = snd (issue ev cfg user ip agent now token sid st)"
| "session_step ev cfg st (Refresh cookie ip agent now) = snd (refresh ev cfg cookie ip agent now st)"
| "session_step ev cfg st (Revoke cookie now) = snd (revoke ev cookie now st)"
| "session_step ev cfg st (Revoke_all user now reason) = snd (revoke_all ev user now reason st)"
| "session_step ev cfg st (Claim c now) = snd (claim_challenge c now st)"
| "session_step ev cfg st (Release c) = release_challenge c st"

definition no_sessions :: session_state where
  "no_sessions = \<lparr>st_records = [], st_claimed = [], st_log = []\<rparr>"

definition record_ok :: "session_settings \<Rightarrow> string \<Rightarrow> session_record \<Rightarrow> bool" where
  "record_ok cfg k r \<longleftrightarrow> sr_token_hash r = k \<and> sr_absolute r = sr_issued r + ss_absolute cfg
     \<and> sr_expires r \<le> sr_absolute r \<and> sr_seen r < sr_expires r \<and> sr_expires r \<le> sr_seen r + ss_idle cfg"

definition sessions_ok :: "session_settings \<Rightarrow> session_state \<Rightarrow> bool" where
  "sessions_ok cfg st \<longleftrightarrow> distinct (map fst (st_records st)) \<and> (\<forall>(k, r)\<in>set (st_records st). record_ok cfg k r)"

definition settings_ok :: "session_settings \<Rightarrow> bool" where
  "settings_ok cfg \<longleftrightarrow> 0 < ss_idle cfg \<and> 0 < ss_absolute cfg \<and> ss_idle cfg \<le> ss_absolute cfg"

lemma make_session_settings_ok: "make_session_settings s = ok cfg \<Longrightarrow> settings_ok cfg"
  by (auto simp: make_session_settings_def settings_ok_def split: if_splits)

lemma session_audit_records [simp]: "st_records (session_audit ev e u p a st) = st_records st"
  by (simp add: session_audit_def)

lemma lookup_in: "lookup rs k = Some r \<Longrightarrow> (k, r) \<in> set rs"
  by (induction rs) (auto split: if_splits)

lemma lookup_update [simp]:
  "lookup (map (\<lambda>(k, old). (k, f k old)) rs) k' = map_option (f k') (lookup rs k')"
  by (induction rs) auto

lemma keys_update [simp]: "map fst (map (\<lambda>(k, old). (k, f k old)) rs) = map fst rs"
  by (induction rs) auto

lemma record_lookup_snoc: "lookup (rs @ [(k, r)]) k' = (case lookup rs k' of Some v \<Rightarrow> Some v | None \<Rightarrow> if k' = k then Some r else None)"
  by (induction rs) auto

lemma store_create_ok:
  "store_create r rs = ok rs' \<longleftrightarrow> \<not> has_key rs (sr_token_hash r) \<and> rs' = rs @ [(sr_token_hash r, r)]"
  by (auto simp: store_create_def)

lemma store_save_ok:
  "store_save r rs = ok rs' \<longleftrightarrow> has_key rs (sr_token_hash r) \<and> rs' = map (\<lambda>(k, old). (k, if k = sr_token_hash r then r else old)) rs"
  by (auto simp: store_save_def)

lemma store_revoke_all_records:
  "snd (store_revoke_all user now rs) =
    map (\<lambda>(k, r). (k, if sr_user r = user \<and> sr_revoked r = None then r\<lparr>sr_revoked := Some now\<rparr> else r)) rs"
  by (simp add: store_revoke_all_def Let_def)

lemma add_instant_ok: "add_instant t d = ok r \<Longrightarrow> r = t + d"
  by (simp add: add_instant_def split: if_splits)

text \<open>What each operation does to the records.\<close>

lemma issue_records:
  "st_records (snd (issue ev cfg user ip agent now token sid st)) = st_records st
   \<or> (\<exists>r. \<not> has_key (st_records st) (sr_token_hash r) \<and> sr_issued r = now \<and> sr_seen r = now \<and> sr_absolute r = now + ss_absolute cfg
        \<and> sr_expires r = min (now + ss_idle cfg) (now + ss_absolute cfg) \<and> sr_revoked r = None
        \<and> st_records (snd (issue ev cfg user ip agent now token sid st)) = st_records st @ [(sr_token_hash r, r)])"
  by (auto simp: issue_def Let_def store_create_ok dest!: add_instant_ok split: sum.splits)

lemma validate_facts:
  assumes "validate ev cookie now st = Some r"
  shows "lookup (st_records st) (sr_token_hash r) = Some r" and "live_at now r" and "stored_session ev cookie st = Some r"
  using assms by (auto simp: validate_def stored_session_def split: option.splits if_splits)

lemma refreshed_record_facts:
  assumes "refreshed_record ev cfg ip agent now r = ok (Some new)"
  shows "sr_token_hash new = sr_token_hash r" and "sr_issued new = sr_issued r" and "sr_absolute new = sr_absolute r"
    and "sr_revoked new = sr_revoked r" and "sr_seen new = now" and "sr_expires new = min (now + ss_idle cfg) (sr_absolute r)"
    and "now < sr_expires new" and "sr_id new = sr_id r"
  using assms by (auto simp: refreshed_record_def Let_def min_le_iff_disj dest!: add_instant_ok split: if_splits)

lemma refresh_records:
  "st_records (snd (refresh ev cfg cookie ip agent now st)) = st_records st
   \<or> (\<exists>r new. validate ev cookie now st = Some r \<and> refreshed_record ev cfg ip agent now r = ok (Some new)
        \<and> st_records (snd (refresh ev cfg cookie ip agent now st)) =
          map (\<lambda>(k, old). (k, if k = sr_token_hash new then new else old)) (st_records st))"
proof (cases "validate ev cookie now st")
  case None
  then show ?thesis by (simp add: refresh_def)
next
  case (Some r)
  show ?thesis
  proof (cases "refreshed_record ev cfg ip agent now r")
    case (Inl e)
    then show ?thesis using Some by (simp add: refresh_def)
  next
    case (Inr m)
    then show ?thesis using Some
      by (cases m) (auto simp: refresh_def refresh_write_def store_save_ok split: sum.splits)
  qed
qed

lemma revoke_records:
  "st_records (snd (revoke ev cookie now st)) = st_records st
   \<or> (\<exists>k r. lookup (st_records st) k = Some r \<and> sr_revoked r = None \<and> stored_session ev cookie st = Some r
        \<and> fst (revoke ev cookie now st) = ok True
        \<and> st_records (snd (revoke ev cookie now st)) =
          map (\<lambda>(k, old). (k, if k = sr_token_hash r then r\<lparr>sr_revoked := Some now\<rparr> else old)) (st_records st))"
proof (cases "stored_session ev cookie st")
  case None
  then show ?thesis by (simp add: revoke_def)
next
  case (Some r)
  then have "\<exists>k. lookup (st_records st) k = Some r" by (auto simp: stored_session_def split: option.splits if_splits)
  then show ?thesis using Some by (auto simp: revoke_def store_save_ok split: sum.splits)
qed

definition run_sessions :: "session_env \<Rightarrow> session_settings \<Rightarrow> session_event list \<Rightarrow> session_state \<Rightarrow> session_state" where
  "run_sessions ev cfg es st = fold (\<lambda>e st. session_step ev cfg st e) es st"

lemma run_sessions_simps [simp]:
  "run_sessions ev cfg [] st = st"
  "run_sessions ev cfg (e # es) st = run_sessions ev cfg es (session_step ev cfg st e)"
  by (simp_all add: run_sessions_def)

lemma run_invariant:
  assumes "\<And>e st. e \<in> set es \<Longrightarrow> I st \<Longrightarrow> I (session_step ev cfg st e)" and "I st"
  shows "I (run_sessions ev cfg es st)"
  using assms by (induction es arbitrary: st) auto

section \<open>Invariants\<close>

lemma sessions_ok_update:
  assumes "sessions_ok cfg st" and "st_records st' = map (\<lambda>(k, old). (k, f k old)) (st_records st)"
    and "\<And>k old. (k, old) \<in> set (st_records st) \<Longrightarrow> record_ok cfg k old \<Longrightarrow> record_ok cfg k (f k old)"
  shows "sessions_ok cfg st'"
proof -
  have "map fst (st_records st') = map fst (st_records st)" unfolding assms(2) by (rule keys_update)
  moreover have "\<forall>(k, r)\<in>set (st_records st'). record_ok cfg k r"
    using assms(1, 3) unfolding assms(2) by (auto simp: sessions_ok_def)
  ultimately show ?thesis using assms(1) by (simp add: sessions_ok_def)
qed

lemma sessions_ok_same:
  "sessions_ok cfg st \<Longrightarrow> st_records st' = st_records st \<Longrightarrow> sessions_ok cfg st'"
  by (simp add: sessions_ok_def)

lemma issue_ok:
  assumes "sessions_ok cfg st" and "settings_ok cfg"
  shows "sessions_ok cfg (snd (issue ev cfg user ip agent now token sid st))"
proof -
  show ?thesis using issue_records [of ev cfg user ip agent now token sid st]
  proof (elim disjE exE conjE)
    assume "st_records (snd (issue ev cfg user ip agent now token sid st)) = st_records st"
    then show ?thesis using assms(1) by (rule sessions_ok_same [rotated])
  next
    fix r
    assume h: "\<not> has_key (st_records st) (sr_token_hash r)" "sr_issued r = now" "sr_seen r = now"
      "sr_absolute r = now + ss_absolute cfg" "sr_expires r = min (now + ss_idle cfg) (now + ss_absolute cfg)"
      "st_records (snd (issue ev cfg user ip agent now token sid st)) = st_records st @ [(sr_token_hash r, r)]"
    have "record_ok cfg (sr_token_hash r) r" using assms(2) h by (auto simp: record_ok_def settings_ok_def)
    then show ?thesis using assms(1) h by (auto simp: sessions_ok_def has_key_iff)
  qed
qed

lemma refresh_ok:
  assumes "sessions_ok cfg st"
  shows "sessions_ok cfg (snd (refresh ev cfg cookie ip agent now st))"
  using refresh_records [of ev cfg cookie ip agent now st]
proof (elim disjE exE conjE)
  assume "st_records (snd (refresh ev cfg cookie ip agent now st)) = st_records st"
  then show ?thesis using assms by (rule sessions_ok_same [rotated])
next
  fix r new
  assume v: "validate ev cookie now st = Some r" and n: "refreshed_record ev cfg ip agent now r = ok (Some new)"
    and rs: "st_records (snd (refresh ev cfg cookie ip agent now st)) =
      map (\<lambda>(k, old). (k, if k = sr_token_hash new then new else old)) (st_records st)"
  have "record_ok cfg (sr_token_hash r) r"
    using assms lookup_in [OF validate_facts(1) [OF v]] by (auto simp: sessions_ok_def)
  then have "record_ok cfg (sr_token_hash new) new"
    using refreshed_record_facts [OF n] by (auto simp: record_ok_def)
  then show ?thesis by (intro sessions_ok_update [OF assms rs]) auto
qed

lemma revoke_ok:
  assumes "sessions_ok cfg st"
  shows "sessions_ok cfg (snd (revoke ev cookie now st))"
  using revoke_records [of ev cookie now st]
proof (elim disjE exE conjE)
  assume "st_records (snd (revoke ev cookie now st)) = st_records st"
  then show ?thesis using assms by (rule sessions_ok_same [rotated])
next
  fix k r
  assume l: "lookup (st_records st) k = Some r"
    and rs: "st_records (snd (revoke ev cookie now st)) =
      map (\<lambda>(k, old). (k, if k = sr_token_hash r then r\<lparr>sr_revoked := Some now\<rparr> else old)) (st_records st)"
  have "record_ok cfg k r" using assms lookup_in [OF l] by (auto simp: sessions_ok_def)
  then have "record_ok cfg (sr_token_hash r) (r\<lparr>sr_revoked := Some now\<rparr>)" by (auto simp: record_ok_def)
  then show ?thesis by (intro sessions_ok_update [OF assms rs]) auto
qed

lemma revoke_all_records:
  "st_records (snd (revoke_all ev user now reason st)) = map (\<lambda>(k, r). (k,
     if sr_user r = user \<and> sr_revoked r = None then r\<lparr>sr_revoked := Some now\<rparr> else r)) (st_records st)"
  by (simp add: revoke_all_def Let_def store_revoke_all_def split: sum.splits)

lemma revoke_all_ok: "sessions_ok cfg st \<Longrightarrow> sessions_ok cfg (snd (revoke_all ev user now reason st))"
  by (rule sessions_ok_update [OF _ revoke_all_records]) (auto simp: record_ok_def)

lemma challenge_records [simp]:
  "st_records (snd (claim_challenge c now st)) = st_records st" "st_records (release_challenge c st) = st_records st"
  by (simp_all add: claim_challenge_def release_challenge_def split: prod.splits)

lemma step_ok: "sessions_ok cfg st \<Longrightarrow> settings_ok cfg \<Longrightarrow> sessions_ok cfg (session_step ev cfg st e)"
  by (cases e) (simp_all add: issue_ok refresh_ok revoke_ok revoke_all_ok sessions_ok_same [of cfg st])

lemma no_sessions_ok [simp]: "sessions_ok cfg no_sessions"
  by (simp add: sessions_ok_def no_sessions_def)

lemma run_ok: "settings_ok cfg \<Longrightarrow> sessions_ok cfg st \<Longrightarrow> sessions_ok cfg (run_sessions ev cfg es st)"
  by (rule run_invariant) (simp_all add: step_ok)

text \<open>A revoked row stays revoked.\<close>

definition dead :: "string \<Rightarrow> session_state \<Rightarrow> bool" where
  "dead k st \<longleftrightarrow> (\<exists>r. lookup (st_records st) k = Some r \<and> sr_revoked r \<noteq> None)"

lemma dead_update:
  assumes "dead k st" and "st_records st' = map (\<lambda>(k, old). (k, f k old)) (st_records st)"
    and "\<And>old. lookup (st_records st) k = Some old \<Longrightarrow> sr_revoked old \<noteq> None \<Longrightarrow> sr_revoked (f k old) \<noteq> None"
  shows "dead k st'"
  using assms by (auto simp: dead_def)

lemma dead_same: "dead k st \<Longrightarrow> st_records st' = st_records st \<Longrightarrow> dead k st'"
  by (simp add: dead_def)

lemma dead_issue:
  assumes "dead k st"
  shows "dead k (snd (issue ev cfg user ip agent now token sid st))"
  using issue_records [of ev cfg user ip agent now token sid st] assms by (auto simp: dead_def record_lookup_snoc)

lemma dead_refresh:
  assumes "dead k st"
  shows "dead k (snd (refresh ev cfg cookie ip agent now st))"
  using refresh_records [of ev cfg cookie ip agent now st]
proof (elim disjE exE conjE)
  assume "st_records (snd (refresh ev cfg cookie ip agent now st)) = st_records st"
  then show ?thesis using assms by (rule dead_same [rotated])
next
  fix r new
  assume v: "validate ev cookie now st = Some r" and n: "refreshed_record ev cfg ip agent now r = ok (Some new)"
    and rs: "st_records (snd (refresh ev cfg cookie ip agent now st)) =
      map (\<lambda>(k, old). (k, if k = sr_token_hash new then new else old)) (st_records st)"
  have "k \<noteq> sr_token_hash new"
    using validate_facts(1, 2) [OF v] refreshed_record_facts(1) [OF n] assms by (auto simp: dead_def live_at_def)
  then show ?thesis by (intro dead_update [OF assms rs]) auto
qed

lemma dead_revoke:
  assumes "dead k st"
  shows "dead k (snd (revoke ev cookie now st))"
  using revoke_records [of ev cookie now st]
proof (elim disjE exE conjE)
  assume "st_records (snd (revoke ev cookie now st)) = st_records st"
  then show ?thesis using assms by (rule dead_same [rotated])
next
  fix k' r
  assume rs: "st_records (snd (revoke ev cookie now st)) =
      map (\<lambda>(k, old). (k, if k = sr_token_hash r then r\<lparr>sr_revoked := Some now\<rparr> else old)) (st_records st)"
  show ?thesis by (rule dead_update [OF assms rs]) auto
qed

lemma dead_revoke_all: "dead k st \<Longrightarrow> dead k (snd (revoke_all ev user now reason st))"
  by (rule dead_update [OF _ revoke_all_records]) auto

lemma dead_step: "dead k st \<Longrightarrow> dead k (session_step ev cfg st e)"
  by (cases e) (simp_all add: dead_issue dead_refresh dead_revoke dead_revoke_all dead_same [of k st])

lemma dead_run: "dead k st \<Longrightarrow> dead k (run_sessions ev cfg es st)"
  by (rule run_invariant) (simp_all add: dead_step)

lemma stored_session_key:
  "stored_session ev cookie st = Some r \<Longrightarrow>
    \<exists>sid token. parse_session ev cookie = Some (sid, token) \<and> lookup (st_records st) (se_digest ev token) = Some r"
  by (auto simp: stored_session_def split: option.splits if_splits)

lemma revoked_is_dead:
  assumes "sessions_ok cfg st" and "revoke ev cookie now st = (ok True, st')"
  obtains sid token where "parse_session ev cookie = Some (sid, token)" and "dead (se_digest ev token) st'"
proof -
  have f: "fst (revoke ev cookie now st) = ok True" "snd (revoke ev cookie now st) = st'" using assms(2) by simp_all
  obtain r where s: "stored_session ev cookie st = Some r" using f by (cases "stored_session ev cookie st") (auto simp: revoke_def)
  obtain sid token where p: "parse_session ev cookie = Some (sid, token)"
    and l: "lookup (st_records st) (se_digest ev token) = Some r" using stored_session_key [OF s] by blast
  have h: "sr_token_hash r = se_digest ev token"
    using assms(1) lookup_in [OF l] by (auto simp: sessions_ok_def record_ok_def)
  have "st_records st' = map (\<lambda>(k, old). (k, if k = sr_token_hash r then r\<lparr>sr_revoked := Some now\<rparr> else old)) (st_records st)"
    using f s h lookup_Some_has_key [OF l] by (auto simp: revoke_def store_save_def split: if_splits)
  then have "dead (se_digest ev token) st'" using l h by (simp add: dead_def)
  with p show thesis by (rule that)
qed

lemma dead_not_valid:
  "parse_session ev cookie = Some (sid, token) \<Longrightarrow> dead (se_digest ev token) st \<Longrightarrow> validate ev cookie now st = None"
  by (auto simp: dead_def validate_def stored_session_def live_at_def)

text \<open>A claimed nonce stays claimed until its expiry.\<close>

definition claimed :: "string \<Rightarrow> int \<Rightarrow> session_state \<Rightarrow> bool" where
  "claimed n expires st \<longleftrightarrow> (n, expires) \<in> set (st_claimed st)"

lemma session_audit_claimed [simp]: "st_claimed (session_audit ev e u p a st) = st_claimed st"
  by (simp add: session_audit_def)

lemma claims_untouched [simp]:
  "st_claimed (snd (issue ev cfg user ip agent now token sid st)) = st_claimed st"
  "st_claimed (snd (refresh ev cfg cookie ip agent now st)) = st_claimed st"
  "st_claimed (snd (revoke ev cookie now st)) = st_claimed st"
  "st_claimed (snd (revoke_all ev user now reason st)) = st_claimed st"
  by (simp_all add: issue_def refresh_def refresh_write_def revoke_def revoke_all_def Let_def store_revoke_all_def
      split: sum.splits option.splits prod.splits)

lemma claim_nonce_keeps:
  "(n, e) \<in> set cs \<Longrightarrow> now < e \<Longrightarrow> (n, e) \<in> set (snd (claim_nonce m x now cs))"
  by (simp add: claim_nonce_def Let_def)

lemma claim_nonce_refused: "(n, e) \<in> set cs \<Longrightarrow> now < e \<Longrightarrow> \<not> fst (claim_nonce n x now cs)"
proof -
  assume "(n, e) \<in> set cs" and "now < e"
  then have "(n, e) \<in> set (filter (\<lambda>(n, e). e > now) cs)" by simp
  then have "has_key (filter (\<lambda>(n, e). e > now) cs) n" unfolding has_key_iff by force
  then show ?thesis by (simp add: claim_nonce_def Let_def)
qed

lemma claim_nonce_granted: "fst (claim_nonce n x now cs) \<Longrightarrow> (n, x) \<in> set (snd (claim_nonce n x now cs))"
  by (auto simp: claim_nonce_def Let_def split: if_splits)

fun claim_kept :: "string \<Rightarrow> int \<Rightarrow> session_event \<Rightarrow> bool" where
  "claim_kept n expires (Claim c now) = (now < expires)"
| "claim_kept n expires (Release c) = (ch_nonce c \<noteq> n)"
| "claim_kept n expires e = True"

lemma claimed_step: "claimed n x st \<Longrightarrow> claim_kept n x e \<Longrightarrow> claimed n x (session_step ev cfg st e)"
  by (cases e) (auto simp: claimed_def claim_challenge_def release_challenge_def release_nonce_def
      case_prod_beta intro: claim_nonce_keeps)

lemma claimed_run:
  "list_all (claim_kept n x) es \<Longrightarrow> claimed n x st \<Longrightarrow> claimed n x (run_sessions ev cfg es st)"
  by (rule run_invariant) (auto simp: list_all_iff claimed_step)

section \<open>Properties\<close>

text \<open>
  Where a stored session comes from: an issue of the history gave it its identifier, user, token and issue
  instant, and it was last seen then or at a refresh of the history.
\<close>

definition traced :: "session_env \<Rightarrow> session_event list \<Rightarrow> session_record \<Rightarrow> bool" where
  "traced ev es r \<longleftrightarrow> (\<exists>ip agent token. Issue (sr_user r) ip agent (sr_issued r) token (sr_id r) \<in> set es
       \<and> sr_token_hash r = se_digest ev token)
     \<and> (sr_seen r = sr_issued r \<or> (\<exists>cookie ip agent. Refresh cookie ip agent (sr_seen r) \<in> set es))"

lemma traced_revoked [simp]: "traced ev es (r\<lparr>sr_revoked := t\<rparr>) = traced ev es r"
  by (simp add: traced_def)

lemma issue_traced:
  assumes "r \<in> snd ` set (st_records (snd (issue ev cfg user ip agent now token sid st)))"
    and "Issue user ip agent now token sid \<in> set es"
  shows "r \<in> snd ` set (st_records st) \<or> traced ev es r"
  using assms by (auto simp: issue_def Let_def store_create_ok traced_def split: sum.splits) blast+

lemma refresh_traced:
  assumes "r \<in> snd ` set (st_records (snd (refresh ev cfg cookie ip agent now st)))"
    and "Refresh cookie ip agent now \<in> set es" and "\<forall>q\<in>snd ` set (st_records st). traced ev es q"
  shows "traced ev es r"
  using refresh_records [of ev cfg cookie ip agent now st]
proof (elim disjE exE conjE)
  assume "st_records (snd (refresh ev cfg cookie ip agent now st)) = st_records st"
  then show ?thesis using assms(1,3) by metis
next
  fix q new
  assume q: "validate ev cookie now st = Some q" and new: "refreshed_record ev cfg ip agent now q = ok (Some new)"
    and after: "st_records (snd (refresh ev cfg cookie ip agent now st))
      = map (\<lambda>(k, old). (k, if k = sr_token_hash new then new else old)) (st_records st)"
  have "(sr_token_hash q, q) \<in> set (st_records st)" using validate_facts(1) [OF q] by (rule lookup_in)
  then have "traced ev es q" using assms(3) by force
  moreover have "sr_user new = sr_user q" using new by (auto simp: refreshed_record_def Let_def split: if_splits)
  ultimately have "traced ev es new" using refreshed_record_facts [OF new] assms(2) by (auto simp: traced_def)
  moreover have "r = new \<or> r \<in> snd ` set (st_records st)" using assms(1) unfolding after by force
  ultimately show ?thesis using assms(3) by blast
qed

lemma revoke_traced:
  assumes "r \<in> snd ` set (st_records (snd (revoke ev cookie now st)))" and "\<forall>q\<in>snd ` set (st_records st). traced ev es q"
  shows "traced ev es r"
  using revoke_records [of ev cookie now st]
proof (elim disjE exE conjE)
  assume "st_records (snd (revoke ev cookie now st)) = st_records st"
  then show ?thesis using assms by metis
next
  fix k q
  assume q: "lookup (st_records st) k = Some q" and after: "st_records (snd (revoke ev cookie now st))
      = map (\<lambda>(k, old). (k, if k = sr_token_hash q then q\<lparr>sr_revoked := Some now\<rparr> else old)) (st_records st)"
  have "traced ev es q" using assms(2) lookup_in [OF q] by force
  moreover have "r = q\<lparr>sr_revoked := Some now\<rparr> \<or> r \<in> snd ` set (st_records st)" using assms(1) unfolding after by force
  ultimately show ?thesis using assms(2) by auto
qed

lemma revoke_all_traced:
  assumes "r \<in> snd ` set (st_records (snd (revoke_all ev user now reason st)))" and "\<forall>q\<in>snd ` set (st_records st). traced ev es q"
  shows "traced ev es r"
proof -
  have "\<exists>q\<in>snd ` set (st_records st). r = q \<or> r = q\<lparr>sr_revoked := Some now\<rparr>"
    using assms(1) revoke_all_records [of ev user now reason st] by (force split: if_splits)
  then show ?thesis using assms(2) by auto
qed

lemma run_traced: "\<forall>r\<in>snd ` set (st_records (run_sessions ev cfg es no_sessions)). traced ev es r"
proof (rule run_invariant [where I = "\<lambda>st. \<forall>r\<in>snd ` set (st_records st). traced ev es r"])
  fix e and st :: session_state
  assume e: "e \<in> set es" and before: "\<forall>r\<in>snd ` set (st_records st). traced ev es r"
  show "\<forall>r\<in>snd ` set (st_records (session_step ev cfg st e)). traced ev es r"
  proof
    fix r assume r: "r \<in> snd ` set (st_records (session_step ev cfg st e))"
    show "traced ev es r"
    proof (cases e)
      case (Issue user ip agent now token sid)
      have "r \<in> snd ` set (st_records st) \<or> traced ev es r"
        by (rule issue_traced [OF r [unfolded Issue session_step.simps] e [unfolded Issue]])
      then show ?thesis using before by blast
    next
      case (Refresh cookie ip agent now)
      show ?thesis by (rule refresh_traced [OF r [unfolded Refresh session_step.simps] e [unfolded Refresh] before])
    next
      case (Revoke cookie now)
      show ?thesis by (rule revoke_traced [OF r [unfolded Revoke session_step.simps] before])
    next
      case (Revoke_all user now reason)
      show ?thesis by (rule revoke_all_traced [OF r [unfolded Revoke_all session_step.simps] before])
    next
      case (Claim c now)
      then have "r \<in> snd ` set (st_records st)" using r by simp
      then show ?thesis using before by blast
    next
      case (Release c)
      then have "r \<in> snd ` set (st_records st)" using r by simp
      then show ?thesis using before by blast
    qed
  qed
qed (simp add: no_sessions_def)

text \<open>
  C29: From an empty store and valid settings, after any sequence of issues, refreshes, revocations, claims and
  releases, a cookie validates only to an unrevoked session that an issue of the history created, less than
  the absolute timeout after that issue and less than the idle timeout after the session was last
  seen, at its issue or at a refresh. However often it is refreshed, its absolute deadline is the issue
  instant plus the absolute timeout.
\<close>

theorem sessions_history:
  assumes "make_session_settings s = ok cfg"
    and "validate ev cookie now (run_sessions ev cfg es no_sessions) = Some r"
  shows "(\<exists>ip agent token. Issue (sr_user r) ip agent (sr_issued r) token (sr_id r) \<in> set es
        \<and> sr_token_hash r = se_digest ev token)
    \<and> (sr_seen r = sr_issued r \<or> (\<exists>cookie ip agent. Refresh cookie ip agent (sr_seen r) \<in> set es))
    \<and> sr_absolute r = sr_issued r + ss_absolute cfg
    \<and> sr_revoked r = None \<and> now < sr_absolute r \<and> now < sr_seen r + ss_idle cfg
    \<and> sr_seen r < sr_expires r \<and> sr_expires r \<le> sr_absolute r"
proof -
  have "sessions_ok cfg (run_sessions ev cfg es no_sessions)"
    using make_session_settings_ok [OF assms(1)] by (simp add: run_ok)
  moreover have r: "(sr_token_hash r, r) \<in> set (st_records (run_sessions ev cfg es no_sessions))"
    using validate_facts(1) [OF assms(2)] by (rule lookup_in)
  ultimately have "record_ok cfg (sr_token_hash r) r" by (auto simp: sessions_ok_def)
  moreover have "traced ev es r" using run_traced [of ev cfg es] r by force
  ultimately show ?thesis using validate_facts(2) [OF assms(2)] by (auto simp: record_ok_def live_at_def traced_def)
qed

text \<open>
  C30: Once a revocation of a cookie has succeeded, that cookie never validates again, whatever operations follow and
  at whatever time: refreshing, issuing and revoking everything leave the revoked row revoked.
\<close>

theorem revoked_session_stays_dead:
  assumes "make_session_settings s = ok cfg"
    and "revoke ev cookie now (run_sessions ev cfg before no_sessions) = (ok True, st)"
  shows "validate ev cookie later (run_sessions ev cfg after st) = None"
proof -
  have "sessions_ok cfg (run_sessions ev cfg before no_sessions)"
    using make_session_settings_ok [OF assms(1)] by (simp add: run_ok)
  then obtain sid token where "parse_session ev cookie = Some (sid, token)" and "dead (se_digest ev token) st"
    by (rule revoked_is_dead [OF _ assms(2)])
  then show ?thesis by (intro dead_not_valid dead_run)
qed

text \<open>
  A challenge is consumed once: after a granted claim, as long as its nonce is not released and the clock has
  not reached its expiry, a claim of any challenge with the same nonce is refused, whatever happens in between.
\<close>

theorem challenge_claimed_once:
  assumes "claim_challenge c now st = (True, st')" and "list_all (claim_kept (ch_nonce c) (ch_expires c)) es"
    and "ch_nonce c' = ch_nonce c" and "later < ch_expires c"
  shows "\<not> fst (claim_challenge c' later (run_sessions ev cfg es st'))"
proof -
  have "claimed (ch_nonce c) (ch_expires c) st'"
    using assms(1) claim_nonce_granted [of "ch_nonce c" "ch_expires c" now "st_claimed st"]
    by (auto simp: claim_challenge_def claimed_def case_prod_beta)
  then have "claimed (ch_nonce c) (ch_expires c) (run_sessions ev cfg es st')" by (rule claimed_run [OF assms(2)])
  then show ?thesis
    using assms(3, 4) claim_nonce_refused by (simp add: claimed_def claim_challenge_def case_prod_beta)
qed

text \<open>
  A refresh that read its row before a revocation and writes after it puts back an unrevoked row: in the in-memory
  store the revoked cookie is live again.
\<close>

lemma refresh_revives_revoked:
  assumes "validate ev cookie now st = Some r" and "refreshed_record ev cfg ip agent now r = ok (Some new)"
    and "revoke ev cookie t st = (ok True, st2)" and "refresh_write ev new st2 = (ok saved, st3)"
  shows "validate ev cookie t st2 = None" and "validate ev cookie now st3 = Some new"
proof -
  have s: "stored_session ev cookie st = Some r" and live: "live_at now r" using validate_facts [OF assms(1)] by auto
  obtain sid token where p: "parse_session ev cookie = Some (sid, token)"
    and l: "lookup (st_records st) (se_digest ev token) = Some r" using stored_session_key [OF s] by blast
  have h: "sr_token_hash r = se_digest ev token" and i: "sr_id r = sid"
    using assms(1) p s l by (auto simp: validate_def stored_session_def split: if_splits)
  have n: "sr_token_hash new = se_digest ev token" "sr_id new = sid" "sr_revoked new = None"
      "now < sr_absolute new" "now < sr_expires new"
    using refreshed_record_facts [OF assms(2)] h i live by (auto simp: live_at_def)
  have r2: "lookup (st_records st2) (se_digest ev token) = Some (r\<lparr>sr_revoked := Some t\<rparr>)"
    using assms(3) s h l lookup_Some_has_key [OF l] by (auto simp: revoke_def store_save_def split: if_splits)
  show "validate ev cookie t st2 = None" using p r2 by (intro dead_not_valid) (auto simp: dead_def)
  have "lookup (st_records st3) (se_digest ev token) = Some new"
    using assms(4) r2 n lookup_Some_has_key [OF r2] by (auto simp: refresh_write_def store_save_def)
  then show "validate ev cookie now st3 = Some new"
    using p n by (simp add: validate_def stored_session_def live_at_def)
qed

section \<open>Witnesses\<close>

definition demo_env :: session_env where
  "demo_env = \<lparr>se_digest = (\<lambda>t. ''d'' @ t), se_mac = (\<lambda>k v. v), se_dumps = (\<lambda>v. ''cookie''),
     se_loads = (\<lambda>c. Some (PMap [(PStr ''v'', PInt 1), (PStr ''sid'', PStr (uuid_text 7)), (PStr ''token'', PStr ''t'')])),
     se_audited = True\<rparr>"

definition demo_settings :: session_settings where
  "demo_settings = \<lparr>ss_cookie_name = ''s'', ss_secret = replicate 32 CHR ''k'', ss_idle = 10, ss_absolute = 25,
     ss_challenge = 5, ss_secure = True, ss_same_site = ''lax'', ss_path = ''/''\<rparr>"

definition demo_history :: "session_event list" where
  "demo_history = [Issue 3 None None 100 ''t'' 7, Refresh (Some ''cookie'') None None 108]"

definition demo_session :: session_record where
  "demo_session = \<lparr>sr_id = 7, sr_user = 3, sr_token_hash = ''dt'', sr_issued = 100, sr_seen = 108, sr_expires = 118,
     sr_absolute = 125, sr_ip = None, sr_agent = None, sr_revoked = None\<rparr>"

definition demo_challenge :: challenge where
  "demo_challenge = \<lparr>ch_cookie = ''c'', ch_user = 3, ch_purpose = ''mfa'', ch_issued = 100, ch_expires = 105,
     ch_claims = [], ch_nonce = ''n''\<rparr>"

lemma demo_settings_made: "make_session_settings demo_settings = ok demo_settings"
  by code_simp

lemma demo_validates: "validate demo_env (Some ''cookie'') 117 (run_sessions demo_env demo_settings demo_history no_sessions) = Some demo_session"
  by code_simp

theorem sessions_history_witness:
  "\<exists>ip agent token. Issue 3 ip agent 100 token 7 \<in> set demo_history \<and> ''dt'' = se_digest demo_env token"
  using sessions_history [OF demo_settings_made demo_validates] by (simp add: demo_session_def)

definition demo_revoked :: session_state where
  "demo_revoked = snd (revoke demo_env (Some ''cookie'') 110 (run_sessions demo_env demo_settings demo_history no_sessions))"

lemma demo_revokes:
  "revoke demo_env (Some ''cookie'') 110 (run_sessions demo_env demo_settings demo_history no_sessions) = (ok True, demo_revoked)"
  unfolding demo_revoked_def by code_simp

theorem revoked_session_stays_dead_witness:
  "validate demo_env (Some ''cookie'') 112
     (run_sessions demo_env demo_settings [Refresh (Some ''cookie'') None None 111] demo_revoked) = None"
  by (rule revoked_session_stays_dead [OF demo_settings_made demo_revokes])

lemma demo_claims:
  "claim_challenge demo_challenge 101 no_sessions = (True, no_sessions\<lparr>st_claimed := [(''n'', 105)]\<rparr>)"
  by code_simp

lemma demo_events: "list_all (claim_kept (ch_nonce demo_challenge) (ch_expires demo_challenge)) [Claim demo_challenge 103]"
  by code_simp

theorem challenge_claimed_once_witness:
  "\<not> fst (claim_challenge demo_challenge 104
     (run_sessions demo_env demo_settings [Claim demo_challenge 103] (no_sessions\<lparr>st_claimed := [(''n'', 105)]\<rparr>)))"
  by (rule challenge_claimed_once [OF demo_claims demo_events]) (simp_all add: demo_challenge_def)

end
