(* ===== verification/Passwords.thy ===== *)
theory Passwords
  imports Py_Values
begin

text \<open>
  The local password policy and the checks of the password service (\<open>security/passwords.py\<close>). The Argon2 hasher is
  a record of functions: whether a hash verifies a password, whether it was made with other parameters, and the hash of
  a password under a salt. Character classes are those of ASCII.
\<close>

section \<open>Policy\<close>

record password_policy =
  pp_min :: int
  pp_max :: int
  pp_uppercase :: bool
  pp_lowercase :: bool
  pp_digit :: bool
  pp_special :: bool
  pp_history :: int

definition make_password_policy :: "password_policy \<Rightarrow> password_policy result" where
  "make_password_policy p = (if pp_min p < 1 then raise ValueError else if pp_max p < pp_min p then raise ValueError
     else if pp_history p < 0 then raise ValueError else ok p)"

record argon_parameters =
  ap_time :: int
  ap_memory :: int
  ap_parallelism :: int
  ap_hash_len :: int
  ap_salt_len :: int

definition make_argon_parameters :: "argon_parameters \<Rightarrow> argon_parameters result" where
  "make_argon_parameters a = (if ap_time a < 1 then raise ValueError else if ap_memory a < 8 then raise ValueError
     else if ap_parallelism a < 1 then raise ValueError else if ap_hash_len a < 4 then raise ValueError
     else if ap_salt_len a < 8 then raise ValueError else ok a)"

record hasher =
  ha_verify :: "string \<Rightarrow> string \<Rightarrow> bool"
  ha_stale :: "string \<Rightarrow> bool"
  ha_hash :: "string \<Rightarrow> string \<Rightarrow> string"
  ha_dummy :: string

definition is_upper :: "char \<Rightarrow> bool" where "is_upper c \<longleftrightarrow> CHR ''A'' \<le> c \<and> c \<le> CHR ''Z''"
definition is_lower :: "char \<Rightarrow> bool" where "is_lower c \<longleftrightarrow> CHR ''a'' \<le> c \<and> c \<le> CHR ''z''"

definition is_special :: "char \<Rightarrow> bool" where
  "is_special c \<longleftrightarrow> \<not> (is_upper c \<or> is_lower c \<or> is_digit c) \<and> \<not> is_space c"

text \<open>The verification of a password: whether it is valid, and whether its hash needs replacing.\<close>

definition verify_password :: "hasher \<Rightarrow> string \<Rightarrow> string option \<Rightarrow> bool \<times> bool" where
  "verify_password h password encoded =
     (let candidate = (case encoded of None \<Rightarrow> ha_dummy h | Some e \<Rightarrow> if e = [] then ha_dummy h else e);
          valid = ha_verify h candidate password
      in (valid, valid \<and> ha_stale h candidate))"

definition policy_errors :: "password_policy \<Rightarrow> string \<Rightarrow> string list" where
  "policy_errors p password =
     (if int (length password) < pp_min p then [''must contain at least '' @ int_text (pp_min p) @ '' characters''] else [])
   @ (if int (length password) > pp_max p then [''must contain no more than '' @ int_text (pp_max p) @ '' characters''] else [])
   @ (if pp_uppercase p \<and> \<not> list_ex is_upper password then [''must contain an uppercase character''] else [])
   @ (if pp_lowercase p \<and> \<not> list_ex is_lower password then [''must contain a lowercase character''] else [])
   @ (if pp_digit p \<and> \<not> list_ex is_digit password then [''must contain a digit''] else [])
   @ (if pp_special p \<and> \<not> list_ex is_special password then [''must contain a non-alphanumeric character''] else [])"

definition reused :: "hasher \<Rightarrow> password_policy \<Rightarrow> string \<Rightarrow> string list \<Rightarrow> bool" where
  "reused h p password previous = list_ex (\<lambda>e. fst (verify_password h password (Some e))) (take (nat (pp_history p)) previous)"

definition validate_password :: "hasher \<Rightarrow> password_policy \<Rightarrow> pyval \<Rightarrow> string list \<Rightarrow> unit result" where
  "validate_password h p password previous = (case text_of password of None \<Rightarrow> raise (ValidationError [])
     | Some s \<Rightarrow>
       let errors = policy_errors p s;
           errors' = (if errors = [] \<and> pp_history p \<noteq> 0 \<and> reused h p s previous then [''must not reuse a recent password''] else errors)
       in ensure (errors' = []) (ValidationError []))"

definition hash_password :: "hasher \<Rightarrow> password_policy \<Rightarrow> string \<Rightarrow> pyval \<Rightarrow> bool \<Rightarrow> string result" where
  "hash_password h p salt password validated =
     rbind (if validated then validate_password h p password [] else ok ()) (\<lambda>_.
       case text_of password of None \<Rightarrow> raise TypeError | Some s \<Rightarrow> ok (ha_hash h salt s))"

section \<open>What the policy accepts\<close>

lemma policy_errors_none:
  "policy_errors p s = [] \<longleftrightarrow> pp_min p \<le> int (length s) \<and> int (length s) \<le> pp_max p
    \<and> (pp_uppercase p \<longrightarrow> list_ex is_upper s) \<and> (pp_lowercase p \<longrightarrow> list_ex is_lower s)
    \<and> (pp_digit p \<longrightarrow> list_ex is_digit s) \<and> (pp_special p \<longrightarrow> list_ex is_special s)"
  by (auto simp: policy_errors_def)

lemma validate_password_ok:
  "validate_password h p (PStr s) previous = ok () \<longleftrightarrow>
    policy_errors p s = [] \<and> (pp_history p = 0 \<or> \<not> reused h p s previous)"
  by (auto simp: validate_password_def text_of_def Let_def)

text \<open>A policy whose history is not empty refuses the password behind the newest hash.\<close>

lemma current_password_refused:
  assumes "make_password_policy p = ok p" and "pp_history p \<noteq> 0" and "e \<noteq> []" and "ha_verify h e s"
  shows "validate_password h p (PStr s) (e # previous) \<noteq> ok ()"
proof -
  obtain n where "nat (pp_history p) = Suc n"
    using assms(1, 2) by (cases "nat (pp_history p)") (auto simp: make_password_policy_def split: if_splits)
  then show ?thesis using assms(2-4) by (simp add: validate_password_ok reused_def verify_password_def Let_def)
qed

end
