(* ===== verification/Authentication.thy ===== *)
theory Authentication
  imports Sessions Passwords
begin

text \<open>
  Local sign-in (\<open>services/auth.py\<close>): password, lockout, second factor, forced password change and the session
  that results, over a table of users, the sessions of \<open>Sessions\<close> and an audit log. The password hasher, the TOTP
  service and the enrolment of a secret are fields of an environment; fresh tokens are arguments, and one instant is the
  clock of an operation.
\<close>

section \<open>Users, results and the environment\<close>

datatype auth_status = Success | Failed | Mfa_required | Mfa_enrollment_required | Password_change_required

definition auth_status_value :: "auth_status \<Rightarrow> string" where
  "auth_status_value s = (case s of Success \<Rightarrow> ''success'' | Failed \<Rightarrow> ''failed'' | Mfa_required \<Rightarrow> ''mfa_required''
     | Mfa_enrollment_required \<Rightarrow> ''mfa_enrollment_required'' | Password_change_required \<Rightarrow> ''password_change_required'')"

record user_record =
  us_id :: nat
  us_username :: string
  us_hash :: "string option"
  us_active :: bool
  us_failed :: int
  us_locked :: "int option"
  us_changed :: "int option"
  us_must_change :: bool
  us_mfa :: "string option"
  us_history :: "string list"

record auth_settings =
  au_threshold :: int
  au_duration :: int
  au_mfa :: bool

definition make_auth_settings :: "auth_settings \<Rightarrow> auth_settings result" where
  "make_auth_settings s = (if au_threshold s < 1 then raise ValueError else if au_duration s \<le> 0 then raise ValueError else ok s)"

record auth_result =
  ar_status :: auth_status
  ar_message :: "string option"
  ar_user :: "nat option"
  ar_session :: "(string \<times> session_record) option"
  ar_challenge :: "string option"

definition authenticated :: "auth_result \<Rightarrow> bool" where
  "authenticated r \<longleftrightarrow> ar_status r = Success \<and> ar_session r \<noteq> None"

text \<open>The TOTP service: verification of a code, and enrolment as secret, protected secret and provisioning URI.\<close>

record totp_service =
  tp_verify :: "string \<Rightarrow> string \<Rightarrow> int \<Rightarrow> bool"
  tp_enroll :: "string \<Rightarrow> (string \<times> string \<times> string) result"

record auth_env =
  ae_sessions :: session_env
  ae_cookies :: session_settings
  ae_hasher :: hasher
  ae_policy :: password_policy
  ae_totp :: "totp_service option"
  ae_settings :: auth_settings

record fresh =
  fr_token :: string
  fr_sid :: nat
  fr_nonce :: string
  fr_salt :: string

record client =
  cl_ip :: "string option"
  cl_agent :: "string option"

datatype auth_entry = Auth_failed "nat option" string | Auth_succeeded nat string | Role_change_revoked nat nat nat

record auth_state =
  as_users :: "user_record list"
  as_sessions :: session_state
  as_log :: "auth_entry list"

definition make_auth_env :: "auth_env \<Rightarrow> auth_env result" where
  "make_auth_env ev = (if au_mfa (ae_settings ev) \<and> ae_totp ev = None then raise ValueError else ok ev)"

type_synonym 'a auth_step = "auth_state \<Rightarrow> 'a result \<times> auth_state"

definition find_by_username :: "string \<Rightarrow> auth_state \<Rightarrow> user_record option" where
  "find_by_username n st = find (\<lambda>u. us_username u = n) (as_users st)"

definition get_user :: "nat \<Rightarrow> auth_state \<Rightarrow> user_record option" where
  "get_user i st = find (\<lambda>u. us_id u = i) (as_users st)"

definition save_user :: "user_record \<Rightarrow> auth_state \<Rightarrow> auth_state" where
  "save_user u st = st\<lparr>as_users := map (\<lambda>v. if us_id v = us_id u then u else v) (as_users st)\<rparr>"

definition audit_failure :: "nat option \<Rightarrow> string \<Rightarrow> auth_state \<Rightarrow> auth_state" where
  "audit_failure u reason st = st\<lparr>as_log := as_log st @ [Auth_failed u reason]\<rparr>"

definition audit_success :: "nat \<Rightarrow> string \<Rightarrow> auth_state \<Rightarrow> auth_state" where
  "audit_success u reason st = st\<lparr>as_log := as_log st @ [Auth_succeeded u reason]\<rparr>"

definition on_sessions :: "(session_state \<Rightarrow> 'a result \<times> session_state) \<Rightarrow> 'a auth_step" where
  "on_sessions op st = (case op (as_sessions st) of (r, ss) \<Rightarrow> (r, st\<lparr>as_sessions := ss\<rparr>))"

definition generic_authentication_message :: string where
  "generic_authentication_message = ''Invalid username or password.''"

definition generic_mfa_message :: string where "generic_mfa_message = ''The verification code is invalid.''"

definition failed_result :: auth_result where
  "failed_result = \<lparr>ar_status = Failed, ar_message = Some generic_authentication_message, ar_user = None,
     ar_session = None, ar_challenge = None\<rparr>"

definition failed_mfa :: auth_result where
  "failed_mfa = \<lparr>ar_status = Failed, ar_message = Some generic_mfa_message, ar_user = None, ar_session = None, ar_challenge = None\<rparr>"

definition challenged :: "auth_status \<Rightarrow> nat \<Rightarrow> challenge \<Rightarrow> auth_result" where
  "challenged s u c = \<lparr>ar_status = s, ar_message = None, ar_user = Some u, ar_session = None, ar_challenge = Some (ch_cookie c)\<rparr>"

definition signed_in :: "nat \<Rightarrow> string \<times> session_record \<Rightarrow> auth_result" where
  "signed_in u s = \<lparr>ar_status = Success, ar_message = None, ar_user = Some u, ar_session = Some s, ar_challenge = None\<rparr>"

definition normalise_username :: "string \<Rightarrow> string" where
  "normalise_username s = (let clean = strip s in
     if length clean > 64 \<or> list_ex (\<lambda>c. of_char c < (32 :: nat) \<or> of_char c = (127 :: nat)) clean then [] else lower clean)"

section \<open>Sign-in\<close>

definition send_challenge :: "auth_env \<Rightarrow> auth_status \<Rightarrow> string \<Rightarrow> string \<Rightarrow> nat \<Rightarrow> int \<Rightarrow> fresh \<Rightarrow> auth_result auth_step" where
  "send_challenge ev status purpose reason u now fr st =
     (case issue_challenge (ae_sessions ev) (ae_cookies ev) u purpose [] now (fr_nonce fr) of
        Inl e \<Rightarrow> (raise e, st)
      | Inr c \<Rightarrow> (ok (challenged status u c), audit_success u reason st))"

definition issue_after_primary :: "auth_env \<Rightarrow> user_record \<Rightarrow> client \<Rightarrow> int \<Rightarrow> fresh \<Rightarrow> auth_result auth_step" where
  "issue_after_primary ev user cl now fr st =
     (if us_must_change user
      then send_challenge ev Password_change_required ''password_change'' ''password_change_required'' (us_id user) now fr st
      else (case on_sessions (issue (ae_sessions ev) (ae_cookies ev) (us_id user) (cl_ip cl) (cl_agent cl) now (fr_token fr) (fr_sid fr)) st of
          (Inl e, st') \<Rightarrow> (raise e, st')
        | (Inr s, st') \<Rightarrow> (ok (signed_in (us_id user) s), audit_success (us_id user) ''authenticated'' st')))"

definition is_locked :: "int \<Rightarrow> user_record \<Rightarrow> bool" where
  "is_locked now u \<longleftrightarrow> (case us_locked u of None \<Rightarrow> False | Some t \<Rightarrow> now < t)"

definition unlock :: "user_record \<Rightarrow> user_record" where
  "unlock u = (if us_locked u = None then u else u\<lparr>us_failed := 0, us_locked := None\<rparr>)"

text \<open>A wrong password: the count, and the lock once it reaches the threshold.\<close>

definition count_failure :: "auth_env \<Rightarrow> user_record \<Rightarrow> int \<Rightarrow> auth_result auth_step" where
  "count_failure ev u now st =
     (let failed = max 0 (us_failed u) + 1 in
      if failed \<ge> au_threshold (ae_settings ev)
      then (case add_instant now (au_duration (ae_settings ev)) of
          Inl e \<Rightarrow> (raise e, st)
        | Inr until \<Rightarrow> (ok failed_result, audit_failure (Some (us_id u)) ''account_locked''
            (save_user (u\<lparr>us_failed := failed, us_locked := Some until\<rparr>) st)))
      else (ok failed_result, audit_failure (Some (us_id u)) ''credential_rejected''
            (save_user (u\<lparr>us_failed := failed, us_locked := None\<rparr>) st)))"

definition after_password :: "auth_env \<Rightarrow> user_record \<Rightarrow> client \<Rightarrow> int \<Rightarrow> fresh \<Rightarrow> auth_result auth_step" where
  "after_password ev u cl now fr st =
     (if au_mfa (ae_settings ev) \<and> us_mfa u = None
      then send_challenge ev Mfa_enrollment_required ''mfa_enrollment'' ''mfa_enrollment_required'' (us_id u) now fr st
      else if au_mfa (ae_settings ev) then send_challenge ev Mfa_required ''mfa'' ''mfa_required'' (us_id u) now fr st
      else issue_after_primary ev u cl now fr st)"

definition verified_user :: "auth_env \<Rightarrow> user_record \<Rightarrow> bool \<Rightarrow> string \<Rightarrow> string \<Rightarrow> user_record" where
  "verified_user ev u rehash salt password = u\<lparr>us_failed := 0, us_locked := None,
     us_hash := (if rehash then Some (ha_hash (ae_hasher ev) salt password) else us_hash u)\<rparr>"

definition sign_in :: "auth_env \<Rightarrow> string \<Rightarrow> string \<Rightarrow> client \<Rightarrow> int \<Rightarrow> fresh \<Rightarrow> auth_result auth_step" where
  "sign_in ev username password cl now fr st =
     (let found = find_by_username (normalise_username username) st;
          checked = verify_password (ae_hasher ev) password (case found of None \<Rightarrow> None | Some u \<Rightarrow> us_hash u)
      in case found of
        None \<Rightarrow> (ok failed_result, audit_failure None ''credential_rejected'' st)
      | Some stored \<Rightarrow>
        if is_locked now stored then (ok failed_result, audit_failure (Some (us_id stored)) ''account_locked'' st) else
        let user = unlock stored;
            st1 = (if us_locked stored \<noteq> None then save_user user st else st) in
        if \<not> us_active user then (ok failed_result, audit_failure (Some (us_id user)) ''account_inactive'' st1)
        else if \<not> fst checked then count_failure ev user now st1
        else
          let updated = verified_user ev user (snd checked) (fr_salt fr) password;
              st2 = (if updated \<noteq> user then save_user updated st1 else st1) in
          after_password ev updated cl now fr (audit_success (us_id updated) ''password_verified'' st2))"

section \<open>The second factor\<close>

definition totp_accepts :: "auth_env \<Rightarrow> string \<Rightarrow> string \<Rightarrow> int \<Rightarrow> bool" where
  "totp_accepts ev secret code now = (case ae_totp ev of None \<Rightarrow> False | Some t \<Rightarrow> tp_verify t secret code now)"

definition claim_auth :: "challenge \<Rightarrow> int \<Rightarrow> auth_state \<Rightarrow> bool \<times> auth_state" where
  "claim_auth c now st = (case claim_challenge c now (as_sessions st) of (b, ss) \<Rightarrow> (b, st\<lparr>as_sessions := ss\<rparr>))"

definition release_auth :: "challenge \<Rightarrow> auth_state \<Rightarrow> auth_state" where
  "release_auth c st = st\<lparr>as_sessions := release_challenge c (as_sessions st)\<rparr>"

definition verify_mfa :: "auth_env \<Rightarrow> string \<Rightarrow> string \<Rightarrow> client \<Rightarrow> int \<Rightarrow> fresh \<Rightarrow> auth_result auth_step" where
  "verify_mfa ev cookie code cl now fr st =
     (case read_challenge (ae_sessions ev) (Some cookie) (Some ''mfa'') now of
        None \<Rightarrow> (ok failed_mfa, audit_failure None ''mfa_challenge_invalid'' st)
      | Some c \<Rightarrow>
        let found = get_user (ch_user c) st in
        (case found of
          Some user \<Rightarrow>
            (case (us_active user, us_mfa user) of
              (True, Some secret) \<Rightarrow>
                (case claim_auth c now st of
                  (False, st1) \<Rightarrow> (ok failed_mfa, audit_failure (Some (us_id user)) ''mfa_challenge_replayed'' st1)
                | (True, st1) \<Rightarrow>
                  if \<not> totp_accepts ev secret code now
                  then (ok failed_mfa, audit_failure (Some (us_id user)) ''mfa_code_rejected'' (release_auth c st1))
                  else issue_after_primary ev user cl now fr (audit_success (us_id user) ''mfa_verified'' st1))
            | _ \<Rightarrow> (ok failed_mfa, audit_failure (Some (us_id user)) ''mfa_challenge_invalid'' st))
        | None \<Rightarrow> (ok failed_mfa, audit_failure None ''mfa_challenge_invalid'' st)))"

definition begin_mfa_enrollment :: "auth_env \<Rightarrow> string \<Rightarrow> int \<Rightarrow> fresh \<Rightarrow> (string \<times> string \<times> string \<times> string) auth_step" where
  "begin_mfa_enrollment ev cookie now fr st =
     (case read_challenge (ae_sessions ev) (Some cookie) (Some ''mfa_enrollment'') now of
        None \<Rightarrow> (raise (ValidationError []), st)
      | Some c \<Rightarrow> (case get_user (ch_user c) st of
          None \<Rightarrow> (raise (ValidationError []), st)
        | Some user \<Rightarrow>
          if \<not> us_active user then (raise (ValidationError []), st)
          else if us_mfa user \<noteq> None then (raise (Conflict []), st)
          else (case ae_totp ev of None \<Rightarrow> (raise (ValidationError []), st)
            | Some t \<Rightarrow> (case rbind (tp_enroll t (us_username user)) (\<lambda>(secret, protected, uri).
                  rbind (issue_challenge (ae_sessions ev) (ae_cookies ev) (us_id user) ''mfa_enrollment''
                    [(PStr ''encrypted_secret'', PStr protected)] now (fr_nonce fr)) (\<lambda>c'.
                  ok (ch_cookie c', secret, protected, uri))) of
                Inl e \<Rightarrow> (raise e, st)
              | Inr r \<Rightarrow> (ok r, audit_success (us_id user) ''mfa_enrollment_started'' st)))))"

definition complete_mfa_enrollment :: "auth_env \<Rightarrow> string \<Rightarrow> string \<Rightarrow> client \<Rightarrow> int \<Rightarrow> fresh \<Rightarrow> auth_result auth_step" where
  "complete_mfa_enrollment ev cookie code cl now fr st =
     (case read_challenge (ae_sessions ev) (Some cookie) (Some ''mfa_enrollment'') now of
        None \<Rightarrow> (ok failed_mfa, audit_failure None ''mfa_enrollment_challenge_invalid'' st)
      | Some c \<Rightarrow>
        (case get_user (ch_user c) st of
          Some user \<Rightarrow>
            (case (us_active user, text_of (or_none (map_get (ch_claims c) ''encrypted_secret''))) of
              (True, Some protected) \<Rightarrow>
                (case claim_auth c now st of
                  (False, st1) \<Rightarrow> (ok failed_mfa, audit_failure (Some (us_id user)) ''mfa_enrollment_replayed'' st1)
                | (True, st1) \<Rightarrow>
                  if \<not> totp_accepts ev protected code now
                  then (ok failed_mfa, audit_failure (Some (us_id user)) ''mfa_enrollment_code_rejected'' (release_auth c st1))
                  else
                    let updated = user\<lparr>us_mfa := Some protected\<rparr> in
                    issue_after_primary ev updated cl now fr
                      (audit_success (us_id updated) ''mfa_enrolled'' (save_user updated st1)))
            | _ \<Rightarrow> (ok failed_mfa, audit_failure (Some (us_id user)) ''mfa_enrollment_challenge_invalid'' st))
        | None \<Rightarrow> (ok failed_mfa, audit_failure None ''mfa_enrollment_challenge_invalid'' st)))"

section \<open>Password change\<close>

definition user_from_credential :: "auth_env \<Rightarrow> string \<Rightarrow> int \<Rightarrow> auth_state \<Rightarrow> user_record option \<times> challenge option" where
  "user_from_credential ev credential now st =
     (case validate (ae_sessions ev) (Some credential) now (as_sessions st) of
        Some r \<Rightarrow> (get_user (sr_user r) st, None)
      | None \<Rightarrow> (case read_challenge (ae_sessions ev) (Some credential) (Some ''password_change'') now of
          None \<Rightarrow> (None, None)
        | Some c \<Rightarrow> (get_user (ch_user c) st, Some c)))"

definition known_hashes :: "user_record \<Rightarrow> string list" where
  "known_hashes u = filter (\<lambda>h. h \<noteq> []) ((case us_hash u of None \<Rightarrow> [] | Some h \<Rightarrow> [h]) @ us_history u)"

definition kept_history :: "password_policy \<Rightarrow> user_record \<Rightarrow> string list" where
  "kept_history p u = filter (\<lambda>h. h \<noteq> [])
     (take (nat (pp_history p)) ((case us_hash u of None \<Rightarrow> [] | Some h \<Rightarrow> h) # us_history u))"

definition changed_user :: "auth_env \<Rightarrow> user_record \<Rightarrow> string \<Rightarrow> int \<Rightarrow> user_record" where
  "changed_user ev u hashed now = u\<lparr>us_hash := Some hashed, us_history := kept_history (ae_policy ev) u, us_changed := Some now,
     us_must_change := False, us_failed := 0, us_locked := None\<rparr>"

definition replace_password :: "auth_env \<Rightarrow> user_record \<Rightarrow> string \<Rightarrow> client \<Rightarrow> int \<Rightarrow> fresh \<Rightarrow> auth_result auth_step" where
  "replace_password ev user new_password cl now fr st =
     (case rbind (validate_password (ae_hasher ev) (ae_policy ev) (PStr new_password) (known_hashes user)) (\<lambda>_.
            hash_password (ae_hasher ev) (ae_policy ev) (fr_salt fr) (PStr new_password) False) of
        Inl e \<Rightarrow> (raise e, st)
      | Inr hashed \<Rightarrow>
        let updated = changed_user ev user hashed now; st1 = save_user updated st in
        (case on_sessions (revoke_all (ae_sessions ev) (us_id user) now (PStr ''password_change'')) st1 of
          (Inl e, st2) \<Rightarrow> (raise e, st2)
        | (Inr _, st2) \<Rightarrow>
          (case on_sessions (issue (ae_sessions ev) (ae_cookies ev) (us_id user) (cl_ip cl) (cl_agent cl) now (fr_token fr) (fr_sid fr)) st2 of
            (Inl e, st3) \<Rightarrow> (raise e, st3)
          | (Inr s, st3) \<Rightarrow> (ok (signed_in (us_id user) s), audit_success (us_id updated) ''password_changed'' st3))))"

definition same_text :: "pyval \<Rightarrow> pyval \<Rightarrow> bool" where
  "same_text a b = (case (text_of a, text_of b) of (Some s, Some t) \<Rightarrow> s = t | _ \<Rightarrow> a = b)"

definition change_password :: "auth_env \<Rightarrow> string \<Rightarrow> pyval \<Rightarrow> pyval \<Rightarrow> client \<Rightarrow> int \<Rightarrow> fresh \<Rightarrow> auth_result auth_step" where
  "change_password ev credential new_password confirmation cl now fr st =
     (case user_from_credential ev credential now st of
        (None, c) \<Rightarrow> (raise (ValidationError []), audit_failure None ''password_change_credential_invalid'' st)
      | (Some user, c) \<Rightarrow>
        if confirmation \<noteq> PNone \<and> \<not> same_text new_password confirmation
        then (raise (ValidationError ''password_confirmation''), st)
        else (case text_of new_password of None \<Rightarrow> (raise (ValidationError ''password''), st)
          | Some password \<Rightarrow>
            (case c of
              None \<Rightarrow> replace_password ev user password cl now fr st
            | Some ch \<Rightarrow>
              (case claim_auth ch now st of
                (False, st1) \<Rightarrow> (raise (ValidationError []), audit_failure (Some (us_id user)) ''password_change_challenge_replayed'' st1)
              | (True, st1) \<Rightarrow>
                (case replace_password ev user password cl now fr st1 of
                  (Inl e, st2) \<Rightarrow> (raise e, release_auth ch st2)
                | (Inr r, st2) \<Rightarrow> (ok r, st2))))))"

section \<open>Sessions of a user\<close>

definition sign_out :: "auth_env \<Rightarrow> string option \<Rightarrow> int \<Rightarrow> bool auth_step" where
  "sign_out ev cookie now st =
     (case validate (ae_sessions ev) cookie now (as_sessions st) of
        None \<Rightarrow> (ok False, audit_failure None ''logout_session_invalid'' st)
      | Some r \<Rightarrow> (case on_sessions (revoke (ae_sessions ev) cookie now) st of
          (Inl e, st') \<Rightarrow> (raise e, st')
        | (Inr b, st') \<Rightarrow> (ok b, if b then audit_success (sr_user r) ''logout'' st' else st')))"

definition refresh_session :: "auth_env \<Rightarrow> string option \<Rightarrow> client \<Rightarrow> int \<Rightarrow> (string \<times> session_record) option auth_step" where
  "refresh_session ev cookie cl now st =
     (case on_sessions (refresh (ae_sessions ev) (ae_cookies ev) cookie (cl_ip cl) (cl_agent cl) now) st of
        (Inl e, st') \<Rightarrow> (raise e, st')
      | (Inr None, st') \<Rightarrow> (ok None, audit_failure None ''session_refresh_invalid'' st')
      | (Inr (Some s), st') \<Rightarrow> (ok (Some s), audit_success (sr_user (snd s)) ''session_refreshed'' st'))"

definition validate_session :: "auth_env \<Rightarrow> string option \<Rightarrow> int \<Rightarrow> auth_state \<Rightarrow> session_record option" where
  "validate_session ev cookie now st = validate (ae_sessions ev) cookie now (as_sessions st)"

definition revoke_for_role_change :: "auth_env \<Rightarrow> nat \<Rightarrow> nat \<Rightarrow> int \<Rightarrow> nat auth_step" where
  "revoke_for_role_change ev user actor now st =
     (case on_sessions (revoke_all (ae_sessions ev) user now (PStr ''role_change'')) st of
        (Inl e, st') \<Rightarrow> (raise e, st')
      | (Inr n, st') \<Rightarrow> (ok n, st'\<lparr>as_log := as_log st' @ [Role_change_revoked user n actor]\<rparr>))"

section \<open>Who is signed in\<close>

definition credentials_ok :: "auth_env \<Rightarrow> string \<Rightarrow> string \<Rightarrow> int \<Rightarrow> auth_state \<Rightarrow> user_record \<Rightarrow> bool" where
  "credentials_ok ev username password now st u \<longleftrightarrow> find_by_username (normalise_username username) st = Some u
     \<and> us_active u \<and> \<not> is_locked now u \<and> fst (verify_password (ae_hasher ev) password (us_hash u))"

definition outcome :: "auth_env \<Rightarrow> user_record \<Rightarrow> auth_status" where
  "outcome ev u = (if au_mfa (ae_settings ev) then (if us_mfa u = None then Mfa_enrollment_required else Mfa_required)
     else if us_must_change u then Password_change_required else Success)"

lemma issue_facts:
  "issue ev cfg user ip agent now token sid st = (ok s, st') \<Longrightarrow> sr_user (snd s) = user \<and> sr_issued (snd s) = now
    \<and> sr_revoked (snd s) = None \<and> sr_token_hash (snd s) = se_digest ev token \<and> sr_id (snd s) = sid
    \<and> st_records st' = st_records st @ [(sr_token_hash (snd s), snd s)]"
  by (auto simp: issue_def Let_def store_create_def split: sum.splits if_splits)

lemma send_challenge_facts:
  "send_challenge ev status purpose reason u now fr st = (ok r, st') \<Longrightarrow>
    ar_status r = status \<and> ar_user r = Some u \<and> ar_session r = None \<and> ar_challenge r \<noteq> None"
  by (auto simp: send_challenge_def challenged_def split: sum.splits)

lemma issue_after_primary_facts:
  "issue_after_primary ev u cl now fr st = (ok r, st') \<Longrightarrow>
    ar_status r = (if us_must_change u then Password_change_required else Success) \<and> ar_user r = Some (us_id u)
    \<and> (us_must_change u \<longrightarrow> ar_session r = None)
    \<and> (\<not> us_must_change u \<longrightarrow> (\<exists>s. ar_session r = Some s \<and> sr_user (snd s) = us_id u))"
  by (auto simp: issue_after_primary_def signed_in_def on_sessions_def split: if_splits sum.splits prod.splits
      dest!: send_challenge_facts issue_facts)

lemma after_password_facts:
  assumes "after_password ev u cl now fr st = (ok r, st')"
  shows "ar_status r = outcome ev u \<and> ar_user r = Some (us_id u)
    \<and> (\<forall>s. ar_session r = Some s \<longrightarrow> sr_user (snd s) = us_id u) \<and> (ar_session r \<noteq> None \<longleftrightarrow> outcome ev u = Success)"
proof (cases "au_mfa (ae_settings ev)")
  case True
  then show ?thesis using assms
    by (auto simp: after_password_def outcome_def split: if_splits dest!: send_challenge_facts)
next
  case False
  then have "issue_after_primary ev u cl now fr st = (ok r, st')" using assms by (simp add: after_password_def)
  from issue_after_primary_facts [OF this] False show ?thesis by (auto simp: outcome_def)
qed

lemma count_failure_facts: "count_failure ev u now st = (ok r, st') \<Longrightarrow> r = failed_result"
  by (auto simp: count_failure_def Let_def split: if_splits sum.splits)

lemma failed_result_status [simp]: "ar_status failed_result = Failed" "ar_session failed_result = None"
  "ar_status failed_mfa = Failed" "ar_session failed_mfa = None"
  by (simp_all add: failed_result_def failed_mfa_def)

lemma unlock_simps [simp]: "us_active (unlock u) = us_active u" "us_id (unlock u) = us_id u" "us_hash (unlock u) = us_hash u"
  "us_mfa (unlock u) = us_mfa u" "us_must_change (unlock u) = us_must_change u" "us_locked (unlock u) = None"
  by (simp_all add: unlock_def)

lemma outcome_not_failed [simp]: "outcome ev u \<noteq> Failed"
  by (simp add: outcome_def)

lemma outcome_cong: "us_mfa u = us_mfa v \<Longrightarrow> us_must_change u = us_must_change v \<Longrightarrow> outcome ev u = outcome ev v"
  by (simp add: outcome_def)

text \<open>
  C31: A sign-in that returns gives anything but the generic failure exactly when the named user exists, is active, is
  not locked and the password verifies; then it is a session of that user exactly when neither a second factor nor a
  password change is due, and otherwise the step that is due.
\<close>

theorem sign_in_outcome:
  assumes "sign_in ev username password cl now fr st = (ok r, st')"
  shows "(r = failed_result \<longleftrightarrow> (\<nexists>u. credentials_ok ev username password now st u))
    \<and> (\<forall>u. credentials_ok ev username password now st u \<longrightarrow> ar_status r = outcome ev u \<and> ar_user r = Some (us_id u)
        \<and> (ar_session r \<noteq> None \<longleftrightarrow> outcome ev u = Success)
        \<and> (\<forall>s. ar_session r = Some s \<longrightarrow> sr_user (snd s) = us_id u))"
proof (cases "\<exists>u. credentials_ok ev username password now st u")
  case False
  have "r = failed_result"
    using assms False
    by (auto simp: sign_in_def credentials_ok_def Let_def split: option.splits if_splits dest!: count_failure_facts)
  then show ?thesis using False by blast
next
  case True
  then obtain u where u: "credentials_ok ev username password now st u" ..
  then have only: "credentials_ok ev username password now st v \<longleftrightarrow> v = u" for v by (auto simp: credentials_ok_def)
  define v where "v = verified_user ev (unlock u) (snd (verify_password (ae_hasher ev) password (us_hash u))) (fr_salt fr) password"
  obtain st1 where run: "after_password ev v cl now fr st1 = (ok r, st')"
    using assms u by (simp add: sign_in_def credentials_ok_def Let_def v_def)
  have v: "us_id v = us_id u" "us_mfa v = us_mfa u" "us_must_change v = us_must_change u"
    by (simp_all add: v_def verified_user_def)
  have "outcome ev v = outcome ev u" using v(2,3) by (rule outcome_cong)
  with after_password_facts [OF run] v(1) have
    "ar_status r = outcome ev u \<and> ar_user r = Some (us_id u)
      \<and> (\<forall>s. ar_session r = Some s \<longrightarrow> sr_user (snd s) = us_id u) \<and> (ar_session r \<noteq> None \<longleftrightarrow> outcome ev u = Success)" by simp
  then show ?thesis unfolding only using failed_result_status(1) outcome_not_failed by metis
qed

section \<open>Lockout\<close>

lemma find_saved:
  "find (\<lambda>u. us_username u = n) us = Some u \<Longrightarrow> us_username v = n \<Longrightarrow> us_id v = us_id u \<Longrightarrow>
    find (\<lambda>u. us_username u = n) (map (\<lambda>w. if us_id w = us_id v then v else w) us) = Some v"
  by (induction us) (auto split: if_splits)

lemma find_by_username_saved:
  assumes "find_by_username n st = Some u" and "us_username v = us_username u" and "us_id v = us_id u"
  shows "find_by_username n (save_user v st) = Some v"
proof -
  have "us_username u = n" using assms(1) by (auto simp: find_by_username_def find_Some_iff)
  then show ?thesis using assms find_saved [of n "as_users st" u v] by (simp add: find_by_username_def save_user_def)
qed

lemma audit_users [simp]:
  "find_by_username n (audit_failure w reason st) = find_by_username n st"
  "find_by_username n (audit_success i reason st) = find_by_username n st"
  "as_sessions (audit_failure w reason st) = as_sessions st" "as_sessions (audit_success i reason st) = as_sessions st"
  "as_sessions (save_user u st) = as_sessions st"
  by (simp_all add: find_by_username_def audit_failure_def audit_success_def save_user_def)

text \<open>One wrong guess: the password, the instant and what the attempt draws.\<close>

type_synonym guess = "string \<times> int \<times> fresh"

fun guess_once :: "auth_env \<Rightarrow> string \<Rightarrow> client \<Rightarrow> guess \<Rightarrow> auth_state \<Rightarrow> auth_state" where
  "guess_once ev username cl (password, t, fr) st = snd (sign_in ev username password cl t fr st)"

definition guesses :: "auth_env \<Rightarrow> string \<Rightarrow> client \<Rightarrow> guess list \<Rightarrow> auth_state \<Rightarrow> auth_state" where
  "guesses ev username cl gs st = fold (guess_once ev username cl) gs st"

definition wrong_guess :: "auth_env \<Rightarrow> string option \<Rightarrow> guess \<Rightarrow> bool" where
  "wrong_guess ev h g \<longleftrightarrow> (case g of (password, t, fr) \<Rightarrow> \<not> fst (verify_password (ae_hasher ev) password h)
     \<and> 0 \<le> t + au_duration (ae_settings ev) \<and> t + au_duration (ae_settings ev) \<le> max_instant)"

lemma guess_step:
  assumes "find_by_username (normalise_username username) st = Some u" and "us_active u" and "us_locked u = None"
    and "wrong_guess ev (us_hash u) (password, t, fr)"
  shows "find_by_username (normalise_username username) (guess_once ev username cl (password, t, fr) st) =
    Some (u\<lparr>us_failed := max 0 (us_failed u) + 1,
      us_locked := (if max 0 (us_failed u) + 1 \<ge> au_threshold (ae_settings ev) then Some (t + au_duration (ae_settings ev)) else None)\<rparr>)"
proof -
  have "sign_in ev username password cl t fr st = count_failure ev u t st"
    using assms by (simp add: sign_in_def wrong_guess_def is_locked_def unlock_def Let_def)
  moreover have "add_instant t (au_duration (ae_settings ev)) = ok (t + au_duration (ae_settings ev))"
    using assms(4) by (simp add: wrong_guess_def add_instant_def)
  ultimately show ?thesis using find_by_username_saved [OF assms(1)] by (simp add: count_failure_def Let_def)
qed

lemma guesses_lock:
  assumes "find_by_username (normalise_username username) st = Some u" and "us_active u" and "us_locked u = None"
    and "list_all (wrong_guess ev (us_hash u)) gs" and "gs \<noteq> []"
    and "max 0 (us_failed u) + int (length gs) = au_threshold (ae_settings ev)"
  shows "\<exists>v. find_by_username (normalise_username username) (guesses ev username cl gs st) = Some v \<and> us_id v = us_id u
    \<and> us_locked v = Some (fst (snd (last gs)) + au_duration (ae_settings ev))"
  using assms
proof (induction gs arbitrary: st u)
  case (Cons g gs)
  obtain password t fr where g: "g = (password, t, fr)" by (cases g)
  define v where "v = u\<lparr>us_failed := max 0 (us_failed u) + 1,
      us_locked := (if max 0 (us_failed u) + 1 \<ge> au_threshold (ae_settings ev) then Some (t + au_duration (ae_settings ev)) else None)\<rparr>"
  have step: "find_by_username (normalise_username username) (guess_once ev username cl g st) = Some v"
    unfolding g v_def by (rule guess_step [OF Cons.prems(1-3)]) (use Cons.prems(4) g in simp)
  show ?case
  proof (cases "gs = []")
    case True
    then show ?thesis using step Cons.prems(6) g by (simp add: guesses_def v_def)
  next
    case False
    then have "us_locked v = None" using Cons.prems(6) by (cases gs) (simp_all add: v_def)
    moreover have "us_active v" "us_hash v = us_hash u" "us_id v = us_id u" "us_failed v = max 0 (us_failed u) + 1"
      using Cons.prems(2) by (simp_all add: v_def)
    ultimately show ?thesis using Cons.IH [OF step] Cons.prems(4, 6) False by (simp add: guesses_def)
  qed
qed simp

text \<open>
  C32: As many wrong passwords in a row as the threshold lock an active account: until the lock duration after the last of
  them has passed, every sign-in of that user, with the right password too, gets the generic failure and changes nothing
  but the audit log.
\<close>

theorem lockout_after_threshold:
  assumes "make_auth_settings (ae_settings ev) = ok (ae_settings ev)"
    and "find_by_username (normalise_username username) st = Some u" and "us_active u" and "us_failed u = 0" and "us_locked u = None"
    and "list_all (wrong_guess ev (us_hash u)) gs" and "int (length gs) = au_threshold (ae_settings ev)"
    and "later < fst (snd (last gs)) + au_duration (ae_settings ev)"
  shows "sign_in ev username password cl later fr (guesses ev username cl gs st)
    = (ok failed_result, audit_failure (Some (us_id u)) ''account_locked'' (guesses ev username cl gs st))"
proof -
  have "gs \<noteq> []" using assms(1, 7) by (auto simp: make_auth_settings_def split: if_splits)
  then obtain v where "find_by_username (normalise_username username) (guesses ev username cl gs st) = Some v" "us_id v = us_id u"
    "us_locked v = Some (fst (snd (last gs)) + au_duration (ae_settings ev))"
    using guesses_lock [OF assms(2,3,5,6)] assms(4,7) by (metis add_0 max.idem)
  then show ?thesis using assms(8) by (simp add: sign_in_def is_locked_def Let_def)
qed

section \<open>Password change\<close>

lemma on_sessions_ok:
  "on_sessions op st = (ok x, st') \<longleftrightarrow> (\<exists>ss. op (as_sessions st) = (ok x, ss) \<and> st' = st\<lparr>as_sessions := ss\<rparr>)"
  by (auto simp: on_sessions_def split: prod.splits)

lemma replace_password_facts:
  assumes "replace_password ev u new_password cl now fr st = (ok r, st')"
  obtains s and ss :: session_state where "ar_session r = Some s" and "ar_user r = Some (us_id u)" and "ar_status r = Success"
    and "validate_password (ae_hasher ev) (ae_policy ev) (PStr new_password) (known_hashes u) = ok ()"
    and "st_records (as_sessions st') = st_records ss @ [(sr_token_hash (snd s), snd s)]"
    and "st_records ss = map (\<lambda>(k, r). (k, if sr_user r = us_id u \<and> sr_revoked r = None then r\<lparr>sr_revoked := Some now\<rparr> else r))
      (st_records (as_sessions st))"
    and "sr_user (snd s) = us_id u"
proof -
  let ?hashed = "rbind (validate_password (ae_hasher ev) (ae_policy ev) (PStr new_password) (known_hashes u))
      (\<lambda>_. hash_password (ae_hasher ev) (ae_policy ev) (fr_salt fr) (PStr new_password) False)"
  obtain hashed where h: "?hashed = ok hashed" using assms by (cases ?hashed) (auto simp: replace_password_def)
  define st1 where "st1 = save_user (changed_user ev u hashed now) st"
  have a: "as_sessions st1 = as_sessions st" by (simp add: st1_def)
  have v: "validate_password (ae_hasher ev) (ae_policy ev) (PStr new_password) (known_hashes u) = ok ()"
    using h by (auto simp: rbind_ok_iff)
  obtain n st2 where rev: "on_sessions (revoke_all (ae_sessions ev) (us_id u) now (PStr ''password_change'')) st1 = (ok n, st2)"
    using assms h by (cases "on_sessions (revoke_all (ae_sessions ev) (us_id u) now (PStr ''password_change'')) st1")
      (auto simp: replace_password_def st1_def split: sum.splits)
  obtain s st3 where iss: "on_sessions (issue (ae_sessions ev) (ae_cookies ev) (us_id u) (cl_ip cl) (cl_agent cl) now (fr_token fr) (fr_sid fr)) st2 = (ok s, st3)"
    using assms h rev
    by (cases "on_sessions (issue (ae_sessions ev) (ae_cookies ev) (us_id u) (cl_ip cl) (cl_agent cl) now (fr_token fr) (fr_sid fr)) st2")
      (auto simp: replace_password_def st1_def split: sum.splits)
  have r: "r = signed_in (us_id u) s" "as_sessions st' = as_sessions st3"
    using assms h rev iss by (auto simp: replace_password_def st1_def)
  obtain ss where ss: "revoke_all (ae_sessions ev) (us_id u) now (PStr ''password_change'') (as_sessions st1) = (ok n, ss)" "as_sessions st2 = ss"
    using rev by (auto simp: on_sessions_ok)
  have old: "st_records ss = map (\<lambda>(k, r). (k, if sr_user r = us_id u \<and> sr_revoked r = None then r\<lparr>sr_revoked := Some now\<rparr> else r))
      (st_records (as_sessions st))"
    using revoke_all_records [of "ae_sessions ev" "us_id u" now "PStr ''password_change''" "as_sessions st1"] ss(1) a by simp
  obtain ss' where i: "issue (ae_sessions ev) (ae_cookies ev) (us_id u) (cl_ip cl) (cl_agent cl) now (fr_token fr) (fr_sid fr) ss = (ok s, ss')"
    "as_sessions st3 = ss'" using iss ss(2) by (auto simp: on_sessions_ok)
  show thesis
    by (rule that [of s ss]) (use issue_facts [OF i(1)] i(2) r v old in \<open>simp_all add: signed_in_def\<close>)
qed

lemma claim_records [simp]:
  "st_records (as_sessions (snd (claim_auth c now st))) = st_records (as_sessions st)"
  by (simp add: claim_auth_def case_prod_beta)

lemma claim_users [simp]: "as_users (snd (claim_auth c now st)) = as_users st"
  by (simp add: claim_auth_def case_prod_beta)

lemma change_password_runs:
  assumes "change_password ev credential new_password confirmation cl now fr st = (ok r, st')"
  obtains u password st1 where "fst (user_from_credential ev credential now st) = Some u" and "text_of new_password = Some password"
    and "st_records (as_sessions st1) = st_records (as_sessions st)"
    and "replace_password ev u password cl now fr st1 = (ok r, st')"
proof -
  obtain m c where uc: "user_from_credential ev credential now st = (m, c)" by (cases "user_from_credential ev credential now st")
  obtain u where u: "m = Some u" using assms uc by (cases m) (auto simp: change_password_def)
  obtain password where p: "text_of new_password = Some password"
    using assms uc u by (cases "text_of new_password") (auto simp: change_password_def split: if_splits)
  show thesis
  proof (cases c)
    case None
    have "replace_password ev u password cl now fr st = (ok r, st')"
      using assms uc u p None by (auto simp: change_password_def split: if_splits)
    then show thesis by (rule that [of u password st, rotated 3]) (use uc u p in simp_all)
  next
    case (Some ch)
    obtain b st1 where cl: "claim_auth ch now st = (b, st1)" by (cases "claim_auth ch now st")
    have "replace_password ev u password cl now fr st1 = (ok r, st')"
      using assms uc u p Some cl
      by (cases b) (auto simp: change_password_def split: if_splits sum.splits prod.splits)
    then show thesis
      by (rule that [of u password st1, rotated 3]) (use uc u p claim_records [of ch now st] cl in simp_all)
  qed
qed

lemma validate_in_records:
  "validate ev cookie now st = Some r \<Longrightarrow> (\<exists>k. (k, r) \<in> set (st_records st)) \<and> sr_revoked r = None"
  using validate_facts [of ev cookie now st r] lookup_in by (fastforce simp: live_at_def)

text \<open>
  C34: A password change that succeeds is made by the user of a live session or challenge. The new password
  meets the policy and verifies against none of the first \<open>history_size\<close> hashes among the current one
  and the stored history, newest first, which are the ones the policy checks. The user is left with one
  session, the one just issued: it is the only session of that user to which any cookie validates
  afterwards, at any time.
\<close>

theorem password_change_revokes_others:
  assumes "change_password ev credential new_password confirmation cl now fr st = (ok r, st')"
  shows "\<exists>u p s. fst (user_from_credential ev credential now st) = Some u \<and> text_of new_password = Some p
    \<and> policy_errors (ae_policy ev) p = []
    \<and> (\<forall>h\<in>set (take (nat (pp_history (ae_policy ev))) (known_hashes u)). \<not> fst (verify_password (ae_hasher ev) p (Some h)))
    \<and> ar_status r = Success \<and> ar_user r = Some (us_id u) \<and> ar_session r = Some s \<and> sr_user (snd s) = us_id u
    \<and> (\<forall>cookie later live. validate_session ev cookie later st' = Some live \<and> sr_user live = us_id u \<longrightarrow> live = snd s)"
proof -
  obtain u password st1 where u: "fst (user_from_credential ev credential now st) = Some u" "text_of new_password = Some password"
    and run: "replace_password ev u password cl now fr st1 = (ok r, st')" using change_password_runs [OF assms] .
  obtain s and ss :: session_state where s: "ar_session r = Some s" "ar_user r = Some (us_id u)" "ar_status r = Success"
    and v: "validate_password (ae_hasher ev) (ae_policy ev) (PStr password) (known_hashes u) = ok ()"
    and after: "st_records (as_sessions st') = st_records ss @ [(sr_token_hash (snd s), snd s)]"
    and old: "st_records ss = map (\<lambda>(k, r). (k, if sr_user r = us_id u \<and> sr_revoked r = None then r\<lparr>sr_revoked := Some now\<rparr> else r))
      (st_records (as_sessions st1))"
    and own: "sr_user (snd s) = us_id u" using replace_password_facts [OF run] .
  have only: "live = snd s" if live: "validate_session ev cookie later st' = Some live" "sr_user live = us_id u"
    for cookie later live
  proof -
    obtain k where "(k, live) \<in> set (st_records (as_sessions st'))" "sr_revoked live = None"
      using validate_in_records [OF live(1) [unfolded validate_session_def]] by auto
    then show ?thesis using live(2) unfolding after old by (auto split: if_splits)
  qed
  have "policy_errors (ae_policy ev) password = []" using v unfolding validate_password_ok by blast
  moreover have "\<forall>h\<in>set (take (nat (pp_history (ae_policy ev))) (known_hashes u)).
      \<not> fst (verify_password (ae_hasher ev) password (Some h))"
    using v unfolding validate_password_ok reused_def by (auto simp: list_ex_iff)
  ultimately show ?thesis using u s own only by blast
qed

section \<open>The second factor is used once\<close>

lemma read_challenge_later:
  assumes "read_challenge ev cookie purpose now = Some c" and "read_challenge ev cookie purpose later = Some c'"
  shows "ch_nonce c' = ch_nonce c \<and> ch_expires c' = ch_expires c \<and> ch_user c' = ch_user c \<and> later < ch_expires c"
  using assms by (auto simp: read_challenge_def split: option.splits if_splits pyval.splits)

lemma issue_after_primary_claimed:
  "issue_after_primary ev u cl now fr st = (x, st') \<Longrightarrow> st_claimed (as_sessions st') = st_claimed (as_sessions st)"
  by (auto simp: issue_after_primary_def send_challenge_def on_sessions_def split: if_splits sum.splits prod.splits
      dest: arg_cong [of _ _ "\<lambda>p. st_claimed (snd p)"])

lemma verify_mfa_accepted:
  assumes "read_challenge (ae_sessions ev) (Some cookie) (Some ''mfa'') now = Some c"
    and "verify_mfa ev cookie code cl now fr st = (ok r, st')" and "ar_status r \<noteq> Failed"
  obtains u secret st1 where "get_user (ch_user c) st = Some u" and "us_active u" and "us_mfa u = Some secret"
    and "claim_auth c now st = (True, st1)" and "totp_accepts ev secret code now"
    and "issue_after_primary ev u cl now fr (audit_success (us_id u) ''mfa_verified'' st1) = (ok r, st')"
proof -
  obtain u where u: "get_user (ch_user c) st = Some u"
    using assms by (cases "get_user (ch_user c) st") (auto simp: verify_mfa_def)
  obtain secret where m: "us_active u" "us_mfa u = Some secret"
    using assms u by (cases "us_mfa u"; cases "us_active u") (auto simp: verify_mfa_def)
  obtain b st1 where cl: "claim_auth c now st = (b, st1)" by (cases "claim_auth c now st")
  have b: "b" using assms u m cl by (cases b) (auto simp: verify_mfa_def)
  have t: "totp_accepts ev secret code now" using assms u m cl b by (cases "totp_accepts ev secret code now") (auto simp: verify_mfa_def)
  show thesis by (rule that [OF u m cl [simplified b] t]) (use assms u m cl b t in \<open>simp add: verify_mfa_def\<close>)
qed

lemma claim_auth_claimed:
  "claim_auth c now st = (True, st1) \<Longrightarrow> claimed (ch_nonce c) (ch_expires c) (as_sessions st1)"
  using claim_nonce_granted [of "ch_nonce c" "ch_expires c" now "st_claimed (as_sessions st)"]
  by (auto simp: claim_auth_def claim_challenge_def claimed_def case_prod_beta)

lemma claim_auth_refused:
  "claimed (ch_nonce c) x (as_sessions st) \<Longrightarrow> now < x \<Longrightarrow> \<not> fst (claim_auth c now st)"
  using claim_nonce_refused [of "ch_nonce c" x "st_claimed (as_sessions st)" now "ch_expires c"]
  by (simp add: claim_auth_def claim_challenge_def claimed_def case_prod_beta)

lemma verify_mfa_refused:
  assumes "\<And>c. read_challenge (ae_sessions ev) (Some cookie) (Some ''mfa'') now = Some c \<Longrightarrow> \<not> fst (claim_auth c now st)"
  shows "fst (verify_mfa ev cookie code cl now fr st) = ok failed_mfa"
proof (cases "read_challenge (ae_sessions ev) (Some cookie) (Some ''mfa'') now")
  case None
  then show ?thesis by (simp add: verify_mfa_def)
next
  case (Some c)
  obtain b st1 where cl: "claim_auth c now st = (b, st1)" by (cases "claim_auth c now st")
  then have "\<not> b" using assms [OF Some] by simp
  then show ?thesis using Some cl
    by (cases "get_user (ch_user c) st") (auto simp: verify_mfa_def split: bool.splits option.splits)
qed

text \<open>
  C33: A second factor that passes was checked for the active user the challenge names, with a code the TOTP service
  accepts, and uses its challenge up: as long as the nonce is not released, every later attempt with the same cookie gets
  the generic failure, whatever the sessions went through in between.
\<close>

theorem second_factor_used_once:
  assumes "read_challenge (ae_sessions ev) (Some cookie) (Some ''mfa'') now = Some c"
    and "verify_mfa ev cookie code cl now fr st = (ok r, st')" and "ar_status r \<noteq> Failed"
    and "list_all (claim_kept (ch_nonce c) (ch_expires c)) es"
    and "as_sessions st2 = run_sessions env cfg es (as_sessions st')"
  shows "(\<exists>u secret. get_user (ch_user c) st = Some u \<and> us_active u \<and> us_mfa u = Some secret \<and> totp_accepts ev secret code now)
    \<and> fst (verify_mfa ev cookie code' cl' later fr' st2) = ok failed_mfa"
proof -
  obtain u secret st1 where u: "get_user (ch_user c) st = Some u" "us_active u" "us_mfa u = Some secret" "totp_accepts ev secret code now"
    and cl: "claim_auth c now st = (True, st1)"
    and iss: "issue_after_primary ev u cl now fr (audit_success (us_id u) ''mfa_verified'' st1) = (ok r, st')"
    using verify_mfa_accepted [OF assms(1-3)] .
  have "claimed (ch_nonce c) (ch_expires c) (as_sessions st')"
    using claim_auth_claimed [OF cl] issue_after_primary_claimed [OF iss] by (simp add: claimed_def)
  then have "claimed (ch_nonce c) (ch_expires c) (as_sessions st2)" unfolding assms(5) by (rule claimed_run [OF assms(4)])
  then have "fst (verify_mfa ev cookie code' cl' later fr' st2) = ok failed_mfa"
    using read_challenge_later [OF assms(1)] claim_auth_refused by (intro verify_mfa_refused) metis
  then show ?thesis using u by blast
qed

section \<open>Witnesses\<close>

definition demo_loads :: "string \<Rightarrow> pyval option" where
  "demo_loads c = (if c = ''mfa'' \<or> c = ''password_change'' then
       Some (PMap [(PStr ''v'', PInt 1), (PStr ''sub'', PStr (uuid_text 3)), (PStr ''purpose'', PStr c),
         (PStr ''iat'', PStr (iso_instant_auto 0)), (PStr ''exp'', PStr (iso_instant_auto 1000000)),
         (PStr ''nonce'', PStr ''n''), (PStr ''claims'', PMap [])])
     else se_loads demo_env c)"

definition demo_auth :: auth_env where
  "demo_auth = \<lparr>ae_sessions = demo_env\<lparr>se_loads := demo_loads\<rparr>, ae_cookies = demo_settings,
     ae_hasher = \<lparr>ha_verify = (\<lambda>h p. h = ''$'' @ p), ha_stale = (\<lambda>h. False), ha_hash = (\<lambda>salt p. ''$'' @ p), ha_dummy = ''-''\<rparr>,
     ae_policy = \<lparr>pp_min = 3, pp_max = 20, pp_uppercase = False, pp_lowercase = True, pp_digit = True, pp_special = False, pp_history = 2\<rparr>,
     ae_totp = Some \<lparr>tp_verify = (\<lambda>s c t. c = ''123456''), tp_enroll = (\<lambda>n. ok (''s'', ''p'', ''u''))\<rparr>,
     ae_settings = \<lparr>au_threshold = 2, au_duration = 60, au_mfa = False\<rparr>\<rparr>"

definition demo_user :: user_record where
  "demo_user = \<lparr>us_id = 3, us_username = ''ana'', us_hash = Some ''$abc1'', us_active = True, us_failed = 0, us_locked = None,
     us_changed = None, us_must_change = False, us_mfa = Some ''m'', us_history = []\<rparr>"

definition demo_fresh :: fresh where "demo_fresh = \<lparr>fr_token = ''t'', fr_sid = 7, fr_nonce = ''n2'', fr_salt = ''s''\<rparr>"
definition demo_client :: client where "demo_client = \<lparr>cl_ip = None, cl_agent = None\<rparr>"
definition demo_users :: "user_record list \<Rightarrow> auth_state" where
  "demo_users us = \<lparr>as_users = us, as_sessions = no_sessions, as_log = []\<rparr>"

definition demo_signed :: session_record where
  "demo_signed = \<lparr>sr_id = 7, sr_user = 3, sr_token_hash = ''dt'', sr_issued = 50, sr_seen = 50, sr_expires = 60,
     sr_absolute = 75, sr_ip = None, sr_agent = None, sr_revoked = None\<rparr>"

definition demo_after :: auth_state where
  "demo_after = snd (sign_in demo_auth '' Ana '' ''abc1'' demo_client 50 demo_fresh (demo_users [demo_user]))"

lemma demo_sign_in: "sign_in demo_auth '' Ana '' ''abc1'' demo_client 50 demo_fresh (demo_users [demo_user])
    = (ok (signed_in 3 (''cookie'', demo_signed)), demo_after)"
  unfolding demo_after_def by code_simp

lemma demo_credentials: "credentials_ok demo_auth '' Ana '' ''abc1'' 50 (demo_users [demo_user]) demo_user"
  by code_simp

lemma demo_outcome: "outcome demo_auth demo_user = Success"
  by code_simp

theorem sign_in_outcome_witness: "ar_status (signed_in 3 (''cookie'', demo_signed)) = Success \<and> sr_user demo_signed = 3"
  using sign_in_outcome [OF demo_sign_in] demo_credentials demo_outcome by (simp add: signed_in_def demo_signed_def)

definition demo_guesses :: "guess list" where
  "demo_guesses = [(''x'', 10, demo_fresh), (''y'', 20, demo_fresh)]"

lemma demo_guesses_wrong: "list_all (wrong_guess demo_auth (us_hash demo_user)) demo_guesses"
  by code_simp

lemma demo_found: "find_by_username (normalise_username ''ana'') (demo_users [demo_user]) = Some demo_user"
  by code_simp

lemma demo_auth_made: "make_auth_settings (ae_settings demo_auth) = ok (ae_settings demo_auth)"
  by code_simp

theorem lockout_after_threshold_witness:
  "fst (sign_in demo_auth ''ana'' ''abc1'' demo_client 79 demo_fresh
     (guesses demo_auth ''ana'' demo_client demo_guesses (demo_users [demo_user]))) = ok failed_result"
proof -
  have "79 < fst (snd (last demo_guesses)) + au_duration (ae_settings demo_auth)"
    by (simp add: demo_guesses_def demo_auth_def)
  from lockout_after_threshold [OF demo_auth_made demo_found _ _ _ demo_guesses_wrong _ this] show ?thesis
    by (simp add: demo_user_def demo_guesses_def demo_auth_def)
qed

definition demo_changed :: auth_state where
  "demo_changed = snd (change_password demo_auth ''password_change'' (PStr ''abc2'') PNone demo_client 50 demo_fresh (demo_users [demo_user]))"

lemma demo_change: "change_password demo_auth ''password_change'' (PStr ''abc2'') PNone demo_client 50 demo_fresh (demo_users [demo_user])
    = (ok (signed_in 3 (''cookie'', demo_signed)), demo_changed)"
  unfolding demo_changed_def by code_simp

lemma demo_change_live: "validate_session demo_auth (Some ''cookie'') 55 demo_changed = Some demo_signed"
  by code_simp

theorem password_change_revokes_others_witness:
  "\<exists>u. fst (user_from_credential demo_auth ''password_change'' 50 (demo_users [demo_user])) = Some u
     \<and> policy_errors (ae_policy demo_auth) ''abc2'' = [] \<and> us_id u = 3"
proof -
  obtain u p s where "fst (user_from_credential demo_auth ''password_change'' 50 (demo_users [demo_user])) = Some u"
      "text_of (PStr ''abc2'') = Some p" "policy_errors (ae_policy demo_auth) p = []"
      "ar_user (signed_in 3 (''cookie'', demo_signed)) = Some (us_id u)"
    using password_change_revokes_others [OF demo_change] by blast
  then show ?thesis by (simp add: signed_in_def)
qed

definition demo_mfa_challenge :: challenge where
  "demo_mfa_challenge = \<lparr>ch_cookie = ''mfa'', ch_user = 3, ch_purpose = ''mfa'', ch_issued = 0, ch_expires = 1000000,
     ch_claims = [], ch_nonce = ''n''\<rparr>"

lemma demo_mfa_read: "read_challenge (ae_sessions demo_auth) (Some ''mfa'') (Some ''mfa'') 50 = Some demo_mfa_challenge"
  by code_simp

definition demo_verified :: auth_state where
  "demo_verified = snd (verify_mfa demo_auth ''mfa'' ''123456'' demo_client 50 demo_fresh (demo_users [demo_user]))"

lemma demo_mfa: "verify_mfa demo_auth ''mfa'' ''123456'' demo_client 50 demo_fresh (demo_users [demo_user])
    = (ok (signed_in 3 (''cookie'', demo_signed)), demo_verified)"
  unfolding demo_verified_def by code_simp

theorem second_factor_used_once_witness:
  "fst (verify_mfa demo_auth ''mfa'' ''123456'' demo_client 60 demo_fresh demo_verified) = ok failed_mfa"
proof -
  have "ar_status (signed_in 3 (''cookie'', demo_signed)) \<noteq> Failed" by (simp add: signed_in_def)
  from second_factor_used_once [OF demo_mfa_read demo_mfa this, where es = "[]" and ?st2.0 = demo_verified] show ?thesis by simp
qed

section \<open>A gap: the account may be deactivated\<close>

text \<open>
  Sign-in and the second factor refuse an account that is no longer active; a password change does not look. Within the
  life of a password-change challenge a deactivated account changes its password and gets a fresh session.
\<close>

lemma change_password_of_inactive:
  "change_password demo_auth ''password_change'' (PStr ''abc2'') PNone demo_client 50 demo_fresh (demo_users [demo_user\<lparr>us_active := False\<rparr>])
    = (ok (signed_in 3 (''cookie'', demo_signed)), snd (change_password demo_auth ''password_change'' (PStr ''abc2'') PNone demo_client 50
        demo_fresh (demo_users [demo_user\<lparr>us_active := False\<rparr>])))"
  by code_simp

end
