(* ===== verification/Signal_Materiality.thy ===== *)
theory Signal_Materiality
  imports Forecast_Trend Covenant_Evaluate
begin

text \<open>
  Materiality of the evidence for one signal (\<open>domain/signals/materiality.py\<close>): the largest projected erosion of
  headroom over the covenants it affects, and the T4 decision. The printer of a Decimal inside a reason is a parameter;
  the text of an error inside a reason is dropped.
\<close>

section \<open>Thresholds\<close>

datatype materiality_thresholds = Materiality_thresholds (erosion_threshold: decimal)

definition make_materiality_thresholds :: "pyval \<Rightarrow> materiality_thresholds result" where
  "make_materiality_thresholds v = rbind (validate_decimal v) (\<lambda>q.
     if 0 \<le> q \<and> q \<le> 1 then ok (Materiality_thresholds q) else raise ValueError)"

definition threshold_pct :: "materiality_thresholds \<Rightarrow> decimal" where
  "threshold_pct t = dmul (erosion_threshold t) 100"

fun first_set :: "pyval \<Rightarrow> string list \<Rightarrow> pyval option" where
  "first_set v [] = None"
| "first_set v (n # ns) = (case or_none (py_attr v n) of PNone \<Rightarrow> first_set v ns | x \<Rightarrow> Some x)"

definition materiality_section :: "pyval \<Rightarrow> pyval result" where
  "materiality_section store = (case store of
     PMap kvs \<Rightarrow> ok (case map_get kvs ''T4'' of Some v \<Rightarrow> v | None \<Rightarrow> store)
   | PStore kvs \<Rightarrow> ok (or_none (lookup kvs ''T4''))
   | _ \<Rightarrow> (case first_set store [''T4'', ''t4'', ''materiality''] of Some v \<Rightarrow> ok v | None \<Rightarrow> raise ValueError))"

datatype materiality_store = T4_configured materiality_thresholds | T4_store pyval

definition materiality_from_store :: "materiality_store \<Rightarrow> materiality_thresholds result" where
  "materiality_from_store store = (case store of T4_configured t \<Rightarrow> ok t
     | T4_store v \<Rightarrow> rbind (materiality_section v) (\<lambda>s.
         case read_present s [''headroom_erosion_pct''] PNone of
           PNone \<Rightarrow> raise ValueError
         | PDec q \<Rightarrow> make_materiality_thresholds (PDec q)
         | PDecSpecial \<Rightarrow> make_materiality_thresholds PDecSpecial
         | _ \<Rightarrow> raise TypeError))"

section \<open>Affected covenants\<close>

datatype covenant_id = Uuid_covenant nat | Text_covenant string

definition identifier_of :: "pyval \<Rightarrow> covenant_id result" where
  "identifier_of v = (case uuid_of v of Some u \<Rightarrow> ok (Uuid_covenant u)
     | None \<Rightarrow> rbind (clean_text v 200) (\<lambda>t. ok (Text_covenant t)))"

definition identifier_text :: "covenant_id \<Rightarrow> string" where
  "identifier_text i = (case i of Uuid_covenant u \<Rightarrow> uuid_text u | Text_covenant t \<Rightarrow> t)"

record covenant_headroom =
  hr_covenant :: covenant_id
  hr_threshold :: "decimal option"
  hr_current :: "decimal option"
  hr_projected :: "decimal option"
  hr_direction :: "string option"
  hr_current_value :: "decimal option"
  hr_projected_value :: "decimal option"

definition covenant_direction :: "pyval \<Rightarrow> string result" where
  "covenant_direction v = (case v of PList _ \<Rightarrow> raise TypeError | PMap _ \<Rightarrow> raise TypeError
     | _ \<Rightarrow> (case text_of v of Some s \<Rightarrow> if s \<in> set directions then ok s else raise ValueError | None \<Rightarrow> raise ValueError))"

definition facts_complete :: "covenant_headroom \<Rightarrow> bool" where
  "facts_complete h \<longleftrightarrow>
     (let headrooms = hr_current h \<noteq> None \<or> hr_projected h \<noteq> None; covenant_values = hr_current_value h \<noteq> None \<or> hr_projected_value h \<noteq> None
      in \<not> (headrooms \<and> covenant_values) \<and> \<not> (headrooms \<and> (hr_current h = None \<or> hr_projected h = None))
       \<and> \<not> (covenant_values \<and> (hr_current_value h = None \<or> hr_projected_value h = None))
       \<and> \<not> (covenant_values \<and> hr_direction h = None))"

definition make_headroom :: "pyval \<Rightarrow> pyval \<Rightarrow> pyval \<Rightarrow> pyval \<Rightarrow> pyval \<Rightarrow> pyval \<Rightarrow> pyval \<Rightarrow> covenant_headroom result" where
  "make_headroom covenant threshold current projected direction current_value projected_value =
     rbind (identifier_of covenant) (\<lambda>i. rbind (optional validate_decimal threshold) (\<lambda>t.
     rbind (optional covenant_direction direction) (\<lambda>d.
     rbind (optional validate_decimal current) (\<lambda>c. rbind (optional validate_decimal projected) (\<lambda>p.
     rbind (optional validate_decimal current_value) (\<lambda>v. rbind (optional validate_decimal projected_value) (\<lambda>w.
     let h = \<lparr>hr_covenant = i, hr_threshold = t, hr_current = c, hr_projected = p, hr_direction = d,
           hr_current_value = v, hr_projected_value = w\<rparr>
     in if facts_complete h then ok h else raise ValueError)))))))"

text \<open>A value with these fields and, unless a mapping gives it, the identifier.\<close>

definition headroom_of_value :: "pyval option \<Rightarrow> pyval \<Rightarrow> covenant_headroom result" where
  "headroom_of_value key v =
     rbind (case key of Some k \<Rightarrow> ok k | None \<Rightarrow> required_field v [''covenant_id'', ''id'']) (\<lambda>i.
     make_headroom i (read_present v [''threshold'', ''threshold_used''] PNone)
       (read_present v [''current_headroom_pct'', ''current_headroom''] PNone)
       (read_present v [''projected_headroom_pct'', ''projected_headroom''] PNone)
       (read_present v [''direction''] PNone) (read_present v [''current_value''] PNone)
       (read_present v [''projected_value_90d'', ''projected_value''] PNone))"

definition looks_like_projection :: "(pyval \<times> pyval) list \<Rightarrow> bool" where
  "looks_like_projection kvs \<longleftrightarrow> list_ex (\<lambda>n. map_get kvs n \<noteq> None) [''covenant_id'', ''threshold'', ''threshold_used'',
     ''current_headroom_pct'', ''projected_headroom_pct'', ''current_value'', ''projected_value_90d'']"

text \<open>The inputs: a sequence of facts or adapter values, facts keyed by covenant, or any other value.\<close>

datatype projection_input = Facts covenant_headroom | Adapter_value pyval
datatype headroom_inputs = Headrooms "projection_input list" | Headrooms_by_covenant "(pyval \<times> covenant_headroom) list"
  | Headroom_value pyval

definition decimal_arg :: "decimal option \<Rightarrow> pyval" where "decimal_arg q = pyopt PDec q"

definition keyed_headroom :: "pyval \<Rightarrow> covenant_headroom \<Rightarrow> covenant_headroom result" where
  "keyed_headroom key h = (if key = PNone then ok h else rbind (identifier_of key) (\<lambda>i. if hr_covenant h = i then ok h else
     make_headroom key (decimal_arg (hr_threshold h)) (decimal_arg (hr_current h)) (decimal_arg (hr_projected h))
       (pyopt PStr (hr_direction h)) (decimal_arg (hr_current_value h)) (decimal_arg (hr_projected_value h))))"

definition normalise_inputs :: "headroom_inputs \<Rightarrow> covenant_headroom list result" where
  "normalise_inputs i = (case i of
     Headrooms xs \<Rightarrow> rmap (\<lambda>x. case x of Facts h \<Rightarrow> ok h | Adapter_value v \<Rightarrow> headroom_of_value None v) xs
   | Headrooms_by_covenant kvs \<Rightarrow> rmap (\<lambda>(k, h). keyed_headroom k h) kvs
   | Headroom_value v \<Rightarrow> (case v of
       PMap kvs \<Rightarrow> if looks_like_projection kvs then rbind (headroom_of_value None v) (\<lambda>h. ok [h])
         else rmap (\<lambda>(k, x). headroom_of_value (if k = PNone then None else Some k) x) kvs
     | PList vs \<Rightarrow> rmap (headroom_of_value None) vs
     | _ \<Rightarrow> raise TypeError))"

section \<open>Erosion\<close>

record covenant_materiality =
  cm_covenant :: covenant_id
  cm_threshold :: "decimal option"
  cm_current :: "decimal option"
  cm_projected :: "decimal option"
  cm_erosion :: decimal
  cm_included :: bool
  cm_reason :: string

definition make_calculation :: "covenant_materiality \<Rightarrow> covenant_materiality result" where
  "make_calculation c = (if cm_erosion c < 0 then raise ValueError else if strip (cm_reason c) = [] then raise ValueError
     else if \<not> cm_included c \<and> cm_erosion c \<noteq> 0 then raise ValueError else ok c)"

definition projected_erosion :: "decimal \<Rightarrow> decimal \<Rightarrow> decimal" where
  "projected_erosion current projected = max 0 (dsub current projected)"

definition headrooms :: "covenant_headroom \<Rightarrow> (decimal \<times> decimal) result" where
  "headrooms h = (case (hr_current h, hr_projected h) of (Some c, Some p) \<Rightarrow> ok (c, p)
     | _ \<Rightarrow> (case (hr_current_value h, hr_projected_value h, hr_direction h) of
         (Some v, Some w, Some d) \<Rightarrow>
           rbind (signed_headroom (PDec v) (decimal_arg (hr_threshold h)) d) (\<lambda>c.
           rbind (signed_headroom (PDec w) (decimal_arg (hr_threshold h)) d) (\<lambda>p. ok (c, p)))
       | _ \<Rightarrow> raise ValueError))"

definition excluded :: "covenant_headroom \<Rightarrow> string \<Rightarrow> covenant_materiality result" where
  "excluded h reason = make_calculation \<lparr>cm_covenant = hr_covenant h, cm_threshold = hr_threshold h, cm_current = None,
     cm_projected = None, cm_erosion = 0, cm_included = False, cm_reason = reason\<rparr>"

definition headroom_error :: "pyerr \<Rightarrow> bool" where
  "headroom_error e \<longleftrightarrow> e \<in> {ZeroDivisionError, OverflowError, TypeError, ValueError}"

definition calculate_projection :: "covenant_headroom \<Rightarrow> covenant_materiality result" where
  "calculate_projection h =
     (if hr_threshold h = None then excluded h ''excluded: covenant threshold is absent''
      else if hr_threshold h = Some 0 then excluded h ''excluded: covenant threshold is zero''
      else (case headrooms h of
          Inl e \<Rightarrow> if headroom_error e then excluded h ''excluded: headroom is unavailable'' else raise e
        | Inr (c, p) \<Rightarrow> make_calculation \<lparr>cm_covenant = hr_covenant h, cm_threshold = hr_threshold h, cm_current = Some c,
            cm_projected = Some p, cm_erosion = projected_erosion c p, cm_included = True,
            cm_reason = ''included: usable covenant headroom''\<rparr>))"

section \<open>The score\<close>

record materiality_score =
  ms_pct :: decimal
  ms_counts :: bool
  ms_driver :: "covenant_id option"
  ms_reason :: string
  ms_thresholds :: materiality_thresholds
  ms_scores :: "covenant_materiality list"

definition maximum_of :: "covenant_materiality list \<Rightarrow> covenant_materiality option" where
  "maximum_of cs = (case filter cm_included cs of [] \<Rightarrow> None
     | c # rest \<Rightarrow> Some (max_key (\<lambda>x. (cm_erosion x, identifier_text (cm_covenant x))) c rest))"

definition make_materiality_score :: "materiality_score \<Rightarrow> materiality_score result" where
  "make_materiality_score s =
     (if ms_pct s < 0 then raise ValueError
      else if strip (ms_reason s) = [] then raise ValueError
      else if ms_counts s \<noteq> (ms_driver s \<noteq> None \<and> ms_pct s \<ge> threshold_pct (ms_thresholds s)) then raise ValueError
      else if ms_driver s = None \<and> ms_pct s \<noteq> 0 then raise ValueError
      else (case maximum_of (ms_scores s) of
          Some m \<Rightarrow> if ms_pct s \<noteq> cm_erosion m then raise ValueError
            else if ms_driver s \<noteq> Some (cm_covenant m) then raise ValueError else ok s
        | None \<Rightarrow> if ms_pct s \<noteq> 0 \<or> ms_driver s \<noteq> None then raise ValueError else ok s))"

definition zero_score :: "materiality_thresholds \<Rightarrow> string \<Rightarrow> covenant_materiality list \<Rightarrow> materiality_score result" where
  "zero_score t reason cs = make_materiality_score \<lparr>ms_pct = 0, ms_counts = False, ms_driver = None, ms_reason = reason,
     ms_thresholds = t, ms_scores = cs\<rparr>"

fun join_reasons :: "string list \<Rightarrow> string" where
  "join_reasons [] = []"
| "join_reasons [r] = r"
| "join_reasons (r # rs) = r @ ''; '' @ join_reasons rs"

definition driver_reason :: "(decimal \<Rightarrow> string) \<Rightarrow> covenant_id \<Rightarrow> bool \<Rightarrow> materiality_thresholds \<Rightarrow> string" where
  "driver_reason printed i counts t = ''maximum projected headroom erosion for covenant '' @ identifier_text i
     @ (if counts then '' meets T4 threshold '' else '' is below T4 threshold '') @ printed (threshold_pct t) @ ''%''"

definition score_projections :: "(decimal \<Rightarrow> string) \<Rightarrow> materiality_thresholds \<Rightarrow> covenant_headroom list \<Rightarrow> materiality_score result" where
  "score_projections printed t hs =
     (if hs = [] then zero_score t ''no affected covenant'' [] else
      rbind (rmap calculate_projection hs) (\<lambda>cs.
      case maximum_of cs of
        None \<Rightarrow> zero_score t (join_reasons (map cm_reason cs)) cs
      | Some m \<Rightarrow>
        let counts = cm_erosion m \<ge> threshold_pct t in
        make_materiality_score \<lparr>ms_pct = cm_erosion m, ms_counts = counts, ms_driver = Some (cm_covenant m),
          ms_reason = driver_reason printed (cm_covenant m) counts t, ms_thresholds = t, ms_scores = cs\<rparr>))"

definition score_materiality :: "(decimal \<Rightarrow> string) \<Rightarrow> headroom_inputs \<Rightarrow> materiality_store \<Rightarrow> materiality_score result" where
  "score_materiality printed inputs store =
     rbind (materiality_from_store store) (\<lambda>t. rbind (normalise_inputs inputs) (score_projections printed t))"

section \<open>The score is the largest erosion\<close>

text \<open>
  The two headrooms of a covenant, in percent of the magnitude of its threshold: as given, or computed from
  its two values and the direction of its test. A covenant without them, or without a non-zero threshold,
  has no usable headroom. The erosion is what the projection takes away from the current one.
\<close>

definition percent_of_threshold :: "string \<Rightarrow> decimal \<Rightarrow> decimal \<Rightarrow> decimal" where
  "percent_of_threshold d y v = rnd (rnd (rnd (if d = ''min'' then v - y else y - v) / rnd \<bar>y\<bar>) * 100)"

definition usable_headrooms :: "covenant_headroom \<Rightarrow> (decimal \<times> decimal) option" where
  "usable_headrooms h = (case hr_threshold h of None \<Rightarrow> None | Some y \<Rightarrow>
     if y = 0 then None else
     (case (hr_current h, hr_projected h) of (Some c, Some p) \<Rightarrow> Some (c, p)
      | _ \<Rightarrow> (case (hr_current_value h, hr_projected_value h, hr_direction h) of
          (Some v, Some w, Some d) \<Rightarrow>
            if d = ''min'' \<or> d = ''max'' then Some (percent_of_threshold d y v, percent_of_threshold d y w) else None
        | _ \<Rightarrow> None)))"

definition usable_erosion :: "covenant_headroom \<Rightarrow> decimal option" where
  "usable_erosion h = (case usable_headrooms h of None \<Rightarrow> None
     | Some (c, p) \<Rightarrow> Some (if p < c then rnd (c - p) else 0))"

text \<open>
  The results of the arithmetic. Decimals of the source overflow and underflow outside the exponent range of the
  context; the subtraction of the erosion is not among the calculations whose errors are caught.
\<close>

definition erosion_results :: "covenant_headroom \<Rightarrow> decimal list" where
  "erosion_results h = (case usable_headrooms h of None \<Rightarrow> [] | Some (c, p) \<Rightarrow> [c, p, rnd (c - p)])
     @ (case (hr_threshold h, hr_current_value h, hr_projected_value h) of
         (Some y, Some v, Some w) \<Rightarrow> concat (map (\<lambda>x. [x, rnd (x - y), rnd (rnd (x - y) / rnd \<bar>y\<bar>)]) [v, w])
       | _ \<Rightarrow> [])"

definition materiality_in_range :: "materiality_thresholds \<Rightarrow> covenant_headroom list \<Rightarrow> bool" where
  "materiality_in_range t hs \<longleftrightarrow> in_exponent_range (threshold_pct t)
     \<and> (\<forall>h\<in>set hs. list_all in_exponent_range (erosion_results h))"

lemma projected_erosion_gap: "projected_erosion c p = (if p < c then rnd (c - p) else 0)"
proof (cases "p < c")
  case True
  then have "0 \<le> rnd (c - p)" by simp
  then show ?thesis using True by (simp add: projected_erosion_def dsub_def)
next
  case False
  then have "rnd (c - p) \<le> 0" by simp
  then show ?thesis using False by (simp add: projected_erosion_def dsub_def)
qed

lemma signed_headroom_percent:
  assumes "y \<noteq> 0"
  shows "signed_headroom (PDec v) (decimal_arg (Some y)) d
    = (if d = ''min'' \<or> d = ''max'' then ok (percent_of_threshold d y v) else raise ValueError)"
proof -
  have "dabs y \<noteq> 0" using assms by (simp add: dabs_def)
  then show ?thesis using assms
    by (simp add: signed_headroom_def decimal_arg_def pyopt_def validate_decimal_def directions_def percent_of_threshold_def
        ddiv_checked_def dec_defs Let_def)
qed

lemma usable_erosion_headrooms:
  "usable_erosion h = (if hr_threshold h = None \<or> hr_threshold h = Some 0 then None
     else (case headrooms h of Inl e \<Rightarrow> None | Inr (c, p) \<Rightarrow> Some (projected_erosion c p)))"
proof (cases "hr_threshold h")
  case None
  then show ?thesis by (simp add: usable_erosion_def usable_headrooms_def)
next
  case (Some y)
  show ?thesis
  proof (cases "y = 0")
    case True
    then show ?thesis using Some by (simp add: usable_erosion_def usable_headrooms_def)
  next
    case False
    show ?thesis using Some False
      by (auto simp: usable_erosion_def usable_headrooms_def headrooms_def signed_headroom_percent projected_erosion_gap
          split: option.split)
  qed
qed

lemma headrooms_errs: "errs {e. headroom_error e} (headrooms h)"
  unfolding headrooms_def signed_headroom_def Let_def ddiv_checked_def validate_decimal_def decimal_arg_def pyopt_def
  by (auto intro!: errs_intros simp: headroom_error_def split: option.splits pyval.splits)

lemma strip_some: "c \<in> set s \<Longrightarrow> \<not> is_space c \<Longrightarrow> strip s \<noteq> []"
  by (auto simp: strip_Nil_iff)

lemma make_calculation_ok:
  assumes "0 \<le> cm_erosion c" and "strip (cm_reason c) \<noteq> []" and "\<not> cm_included c \<Longrightarrow> cm_erosion c = 0"
  shows "make_calculation c = ok c"
  using assms by (auto simp: make_calculation_def)

lemma excluded_ok: "strip reason \<noteq> [] \<Longrightarrow> excluded h reason = ok \<lparr>cm_covenant = hr_covenant h, cm_threshold = hr_threshold h,
    cm_current = None, cm_projected = None, cm_erosion = 0, cm_included = False, cm_reason = reason\<rparr>"
  by (simp add: excluded_def make_calculation_ok)

text \<open>What the calculation of a covenant says of it.\<close>

definition calculated :: "covenant_headroom \<Rightarrow> covenant_materiality \<Rightarrow> bool" where
  "calculated h c \<longleftrightarrow> cm_covenant c = hr_covenant h \<and> strip (cm_reason c) \<noteq> [] \<and> 0 \<le> cm_erosion c
    \<and> usable_erosion h = (if cm_included c then Some (cm_erosion c) else None)"

lemma calculate_projection_ok: "\<exists>c. calculate_projection h = ok c \<and> calculated h c"
proof -
  have reasons: "strip ''excluded: covenant threshold is absent'' \<noteq> []" "strip ''excluded: covenant threshold is zero'' \<noteq> []"
    "strip ''excluded: headroom is unavailable'' \<noteq> []" "strip ''included: usable covenant headroom'' \<noteq> []" by code_simp+
  show ?thesis
  proof (cases "hr_threshold h = None \<or> hr_threshold h = Some 0")
    case True
    then show ?thesis using reasons by (auto simp: calculate_projection_def excluded_ok usable_erosion_headrooms calculated_def)
  next
    case False
    then obtain y where y: "hr_threshold h = Some y" "y \<noteq> 0" by auto
    show ?thesis
    proof (cases "headrooms h")
      case (Inl e)
      then have "headroom_error e" using errsD [OF headrooms_errs Inl] by simp
      then show ?thesis using y Inl reasons by (simp add: calculate_projection_def excluded_ok usable_erosion_headrooms calculated_def)
    next
      case (Inr q)
      obtain c p where q: "q = (c, p)" by (cases q)
      show ?thesis using y Inr reasons
        by (simp add: q calculate_projection_def usable_erosion_headrooms make_calculation_def projected_erosion_def calculated_def)
    qed
  qed
qed

lemma calculations_ok: "\<exists>cs. rmap calculate_projection hs = ok cs \<and> list_all2 calculated hs cs"
proof (induction hs)
  case (Cons h hs)
  obtain c where "calculate_projection h = ok c \<and> calculated h c" using calculate_projection_ok ..
  with Cons show ?case by auto
qed simp

lemma calculated_down: "list_all2 calculated hs cs \<Longrightarrow> c \<in> set cs \<Longrightarrow> \<exists>h\<in>set hs. calculated h c"
  by (auto simp: list_all2_conv_all_nth in_set_conv_nth) (metis nth_mem)

lemma calculated_up: "list_all2 calculated hs cs \<Longrightarrow> h \<in> set hs \<Longrightarrow> \<exists>c\<in>set cs. calculated h c"
  by (auto simp: list_all2_conv_all_nth in_set_conv_nth) (metis nth_mem)

lemma maximum_of_None: "maximum_of cs = None \<longleftrightarrow> (\<forall>c\<in>set cs. \<not> cm_included c)"
proof -
  have "maximum_of cs = None \<longleftrightarrow> filter cm_included cs = []" by (simp add: maximum_of_def split: list.splits)
  then show ?thesis by (simp add: filter_empty_conv)
qed

lemma maximum_of_Some:
  assumes "maximum_of cs = Some m"
  shows "m \<in> set cs" and "cm_included m" and "\<And>c. c \<in> set cs \<Longrightarrow> cm_included c \<Longrightarrow> cm_erosion c \<le> cm_erosion m"
proof -
  let ?key = "\<lambda>x. (cm_erosion x, identifier_text (cm_covenant x))"
  obtain d rest where f: "filter cm_included cs = d # rest" and m: "m = max_key ?key d rest"
    using assms by (auto simp: maximum_of_def split: list.splits)
  have "m \<in> set (d # rest)" unfolding m by (rule max_key_in_Cons)
  then show "m \<in> set cs" "cm_included m" unfolding f [symmetric] by auto
  fix c assume "c \<in> set cs" "cm_included c"
  then have "c \<in> set (d # rest)" unfolding f [symmetric] by simp
  from max_key_ge [OF this, of ?key] show "cm_erosion c \<le> cm_erosion m" unfolding m by (auto simp: less_eq_prod_def)
qed

lemma join_reasons_some: "rs \<noteq> [] \<Longrightarrow> \<forall>r\<in>set rs. strip r \<noteq> [] \<Longrightarrow> strip (join_reasons rs) \<noteq> []"
proof (induction rs rule: join_reasons.induct)
  case (3 r r' rs)
  then have "strip r \<noteq> []" by simp
  then obtain c where "c \<in> set r" "\<not> is_space c" by (auto simp: strip_Nil_iff)
  then show ?case by (intro strip_some [of c]) auto
qed simp_all

lemma score_without_driver:
  assumes cs: "rmap calculate_projection hs = ok cs" and rel: "list_all2 calculated hs cs" and none: "maximum_of cs = None"
  shows "\<exists>r. score_projections printed t hs = ok r \<and> ms_pct r = 0 \<and> \<not> ms_counts r \<and> ms_driver r = None
    \<and> (\<forall>h\<in>set hs. usable_erosion h = None)"
proof -
  have "\<forall>h\<in>set hs. usable_erosion h = None"
    using calculated_up [OF rel] none by (fastforce simp: maximum_of_None calculated_def)
  moreover obtain reason where "strip reason \<noteq> []" "score_projections printed t hs = zero_score t reason cs"
  proof (cases "hs = []")
    case True
    then have "cs = []" using cs by simp
    moreover have "strip ''no affected covenant'' \<noteq> []" by code_simp
    ultimately show thesis using that True by (simp add: score_projections_def)
  next
    case False
    then have "cs \<noteq> []" using rel by auto
    moreover have "\<forall>r\<in>set (map cm_reason cs). strip r \<noteq> []" using calculated_down [OF rel] by (fastforce simp: calculated_def)
    ultimately have "strip (join_reasons (map cm_reason cs)) \<noteq> []" by (intro join_reasons_some) simp_all
    then show thesis using that False cs none by (simp add: score_projections_def)
  qed
  ultimately show ?thesis using none by (auto simp: zero_score_def make_materiality_score_def)
qed

lemma score_with_driver:
  assumes cs: "rmap calculate_projection hs = ok cs" and rel: "list_all2 calculated hs cs" and m: "maximum_of cs = Some m"
  shows "\<exists>r. score_projections printed t hs = ok r \<and> ms_pct r = cm_erosion m \<and> ms_driver r = Some (cm_covenant m)
    \<and> (ms_counts r \<longleftrightarrow> threshold_pct t \<le> cm_erosion m)"
proof -
  have "hs \<noteq> []" using rel maximum_of_Some(1) [OF m] by auto
  moreover have "strip (driver_reason printed (cm_covenant m) counts t) \<noteq> []" for counts
    by (rule strip_some [of "CHR ''m''"]) (simp_all add: driver_reason_def is_space_def)
  moreover have "0 \<le> cm_erosion m" using calculated_down [OF rel maximum_of_Some(1) [OF m]] by (auto simp: calculated_def)
  ultimately show ?thesis using cs m by (simp add: score_projections_def Let_def make_materiality_score_def)
qed

text \<open>
  C36: Once thresholds and inputs are read, and as long as the arithmetic stays in the exponent range of the
  context, scoring never raises. The score is the largest erosion among the covenants with a usable
  threshold and headroom, where the erosion is how far the projected headroom lies below the current one and
  zero when it does not, driven by one that has it, and zero without a driver when there is none; it
  counts toward pressure exactly when one of them reaches the T4 threshold.
\<close>

theorem materiality_exact:
  assumes "materiality_from_store store = ok t" and "normalise_inputs inputs = ok hs" and "materiality_in_range t hs"
  shows "\<exists>r. score_materiality printed inputs store = ok r
    \<and> (\<forall>h\<in>set hs. \<forall>e. usable_erosion h = Some e \<longrightarrow> e \<le> ms_pct r)
    \<and> (case ms_driver r of None \<Rightarrow> ms_pct r = 0 \<and> (\<forall>h\<in>set hs. usable_erosion h = None)
        | Some i \<Rightarrow> \<exists>h\<in>set hs. hr_covenant h = i \<and> usable_erosion h = Some (ms_pct r))
    \<and> (ms_counts r \<longleftrightarrow> (\<exists>h\<in>set hs. \<exists>e. usable_erosion h = Some e \<and> threshold_pct t \<le> e))"
proof -
  obtain cs where cs: "rmap calculate_projection hs = ok cs" and rel: "list_all2 calculated hs cs" using calculations_ok by blast
  have run: "score_materiality printed inputs store = score_projections printed t hs"
    using assms by (simp add: score_materiality_def)
  show ?thesis
  proof (cases "maximum_of cs")
    case None
    from score_without_driver [OF cs rel this] show ?thesis unfolding run by fastforce
  next
    case (Some m)
    have most: "e \<le> cm_erosion m" if "h \<in> set hs" "usable_erosion h = Some e" for h e
      using calculated_up [OF rel that(1)] that(2) maximum_of_Some(3) [OF Some] by (auto simp: calculated_def split: if_splits)
    obtain h where h: "h \<in> set hs" "hr_covenant h = cm_covenant m" "usable_erosion h = Some (cm_erosion m)"
      using calculated_down [OF rel maximum_of_Some(1) [OF Some]] maximum_of_Some(2) [OF Some] by (auto simp: calculated_def)
    have "threshold_pct t \<le> cm_erosion m \<longleftrightarrow> (\<exists>h\<in>set hs. \<exists>e. usable_erosion h = Some e \<and> threshold_pct t \<le> e)"
      using h most order_trans by blast
    then show ?thesis using score_with_driver [OF cs rel Some, of printed t] most h unfolding run by force
  qed
qed

text \<open>A minimum covenant of 2 whose value is projected to fall from 3 to 1 erodes by 100 points of headroom.\<close>

definition demo_headrooms :: headroom_inputs where
  "demo_headrooms = Headrooms [Facts \<lparr>hr_covenant = Text_covenant ''c'', hr_threshold = Some 2, hr_current = Some 50,
     hr_projected = Some (- 50), hr_direction = None, hr_current_value = None, hr_projected_value = None\<rparr>]"

theorem materiality_exact_witness:
  "\<exists>r. score_materiality (\<lambda>q. []) demo_headrooms (T4_configured (Materiality_thresholds (1 / 20))) = ok r
     \<and> 100 \<le> ms_pct r \<and> ms_counts r"
proof -
  let ?h = "\<lparr>hr_covenant = Text_covenant ''c'', hr_threshold = Some 2, hr_current = Some 50,
     hr_projected = Some (- 50), hr_direction = None, hr_current_value = None, hr_projected_value = None\<rparr>"
  have t: "materiality_from_store (T4_configured (Materiality_thresholds (1 / 20))) = ok (Materiality_thresholds (1 / 20))"
    by (simp add: materiality_from_store_def)
  have n: "normalise_inputs demo_headrooms = ok [?h]"
    by (simp add: normalise_inputs_def demo_headrooms_def)
  have r: "rnd 100 = 100" "rnd 5 = 5" by (simp_all add: rnd_eval)
  have five: "threshold_pct (Materiality_thresholds (1 / 20)) = 5" by (simp add: threshold_pct_def dmul_def r)
  have range: "materiality_in_range (Materiality_thresholds (1 / 20)) [?h]"
    by (simp add: materiality_in_range_def five erosion_results_def usable_headrooms_def r in_exponent_rangeI)
  have e: "usable_erosion ?h = Some 100" by (simp add: usable_erosion_def usable_headrooms_def r)
  from materiality_exact [OF t n range] show ?thesis using e five by force
qed

end
