(* ===== verification/Signal_Persistence.thy ===== *)
theory Signal_Persistence
  imports Forecast_Trend
begin

text \<open>
  Persistence of the evidence for one signal (\<open>domain/signals/persistence.py\<close>): the longest run of consecutive observed
  dates and the number of distinct dates in a calendar window, and the T3 decision over both.
\<close>

section \<open>Arms and thresholds\<close>

datatype persistence_arm = Sustained_days | Sustained_events

definition arm_value :: "persistence_arm \<Rightarrow> string" where
  "arm_value a = (case a of Sustained_days \<Rightarrow> ''sustained_days'' | Sustained_events \<Rightarrow> ''sustained_events'')"

definition rule_for_arm :: "persistence_arm option \<Rightarrow> string" where
  "rule_for_arm a = (case a of Some Sustained_days \<Rightarrow> ''T3.sustained_days'' | Some Sustained_events \<Rightarrow> ''T3.sustained_events''
     | None \<Rightarrow> ''T3.neither_arm'')"

record persistence_thresholds =
  pt_days :: int
  pt_events :: int
  pt_window :: int

definition make_persistence_thresholds :: "pyval \<Rightarrow> pyval \<Rightarrow> pyval \<Rightarrow> persistence_thresholds result" where
  "make_persistence_thresholds days events window =
     rbind (positive_int days) (\<lambda>d. rbind (positive_int events) (\<lambda>e. rbind (positive_int window) (\<lambda>w.
     if d > w then raise ValueError else ok \<lparr>pt_days = d, pt_events = e, pt_window = w\<rparr>)))"

fun first_present :: "pyval \<Rightarrow> string list \<Rightarrow> pyval option" where
  "first_present v [] = None"
| "first_present v (n # ns) = (case or_none (py_attr v n) of PNone \<Rightarrow> first_present v ns | x \<Rightarrow> Some x)"

definition persistence_section :: "pyval \<Rightarrow> pyval result" where
  "persistence_section store = (case store of
     PMap kvs \<Rightarrow> ok (case map_get kvs ''T3'' of Some v \<Rightarrow> v | None \<Rightarrow> store)
   | PStore kvs \<Rightarrow> (case or_none (lookup kvs ''T3'') of PNone \<Rightarrow> raise ValueError | v \<Rightarrow> ok v)
   | _ \<Rightarrow> (case first_present store [''T3'', ''t3'', ''persistence''] of Some v \<Rightarrow> ok v | None \<Rightarrow> raise TypeError))"

definition threshold_integer :: "pyval \<Rightarrow> string \<Rightarrow> pyval result" where
  "threshold_integer s n = (case (case s of PMap kvs \<Rightarrow> map_get kvs n | _ \<Rightarrow> py_attr s n) of
     None \<Rightarrow> raise ValueError | Some v \<Rightarrow> rbind (positive_int v) (\<lambda>_. ok v))"

text \<open>Configured thresholds, which pass through, or any other store.\<close>

datatype persistence_store = T3_configured persistence_thresholds | T3_store pyval

definition persistence_from_store :: "persistence_store \<Rightarrow> persistence_thresholds result" where
  "persistence_from_store store = (case store of
     T3_configured t \<Rightarrow> make_persistence_thresholds (PInt (pt_days t)) (PInt (pt_events t)) (PInt (pt_window t))
   | T3_store v \<Rightarrow> rbind (persistence_section v) (\<lambda>s.
       rbind (threshold_integer s ''sustained_days'') (\<lambda>d. rbind (threshold_integer s ''sustained_events'') (\<lambda>e.
       rbind (threshold_integer s ''event_window_days'') (\<lambda>w. make_persistence_thresholds d e w)))))"

section \<open>Dates\<close>

definition event_date :: "pyval \<Rightarrow> date result" where
  "event_date v = (case v of
     PMap kvs \<Rightarrow> (case map_get kvs ''event_date'' of None \<Rightarrow> raise ValueError | Some d \<Rightarrow> day_of_value d)
   | PDate d \<Rightarrow> ok d
   | PDatetime t \<Rightarrow> raise TypeError
   | PNaive t \<Rightarrow> raise TypeError
   | _ \<Rightarrow> (case py_attr v ''event_date'' of None \<Rightarrow> raise TypeError | Some d \<Rightarrow> day_of_value d))"

text \<open>A set of dates is the sorted list of its members; a mapping iterates over its keys.\<close>

definition normalise_dates :: "pyval \<Rightarrow> date list result" where
  "normalise_dates values = rbind (case values of PList vs \<Rightarrow> ok vs | PMap kvs \<Rightarrow> ok (map fst kvs) | _ \<Rightarrow> raise TypeError)
     (\<lambda>vs. rbind (rmap event_date vs) (\<lambda>ds. ok (sort (remdups ds))))"

definition dates_in_window :: "date list \<Rightarrow> date \<Rightarrow> pyval \<Rightarrow> date list result" where
  "dates_in_window dates as_of window =
     (if window = PNone then ok (filter (\<lambda>d. d \<le> as_of) dates) else
      rbind (positive_int window) (\<lambda>w. case add_days as_of (- (w - 1)) of
        Inl e \<Rightarrow> raise ValueError
      | Inr first \<Rightarrow> ok (filter (\<lambda>d. first \<le> d \<and> d \<le> as_of) dates)))"

fun run_loop :: "date \<Rightarrow> nat \<Rightarrow> nat \<Rightarrow> date list \<Rightarrow> nat" where
  "run_loop previous current longest [] = longest"
| "run_loop previous current longest (c # cs) =
     (let current' = (if c = previous + 1 then current + 1 else 1) in run_loop c current' (max longest current') cs)"

definition longest_run :: "date list \<Rightarrow> nat" where
  "longest_run dates = (case dates of [] \<Rightarrow> 0 | d # ds \<Rightarrow> run_loop d 1 1 ds)"

definition consecutive_run_length :: "pyval \<Rightarrow> pyval \<Rightarrow> pyval \<Rightarrow> nat result" where
  "consecutive_run_length events as_of window =
     rbind (day_of_value as_of) (\<lambda>a. rbind (normalise_dates events) (\<lambda>ds.
     rbind (dates_in_window ds a window) (\<lambda>es. ok (longest_run es))))"

definition rolling_event_count :: "pyval \<Rightarrow> pyval \<Rightarrow> pyval \<Rightarrow> nat result" where
  "rolling_event_count events as_of window =
     rbind (day_of_value as_of) (\<lambda>a. rbind (normalise_dates events) (\<lambda>ds.
     rbind (dates_in_window ds a window) (\<lambda>es. ok (length es))))"

section \<open>The decision\<close>

record persistence_decision =
  pd_days :: int
  pd_events :: int
  pd_sustained :: bool
  pd_arm :: "persistence_arm option"
  pd_thresholds :: persistence_thresholds
  pd_rule :: string

definition make_decision :: "persistence_decision \<Rightarrow> persistence_decision result" where
  "make_decision p = (if pd_days p < 0 \<or> pd_events p < 0 then raise ValueError
     else if pd_sustained p \<noteq> (pd_arm p \<noteq> None) then raise ValueError
     else if pd_rule p \<noteq> rule_for_arm (pd_arm p) then raise ValueError else ok p)"

definition persistence_state :: "persistence_decision \<Rightarrow> string" where
  "persistence_state p = (if pd_sustained p then ''sustained'' else ''transient'')"

definition decide_persistence :: "int \<Rightarrow> int \<Rightarrow> persistence_store \<Rightarrow> persistence_decision result" where
  "decide_persistence days events thresholds =
     rbind (case thresholds of T3_configured t \<Rightarrow> ok t | _ \<Rightarrow> persistence_from_store thresholds) (\<lambda>t.
     if days < 0 \<or> events < 0 then raise ValueError else
     let arm = (if days \<ge> pt_days t then Some Sustained_days else if events \<ge> pt_events t then Some Sustained_events else None)
     in make_decision \<lparr>pd_days = days, pd_events = events, pd_sustained = (arm \<noteq> None), pd_arm = arm, pd_thresholds = t,
          pd_rule = rule_for_arm arm\<rparr>)"

text \<open>A score is a decision and its date; its constructor repeats the checks of the decision.\<close>

record persistence_score =
  ps_as_of :: date
  ps_decision :: persistence_decision

definition score_persistence :: "pyval \<Rightarrow> pyval \<Rightarrow> persistence_store \<Rightarrow> persistence_score result" where
  "score_persistence events as_of thresholds =
     rbind (day_of_value as_of) (\<lambda>a. rbind (persistence_from_store thresholds) (\<lambda>t.
     rbind (normalise_dates events) (\<lambda>ds. rbind (dates_in_window ds a (PInt (pt_window t))) (\<lambda>es.
     rbind (decide_persistence (int (longest_run es)) (int (length es)) (T3_configured t)) (\<lambda>p.
     rbind (make_decision p) (\<lambda>q. ok \<lparr>ps_as_of = a, ps_decision = q\<rparr>))))))"

section \<open>The longest run is the longest interval\<close>

definition holds_run :: "nat \<Rightarrow> date set \<Rightarrow> bool" where
  "holds_run k ds \<longleftrightarrow> (\<exists>d. {d..<d + int k} \<subseteq> ds)"

lemma holds_run_insert:
  assumes below: "\<And>d. d \<in> seen \<Longrightarrow> d \<le> previous" and fresh: "previous < c"
    and run: "{previous - int current<..previous} \<subseteq> seen" and gap: "previous - int current \<notin> seen"
  shows "holds_run k (insert c seen) \<longleftrightarrow> holds_run k seen \<or> k \<le> (if c = previous + 1 then current + 1 else 1)"
proof
  assume "holds_run k (insert c seen)"
  then obtain d where d: "{d..<d + int k} \<subseteq> insert c seen" by (auto simp: holds_run_def)
  show "holds_run k seen \<or> k \<le> (if c = previous + 1 then current + 1 else 1)"
  proof (cases "c \<in> {d..<d + int k}")
    case False
    then have "{d..<d + int k} \<subseteq> seen" using d by auto
    then show ?thesis by (auto simp: holds_run_def)
  next
    case True
    then have "d + int k - 1 \<in> {d..<d + int k}" by auto
    then have "d + int k - 1 \<in> insert c seen" using d by (rule rev_subsetD)
    then have last: "d + int k - 1 = c" using below [of "d + int k - 1"] fresh True by auto
    show ?thesis
    proof (cases "c = previous + 1")
      case next_day: True
      have "previous - int current < d"
      proof (rule ccontr)
        assume "\<not> previous - int current < d"
        then have "previous - int current \<in> {d..<d + int k}" using last next_day by auto
        then show False using d gap next_day by auto
      qed
      then show ?thesis using last next_day by simp
    next
      case False
      have "d = c"
      proof (rule ccontr)
        assume "d \<noteq> c"
        then have "c - 1 \<in> {d..<d + int k}" using last True by auto
        then have "c - 1 \<in> insert c seen" using d by (rule rev_subsetD)
        then have "c - 1 \<in> seen" by simp
        then show False using below [of "c - 1"] fresh False by simp
      qed
      then show ?thesis using last False by simp
    qed
  qed
next
  assume "holds_run k seen \<or> k \<le> (if c = previous + 1 then current + 1 else 1)"
  then show "holds_run k (insert c seen)"
  proof
    assume "holds_run k seen"
    then show ?thesis by (auto simp: holds_run_def)
  next
    assume k: "k \<le> (if c = previous + 1 then current + 1 else 1)"
    have "{c - int k + 1..<c - int k + 1 + int k} \<subseteq> insert c seen"
    proof
      fix x assume "x \<in> {c - int k + 1..<c - int k + 1 + int k}"
      then have x: "c - int k < x" "x \<le> c" by auto
      show "x \<in> insert c seen"
      proof (cases "x = c")
        case False
        then have "c = previous + 1" "x \<in> {previous - int current<..previous}" using x k by (auto split: if_splits)
        then show ?thesis using run by auto
      qed simp
    qed
    then show ?thesis unfolding holds_run_def by blast
  qed
qed

lemma run_loop_exact:
  assumes "sorted_wrt (<) (previous # cs)" and "\<And>d. d \<in> seen \<Longrightarrow> d \<le> previous"
    and "{previous - int current<..previous} \<subseteq> seen" and "previous - int current \<notin> seen"
    and "\<And>k. holds_run k seen \<longleftrightarrow> k \<le> longest"
  shows "holds_run k (seen \<union> set cs) \<longleftrightarrow> k \<le> run_loop previous current longest cs"
  using assms
proof (induction cs arbitrary: previous current longest seen)
  case (Cons c cs)
  define current' where "current' = (if c = previous + 1 then current + 1 else 1)"
  have c: "previous < c" using Cons.prems(1) by simp
  have new: "holds_run k (insert c seen) \<longleftrightarrow> k \<le> max longest current'" for k
    using holds_run_insert [OF Cons.prems(2) c Cons.prems(3,4)] Cons.prems(5) by (auto simp: current'_def)
  have "holds_run k (insert c seen \<union> set cs) \<longleftrightarrow> k \<le> run_loop c current' (max longest current') cs"
  proof (rule Cons.IH)
    show "sorted_wrt (<) (c # cs)" using Cons.prems(1) by simp
    show "d \<le> c" if "d \<in> insert c seen" for d using that Cons.prems(2) [of d] c by auto
    show "{c - int current'<..c} \<subseteq> insert c seen"
      using Cons.prems(3) by (auto simp: current'_def subset_iff)
    show "c - int current' \<notin> insert c seen"
      using Cons.prems(2) [of "c - 1"] Cons.prems(4) c by (auto simp: current'_def)
  qed (rule new)
  then show ?case by (simp add: current'_def Let_def)
qed simp

lemma longest_run_exact:
  assumes "sorted_wrt (<) ds"
  shows "holds_run k (set ds) \<longleftrightarrow> k \<le> longest_run ds"
proof (cases ds)
  case Nil
  have "k = 0" if "{d..<d + int k} \<subseteq> {}" for d :: int using that by auto
  then show ?thesis using Nil by (auto simp: holds_run_def longest_run_def)
next
  case (Cons d es)
  have one: "holds_run k {d} \<longleftrightarrow> k \<le> 1" for k
  proof
    assume "holds_run k {d}"
    then obtain e where e: "{e..<e + int k} \<subseteq> {d}" by (auto simp: holds_run_def)
    show "k \<le> 1"
    proof (rule ccontr)
      assume "\<not> k \<le> 1"
      then have "e \<in> {e..<e + int k}" "e + 1 \<in> {e..<e + int k}" by auto
      then have "e \<in> {d}" "e + 1 \<in> {d}" using e by (blast intro: subsetD)+
      then show False by simp
    qed
  next
    assume "k \<le> 1"
    then have "{d..<d + int k} \<subseteq> {d}" by auto
    then show "holds_run k {d}" by (auto simp: holds_run_def)
  qed
  have "holds_run k ({d} \<union> set es) \<longleftrightarrow> k \<le> run_loop d 1 1 es"
    by (rule run_loop_exact) (use assms Cons one in auto)
  then show ?thesis using Cons by (simp add: longest_run_def)
qed

section \<open>What a score says\<close>

lemma sort_remdups_strict: "sorted_wrt (<) (sort (remdups (ds :: date list)))"
  by (simp add: strict_sorted_iff)

lemma sorted_wrt_filtered: "sorted_wrt (<) (ds :: date list) \<Longrightarrow> sorted_wrt (<) (filter P ds)"
  by (rule sorted_wrt_filter)

lemma positive_int_PInt [simp]: "positive_int (PInt n) = (if n \<le> 0 then raise ValueError else ok n)"
  by (simp add: positive_int_def plain_int_def)

lemma dates_in_window_exact:
  assumes "dates_in_window ds a (PInt w) = ok es"
  shows "es = filter (\<lambda>d. a - w < d \<and> d \<le> a) ds"
  using assms by (auto simp: dates_in_window_def dest!: add_days_ok split: if_splits sum.splits intro!: filter_cong)

lemma decide_configured:
  assumes "decide_persistence days events (T3_configured t) = ok p"
  shows "pd_days p = days \<and> pd_events p = events \<and> pd_thresholds p = t
    \<and> pd_arm p = (if days \<ge> pt_days t then Some Sustained_days else if events \<ge> pt_events t then Some Sustained_events else None)
    \<and> (pd_sustained p \<longleftrightarrow> days \<ge> pt_days t \<or> events \<ge> pt_events t) \<and> pd_rule p = rule_for_arm (pd_arm p)"
  using assms by (auto simp: decide_persistence_def make_decision_def Let_def split: if_splits)

lemma make_decision_ok: "make_decision p = ok q \<Longrightarrow> q = p"
  by (auto simp: make_decision_def split: if_splits)

lemma thresholds_positive: "make_persistence_thresholds a b c = ok t \<Longrightarrow> 0 < pt_days t \<and> 0 < pt_events t \<and> pt_days t \<le> pt_window t"
  by (auto simp: make_persistence_thresholds_def positive_int_def split: if_splits option.splits)

lemma from_store_positive: "persistence_from_store store = ok t \<Longrightarrow> 0 < pt_days t \<and> 0 < pt_events t \<and> pt_days t \<le> pt_window t"
  by (auto simp: persistence_from_store_def dest: thresholds_positive split: persistence_store.splits)

text \<open>
  C35: A score counts each date of the window of the last \<open>pt_window\<close> days once. Evidence is sustained exactly when the
  window holds an interval of \<open>pt_days\<close> consecutive observed dates or \<open>pt_events\<close> distinct dates; the first of the two
  arms that holds is the one named.
\<close>

theorem persistence_exact:
  assumes "score_persistence events as_of thresholds = ok r" and "persistence_from_store thresholds = ok t"
    and "normalise_dates events = ok ds" and "day_of_value as_of = ok a"
  shows "let seen = {d \<in> set ds. a - pt_window t < d \<and> d \<le> a}; p = ps_decision r;
      run = (\<exists>d. {d..<d + pt_days t} \<subseteq> seen); many = (pt_events t \<le> int (card seen)) in
    pd_events p = int (card seen) \<and> (\<forall>k. (\<exists>d. {d..<d + int k} \<subseteq> seen) \<longleftrightarrow> int k \<le> pd_days p)
    \<and> (pd_sustained p \<longleftrightarrow> run \<or> many)
    \<and> pd_arm p = (if run then Some Sustained_days else if many then Some Sustained_events else None)"
proof -
  obtain es p where es: "dates_in_window ds a (PInt (pt_window t)) = ok es"
    and p: "decide_persistence (int (longest_run es)) (int (length es)) (T3_configured t) = ok p" and r: "ps_decision r = p"
    using assms by (auto simp: score_persistence_def rbind_ok_iff dest: make_decision_ok)
  define seen where "seen = {d \<in> set ds. a - pt_window t < d \<and> d \<le> a}"
  obtain vs where ds: "ds = sort (remdups vs)" using assms(3) by (auto simp: normalise_dates_def rbind_ok_iff)
  have strict: "sorted_wrt (<) es"
    unfolding dates_in_window_exact [OF es] ds by (intro sorted_wrt_filtered sort_remdups_strict)
  have seen: "set es = seen" unfolding dates_in_window_exact [OF es] seen_def by auto
  have card: "length es = card seen"
    using strict seen by (metis distinct_card strict_sorted_iff)
  have runs: "(\<exists>d. {d..<d + int k} \<subseteq> seen) \<longleftrightarrow> int k \<le> int (longest_run es)" for k
    using longest_run_exact [OF strict, of k] by (simp add: holds_run_def seen)
  have "(\<exists>d. {d..<d + pt_days t} \<subseteq> seen) \<longleftrightarrow> pt_days t \<le> int (longest_run es)"
    using runs [of "nat (pt_days t)"] from_store_positive [OF assms(2)] by simp
  then show ?thesis
    using decide_configured [OF p] runs card unfolding r seen_def [symmetric] by (simp add: Let_def)
qed

definition demo_events :: pyval where
  "demo_events = PList [PDate 730003, PDate 730001, PDate 730002, PDate 730001, PDate 729000]"

definition demo_t3 :: persistence_store where
  "demo_t3 = T3_configured \<lparr>pt_days = 3, pt_events = 9, pt_window = 30\<rparr>"

theorem persistence_exact_witness:
  "\<exists>r. score_persistence demo_events (PDate 730010) demo_t3 = ok r \<and> pd_arm (ps_decision r) = Some Sustained_days"
proof -
  have t: "persistence_from_store demo_t3 = ok \<lparr>pt_days = 3, pt_events = 9, pt_window = 30\<rparr>" by code_simp
  have n: "normalise_dates demo_events = ok [729000, 730001, 730002, 730003]" by code_simp
  have a: "day_of_value (PDate 730010) = ok 730010" by code_simp
  obtain r where r: "score_persistence demo_events (PDate 730010) demo_t3 = ok r"
  proof -
    have "\<not> isl (score_persistence demo_events (PDate 730010) demo_t3)" by code_simp
    then show thesis using that by (cases "score_persistence demo_events (PDate 730010) demo_t3") auto
  qed
  have "{730001..<730001 + 3} \<subseteq> {d \<in> set [729000, 730001, 730002, 730003::int]. 730010 - 30 < d \<and> d \<le> 730010}" by auto
  then have "\<exists>d. {d..<d + 3} \<subseteq> {d \<in> set [729000, 730001, 730002, 730003::int]. 730010 - 30 < d \<and> d \<le> 730010}" by blast
  then show ?thesis using persistence_exact [OF r t n a] r by (simp add: Let_def)
qed

end
