(* ===== verification/Signal_Evidence.thy ===== *)
theory Signal_Evidence
  imports Signal_Persistence Py_Uuid
begin

text \<open>
  The evidence ledger (\<open>domain/signals/evidence.py\<close>): events are grouped by identity into evidence items that keep their
  history. The identifier of an event that has neither row nor content hash is the digest of its JSON text, a parameter.
  An instance of a facts class is the object of its fields: validating them again changes nothing. Payloads are compared
  as they are written.
\<close>

section \<open>Fields\<close>

definition evidence_states :: "string list" where
  "evidence_states = [''transient'', ''sustained'', ''superseded'', ''disputed'']"

definition transient_state :: string where "transient_state = ''transient''"
definition new_item_rule :: string where "new_item_rule = ''evidence.derivation.new_item.v1''"
definition max_event_ids :: int where "max_event_ids = 100000"

definition uuid_field :: "pyval \<Rightarrow> nat result" where
  "uuid_field v = (case uuid_of v of Some u \<Rightarrow> ok u
     | None \<Rightarrow> (case text_of v of Some s \<Rightarrow> (case uuid_of_text s of Some u \<Rightarrow> ok u | None \<Rightarrow> raise ValueError)
         | None \<Rightarrow> raise TypeError))"

definition exact_decimal :: "pyval \<Rightarrow> decimal result" where
  "exact_decimal v = (case v of PDec q \<Rightarrow> ok q | PDecSpecial \<Rightarrow> raise ValueError | PInt n \<Rightarrow> ok (of_int n)
     | _ \<Rightarrow> (case text_of v of Some s \<Rightarrow> (case dec_of_text s of Some q \<Rightarrow> ok q | None \<Rightarrow> raise ValueError) | None \<Rightarrow> raise TypeError))"

definition non_negative_int :: "pyval \<Rightarrow> int result" where
  "non_negative_int v = (case plain_int v of None \<Rightarrow> raise ValueError | Some n \<Rightarrow> if n < 0 then raise ValueError else ok n)"

definition state_field :: "pyval \<Rightarrow> string result" where
  "state_field v = (case v of PList _ \<Rightarrow> raise TypeError | PMap _ \<Rightarrow> raise TypeError
     | _ \<Rightarrow> (case text_of v of Some s \<Rightarrow> if s \<in> set evidence_states then ok s else raise ValueError | None \<Rightarrow> raise ValueError))"

text \<open>A number that is validated and then kept as it came.\<close>

definition kept_decimal :: "pyval \<Rightarrow> pyval result" where
  "kept_decimal v = (if v = PNone then ok v else rbind (exact_decimal v) (\<lambda>q. ok v))"

datatype event_id = Uuid_event nat | Text_event string

definition event_identifier :: "pyval \<Rightarrow> event_id result" where
  "event_identifier v = (case uuid_of v of Some u \<Rightarrow> ok (Uuid_event u) | None \<Rightarrow> rbind (clean_text v 128) (\<lambda>t. ok (Text_event t)))"

definition event_id_text :: "event_id \<Rightarrow> string" where
  "event_id_text i = (case i of Uuid_event u \<Rightarrow> uuid_text u | Text_event t \<Rightarrow> t)"

section \<open>Events\<close>

type_synonym evidence_identity = "nat \<times> nat option \<times> string \<times> string"

record signal_event =
  sg_borrower :: nat
  sg_facility :: "nat option"
  sg_date :: date
  sg_family :: string
  sg_event_type :: string
  sg_magnitude :: pyval
  sg_payload :: "(pyval \<times> pyval) list"
  sg_id :: "event_id option"
  sg_content_hash :: "string option"
  sg_evidence_type :: string

definition payload_of :: "pyval \<Rightarrow> (pyval \<times> pyval) list result" where
  "payload_of v = (case v of PMap kvs \<Rightarrow> ok kvs | _ \<Rightarrow> raise TypeError)"

text \<open>The content hash is validated and kept as it came.\<close>

definition kept_hash :: "pyval \<Rightarrow> string option result" where
  "kept_hash v = rbind (optional (\<lambda>v. clean_text v 128) v) (\<lambda>_. ok (text_of v))"

definition make_event :: "pyval \<Rightarrow> pyval \<Rightarrow> pyval \<Rightarrow> pyval \<Rightarrow> pyval \<Rightarrow> pyval \<Rightarrow> pyval \<Rightarrow> pyval \<Rightarrow> pyval \<Rightarrow> pyval \<Rightarrow> pyval \<Rightarrow> signal_event result" where
  "make_event borrower facility on family event_type magnitude payload event_id content_hash evidence_type row_id =
     rbind (uuid_field borrower) (\<lambda>b. rbind (optional uuid_field facility) (\<lambda>f.
     rbind (day_of_value on) (\<lambda>d. rbind (clean_text family 20) (\<lambda>fam.
     rbind (optional (\<lambda>v. clean_text v 100) event_type) (\<lambda>et. rbind (optional (\<lambda>v. clean_text v 100) evidence_type) (\<lambda>vt.
     if et = None \<and> vt = None then raise ValueError else
     rbind (optional event_identifier event_id) (\<lambda>i. rbind (optional event_identifier row_id) (\<lambda>j.
     if i \<noteq> None \<and> j \<noteq> None \<and> i \<noteq> j then raise ValueError else
     rbind (kept_decimal magnitude) (\<lambda>m. rbind (payload_of payload) (\<lambda>p. rbind (kept_hash content_hash) (\<lambda>h.
     ok \<lparr>sg_borrower = b, sg_facility = f, sg_date = d, sg_family = fam,
       sg_event_type = (case et of Some t \<Rightarrow> t | None \<Rightarrow> the vt), sg_magnitude = m, sg_payload = p,
       sg_id = (case i of Some _ \<Rightarrow> i | None \<Rightarrow> j), sg_content_hash = h,
       sg_evidence_type = (case vt of Some t \<Rightarrow> t | None \<Rightarrow> the et)\<rparr>)))))))))))"

definition field_or :: "pyval \<Rightarrow> string \<Rightarrow> pyval \<Rightarrow> pyval" where
  "field_or v n d = (case first_read v [n] of Some x \<Rightarrow> x | None \<Rightarrow> d)"

definition from_event :: "pyval \<Rightarrow> signal_event result" where
  "from_event v =
     rbind (required_field v [''borrower_id'']) (\<lambda>b. rbind (required_field v [''event_date'']) (\<lambda>d. rbind (required_field v [''family'']) (\<lambda>fam.
     make_event b (field_or v ''facility_id'' PNone) d fam (field_or v ''event_type'' PNone) (field_or v ''magnitude'' PNone)
       (field_or v ''payload'' (PMap [])) (field_or v ''event_id'' (field_or v ''id'' PNone)) (field_or v ''content_hash'' PNone)
       (field_or v ''evidence_type'' PNone) PNone)))"

definition event_identity :: "signal_event \<Rightarrow> evidence_identity" where
  "event_identity e = (sg_borrower e, sg_facility e, sg_family e, sg_evidence_type e)"

section \<open>Evidence items\<close>

record evidence_item =
  vi_borrower :: nat
  vi_facility :: "nat option"
  vi_family :: string
  vi_type :: string
  vi_first :: date
  vi_last :: date
  vi_persistence :: "int option"
  vi_count :: "int option"
  vi_materiality :: pyval
  vi_decay :: pyval
  vi_state :: string
  vi_counts :: bool
  vi_superseded_by :: "nat option"
  vi_supersedes :: "nat option"
  vi_sources :: "string list"
  vi_id :: "nat option"

definition item_identity :: "evidence_item \<Rightarrow> evidence_identity" where
  "item_identity x = (vi_borrower x, vi_facility x, vi_family x, vi_type x)"

text \<open>\<open>tuple(values)\<close>: a text gives its characters, a mapping its keys.\<close>

definition as_tuple :: "pyval \<Rightarrow> pyval list result" where
  "as_tuple v = (case v of PList vs \<Rightarrow> ok vs | PMap kvs \<Rightarrow> ok (map fst kvs)
     | _ \<Rightarrow> (case text_of v of Some s \<Rightarrow> ok (map (\<lambda>c. PStr [c]) s) | None \<Rightarrow> raise TypeError))"

definition merged_source_ids :: "string list \<Rightarrow> string list result" where
  "merged_source_ids ids = (let ds = sort (remdups ids) in if int (length ds) > max_event_ids then raise ValueError else ok ds)"

definition unit_factor :: "pyval \<Rightarrow> unit result" where
  "unit_factor v = (case v of PNone \<Rightarrow> ok () | PDec q \<Rightarrow> ensure (0 \<le> q \<and> q \<le> 1) ValueError
     | PInt n \<Rightarrow> ensure (0 \<le> n \<and> n \<le> 1) ValueError | _ \<Rightarrow> raise TypeError)"

definition make_item :: "pyval \<Rightarrow> pyval \<Rightarrow> pyval \<Rightarrow> pyval \<Rightarrow> pyval \<Rightarrow> pyval \<Rightarrow> pyval \<Rightarrow> pyval \<Rightarrow> pyval \<Rightarrow> pyval \<Rightarrow> pyval \<Rightarrow> pyval
    \<Rightarrow> pyval \<Rightarrow> pyval \<Rightarrow> pyval list \<Rightarrow> pyval \<Rightarrow> evidence_item result" where
  "make_item borrower facility family evidence_type first_seen last_seen persistence_days event_count materiality decay state
      counts superseded_by supersedes sources item_id =
     rbind (uuid_field borrower) (\<lambda>b. rbind (optional uuid_field facility) (\<lambda>f.
     rbind (clean_text family 20) (\<lambda>fam. rbind (clean_text evidence_type 50) (\<lambda>t.
     rbind (day_of_value first_seen) (\<lambda>d1. rbind (day_of_value last_seen) (\<lambda>d2.
     if d2 < d1 then raise ValueError else
     rbind (state_field state) (\<lambda>st. rbind (boolean counts) (\<lambda>c.
     rbind (optional non_negative_int persistence_days) (\<lambda>n. rbind (optional non_negative_int event_count) (\<lambda>k.
     rbind (kept_decimal materiality) (\<lambda>m. rbind (kept_decimal decay) (\<lambda>q. rbind (unit_factor q) (\<lambda>_.
     rbind (optional uuid_field item_id) (\<lambda>i. rbind (optional uuid_field superseded_by) (\<lambda>by. rbind (optional uuid_field supersedes) (\<lambda>sup.
     if i \<noteq> None \<and> (i = by \<or> i = sup) then raise ValueError else
     rbind (rmap (\<lambda>v. clean_text v 128) sources) (\<lambda>ss. rbind (merged_source_ids ss) (\<lambda>ids.
     ok \<lparr>vi_borrower = b, vi_facility = f, vi_family = fam, vi_type = t, vi_first = d1, vi_last = d2, vi_persistence = n,
       vi_count = k, vi_materiality = m, vi_decay = q, vi_state = st, vi_counts = c, vi_superseded_by = by, vi_supersedes = sup,
       vi_sources = ids, vi_id = i\<rparr>))))))))))))))))))"

definition from_item :: "pyval \<Rightarrow> evidence_item result" where
  "from_item v =
     rbind (required_field v [''borrower_id'']) (\<lambda>b. rbind (required_field v [''family'']) (\<lambda>fam. rbind (required_field v [''evidence_type'']) (\<lambda>t.
     rbind (required_field v [''first_seen'']) (\<lambda>d1. rbind (required_field v [''last_seen'']) (\<lambda>d2.
     rbind (as_tuple (field_or v ''source_event_ids'' (PList []))) (\<lambda>sources.
     make_item b (field_or v ''facility_id'' PNone) fam t d1 d2 (field_or v ''persistence_days'' PNone)
       (field_or v ''event_count_window'' PNone) (field_or v ''materiality_pct'' PNone) (field_or v ''decay_factor'' PNone)
       (field_or v ''state'' (PStr transient_state)) (field_or v ''counts_toward_pressure'' (PBool False))
       (field_or v ''superseded_by_id'' PNone) (field_or v ''supersedes_id'' PNone) sources (field_or v ''id'' PNone)))))))"

record evidence_transition =
  vt_from :: "string option"
  vt_to :: string
  vt_on :: date
  vt_rule :: string
  vt_evidence :: "nat option"
  vt_snapshot :: "nat option"

definition make_evidence_transition :: "evidence_transition \<Rightarrow> evidence_transition result" where
  "make_evidence_transition t =
     (if (case vt_from t of None \<Rightarrow> False | Some s \<Rightarrow> s \<notin> set evidence_states) then raise ValueError
      else if vt_to t \<notin> set evidence_states then raise ValueError
      else rbind (clean_text (PStr (vt_rule t)) 100) (\<lambda>rule. ok (t\<lparr>vt_rule := rule\<rparr>)))"

record evidence_score =
  vs_item :: evidence_item
  vs_transition :: "evidence_transition option"

definition make_score :: "evidence_item \<Rightarrow> evidence_transition option \<Rightarrow> evidence_score result" where
  "make_score x t = (case t of None \<Rightarrow> ok \<lparr>vs_item = x, vs_transition = None\<rparr>
     | Some tr \<Rightarrow> if vt_to tr \<noteq> vi_state x then raise ValueError
         else if vt_evidence tr \<noteq> None \<and> vt_evidence tr \<noteq> vi_id x then raise ValueError
         else ok \<lparr>vs_item = x, vs_transition = t\<rparr>)"

section \<open>Derivation\<close>

definition event_source_id :: "(signal_event \<Rightarrow> string) \<Rightarrow> signal_event \<Rightarrow> string" where
  "event_source_id derived e = (case sg_id e of Some i \<Rightarrow> event_id_text i
     | None \<Rightarrow> (case sg_content_hash e of Some h \<Rightarrow> h | None \<Rightarrow> ''derived:'' @ derived e))"

fun deduplicated :: "(signal_event \<Rightarrow> string) \<Rightarrow> (string \<times> signal_event) list \<Rightarrow> signal_event list \<Rightarrow> (string \<times> signal_event) list result" where
  "deduplicated derived seen [] = ok seen"
| "deduplicated derived seen (e # es) = (let k = event_source_id derived e in case lookup seen k of
     None \<Rightarrow> deduplicated derived (seen @ [(k, e)]) es
   | Some previous \<Rightarrow> if previous \<noteq> e then raise ValueError else deduplicated derived seen es)"

definition deduplicate_events :: "(signal_event \<Rightarrow> string) \<Rightarrow> signal_event list \<Rightarrow> signal_event list result" where
  "deduplicate_events derived es = rbind (deduplicated derived [] es) (\<lambda>seen.
     ok (sort_key (\<lambda>e. (sg_date e, event_source_id derived e)) (map snd seen)))"

definition inside_window :: "date \<Rightarrow> int option \<Rightarrow> date \<Rightarrow> bool result" where
  "inside_window as_of window d = (if d > as_of then ok False else
     (case window of None \<Rightarrow> ok True
      | Some w \<Rightarrow> rbind (add_days as_of (- (w - 1))) (\<lambda>first. ok (d \<ge> first))))"

function extend_run :: "date list \<Rightarrow> date \<Rightarrow> int \<Rightarrow> int result" where
  "extend_run ds c run = (case add_days c run of Inl e \<Rightarrow> raise e
     | Inr d \<Rightarrow> if d \<in> set ds then extend_run ds c (run + 1) else ok run)"
  by pat_completeness auto
termination
  by (relation "measure (\<lambda>(ds, c, run). nat (max_ordinal + 1 - (c + run)))")
    (auto simp: add_days_def Let_def split: if_splits)

declare extend_run.simps [simp del]

fun runs_loop :: "date list \<Rightarrow> int \<Rightarrow> date list \<Rightarrow> int result" where
  "runs_loop ds longest [] = ok longest"
| "runs_loop ds longest (c # cs) = rbind (add_days c (- 1)) (\<lambda>before.
     if before \<in> set ds then runs_loop ds longest cs
     else rbind (extend_run ds c 1) (\<lambda>run. runs_loop ds (max longest run) cs))"

definition longest_consecutive_run :: "date list \<Rightarrow> int result" where
  "longest_consecutive_run ds = runs_loop ds 0 ds"

definition scoring_date :: "pyval \<Rightarrow> signal_event list \<Rightarrow> evidence_item list \<Rightarrow> date result" where
  "scoring_date as_of es xs = (if as_of \<noteq> PNone then day_of_value as_of else
     (case map sg_date es @ map vi_last xs of [] \<Rightarrow> raise ValueError | d # ds \<Rightarrow> ok (fold max ds d)))"

definition optional_int :: "int option \<Rightarrow> pyval" where "optional_int n = pyopt PInt n"
definition uuid_arg :: "nat option \<Rightarrow> pyval" where "uuid_arg n = pyopt PUuid n"

definition fold_min :: "date list \<Rightarrow> date" where "fold_min ds = fold min (tl ds) (hd ds)"
definition fold_max :: "date list \<Rightarrow> date" where "fold_max ds = fold max (tl ds) (hd ds)"

definition score_identity :: "(signal_event \<Rightarrow> string) \<Rightarrow> evidence_identity \<Rightarrow> signal_event list \<Rightarrow> evidence_item option \<Rightarrow> date
    \<Rightarrow> int option \<Rightarrow> evidence_score option result" where
  "score_identity derived key es prior as_of window =
     (if prior = None \<and> es = [] then ok None else
      let dates = sort (remdups (map sg_date es));
          observed = dates @ (case prior of None \<Rightarrow> [] | Some x \<Rightarrow> [vi_first x, vi_last x]);
          first_seen = fold_min observed; last_seen = fold_max observed in
      rbind (rmap (inside_window as_of window) dates) (\<lambda>inside.
      rbind (merged_source_ids ((case prior of None \<Rightarrow> [] | Some x \<Rightarrow> vi_sources x) @ map (event_source_id derived) es)) (\<lambda>sources.
      rbind (if dates \<noteq> [] then rbind (longest_consecutive_run dates) (\<lambda>n. ok (Some n))
             else ok (case prior of None \<Rightarrow> None | Some x \<Rightarrow> vi_persistence x)) (\<lambda>persistence_days.
      let event_count = (if es \<noteq> [] then Some (int (length (filter id inside)))
            else case prior of None \<Rightarrow> Some 0 | Some x \<Rightarrow> vi_count x) in
      rbind (case prior of Some x \<Rightarrow> ok None
        | None \<Rightarrow> rbind (make_evidence_transition \<lparr>vt_from = None, vt_to = transient_state, vt_on = first_seen, vt_rule = new_item_rule,
            vt_evidence = None, vt_snapshot = None\<rparr>) (\<lambda>t. ok (Some t))) (\<lambda>transition.
      case key of (b, f, fam, t) \<Rightarrow>
      rbind (make_item (PUuid b) (uuid_arg f) (PStr fam) (PStr t) (PDate first_seen) (PDate last_seen)
          (optional_int persistence_days) (optional_int event_count)
          (case prior of None \<Rightarrow> PNone | Some x \<Rightarrow> vi_materiality x) (case prior of None \<Rightarrow> PDec 1 | Some x \<Rightarrow> vi_decay x)
          (PStr (case prior of None \<Rightarrow> transient_state | Some x \<Rightarrow> vi_state x))
          (PBool (case prior of None \<Rightarrow> False | Some x \<Rightarrow> vi_counts x))
          (uuid_arg (case prior of None \<Rightarrow> None | Some x \<Rightarrow> vi_superseded_by x))
          (uuid_arg (case prior of None \<Rightarrow> None | Some x \<Rightarrow> vi_supersedes x))
          (map PStr sources) (uuid_arg (case prior of None \<Rightarrow> None | Some x \<Rightarrow> vi_id x))) (\<lambda>x.
      rbind (make_score x transition) (\<lambda>s. ok (Some s))))))))"

fun duplicate_identity :: "evidence_item list \<Rightarrow> bool" where
  "duplicate_identity [] = False"
| "duplicate_identity (x # xs) = (item_identity x \<in> item_identity ` set xs \<or> duplicate_identity xs)"

definition identity_sort_key :: "evidence_identity \<Rightarrow> string \<times> string \<times> string \<times> string" where
  "identity_sort_key k = (case k of (b, f, fam, t) \<Rightarrow> (uuid_text b, (case f of None \<Rightarrow> [] | Some u \<Rightarrow> uuid_text u), fam, t))"

definition derive_facts :: "(signal_event \<Rightarrow> string) \<Rightarrow> signal_event list \<Rightarrow> evidence_item list \<Rightarrow> pyval \<Rightarrow> pyval \<Rightarrow> evidence_score list result" where
  "derive_facts derived es xs as_of window =
     (if es = [] \<and> xs = [] then ok [] else
      rbind (scoring_date as_of es xs) (\<lambda>d.
      rbind (optional positive_int window) (\<lambda>w.
      if duplicate_identity xs then raise ValueError else
      let known = filter (\<lambda>e. sg_date e \<le> d) es;
          keys = sort_key identity_sort_key (remdups (map item_identity xs @ map event_identity known)) in
      rbind (rmap (\<lambda>k. rbind (deduplicate_events derived (filter (\<lambda>e. event_identity e = k) known)) (\<lambda>current.
          score_identity derived k current (find (\<lambda>x. item_identity x = k) xs) d w)) keys) (\<lambda>rs.
      ok (concat (map (case_option [] (\<lambda>r. [r])) rs))))))"

definition derive_evidence :: "(signal_event \<Rightarrow> string) \<Rightarrow> pyval list \<Rightarrow> pyval list \<Rightarrow> pyval \<Rightarrow> pyval \<Rightarrow> evidence_score list result" where
  "derive_evidence derived events existing as_of window =
     rbind (rmap from_event events) (\<lambda>es. rbind (rmap from_item existing) (\<lambda>xs. derive_facts derived es xs as_of window))"

text \<open>The window of an evidence run: any store with a T3 section, configured thresholds being an object.\<close>

definition configured_window :: "pyval \<Rightarrow> pyval result" where
  "configured_window thresholds = (if thresholds = PNone then ok PNone else
     let section_value = (case thresholds of PMap kvs \<Rightarrow> (case map_get kvs ''T3'' of Some v \<Rightarrow> v | None \<Rightarrow> thresholds)
           | _ \<Rightarrow> (case first_present thresholds [''T3'', ''t3'', ''persistence''] of Some v \<Rightarrow> v | None \<Rightarrow> thresholds));
         v = field_or section_value ''event_window_days'' PNone in
     if v = PNone then ok PNone else rbind (positive_int v) (\<lambda>_. ok v))"

definition score_evidence :: "(signal_event \<Rightarrow> string) \<Rightarrow> pyval list \<Rightarrow> pyval list \<Rightarrow> pyval \<Rightarrow> pyval \<Rightarrow> evidence_score list result" where
  "score_evidence derived events existing as_of thresholds =
     rbind (day_of_value as_of) (\<lambda>_. rbind (configured_window thresholds) (derive_evidence derived events existing as_of))"

section \<open>The two run measures agree\<close>

lemma extend_run_ok:
  "extend_run ds c run = ok r \<Longrightarrow> {c..<c + run} \<subseteq> set ds \<Longrightarrow> 0 \<le> run \<Longrightarrow> {c..<c + r} \<subseteq> set ds \<and> c + r \<notin> set ds \<and> run \<le> r"
proof (induction ds c run rule: extend_run.induct)
  case (1 ds c run)
  obtain d where d: "add_days c run = ok d"
    using "1.prems"(1) by (cases "add_days c run") (auto simp: extend_run.simps)
  have dd: "d = c + run" using add_days_ok [OF d] .
  show ?case
  proof (cases "d \<in> set ds")
    case True
    have "{c..<c + (run + 1)} \<subseteq> set ds"
    proof
      fix x assume "x \<in> {c..<c + (run + 1)}"
      then have "x \<in> {c..<c + run} \<or> x = d" using dd by auto
      then show "x \<in> set ds" using True "1.prems"(2) by auto
    qed
    moreover have "extend_run ds c (run + 1) = ok r" using "1.prems"(1) d True by (simp add: extend_run.simps)
    ultimately show ?thesis using "1.IH" [OF d True] "1.prems"(3) by simp
  next
    case False
    then show ?thesis using "1.prems" d dd by (simp add: extend_run.simps)
  qed
qed

definition starts :: "date list \<Rightarrow> date \<Rightarrow> bool" where "starts ds c \<longleftrightarrow> c \<in> set ds \<and> c - 1 \<notin> set ds"

lemma runs_loop_ok:
  "runs_loop ds longest cs = ok n \<Longrightarrow> set cs \<subseteq> set ds \<Longrightarrow> 0 \<le> longest \<Longrightarrow>
    longest \<le> n \<and> (\<forall>c\<in>set cs. starts ds c \<longrightarrow> (\<exists>r. extend_run ds c 1 = ok r \<and> r \<le> n))
    \<and> (n = longest \<or> (\<exists>c\<in>set cs. extend_run ds c 1 = ok n))"
proof (induction ds longest cs arbitrary: n rule: runs_loop.induct)
  case (2 ds longest c cs)
  obtain before where b: "add_days c (- 1) = ok before" using "2.prems"(1) by (cases "add_days c (- 1)") auto
  have bb: "before = c - 1" using add_days_ok [OF b] by simp
  show ?case
  proof (cases "before \<in> set ds")
    case True
    then have "runs_loop ds longest cs = ok n" using "2.prems"(1) b by simp
    from "2.IH"(1) [OF True this] show ?thesis using "2.prems"(2,3) True bb by (auto simp: starts_def)
  next
    case False
    obtain r where r: "extend_run ds c 1 = ok r" and rest: "runs_loop ds (max longest r) cs = ok n"
      using "2.prems"(1) b False by (cases "extend_run ds c 1") auto
    from "2.IH"(2) [OF False rest] "2.prems"(2,3) have
      ih: "max longest r \<le> n" "\<forall>c\<in>set cs. starts ds c \<longrightarrow> (\<exists>r. extend_run ds c 1 = ok r \<and> r \<le> n)"
        "n = max longest r \<or> (\<exists>c\<in>set cs. extend_run ds c 1 = ok n)" by auto
    then show ?thesis using r by (auto simp: max_def split: if_splits)
  qed
qed simp

lemma run_has_start:
  assumes "{d..<d + int k} \<subseteq> set ds" and "0 < k"
  shows "\<exists>s\<le>d. starts ds s \<and> {s..<d + int k} \<subseteq> set ds"
proof -
  define S where "S = {s. s \<le> d \<and> {s..d} \<subseteq> set ds}"
  have "d \<in> S" using assms by (auto simp: S_def)
  moreover have "S \<subseteq> set ds" by (auto simp: S_def)
  ultimately have m: "Min S \<in> S" and least: "\<And>s. s \<in> S \<Longrightarrow> Min S \<le> s"
    by (auto intro!: Min_in Min_le finite_subset [of S "set ds"])
  have "Min S - 1 \<notin> set ds"
  proof
    assume "Min S - 1 \<in> set ds"
    moreover have "x \<in> set ds" if "x \<in> {Min S..d}" for x using m that by (auto simp: S_def)
    moreover have "x = Min S - 1 \<or> x \<in> {Min S..d}" if "x \<in> {Min S - 1..d}" for x using that by auto
    ultimately have "{Min S - 1..d} \<subseteq> set ds" by blast
    then have "Min S - 1 \<in> S" using m by (simp add: S_def)
    from least [OF this] show False by simp
  qed
  moreover have "{Min S..<d + int k} \<subseteq> set ds"
  proof
    fix x assume "x \<in> {Min S..<d + int k}"
    then have "x \<in> {Min S..d} \<or> x \<in> {d..<d + int k}" by auto
    then show "x \<in> set ds" using m assms(1) by (auto simp: S_def)
  qed
  ultimately show ?thesis using m by (auto simp: S_def starts_def)
qed

lemma longest_consecutive_run_ok:
  assumes "sorted_wrt (<) ds" and "longest_consecutive_run ds = ok n"
  shows "n = int (longest_run ds)"
proof -
  have loop: "0 \<le> n" "\<forall>c\<in>set ds. starts ds c \<longrightarrow> (\<exists>r. extend_run ds c 1 = ok r \<and> r \<le> n)"
    "n = 0 \<or> (\<exists>c\<in>set ds. extend_run ds c 1 = ok n)"
    using runs_loop_ok [of ds 0 ds n] assms(2) by (auto simp: longest_consecutive_run_def)
  have "holds_run k (set ds) \<longleftrightarrow> int k \<le> n" for k
  proof
    assume "holds_run k (set ds)"
    then obtain d where d: "{d..<d + int k} \<subseteq> set ds" by (auto simp: holds_run_def)
    show "int k \<le> n"
    proof (cases "k = 0")
      case False
      then obtain s where s: "s \<le> d" "starts ds s" "{s..<d + int k} \<subseteq> set ds" using run_has_start [OF d] by auto
      then obtain r where r: "extend_run ds s 1 = ok r" "r \<le> n" using loop(2) by (auto simp: starts_def)
      have one: "{s..<s + 1} \<subseteq> set ds" using s(2) by (auto simp: starts_def)
      have "s + r \<notin> set ds" "1 \<le> r" using extend_run_ok [OF r(1) one] by auto
      then have "s + r \<notin> {s..<d + int k}" using s(3) by blast
      then have "d + int k \<le> s + r" using \<open>1 \<le> r\<close> by simp
      then show ?thesis using s(1) r(2) by simp
    qed (use loop(1) in simp)
  next
    assume k: "int k \<le> n"
    show "holds_run k (set ds)"
    proof (cases "n = 0")
      case False
      then obtain c where c: "c \<in> set ds" "extend_run ds c 1 = ok n" using loop(3) by auto
      have "{c..<c + 1} \<subseteq> set ds" using c(1) by auto
      then have "{c..<c + n} \<subseteq> set ds" using extend_run_ok [OF c(2)] by simp
      then have "{c..<c + int k} \<subseteq> set ds" using k by auto
      then show ?thesis by (auto simp: holds_run_def)
    qed (use k in \<open>auto simp: holds_run_def\<close>)
  qed
  then have "int k \<le> n \<longleftrightarrow> k \<le> longest_run ds" for k using longest_run_exact [OF assms(1), of k] by simp
  from this [of "longest_run ds"] this [of "nat n"] show ?thesis using loop(1) by simp
qed

text \<open>The measure walks one day beyond every run, so it raises at the two ends of the calendar and only there.\<close>

lemma add_days_err: "add_days d n = Inl e \<Longrightarrow> e = OverflowError \<and> \<not> (min_ordinal \<le> d + n \<and> d + n \<le> max_ordinal)"
  by (auto simp: add_days_def Let_def split: if_splits)

lemma add_days_range: "add_days d n = ok e \<Longrightarrow> min_ordinal \<le> d + n \<and> d + n \<le> max_ordinal"
  by (auto simp: add_days_def Let_def split: if_splits)

lemma extend_run_range: "extend_run ds c run = ok r \<Longrightarrow> c + r \<le> max_ordinal"
proof (induction ds c run rule: extend_run.induct)
  case (1 ds c run)
  obtain d where d: "add_days c run = ok d"
    using "1.prems" by (cases "add_days c run") (auto simp: extend_run.simps)
  show ?case
  proof (cases "d \<in> set ds")
    case True
    then show ?thesis using "1.IH" [OF d True] "1.prems" d by (simp add: extend_run.simps)
  next
    case False
    then show ?thesis using "1.prems" d add_days_range [OF d] by (simp add: extend_run.simps)
  qed
qed

lemma extend_run_err:
  "extend_run ds c run = Inl e \<Longrightarrow> {c..<c + run} \<subseteq> set ds \<Longrightarrow> 1 \<le> run \<Longrightarrow>
   \<forall>d\<in>set ds. min_ordinal \<le> d \<and> d \<le> max_ordinal \<Longrightarrow> e = OverflowError \<and> max_ordinal \<in> set ds"
proof (induction ds c run rule: extend_run.induct)
  case (1 ds c run)
  have c: "c \<in> set ds" "c + run - 1 \<in> set ds" using "1.prems"(2,3) by auto
  show ?case
  proof (cases "add_days c run")
    case (Inl e')
    note err = add_days_err [OF Inl]
    have "min_ordinal \<le> c" "c + run - 1 \<le> max_ordinal" using c "1.prems"(4) by blast+
    then have "c + run - 1 = max_ordinal" using err "1.prems"(3) by linarith
    moreover have "e = e'" using "1.prems"(1) Inl by (simp add: extend_run.simps)
    ultimately show ?thesis using err c(2) by simp
  next
    case (Inr d)
    have dd: "d = c + run" using add_days_ok [OF Inr] .
    have "d \<in> set ds" using "1.prems"(1) Inr by (auto simp: extend_run.simps split: if_splits)
    moreover have "{c..<c + (run + 1)} \<subseteq> set ds"
    proof
      fix x assume "x \<in> {c..<c + (run + 1)}"
      then have "x \<in> {c..<c + run} \<or> x = d" using dd by auto
      then show "x \<in> set ds" using calculation "1.prems"(2) by auto
    qed
    moreover have "extend_run ds c (run + 1) = Inl e" using "1.prems"(1) Inr calculation(1) by (simp add: extend_run.simps)
    ultimately show ?thesis using "1.IH" [OF Inr] "1.prems"(3,4) by simp
  qed
qed

lemma runs_loop_err:
  "runs_loop ds longest cs = Inl e \<Longrightarrow> set cs \<subseteq> set ds \<Longrightarrow> \<forall>d\<in>set ds. min_ordinal \<le> d \<and> d \<le> max_ordinal \<Longrightarrow>
   e = OverflowError \<and> (min_ordinal \<in> set ds \<or> max_ordinal \<in> set ds)"
proof (induction ds longest cs rule: runs_loop.induct)
  case (2 ds longest c cs)
  have c: "c \<in> set ds" "min_ordinal \<le> c" "c \<le> max_ordinal" "set cs \<subseteq> set ds" using "2.prems"(2,3) by auto
  show ?case
  proof (cases "add_days c (- 1)")
    case (Inl e')
    note err = add_days_err [OF Inl]
    then have "c = min_ordinal" using c(2,3) by linarith
    moreover have "e = e'" using "2.prems"(1) Inl by simp
    ultimately show ?thesis using err c(1) by simp
  next
    case (Inr before)
    show ?thesis
    proof (cases "before \<in> set ds")
      case True
      then have "runs_loop ds longest cs = Inl e" using "2.prems"(1) Inr by simp
      from "2.IH"(1) [OF True this c(4) "2.prems"(3)] show ?thesis .
    next
      case False
      show ?thesis
      proof (cases "extend_run ds c 1")
        case (Inl e')
        have "{c..<c + 1} \<subseteq> set ds" using c(1) by auto
        from extend_run_err [OF Inl this _ "2.prems"(3)] show ?thesis using "2.prems"(1) Inr False Inl by simp
      next
        case run: (Inr r)
        then have "runs_loop ds (max longest r) cs = Inl e" using "2.prems"(1) Inr False by simp
        from "2.IH"(2) [OF False this c(4) "2.prems"(3)] show ?thesis .
      qed
    qed
  qed
qed simp

lemma runs_loop_before: "runs_loop ds longest cs = ok n \<Longrightarrow> \<forall>c\<in>set cs. min_ordinal < c"
proof (induction ds longest cs rule: runs_loop.induct)
  case (2 ds longest c cs)
  obtain before where b: "add_days c (- 1) = ok before" using "2.prems" by (cases "add_days c (- 1)") auto
  then have "min_ordinal < c" using add_days_range [OF b] by simp
  moreover have "\<forall>c\<in>set cs. min_ordinal < c"
  proof (cases "before \<in> set ds")
    case True
    then show ?thesis using "2.IH"(1) [OF True] "2.prems" b by simp
  next
    case False
    then obtain r where "extend_run ds c 1 = ok r" "runs_loop ds (max longest r) cs = ok n"
      using "2.prems" b by (cases "extend_run ds c 1") auto
    then show ?thesis using "2.IH"(2) [OF False] by simp
  qed
  ultimately show ?case by simp
qed simp

lemma longest_consecutive_run_inside:
  assumes "longest_consecutive_run ds = ok n" and "\<forall>d\<in>set ds. min_ordinal \<le> d \<and> d \<le> max_ordinal"
  shows "min_ordinal \<notin> set ds \<and> max_ordinal \<notin> set ds"
proof -
  have run: "runs_loop ds 0 ds = ok n" using assms(1) by (simp add: longest_consecutive_run_def)
  have "max_ordinal \<notin> set ds"
  proof
    assume "max_ordinal \<in> set ds"
    then have "{max_ordinal..<max_ordinal + int 1} \<subseteq> set ds" by auto
    from run_has_start [OF this] obtain s where s: "s \<le> max_ordinal" "starts ds s" "{s..<max_ordinal + int 1} \<subseteq> set ds" by auto
    obtain r where r: "extend_run ds s 1 = ok r"
      using runs_loop_ok [OF run] s(2) by (auto simp: starts_def)
    have "{s..<s + 1} \<subseteq> set ds" using s(2) by (auto simp: starts_def)
    then have "s + r \<notin> set ds" "1 \<le> r" using extend_run_ok [OF r] by auto
    moreover have "s + r \<le> max_ordinal" using extend_run_range [OF r] .
    ultimately have "s + r \<in> {s..<max_ordinal + int 1}" by simp
    then show False using s(3) \<open>s + r \<notin> set ds\<close> by blast
  qed
  then show ?thesis using runs_loop_before [OF run] by auto
qed

text \<open>
  C38: On distinct sorted dates of the calendar, the run length an evidence item stores is the length of the
  longest interval of consecutive days among them, which is what the scan of the persistence stage
  measures on the same dates, though the item walks forward from every first day of a run. It raises
  an overflow exactly when the first or the last day of the calendar is among them.
\<close>

theorem run_measures_agree:
  assumes "sorted_wrt (<) ds" and "\<forall>d\<in>set ds. min_ordinal \<le> d \<and> d \<le> max_ordinal"
  shows "if min_ordinal \<in> set ds \<or> max_ordinal \<in> set ds then longest_consecutive_run ds = raise OverflowError
     else \<exists>n. longest_consecutive_run ds = ok (int n) \<and> n = longest_run ds
        \<and> (\<forall>k. (\<exists>d. {d..<d + int k} \<subseteq> set ds) \<longleftrightarrow> k \<le> n)"
proof (cases "longest_consecutive_run ds")
  case (Inl e)
  then have "runs_loop ds 0 ds = Inl e" by (simp add: longest_consecutive_run_def)
  from runs_loop_err [OF this subset_refl assms(2)] show ?thesis using Inl by simp
next
  case (Inr n)
  have "min_ordinal \<notin> set ds \<and> max_ordinal \<notin> set ds"
    by (rule longest_consecutive_run_inside [OF Inr assms(2)])
  then show ?thesis
    using Inr longest_consecutive_run_ok [OF assms(1) Inr] longest_run_exact [OF assms(1)] by (simp add: holds_run_def)
qed

theorem run_measures_agree_witness:
  "longest_consecutive_run [730000, 730003, 730004, 730005, 730009] = ok 3 \<and> longest_consecutive_run [1, 5] = raise OverflowError"
proof -
  have "sorted_wrt (<) [730000, 730003, 730004, 730005, 730009 :: int]" "longest_run [730000, 730003, 730004, 730005, 730009] = 3"
    by simp code_simp
  with run_measures_agree [of "[730000, 730003, 730004, 730005, 730009]"] run_measures_agree [of "[1, 5]"]
  show ?thesis by (simp add: min_ordinal_def max_ordinal_def)
qed

section \<open>What the ledger keeps\<close>

lemma clean_text_ok: "clean_text v n = ok t \<Longrightarrow> \<exists>s. text_of v = Some s \<and> t = strip s"
  by (auto simp: clean_text_def Let_def split: option.splits if_splits)

lemma clean_text_PStr: "clean_text (PStr s) n = ok t \<Longrightarrow> t = strip s"
  by (auto dest: clean_text_ok)

definition clean_identity :: "evidence_identity \<Rightarrow> bool" where
  "clean_identity k \<longleftrightarrow> (case k of (b, f, fam, t) \<Rightarrow> strip fam = fam \<and> strip t = t)"

lemma optional_ok: "optional f v = ok r \<Longrightarrow> v = PNone \<and> r = None \<or> v \<noteq> PNone \<and> (\<exists>x. f v = ok x \<and> r = Some x)"
  by (auto simp: optional_def split: if_splits)

lemma optional_clean: "optional (\<lambda>v. clean_text v n) v = ok (Some t) \<Longrightarrow> strip t = t"
  by (auto dest!: optional_ok clean_text_ok)

lemma make_event_clean:
  assumes "make_event borrower facility on family event_type magnitude payload event_id content_hash evidence_type row_id = ok e"
  shows "clean_identity (event_identity e)"
proof -
  obtain fam et vt where fam: "clean_text family 20 = ok fam" and et: "optional (\<lambda>v. clean_text v 100) event_type = ok et"
    and vt: "optional (\<lambda>v. clean_text v 100) evidence_type = ok vt" and some: "\<not> (et = None \<and> vt = None)"
    and e: "sg_family e = fam" "sg_evidence_type e = (case vt of Some t \<Rightarrow> t | None \<Rightarrow> the et)"
    using assms unfolding make_event_def by (auto simp: rbind_ok_iff split: if_splits)
  have "strip fam = fam" using clean_text_ok [OF fam] by auto
  moreover have "strip (sg_evidence_type e) = sg_evidence_type e"
    using e(2) some et vt by (cases vt; cases et) (auto dest: optional_clean)
  ultimately show ?thesis using e(1) by (simp add: clean_identity_def event_identity_def)
qed

lemma from_event_clean: "from_event v = ok e \<Longrightarrow> clean_identity (event_identity e)"
  by (auto simp: from_event_def dest: make_event_clean)

lemma if_raise_ok_iff: "((if b then raise e else r) = ok x) \<longleftrightarrow> \<not> b \<and> r = ok x"
  by simp

lemma merged_set: "merged_source_ids ids = ok ds \<Longrightarrow> set ds = set ids"
  by (auto simp: merged_source_ids_def Let_def split: if_splits)

lemma rmap_clean: "rmap (\<lambda>v. clean_text v n) vs = ok ss \<Longrightarrow> s \<in> set ss \<Longrightarrow> strip s = s"
  by (auto dest!: rmap_set clean_text_ok)

lemma rmap_clean_PStr: "rmap (\<lambda>v. clean_text v n) (map PStr ids) = ok ss \<Longrightarrow> ss = map strip ids"
  by (induction ids arbitrary: ss) (auto dest!: clean_text_PStr)

lemma state_field_ok: "state_field v = ok s \<Longrightarrow> s \<in> set evidence_states"
  by (cases v) (auto simp: state_field_def text_of_def split: if_splits)

text \<open>What a constructed item says of the arguments.\<close>

lemma make_item_ok:
  assumes "make_item borrower facility family evidence_type first_seen last_seen persistence_days event_count materiality decay state
    counts superseded_by supersedes sources item_id = ok x"
  shows "uuid_field borrower = ok (vi_borrower x)" and "optional uuid_field facility = ok (vi_facility x)"
    and "clean_text family 20 = ok (vi_family x)" and "clean_text evidence_type 50 = ok (vi_type x)"
    and "day_of_value first_seen = ok (vi_first x)" and "day_of_value last_seen = ok (vi_last x)"
    and "state_field state = ok (vi_state x)" and "boolean counts = ok (vi_counts x)"
    and "optional uuid_field item_id = ok (vi_id x)" and "vi_first x \<le> vi_last x"
    and "\<exists>ss. rmap (\<lambda>v. clean_text v 128) sources = ok ss \<and> set (vi_sources x) = set ss"
    and "vi_state x \<in> set evidence_states"
proof -
  obtain ss ids where ss: "rmap (\<lambda>v. clean_text v 128) sources = ok ss" "merged_source_ids ss = ok ids" "vi_sources x = ids"
    and st: "state_field state = ok (vi_state x)"
    and "uuid_field borrower = ok (vi_borrower x)" "optional uuid_field facility = ok (vi_facility x)"
      "clean_text family 20 = ok (vi_family x)" "clean_text evidence_type 50 = ok (vi_type x)"
      "day_of_value first_seen = ok (vi_first x)" "day_of_value last_seen = ok (vi_last x)"
      "boolean counts = ok (vi_counts x)" "optional uuid_field item_id = ok (vi_id x)" "vi_first x \<le> vi_last x"
    using assms unfolding make_item_def rbind_ok_iff if_raise_ok_iff by (elim exE conjE) (force simp: not_less)
  then show "uuid_field borrower = ok (vi_borrower x)" "optional uuid_field facility = ok (vi_facility x)"
      "clean_text family 20 = ok (vi_family x)" "clean_text evidence_type 50 = ok (vi_type x)"
      "day_of_value first_seen = ok (vi_first x)" "day_of_value last_seen = ok (vi_last x)" "state_field state = ok (vi_state x)"
      "boolean counts = ok (vi_counts x)" "optional uuid_field item_id = ok (vi_id x)" "vi_first x \<le> vi_last x"
    by blast+
  show "\<exists>ss. rmap (\<lambda>v. clean_text v 128) sources = ok ss \<and> set (vi_sources x) = set ss" using ss merged_set by blast
  show "vi_state x \<in> set evidence_states" using state_field_ok [OF st] .
qed

lemma from_item_clean:
  assumes "from_item v = ok x"
  shows "clean_identity (item_identity x)" and "\<forall>s\<in>set (vi_sources x). strip s = s"
proof -
  obtain b f fam t d1 d2 n k m q st c sb sp sources i where
    mk: "make_item b f fam t d1 d2 n k m q st c sb sp sources i = ok x"
    using assms by (auto simp: from_item_def rbind_ok_iff)
  note facts = make_item_ok [OF mk]
  show "clean_identity (item_identity x)"
    using clean_text_ok [OF facts(3)] clean_text_ok [OF facts(4)] by (auto simp: clean_identity_def item_identity_def)
  show "\<forall>s\<in>set (vi_sources x). strip s = s" using facts(11) rmap_clean by blast
qed

lemma uuid_arg_field [simp]: "optional uuid_field (uuid_arg u) = ok u"
  by (cases u) (simp_all add: optional_def uuid_arg_def pyopt_def uuid_field_def uuid_of_def)

lemma deduplicated_events:
  "deduplicated derived seen es = ok out \<Longrightarrow> snd ` set out = snd ` set seen \<union> set es"
proof (induction derived seen es arbitrary: out rule: deduplicated.induct)
  case (2 derived seen e es)
  show ?case
  proof (cases "lookup seen (event_source_id derived e)")
    case None
    then have "deduplicated derived (seen @ [(event_source_id derived e, e)]) es = ok out" using "2.prems" by (simp add: Let_def)
    from "2.IH"(1) [OF refl None this] show ?thesis by auto
  next
    case (Some previous)
    then have p: "previous = e" "deduplicated derived seen es = ok out" using "2.prems" by (auto simp: Let_def split: if_splits)
    have "e \<in> snd ` set seen" using Some p(1) by (force simp: lookup_def dest: map_of_SomeD)
    moreover have "snd ` set out = snd ` set seen \<union> set es" using "2.IH"(2) [OF refl Some] p by simp
    ultimately show ?thesis by auto
  qed
qed simp

lemma deduplicate_set: "deduplicate_events derived es = ok current \<Longrightarrow> set current = set es"
  by (auto simp: deduplicate_events_def rbind_ok_iff dest: deduplicated_events)

lemma fold_min_Min: "ds \<noteq> [] \<Longrightarrow> fold_min ds = Min (set ds)"
  by (cases ds) (simp_all add: fold_min_def Min.set_eq_fold [symmetric] del: list.set)

lemma fold_max_Max: "ds \<noteq> [] \<Longrightarrow> fold_max ds = Max (set ds)"
  by (cases ds) (simp_all add: fold_max_def Max.set_eq_fold [symmetric] del: list.set)

text \<open>The dates an item has seen: those of its events and the two of its earlier form.\<close>

definition seen_dates :: "signal_event list \<Rightarrow> evidence_item option \<Rightarrow> date set" where
  "seen_dates es prior = sg_date ` set es \<union> (case prior of None \<Rightarrow> {} | Some x \<Rightarrow> {vi_first x, vi_last x})"

definition carried :: "signal_event list \<Rightarrow> evidence_item option \<Rightarrow> evidence_score \<Rightarrow> bool" where
  "carried es prior r \<longleftrightarrow> vi_first (vs_item r) = Min (seen_dates es prior) \<and> vi_last (vs_item r) = Max (seen_dates es prior)
    \<and> (case prior of
        None \<Rightarrow> vi_state (vs_item r) = transient_state \<and> \<not> vi_counts (vs_item r) \<and> vi_id (vs_item r) = None
          \<and> (\<exists>t. vs_transition r = Some t \<and> vt_from t = None \<and> vt_to t = transient_state \<and> vt_on t = Min (seen_dates es prior))
      | Some x \<Rightarrow> vi_state (vs_item r) = vi_state x \<and> vi_counts (vs_item r) = vi_counts x \<and> vi_id (vs_item r) = vi_id x
          \<and> set (vi_sources x) \<subseteq> set (vi_sources (vs_item r)) \<and> vs_transition r = None)"

lemma make_score_ok: "make_score x t = ok r \<Longrightarrow> vs_item r = x \<and> vs_transition r = t"
  by (auto simp: make_score_def split: option.splits if_splits)

lemma make_evidence_transition_ok: "make_evidence_transition t = ok t' \<Longrightarrow> vt_from t' = vt_from t \<and> vt_to t' = vt_to t \<and> vt_on t' = vt_on t"
  by (auto simp: make_evidence_transition_def rbind_ok_iff split: if_splits)

lemma state_field_PStr: "state_field (PStr s) = ok t \<Longrightarrow> t = s"
  by (auto simp: state_field_def split: if_splits)

lemma score_identity_none: "score_identity derived key es prior d w = ok None \<Longrightarrow> es = [] \<and> prior = None"
  by (cases key; cases "prior = None \<and> es = []") (auto simp: score_identity_def Let_def rbind_ok_iff)

lemma sorted_set_Nil: "sort (remdups xs) = [] \<longleftrightarrow> xs = []"
  by (metis set_empty set_remdups set_sort)

lemma score_identity_ok:
  assumes "score_identity derived key es prior d w = ok (Some r)" and "clean_identity key"
    and "case prior of None \<Rightarrow> True | Some x \<Rightarrow> \<forall>s\<in>set (vi_sources x). strip s = s"
  shows "item_identity (vs_item r) = key" and "carried es prior r"
proof -
  obtain b f fam t where key: "key = (b, f, fam, t)" by (cases key)
  let ?dates = "sort (remdups (map sg_date es))"
  let ?seen = "?dates @ (case prior of None \<Rightarrow> [] | Some x \<Rightarrow> [vi_first x, vi_last x])"
  have live: "\<not> (prior = None \<and> es = [])" using assms(1) by (auto simp: score_identity_def)
  then have seen: "?seen \<noteq> []" "set ?seen = seen_dates es prior"
    by (auto simp: seen_dates_def sorted_set_Nil split: option.splits)
  obtain sources n k m q sb sp transition x where
    src: "merged_source_ids ((case prior of None \<Rightarrow> [] | Some x \<Rightarrow> vi_sources x) @ map (event_source_id derived) es) = ok sources"
    and tr: "(case prior of Some x \<Rightarrow> ok None
        | None \<Rightarrow> rbind (make_evidence_transition \<lparr>vt_from = None, vt_to = transient_state, vt_on = fold_min ?seen, vt_rule = new_item_rule,
            vt_evidence = None, vt_snapshot = None\<rparr>) (\<lambda>t. ok (Some t))) = ok transition"
    and mk: "make_item (PUuid b) (uuid_arg f) (PStr fam) (PStr t) (PDate (fold_min ?seen)) (PDate (fold_max ?seen)) n k m q
          (PStr (case prior of None \<Rightarrow> transient_state | Some x \<Rightarrow> vi_state x))
          (PBool (case prior of None \<Rightarrow> False | Some x \<Rightarrow> vi_counts x)) sb sp
          (map PStr sources) (uuid_arg (case prior of None \<Rightarrow> None | Some x \<Rightarrow> vi_id x)) = ok x"
    and sc: "make_score x transition = ok r"
    using assms(1) live unfolding score_identity_def Let_def key by (simp only: if_False prod.case rbind_ok_iff) auto
  note facts = make_item_ok [OF mk] and parts = make_score_ok [OF sc]
  have strips: "strip fam = fam" "strip t = t" using assms(2) key by (simp_all add: clean_identity_def)
  show "item_identity (vs_item r) = key"
    using facts(1,2) clean_text_PStr [OF facts(3)] clean_text_PStr [OF facts(4)] strips parts key
    by (simp add: item_identity_def uuid_field_def uuid_of_def)
  have dates: "vi_first x = Min (seen_dates es prior)" "vi_last x = Max (seen_dates es prior)"
    using facts(5,6) fold_min_Min [OF seen(1)] fold_max_Max [OF seen(1)] seen(2) by (simp_all add: day_of_value_def)
  have kept: "set (vi_sources y) \<subseteq> set (vi_sources x)" if y: "prior = Some y" for y
  proof
    fix s assume s: "s \<in> set (vi_sources y)"
    obtain ss where ss: "rmap (\<lambda>v. clean_text v 128) (map PStr sources) = ok ss" "set (vi_sources x) = set ss" using facts(11) by blast
    then have "set (vi_sources x) = strip ` set sources" using rmap_clean_PStr [OF ss(1)] by simp
    moreover have "s \<in> set sources" using merged_set [OF src] y s by simp
    moreover have "strip s = s" using assms(3) y s by simp
    ultimately show "s \<in> set (vi_sources x)" by force
  qed
  have ids: "vi_state x = (case prior of None \<Rightarrow> transient_state | Some x \<Rightarrow> vi_state x)"
    "vi_counts x = (case prior of None \<Rightarrow> False | Some x \<Rightarrow> vi_counts x)"
    "vi_id x = (case prior of None \<Rightarrow> None | Some x \<Rightarrow> vi_id x)"
    using state_field_PStr [OF facts(7)] facts(8,9) by (simp_all add: boolean_def)
  show "carried es prior r"
  proof (cases prior)
    case None
    obtain t' where mt: "make_evidence_transition \<lparr>vt_from = None, vt_to = transient_state, vt_on = fold_min ?seen, vt_rule = new_item_rule,
        vt_evidence = None, vt_snapshot = None\<rparr> = ok t'" and "transition = Some t'"
      using tr unfolding None option.case rbind_ok_iff by blast
    moreover have "vt_from t' = None" "vt_to t' = transient_state" "vt_on t' = fold_min ?seen"
      using make_evidence_transition_ok [OF mt] by simp_all
    ultimately have "transition = Some t'" "vt_from t' = None" "vt_to t' = transient_state" "vt_on t' = fold_min ?seen" by blast+
    then show ?thesis using None parts dates ids fold_min_Min [OF seen(1)] seen(2) by (simp add: carried_def)
  next
    case (Some y)
    then show ?thesis using parts dates ids kept tr by (simp add: carried_def)
  qed
qed

lemma carried_set:
  assumes "set es = set fs"
  shows "carried es prior r = carried fs prior r"
proof -
  have "seen_dates es prior = seen_dates fs prior" using assms by (simp add: seen_dates_def)
  then show ?thesis by (simp only: carried_def)
qed

lemma concat_Some:
  "list_all2 (\<lambda>k y. \<exists>r. y = Some r \<and> P k r) ks ys \<Longrightarrow> list_all2 P ks (concat (map (case_option [] (\<lambda>r. [r])) ys))"
  by (induction ks ys rule: list_all2_induct) auto

lemma rows_map_eq: "list_all2 (\<lambda>k r. f r = k \<and> P k r) ks rs \<Longrightarrow> map f rs = ks \<and> (\<forall>r\<in>set rs. P (f r) r)"
  by (induction ks rs rule: list_all2_induct) auto

lemma rmap_all2: "rmap f ks = ok ys \<Longrightarrow> list_all2 (\<lambda>k y. f k = ok y) ks ys"
  by (induction ks arbitrary: ys) auto

lemma find_identity: "find (\<lambda>x. item_identity x = k) xs = Some x \<Longrightarrow> x \<in> set xs \<and> item_identity x = k"
  by (auto simp: find_Some_iff)

text \<open>The events of one identity up to the scoring date.\<close>

definition events_of :: "signal_event list \<Rightarrow> date \<Rightarrow> evidence_identity \<Rightarrow> signal_event list" where
  "events_of es d k = filter (\<lambda>e. event_identity e = k \<and> sg_date e \<le> d) es"

lemma derive_facts_ok:
  assumes "derive_facts derived es xs as_of window = ok rs" and "scoring_date as_of es xs = ok d"
    and "\<forall>e\<in>set es. clean_identity (event_identity e)"
    and "\<forall>x\<in>set xs. clean_identity (item_identity x) \<and> (\<forall>s\<in>set (vi_sources x). strip s = s)"
  shows "map (item_identity \<circ> vs_item) rs
      = sort_key identity_sort_key (remdups (map item_identity xs @ map event_identity (filter (\<lambda>e. sg_date e \<le> d) es)))"
    and "\<forall>r\<in>set rs. carried (events_of es d (item_identity (vs_item r))) (find (\<lambda>x. item_identity x = item_identity (vs_item r)) xs) r"
proof -
  let ?known = "filter (\<lambda>e. sg_date e \<le> d) es"
  let ?keys = "sort_key identity_sort_key (remdups (map item_identity xs @ map event_identity ?known))"
  let ?prior = "\<lambda>k. find (\<lambda>x. item_identity x = k) xs"
  show "map (item_identity \<circ> vs_item) rs = ?keys"
    and "\<forall>r\<in>set rs. carried (events_of es d (item_identity (vs_item r))) (?prior (item_identity (vs_item r))) r"
  proof (atomize (full), cases "es = [] \<and> xs = []")
    case False
    obtain w ys where ys: "rmap (\<lambda>k. rbind (deduplicate_events derived (filter (\<lambda>e. event_identity e = k) ?known)) (\<lambda>current.
          score_identity derived k current (?prior k) d w)) ?keys = ok ys"
      and rs: "rs = concat (map (case_option [] (\<lambda>r. [r])) ys)"
      using assms(1,2) False unfolding derive_facts_def Let_def
      by (simp only: if_False rbind_ok_iff) (auto simp: rbind_ok_iff split: if_splits)
    have "list_all2 (\<lambda>k y. \<exists>r. y = Some r \<and> (item_identity \<circ> vs_item) r = k \<and> carried (events_of es d k) (?prior k) r) ?keys ys"
    proof (rule list.rel_mono_strong [OF rmap_all2 [OF ys]])
      fix k y assume k: "k \<in> set ?keys"
        and "rbind (deduplicate_events derived (filter (\<lambda>e. event_identity e = k) ?known)) (\<lambda>current.
          score_identity derived k current (?prior k) d w) = ok y"
      then obtain current where dd: "deduplicate_events derived (filter (\<lambda>e. event_identity e = k) ?known) = ok current"
        and sc: "score_identity derived k current (?prior k) d w = ok y" by (auto simp: rbind_ok_iff)
      have cur: "set current = set (events_of es d k)" using deduplicate_set [OF dd] by (auto simp: events_of_def)
      have "clean_identity k" using k assms(3,4) by auto
      moreover have "\<not> (current = [] \<and> ?prior k = None)"
        using k cur by (auto simp: find_None_iff events_of_def filter_empty_conv)
      then obtain r where y: "y = Some r" using score_identity_none [of derived k current "?prior k" d w] sc by (cases y) blast+
      moreover have "case ?prior k of None \<Rightarrow> True | Some x \<Rightarrow> \<forall>s\<in>set (vi_sources x). strip s = s"
        using assms(4) by (auto split: option.splits dest: find_identity)
      ultimately have "item_identity (vs_item r) = k" "carried current (?prior k) r"
        using score_identity_ok [of derived k current "?prior k" d w r] sc by blast+
      then show "\<exists>r. y = Some r \<and> (item_identity \<circ> vs_item) r = k \<and> carried (events_of es d k) (?prior k) r"
        using y carried_set [OF cur] by simp
    qed
    from rows_map_eq [OF concat_Some [OF this]]
    show "map (item_identity \<circ> vs_item) rs = ?keys \<and>
      (\<forall>r\<in>set rs. carried (events_of es d (item_identity (vs_item r))) (?prior (item_identity (vs_item r))) r)"
      unfolding rs by (simp only: o_def) blast
  qed (use assms(1) in \<open>simp add: derive_facts_def\<close>)
qed

text \<open>
  C37: The ledger loses and invents nothing: a derivation that returns has one row for each identity of the stored items and
  of the events up to the scoring date. Each row spans those events and its earlier form, whose state it keeps; a new one
  is transient.
\<close>

theorem ledger_complete:
  assumes "derive_evidence derived events existing as_of window = ok rs" and "rmap from_event events = ok es"
    and "rmap from_item existing = ok xs" and "scoring_date as_of es xs = ok d"
  shows "distinct (map (item_identity \<circ> vs_item) rs)
    \<and> (item_identity \<circ> vs_item) ` set rs = item_identity ` set xs \<union> event_identity ` {e \<in> set es. sg_date e \<le> d}
    \<and> (\<forall>r\<in>set rs. carried (events_of es d (item_identity (vs_item r))) (find (\<lambda>x. item_identity x = item_identity (vs_item r)) xs) r)"
proof -
  have "derive_facts derived es xs as_of window = ok rs" using assms(1-3) by (simp add: derive_evidence_def)
  moreover have "\<forall>e\<in>set es. clean_identity (event_identity e)" using assms(2) by (auto dest!: rmap_set from_event_clean)
  moreover have "\<forall>x\<in>set xs. clean_identity (item_identity x) \<and> (\<forall>s\<in>set (vi_sources x). strip s = s)"
    using assms(3) from_item_clean by (blast dest: rmap_set)
  ultimately have rows: "map (item_identity \<circ> vs_item) rs
      = sort_key identity_sort_key (remdups (map item_identity xs @ map event_identity (filter (\<lambda>e. sg_date e \<le> d) es)))"
    and "\<forall>r\<in>set rs. carried (events_of es d (item_identity (vs_item r))) (find (\<lambda>x. item_identity x = item_identity (vs_item r)) xs) r"
    using derive_facts_ok assms(4) by blast+
  moreover have "(item_identity \<circ> vs_item) ` set rs = set (map (item_identity \<circ> vs_item) rs)" by simp
  ultimately show ?thesis by (simp only: rows) auto
qed

definition demo_history :: "pyval list" where
  "demo_history = map (\<lambda>(d, i). PMap [(PStr ''borrower_id'', PUuid 7), (PStr ''event_date'', PDate d), (PStr ''family'', PStr ''gst''),
     (PStr ''event_type'', PStr ''late_filing''), (PStr ''event_id'', PStr i)]) [(730001, ''a''), (730002, ''b''), (730009, ''c'')]"

definition demo_items :: "pyval list" where
  "demo_items = [PObj ''EvidenceItem'' [(''borrower_id'', PUuid 7), (''family'', PStr ''payment''), (''evidence_type'', PStr ''delay''),
     (''first_seen'', PDate 729000), (''last_seen'', PDate 729100), (''source_event_ids'', PList [PStr ''p''])]]"

theorem ledger_complete_witness:
  "\<exists>rs. derive_evidence (\<lambda>e. ''h'') demo_history demo_items (PDate 730005) PNone = ok rs
    \<and> (item_identity \<circ> vs_item) ` set rs = {(7, None, ''payment'', ''delay''), (7, None, ''gst'', ''late_filing'')}"
proof -
  let ?es = "projr (rmap from_event demo_history)" and ?xs = "projr (rmap from_item demo_items)"
  have "\<not> isl (derive_evidence (\<lambda>e. ''h'') demo_history demo_items (PDate 730005) PNone)" by code_simp
  then obtain rs where rs: "derive_evidence (\<lambda>e. ''h'') demo_history demo_items (PDate 730005) PNone = ok rs"
    by (cases "derive_evidence (\<lambda>e. ''h'') demo_history demo_items (PDate 730005) PNone") auto
  have es: "rmap from_event demo_history = ok ?es" by code_simp
  have xs: "rmap from_item demo_items = ok ?xs" by code_simp
  have d: "scoring_date (PDate 730005) ?es ?xs = ok 730005" by code_simp
  have a: "map item_identity ?xs = [(7, None, ''payment'', ''delay'')]" by code_simp
  have b: "map event_identity (filter (\<lambda>e. sg_date e \<le> 730005) ?es) = [(7, None, ''gst'', ''late_filing''), (7, None, ''gst'', ''late_filing'')]"
    by code_simp
  have "item_identity ` set ?xs = set (map item_identity ?xs)"
    "event_identity ` {e \<in> set ?es. sg_date e \<le> 730005} = set (map event_identity (filter (\<lambda>e. sg_date e \<le> 730005) ?es))" by auto
  then show ?thesis using ledger_complete [OF rs es xs d] rs by (simp only: a b) auto
qed

text \<open>An event type may have a hundred characters, the evidence type it becomes fifty: one long type stops the derivation.\<close>

definition long_event :: pyval where
  "long_event = PMap [(PStr ''borrower_id'', PUuid 7), (PStr ''event_date'', PDate 730001), (PStr ''family'', PStr ''gst''),
     (PStr ''event_type'', PStr (replicate 51 (CHR ''x''))), (PStr ''event_id'', PStr ''z'')]"

lemma long_type_stops_derivation:
  "\<not> isl (from_event long_event)" "derive_evidence (\<lambda>e. ''h'') (long_event # demo_history) [] (PDate 730005) PNone = raise ValueError"
  by code_simp+

end
