(* ===== verification/Signal_Supersession.thy ===== *)
theory Signal_Supersession
  imports Signal_Evidence
begin

text \<open>
  Contradictions in the evidence ledger (\<open>domain/signals/supersession.py\<close>): rules, the link between two items, the
  resolution of a batch and the point-in-time read. A score without a transition is its item. The supply of identifiers,
  a function of the number of calls made, and the printer of a magnitude are parameters.
\<close>

section \<open>Rules\<close>

definition superseded_state :: string where "superseded_state = ''superseded''"
definition active_states :: "string list" where "active_states = [''transient'', ''sustained'']"

record contradiction_rule =
  cr_family :: string
  cr_old :: string
  cr_new :: string
  cr_rule :: string
  cr_old_adverse :: "bool option"
  cr_new_adverse :: "bool option"

definition make_rule :: "pyval \<Rightarrow> pyval \<Rightarrow> pyval \<Rightarrow> pyval \<Rightarrow> pyval \<Rightarrow> pyval \<Rightarrow> contradiction_rule result" where
  "make_rule family superseded superseding rule old_adverse new_adverse =
     rbind (clean_text family 20) (\<lambda>f. rbind (clean_text superseded 50) (\<lambda>a. rbind (clean_text superseding 50) (\<lambda>b.
     rbind (clean_text rule 100) (\<lambda>r. rbind (optional boolean old_adverse) (\<lambda>x. rbind (optional boolean new_adverse) (\<lambda>y.
     ok \<lparr>cr_family = f, cr_old = a, cr_new = b, cr_rule = r, cr_old_adverse = x, cr_new_adverse = y\<rparr>))))))"

definition reverse_rule :: "contradiction_rule \<Rightarrow> contradiction_rule result" where
  "reverse_rule r = make_rule (PStr (cr_family r)) (PStr (cr_new r)) (PStr (cr_old r)) (PStr (cr_rule r @ ''.reverse''))
     (pyopt PBool (cr_new_adverse r)) (pyopt PBool (cr_old_adverse r))"

text \<open>What a rule compares: items of the ledger and events.\<close>

datatype evidence_fact = Item_fact evidence_item | Event_fact signal_event

definition fact_family :: "evidence_fact \<Rightarrow> string" where
  "fact_family v = (case v of Item_fact x \<Rightarrow> vi_family x | Event_fact e \<Rightarrow> sg_family e)"

definition fact_type :: "evidence_fact \<Rightarrow> string" where
  "fact_type v = (case v of Item_fact x \<Rightarrow> vi_type x
     | Event_fact e \<Rightarrow> if sg_evidence_type e \<noteq> [] then sg_evidence_type e else sg_event_type e)"

definition polarity_matches :: "evidence_fact \<Rightarrow> bool option \<Rightarrow> bool" where
  "polarity_matches v expected = (case expected of None \<Rightarrow> True
     | Some b \<Rightarrow> (case v of Event_fact e \<Rightarrow> map_get (sg_payload e) ''is_adverse'' = Some (PBool b) | Item_fact x \<Rightarrow> True))"

definition matches :: "contradiction_rule \<Rightarrow> evidence_fact \<Rightarrow> evidence_fact \<Rightarrow> bool" where
  "matches r old new \<longleftrightarrow> fact_family old = cr_family r \<and> fact_family new = cr_family r \<and> fact_type old = cr_old r
     \<and> fact_type new = cr_new r \<and> polarity_matches old (cr_old_adverse r) \<and> polarity_matches new (cr_new_adverse r)"

definition typed_rule :: "string \<Rightarrow> string \<Rightarrow> string \<Rightarrow> string \<Rightarrow> contradiction_rule" where
  "typed_rule family old new code = \<lparr>cr_family = family, cr_old = old, cr_new = new, cr_rule = code, cr_old_adverse = None,
     cr_new_adverse = None\<rparr>"

definition adverse_resolved :: "string \<Rightarrow> string \<Rightarrow> string \<Rightarrow> contradiction_rule" where
  "adverse_resolved family t code = \<lparr>cr_family = family, cr_old = t, cr_new = t, cr_rule = code, cr_old_adverse = Some True,
     cr_new_adverse = Some False\<rparr>"

definition rule_pair :: "string \<Rightarrow> string \<Rightarrow> string \<Rightarrow> string \<Rightarrow> contradiction_rule list" where
  "rule_pair family a b code = [typed_rule family a b (code @ ''.forward''), typed_rule family b a (code @ ''.reverse'')]"

definition default_rules :: "contradiction_rule list" where
  "default_rules =
     [adverse_resolved ''account_activity'' ''account_activity_change'' ''signals.account_activity.adverse_resolved.v1'']
     @ rule_pair ''payment'' ''payment_delay'' ''payment_received'' ''signals.payment.delay_received.v1''
     @ [adverse_resolved ''payment'' ''payment_delay'' ''signals.payment.adverse_resolved.v1'']
     @ rule_pair ''utilisation'' ''facility_utilisation'' ''utilisation_normalised'' ''signals.utilisation.high_normal.v1''
     @ rule_pair ''treasury'' ''treasury_outflow'' ''treasury_normalised'' ''signals.treasury.outflow_normal.v1''
     @ rule_pair ''concentration'' ''concentration_exposure'' ''concentration_reduced'' ''signals.concentration.high_reduced.v1''
     @ rule_pair ''industry'' ''industry_indicator'' ''industry_recovered'' ''signals.industry.stress_recovered.v1''
     @ rule_pair ''news'' ''news_event'' ''news_retracted'' ''signals.news.adverse_retracted.v1''"

text \<open>The rules of a caller: none, a sequence, or a mapping from family to successor type to predecessor types.\<close>

datatype rules_input = Default_rules | Rule_sequence "contradiction_rule list" | Rule_mapping "(string \<times> pyval) list"

definition successor_rules :: "string \<Rightarrow> pyval \<Rightarrow> pyval \<Rightarrow> contradiction_rule list result" where
  "successor_rules family successor predecessors =
     (case text_of successor of None \<Rightarrow> raise TypeError | Some b \<Rightarrow>
      rbind (case text_of predecessors of Some a \<Rightarrow> ok [predecessors]
             | None \<Rightarrow> (case predecessors of PList vs \<Rightarrow> ok vs | _ \<Rightarrow> raise TypeError)) (\<lambda>vs.
      rmap (\<lambda>v. case text_of v of None \<Rightarrow> raise TypeError | Some a \<Rightarrow>
        make_rule (PStr family) (PStr a) (PStr b) (PStr (''signals.'' @ family @ ''.'' @ a @ ''.'' @ b @ ''.v1'')) PNone PNone) vs))"

definition normalise_rules :: "rules_input \<Rightarrow> contradiction_rule list result" where
  "normalise_rules rules = (case rules of Default_rules \<Rightarrow> ok default_rules | Rule_sequence rs \<Rightarrow> ok rs
     | Rule_mapping fs \<Rightarrow> rbind (rmap (\<lambda>(f, v). case v of
         PMap kvs \<Rightarrow> rbind (rmap (\<lambda>(k, p). successor_rules f k p) kvs) (\<lambda>rss. ok (concat rss))
       | _ \<Rightarrow> raise TypeError) fs) (\<lambda>rss. ok (concat rss)))"

definition find_rule :: "evidence_fact \<Rightarrow> evidence_fact \<Rightarrow> contradiction_rule list \<Rightarrow> contradiction_rule option" where
  "find_rule old new rules = find (\<lambda>r. matches r old new) rules"

datatype rule_input = Any_rule | Given_rule contradiction_rule | Rule_code string

definition coerce_rule :: "rule_input \<Rightarrow> evidence_item \<Rightarrow> evidence_item \<Rightarrow> contradiction_rule result" where
  "coerce_rule v old new = (let fits = (\<lambda>r. matches r (Item_fact old) (Item_fact new)) in case v of
     Any_rule \<Rightarrow> (case find_rule (Item_fact old) (Item_fact new) default_rules of None \<Rightarrow> raise ValueError | Some r \<Rightarrow> ok r)
   | Given_rule r \<Rightarrow> if fits r then ok r else raise ValueError
   | Rule_code code \<Rightarrow> (case find (\<lambda>r. cr_rule r = code) default_rules of None \<Rightarrow> raise ValueError
       | Some r \<Rightarrow> if fits r then ok r else raise ValueError))"

section \<open>Linking two items\<close>

text \<open>A new score of an item checks all of its fields again.\<close>

definition rebuild :: "evidence_item \<Rightarrow> evidence_item result" where
  "rebuild x = make_item (PUuid (vi_borrower x)) (uuid_arg (vi_facility x)) (PStr (vi_family x)) (PStr (vi_type x))
     (PDate (vi_first x)) (PDate (vi_last x)) (optional_int (vi_persistence x)) (optional_int (vi_count x))
     (vi_materiality x) (vi_decay x) (PStr (vi_state x)) (PBool (vi_counts x)) (uuid_arg (vi_superseded_by x))
     (uuid_arg (vi_supersedes x)) (map PStr (vi_sources x)) (uuid_arg (vi_id x))"

record supersession =
  su_superseded :: evidence_item
  su_successor :: evidence_item
  su_rule :: contradiction_rule
  su_on :: date
  su_transition :: evidence_transition

definition new_uuid :: "(nat \<Rightarrow> pyval) \<Rightarrow> nat \<Rightarrow> nat result" where
  "new_uuid fresh n = (case uuid_of (fresh n) of Some u \<Rightarrow> ok u | None \<Rightarrow> raise TypeError)"

definition may_supersede :: "evidence_item \<Rightarrow> evidence_item \<Rightarrow> bool" where
  "may_supersede old new \<longleftrightarrow> vi_id old \<noteq> None \<and> vi_id old \<noteq> vi_id new \<and> vi_state old \<in> set active_states
     \<and> vi_superseded_by old = None \<and> (vi_supersedes new = None \<or> vi_supersedes new = vi_id old)
     \<and> vi_superseded_by new = None \<and> vi_state new \<in> set active_states"

definition supersede_items :: "(nat \<Rightarrow> pyval) \<Rightarrow> nat \<Rightarrow> evidence_item \<Rightarrow> evidence_item \<Rightarrow> pyval \<Rightarrow> rule_input \<Rightarrow> (supersession \<times> nat) result" where
  "supersede_items fresh n old new occurred rule =
     (if \<not> may_supersede old new then raise ValueError else
      rbind (coerce_rule rule old new) (\<lambda>r.
      rbind (day_of_value (if occurred = PNone \<or> occurred = PStr [] then PDate (vi_first new) else occurred)) (\<lambda>d.
      if d < vi_first old \<or> d < vi_first new then raise ValueError else
      rbind (case vi_id new of Some u \<Rightarrow> ok (u, n) | None \<Rightarrow> rbind (new_uuid fresh n) (\<lambda>u. ok (u, n + 1))) (\<lambda>(u, n').
      rbind (rebuild (old\<lparr>vi_state := superseded_state, vi_counts := False, vi_superseded_by := Some u\<rparr>)) (\<lambda>x.
      rbind (rebuild (new\<lparr>vi_id := Some u, vi_supersedes := vi_id old\<rparr>)) (\<lambda>y.
      rbind (make_evidence_transition \<lparr>vt_from = Some (vi_state old), vt_to = superseded_state, vt_on = d, vt_rule = cr_rule r,
          vt_evidence = vi_id old, vt_snapshot = None\<rparr>) (\<lambda>t.
      ok (\<lparr>su_superseded = x, su_successor = y, su_rule = r, su_on = d, su_transition = t\<rparr>, n'))))))))"

definition supersede :: "(nat \<Rightarrow> pyval) \<Rightarrow> nat \<Rightarrow> pyval \<Rightarrow> pyval \<Rightarrow> pyval \<Rightarrow> rule_input \<Rightarrow> (supersession \<times> nat) result" where
  "supersede fresh n predecessor successor occurred rule =
     rbind (from_item predecessor) (\<lambda>old. rbind (from_item successor) (\<lambda>new. supersede_items fresh n old new occurred rule))"

section \<open>Resolving a batch\<close>

datatype incoming = Known_item evidence_item | Known_event signal_event | Incoming_value pyval

record incoming_candidate =
  ca_item :: evidence_item
  ca_event :: "signal_event option"

text \<open>The source of an event without row or content hash is its readable text here, not a digest.\<close>

definition readable_source_id :: "(pyval \<Rightarrow> string) \<Rightarrow> signal_event \<Rightarrow> string" where
  "readable_source_id printed e = (case sg_id e of Some i \<Rightarrow> event_id_text i
     | None \<Rightarrow> (case sg_content_hash e of Some h \<Rightarrow> h
         | None \<Rightarrow> ''derived:'' @ uuid_text (sg_borrower e) @ '':'' @ (case sg_facility e of None \<Rightarrow> ''None'' | Some u \<Rightarrow> uuid_text u)
             @ '':'' @ iso_date (sg_date e) @ '':'' @ sg_family e @ '':'' @ sg_event_type e @ '':''
             @ (if sg_magnitude e = PNone then ''None'' else printed (sg_magnitude e))))"

definition item_candidate :: "(nat \<Rightarrow> pyval) \<Rightarrow> nat \<Rightarrow> evidence_item \<Rightarrow> (incoming_candidate \<times> nat) result" where
  "item_candidate fresh n x = rbind (rebuild x) (\<lambda>y.
     if vi_id y \<noteq> None then ok (\<lparr>ca_item = y, ca_event = None\<rparr>, n) else
     rbind (new_uuid fresh n) (\<lambda>u. rbind (rebuild (y\<lparr>vi_id := Some u\<rparr>)) (\<lambda>z. ok (\<lparr>ca_item = z, ca_event = None\<rparr>, n + 1))))"

definition event_candidate :: "(pyval \<Rightarrow> string) \<Rightarrow> (nat \<Rightarrow> pyval) \<Rightarrow> nat \<Rightarrow> signal_event \<Rightarrow> (incoming_candidate \<times> nat) result" where
  "event_candidate printed fresh n e = rbind (new_uuid fresh n) (\<lambda>u.
     rbind (make_item (PUuid (sg_borrower e)) (uuid_arg (sg_facility e)) (PStr (sg_family e)) (PStr (fact_type (Event_fact e)))
       (PDate (sg_date e)) (PDate (sg_date e)) (PInt 1) (PInt 1) PNone PNone (PStr transient_state) (PBool False) PNone PNone
       [PStr (readable_source_id printed e)] (PUuid u)) (\<lambda>x. ok (\<lparr>ca_item = x, ca_event = Some e\<rparr>, n + 1)))"

definition unreadable_event :: "pyerr \<Rightarrow> bool" where
  "unreadable_event e \<longleftrightarrow> e \<in> {TypeError, ValueError, KeyError, AttributeError}"

fun incoming_candidates :: "(pyval \<Rightarrow> string) \<Rightarrow> (nat \<Rightarrow> pyval) \<Rightarrow> pyval \<Rightarrow> nat \<Rightarrow> incoming list \<Rightarrow> (incoming_candidate list \<times> nat) result" where
  "incoming_candidates printed fresh as_of n [] = ok ([], n)"
| "incoming_candidates printed fresh as_of n (v # vs) =
     (let rest = (\<lambda>(c, m). rbind (incoming_candidates printed fresh as_of m vs) (\<lambda>(cs, k). ok (c # cs, k)));
          of_event = (\<lambda>e. rbind (if as_of = PNone then ok False else rbind (day_of_value as_of) (\<lambda>d. ok (sg_date e > d))) (\<lambda>future.
            if future then incoming_candidates printed fresh as_of n vs
            else rbind (event_candidate printed fresh n e) rest)) in
      case v of
        Known_item x \<Rightarrow> rbind (item_candidate fresh n x) rest
      | Known_event e \<Rightarrow> of_event e
      | Incoming_value w \<Rightarrow> (case from_event w of Inr e \<Rightarrow> of_event e
          | Inl err \<Rightarrow> if unreadable_event err then rbind (from_item w) (\<lambda>x. rbind (item_candidate fresh n x) rest) else raise err))"

definition in_force :: "evidence_item \<Rightarrow> bool" where
  "in_force x \<longleftrightarrow> vi_state x \<in> set active_states \<and> vi_superseded_by x = None"

definition id_text :: "nat option \<Rightarrow> string" where
  "id_text i = (case i of None \<Rightarrow> ''None'' | Some u \<Rightarrow> uuid_text u)"

definition comparable :: "evidence_item \<Rightarrow> evidence_item \<Rightarrow> bool" where
  "comparable x c \<longleftrightarrow> in_force x \<and> vi_borrower x = vi_borrower c \<and> vi_facility x = vi_facility c \<and> \<not> (vi_id x \<noteq> None \<and> vi_id x = vi_id c)"

definition best_match :: "incoming_candidate \<Rightarrow> evidence_item list \<Rightarrow> contradiction_rule list \<Rightarrow> (nat \<times> evidence_item \<times> contradiction_rule) option" where
  "best_match c current rules =
     (let new = (case ca_event c of Some e \<Rightarrow> Event_fact e | None \<Rightarrow> Item_fact (ca_item c));
          found = concat (map (\<lambda>(i, x). if comparable x (ca_item c)
            then map (\<lambda>r. (i, x, r)) (filter (\<lambda>r. matches r (Item_fact x) new) rules) else []) (enumerate 0 current)) in
      case found of [] \<Rightarrow> None | m # ms \<Rightarrow> Some (max_key (\<lambda>(i, x, r). (vi_last x, id_text (vi_id x))) m ms))"

definition already_seen :: "evidence_item \<Rightarrow> evidence_item list \<Rightarrow> bool" where
  "already_seen c current \<longleftrightarrow> list_ex (\<lambda>x. list_ex (\<lambda>s. s \<in> set (vi_sources x)) (vi_sources c)) current"

definition merge_observation :: "evidence_item \<Rightarrow> evidence_item \<Rightarrow> evidence_item result" where
  "merge_observation x c = rebuild (x\<lparr>vi_first := min (vi_first x) (vi_first c), vi_last := max (vi_last x) (vi_last c),
     vi_sources := sort (remdups (vi_sources x @ vi_sources c))\<rparr>)"

type_synonym batch_state = "evidence_item list \<times> supersession list \<times> nat"

definition resolve_step :: "(nat \<Rightarrow> pyval) \<Rightarrow> contradiction_rule list \<Rightarrow> incoming_candidate \<Rightarrow> batch_state \<Rightarrow> batch_state result" where
  "resolve_step fresh rules c s = (case s of (current, revisions, n) \<Rightarrow> let new = ca_item c in
     if already_seen new current then ok s else
     (case best_match c current rules of
        None \<Rightarrow> (case find (\<lambda>(i, x). item_identity x = item_identity new \<and> in_force x) (enumerate 0 current) of
            None \<Rightarrow> ok (current @ [new], revisions, n)
          | Some (i, x) \<Rightarrow> rbind (merge_observation x new) (\<lambda>y. ok (current[i := y], revisions, n)))
      | Some (i, x, r) \<Rightarrow>
          rbind (if vi_first new \<ge> vi_last x then supersede_items fresh n x new (PDate (vi_first new)) (Given_rule r)
                 else rbind (reverse_rule r) (\<lambda>r'. supersede_items fresh n new x (PDate (vi_last x)) (Given_rule r'))) (\<lambda>(v, m).
          ok (current[i := su_successor v] @ [su_superseded v], revisions @ [v], m))))"

fun resolve_all :: "(nat \<Rightarrow> pyval) \<Rightarrow> contradiction_rule list \<Rightarrow> incoming_candidate list \<Rightarrow> batch_state \<Rightarrow> batch_state result" where
  "resolve_all fresh rules [] s = ok s"
| "resolve_all fresh rules (c # cs) s = rbind (resolve_step fresh rules c s) (resolve_all fresh rules cs)"

definition item_sort_key :: "evidence_item \<Rightarrow> string \<times> string \<times> string \<times> date \<times> string \<times> string" where
  "item_sort_key x = (uuid_text (vi_borrower x), (case vi_facility x of None \<Rightarrow> [] | Some u \<Rightarrow> uuid_text u), vi_family x,
     vi_first x, vi_type x, (case vi_id x of None \<Rightarrow> [] | Some u \<Rightarrow> uuid_text u))"

definition known_ids :: "evidence_item list \<Rightarrow> nat list" where
  "known_ids xs = List.map_filter vi_id xs"

definition valid_history :: "evidence_item list \<Rightarrow> bool" where
  "valid_history xs \<longleftrightarrow> distinct (known_ids xs) \<and>
     list_all (\<lambda>x. \<not> (vi_id x \<noteq> None \<and> (vi_id x = vi_superseded_by x \<or> vi_id x = vi_supersedes x))) xs"

record supersession_batch =
  sb_items :: "evidence_item list"
  sb_revisions :: "supersession list"

definition resolve_supersession :: "(pyval \<Rightarrow> string) \<Rightarrow> (nat \<Rightarrow> pyval) \<Rightarrow> pyval list \<Rightarrow> incoming list \<Rightarrow> pyval \<Rightarrow> rules_input \<Rightarrow> supersession_batch result" where
  "resolve_supersession printed fresh existing arriving as_of rules =
     rbind (rmap (\<lambda>v. rbind (from_item v) rebuild) existing) (\<lambda>current.
     if \<not> valid_history current then raise ValueError else
     rbind (normalise_rules rules) (\<lambda>rs.
     rbind (incoming_candidates printed fresh as_of 0 arriving) (\<lambda>(cs, n).
     rbind (resolve_all fresh rs (sort_key (\<lambda>c. item_sort_key (ca_item c)) cs) (current, [], n)) (\<lambda>(items, revisions, m).
     ok \<lparr>sb_items = sort_key item_sort_key items, sb_revisions = revisions\<rparr>))))"

section \<open>Reading at a point in time\<close>

datatype transition_input = Known_transition evidence_transition | Transition_value pyval

definition transition_of :: "transition_input \<Rightarrow> evidence_transition result" where
  "transition_of v = (case v of Known_transition t \<Rightarrow> ok t
     | Transition_value w \<Rightarrow>
         rbind (optional state_field (field_or w ''from_state'' PNone)) (\<lambda>a. rbind (state_field (field_or w ''to_state'' PNone)) (\<lambda>b.
         rbind (day_of_value (field_or w ''occurred_on'' PNone)) (\<lambda>d. rbind (clean_text (field_or w ''rule'' PNone) 100) (\<lambda>r.
         rbind (optional uuid_field (field_or w ''evidence_id'' PNone)) (\<lambda>i.
         rbind (optional uuid_field (field_or w ''threshold_snapshot_id'' PNone)) (\<lambda>s.
         ok \<lparr>vt_from = a, vt_to = b, vt_on = d, vt_rule = r, vt_evidence = i, vt_snapshot = s\<rparr>)))))))"

fun replay :: "string option \<Rightarrow> evidence_transition list \<Rightarrow> string option result" where
  "replay state [] = ok state"
| "replay state (t # ts) = (if vt_from t \<noteq> None \<and> state \<noteq> None \<and> state \<noteq> vt_from t then raise ValueError
     else replay (Some (vt_to t)) ts)"

definition state_as_of :: "evidence_item \<Rightarrow> evidence_transition list \<Rightarrow> date \<Rightarrow> string result" where
  "state_as_of x ts as_of =
     (case filter (\<lambda>t. vt_on t \<le> as_of) ts of
        [] \<Rightarrow> (case filter (\<lambda>t. vt_on t > as_of) ts of
            t # _ \<Rightarrow> (case vt_from t of Some s \<Rightarrow> ok s | None \<Rightarrow> ok (vi_state x))
          | [] \<Rightarrow> ok (vi_state x))
      | t # rest \<Rightarrow> rbind (replay (vt_from t) (t # rest)) (\<lambda>s. case s of Some v \<Rightarrow> ok v | None \<Rightarrow> raise ValueError))"

definition trail_of :: "evidence_transition list \<Rightarrow> nat option \<Rightarrow> evidence_transition list" where
  "trail_of trail i = (if i = None then [] else sort_key vt_on (filter (\<lambda>t. vt_evidence t = i) trail))"

definition item_with_id :: "evidence_item list \<Rightarrow> nat \<Rightarrow> evidence_item option" where
  "item_with_id xs u = find (\<lambda>x. vi_id x = Some u) xs"

definition superseded_by_then :: "evidence_transition list \<Rightarrow> date \<Rightarrow> bool" where
  "superseded_by_then ts as_of \<longleftrightarrow> list_ex (\<lambda>t. vt_to t = superseded_state \<and> vt_on t \<le> as_of) ts"

definition visible_successor :: "evidence_item list \<Rightarrow> evidence_transition list \<Rightarrow> date \<Rightarrow> evidence_item \<Rightarrow> nat option" where
  "visible_successor xs trail as_of x = (case vi_superseded_by x of None \<Rightarrow> None
     | Some u \<Rightarrow> (case item_with_id xs u of None \<Rightarrow> None
         | Some y \<Rightarrow> if vi_first y > as_of then None else if vi_id x = None then None
             else if superseded_by_then (trail_of trail (vi_id x)) as_of then Some u else None))"

definition visible_predecessor :: "evidence_item list \<Rightarrow> evidence_transition list \<Rightarrow> date \<Rightarrow> evidence_item \<Rightarrow> nat option" where
  "visible_predecessor xs trail as_of x = (case vi_supersedes x of None \<Rightarrow> None
     | Some u \<Rightarrow> (case item_with_id xs u of None \<Rightarrow> None
         | Some y \<Rightarrow> if vi_first y > as_of then None
             else if superseded_by_then (trail_of trail (vi_id y)) as_of \<and> vi_superseded_by y = vi_id x then Some u else None))"

definition read_item :: "evidence_item list \<Rightarrow> evidence_transition list \<Rightarrow> date \<Rightarrow> evidence_item \<Rightarrow> evidence_item result" where
  "read_item xs trail as_of x = rbind (state_as_of x (trail_of trail (vi_id x)) as_of) (\<lambda>st.
     rebuild (x\<lparr>vi_last := min (vi_last x) as_of, vi_state := st, vi_counts := vi_counts x \<and> st \<noteq> superseded_state,
       vi_superseded_by := (if st \<noteq> superseded_state then None else visible_successor xs trail as_of x),
       vi_supersedes := visible_predecessor xs trail as_of x\<rparr>))"

definition read_items :: "evidence_item list \<Rightarrow> evidence_transition list \<Rightarrow> date \<Rightarrow> evidence_item list result" where
  "read_items xs trail as_of =
     (if \<not> distinct (known_ids xs) then raise ValueError
      else if list_ex (\<lambda>t. case vt_evidence t of None \<Rightarrow> True | Some u \<Rightarrow> item_with_id xs u = None) trail then raise ValueError
      else rmap (read_item xs trail as_of) (filter (\<lambda>x. vi_first x \<le> as_of) (sort_key item_sort_key xs)))"

definition point_in_time :: "pyval list \<Rightarrow> transition_input list \<Rightarrow> pyval \<Rightarrow> evidence_item list result" where
  "point_in_time items transitions as_of = rbind (day_of_value as_of) (\<lambda>d. rbind (rmap from_item items) (\<lambda>xs.
     if \<not> distinct (known_ids xs) then raise ValueError else
     rbind (rmap transition_of transitions) (\<lambda>trail. read_items xs trail d)))"

section \<open>Rebuilding\<close>

definition clean_item :: "evidence_item \<Rightarrow> bool" where
  "clean_item x \<longleftrightarrow> clean_identity (item_identity x) \<and> (\<forall>s\<in>set (vi_sources x). strip s = s)"

definition same_item :: "evidence_item \<Rightarrow> evidence_item \<Rightarrow> bool" where
  "same_item x y \<longleftrightarrow> item_identity y = item_identity x \<and> vi_first y = vi_first x \<and> vi_last y = vi_last x \<and> vi_state y = vi_state x
     \<and> vi_counts y = vi_counts x \<and> vi_superseded_by y = vi_superseded_by x \<and> vi_supersedes y = vi_supersedes x
     \<and> vi_id y = vi_id x \<and> set (vi_sources y) = set (vi_sources x)"

lemma make_item_links:
  assumes "make_item borrower facility family evidence_type first_seen last_seen persistence_days event_count materiality decay state
    counts superseded_by supersedes sources item_id = ok x"
  shows "optional uuid_field superseded_by = ok (vi_superseded_by x)" and "optional uuid_field supersedes = ok (vi_supersedes x)"
  using assms unfolding make_item_def rbind_ok_iff if_raise_ok_iff by (elim exE conjE, force)+

lemma boolean_PBool [simp]: "boolean (PBool b) = ok b"
  by (simp add: boolean_def)

lemma day_of_value_PDate [simp]: "day_of_value (PDate d) = ok d"
  by (simp add: day_of_value_def)

lemma rebuild_same:
  assumes "rebuild x = ok y" and "clean_item x"
  shows "same_item x y" and "clean_item y"
proof -
  note mk = assms(1) [unfolded rebuild_def]
  note facts = make_item_ok [OF mk] and links = make_item_links [OF mk]
  have strips: "strip (vi_family x) = vi_family x" "strip (vi_type x) = vi_type x"
    using assms(2) by (simp_all add: clean_item_def clean_identity_def item_identity_def)
  have ids: "item_identity y = item_identity x"
    using facts(1,2) clean_text_PStr [OF facts(3)] clean_text_PStr [OF facts(4)] strips
    by (simp add: item_identity_def uuid_field_def uuid_of_def)
  obtain ss where ss: "rmap (\<lambda>v. clean_text v 128) (map PStr (vi_sources x)) = ok ss" "set (vi_sources y) = set ss"
    using facts(11) by blast
  have "map strip (vi_sources x) = vi_sources x" using assms(2) by (simp add: clean_item_def map_idI)
  then have sources: "set (vi_sources y) = set (vi_sources x)" using rmap_clean_PStr [OF ss(1)] ss(2) by simp
  show "same_item x y" using ids sources facts(5-9) links state_field_PStr [OF facts(7)] by (simp add: same_item_def)
  show "clean_item y" using assms(2) ids sources by (simp add: clean_item_def)
qed

lemma clean_item_update [simp]:
  "clean_item (x\<lparr>vi_state := a\<rparr>) = clean_item x" "clean_item (x\<lparr>vi_counts := b\<rparr>) = clean_item x"
  "clean_item (x\<lparr>vi_superseded_by := c\<rparr>) = clean_item x" "clean_item (x\<lparr>vi_supersedes := d\<rparr>) = clean_item x"
  "clean_item (x\<lparr>vi_id := e\<rparr>) = clean_item x" "clean_item (x\<lparr>vi_first := f\<rparr>) = clean_item x" "clean_item (x\<lparr>vi_last := g\<rparr>) = clean_item x"
  by (simp_all add: clean_item_def item_identity_def)

lemma item_identity_update [simp]:
  "item_identity (x\<lparr>vi_state := a\<rparr>) = item_identity x" "item_identity (x\<lparr>vi_counts := b\<rparr>) = item_identity x"
  "item_identity (x\<lparr>vi_superseded_by := c\<rparr>) = item_identity x" "item_identity (x\<lparr>vi_supersedes := d\<rparr>) = item_identity x"
  "item_identity (x\<lparr>vi_id := e\<rparr>) = item_identity x" "item_identity (x\<lparr>vi_first := f\<rparr>) = item_identity x"
  "item_identity (x\<lparr>vi_last := g\<rparr>) = item_identity x" "item_identity (x\<lparr>vi_sources := h\<rparr>) = item_identity x"
  by (simp_all add: item_identity_def)

text \<open>What linking an item to a successor with an identifier does.\<close>

lemma supersede_ok:
  assumes "supersede_items fresh n old new occurred rule = ok (v, m)" and "vi_id new = Some u" and "clean_item old" and "clean_item new"
  shows "may_supersede old new" and "m = n" and "clean_item (su_superseded v)" and "clean_item (su_successor v)"
    and "same_item (old\<lparr>vi_state := superseded_state, vi_counts := False, vi_superseded_by := Some u\<rparr>) (su_superseded v)"
    and "same_item (new\<lparr>vi_supersedes := vi_id old\<rparr>) (su_successor v)"
proof -
  let ?old = "old\<lparr>vi_state := superseded_state, vi_counts := False, vi_superseded_by := Some u\<rparr>"
  let ?new = "new\<lparr>vi_id := Some u, vi_supersedes := vi_id old\<rparr>"
  have parts: "may_supersede old new \<and> m = n \<and> rebuild ?old = ok (su_superseded v) \<and> rebuild ?new = ok (su_successor v)"
    using assms(1) unfolding supersede_items_def assms(2)
    by (auto simp: rbind_ok_iff if_raise_ok_iff simp del: not_None_eq split: if_splits)
  then show "may_supersede old new" "m = n" by blast+
  have "clean_item ?old" "clean_item ?new" using assms(3,4) by simp_all
  then show "clean_item (su_superseded v)" "clean_item (su_successor v)" "same_item ?old (su_superseded v)"
    using parts rebuild_same by blast+
  have "?new = new\<lparr>vi_supersedes := vi_id old\<rparr>" using assms(2) by simp
  then show "same_item (new\<lparr>vi_supersedes := vi_id old\<rparr>) (su_successor v)"
    using parts rebuild_same(1) [of ?new] \<open>clean_item ?new\<close> by simp
qed

section \<open>The batch keeps the ledger\<close>

text \<open>
  A well-linked ledger: every item has its own identifier; a superseded item counts for nothing and names its successor,
  which names it back, and the other way round.
\<close>

definition items_linked :: "evidence_item list \<Rightarrow> bool" where
  "items_linked xs \<longleftrightarrow> distinct (map vi_id xs) \<and> (\<forall>x\<in>set xs. vi_id x \<noteq> None)
     \<and> (\<forall>x\<in>set xs. vi_superseded_by x \<noteq> None \<longrightarrow> vi_state x = superseded_state \<and> \<not> vi_counts x
         \<and> (\<exists>y\<in>set xs. vi_id y = vi_superseded_by x \<and> vi_supersedes y = vi_id x))
     \<and> (\<forall>y\<in>set xs. vi_supersedes y \<noteq> None \<longrightarrow> (\<exists>x\<in>set xs. vi_id x = vi_supersedes y \<and> vi_superseded_by x = vi_id y))"

text \<open>What becomes of an item: it stays, with its row, its identity, its links and its sources, over no shorter a span.\<close>

definition kept_as :: "evidence_item \<Rightarrow> evidence_item \<Rightarrow> bool" where
  "kept_as x y \<longleftrightarrow> item_identity y = item_identity x \<and> vi_id y = vi_id x \<and> vi_first y \<le> vi_first x \<and> vi_last x \<le> vi_last y
     \<and> set (vi_sources x) \<subseteq> set (vi_sources y) \<and> (vi_supersedes x \<noteq> None \<longrightarrow> vi_supersedes y = vi_supersedes x)
     \<and> (vi_superseded_by x \<noteq> None \<longrightarrow> vi_superseded_by y = vi_superseded_by x)"

definition kept_in :: "evidence_item list \<Rightarrow> evidence_item list \<Rightarrow> bool" where
  "kept_in xs ys \<longleftrightarrow> (\<forall>x\<in>set xs. \<exists>y\<in>set ys. kept_as x y)"

lemma kept_as_refl [simp]: "kept_as x x"
  by (simp add: kept_as_def)

lemma kept_as_trans: "kept_as x y \<Longrightarrow> kept_as y z \<Longrightarrow> kept_as x z"
  by (auto simp: kept_as_def)

lemma kept_in_refl [simp]: "kept_in xs xs"
  unfolding kept_in_def using kept_as_refl by blast

lemma kept_in_trans: "kept_in xs ys \<Longrightarrow> kept_in ys zs \<Longrightarrow> kept_in xs zs"
  unfolding kept_in_def using kept_as_trans by blast

lemma linked_inj: "items_linked xs \<Longrightarrow> x \<in> set xs \<Longrightarrow> y \<in> set xs \<Longrightarrow> vi_id x = vi_id y \<Longrightarrow> x = y"
  by (auto simp: items_linked_def distinct_map dest: inj_onD)


lemma linked_mset: "items_linked xs \<Longrightarrow> mset ys = mset xs \<Longrightarrow> items_linked ys"
  unfolding items_linked_def using mset_eq_setD [of ys xs] mset_eq_imp_distinct_iff [of "map vi_id ys" "map vi_id xs"] by simp

lemma linked_distinct: "items_linked xs \<Longrightarrow> distinct xs"
  by (simp add: items_linked_def distinct_map)

lemma linked_map:
  assumes "items_linked xs" and ids: "\<forall>x\<in>set xs. vi_id (g x) = vi_id x"
    and "\<forall>x\<in>set xs. vi_superseded_by (g x) \<noteq> None \<longrightarrow> vi_state (g x) = superseded_state \<and> \<not> vi_counts (g x)
      \<and> (\<exists>y\<in>set xs. vi_id y = vi_superseded_by (g x) \<and> vi_supersedes (g y) = vi_id x)"
    and "\<forall>y\<in>set xs. vi_supersedes (g y) \<noteq> None \<longrightarrow> (\<exists>x\<in>set xs. vi_id x = vi_supersedes (g y) \<and> vi_superseded_by (g x) = vi_id y)"
  shows "items_linked (map g xs)"
proof -
  have "map vi_id (map g xs) = map vi_id xs" using ids by simp
  then show ?thesis using assms unfolding items_linked_def by (simp only: set_map ball_simps bex_simps) auto
qed

lemma update_as_map: "distinct xs \<Longrightarrow> i < length xs \<Longrightarrow> xs[i := y] = map (\<lambda>z. if z = xs ! i then y else z) xs"
  by (rule nth_equalityI) (auto simp: nth_list_update nth_eq_iff_index_eq)

text \<open>Replacing one item by a version of itself with the same links.\<close>

lemma linked_replace:
  assumes "items_linked xs" and "i < length xs" and "vi_id y = vi_id (xs ! i)" and "vi_superseded_by y = vi_superseded_by (xs ! i)"
    and "vi_supersedes y = vi_supersedes (xs ! i)" and "vi_state y = vi_state (xs ! i)" and "vi_counts y = vi_counts (xs ! i)"
  shows "items_linked (xs[i := y])"
proof -
  let ?g = "\<lambda>z. if z = xs ! i then y else z"
  have g: "vi_id (?g z) = vi_id z" "vi_superseded_by (?g z) = vi_superseded_by z" "vi_supersedes (?g z) = vi_supersedes z"
    "vi_state (?g z) = vi_state z" "vi_counts (?g z) = vi_counts z" for z using assms(3-7) by simp_all
  have "items_linked (map ?g xs)" by (rule linked_map [OF assms(1)]) (use assms(1) in \<open>auto simp only: g items_linked_def\<close>)
  then show ?thesis using update_as_map [OF linked_distinct [OF assms(1)] assms(2)] by simp
qed

text \<open>A new item without links.\<close>

lemma links_append:
  assumes "items_linked xs" and "vi_id x \<noteq> None" and "vi_id x \<notin> vi_id ` set xs" and "vi_superseded_by x = None" and "vi_supersedes x = None"
  shows "items_linked (xs @ [x])"
proof -
  have "distinct (map vi_id (xs @ [x]))" using assms(1,3) by (auto simp: items_linked_def)
  then show ?thesis using assms(1,2,4,5) unfolding items_linked_def by auto
qed

text \<open>Two items of a ledger, neither items_linked on the side in question, become predecessor and successor.\<close>

lemma linked_pair:
  assumes "items_linked xs" and a: "a \<in> set xs" "vi_superseded_by a = None" and b: "b \<in> set xs" "vi_superseded_by b = None" "vi_supersedes b = None"
    and "a \<noteq> b"
    and x: "vi_id x = vi_id a" "vi_supersedes x = vi_supersedes a" "vi_superseded_by x = vi_id b" "vi_state x = superseded_state" "\<not> vi_counts x"
    and y: "vi_id y = vi_id b" "vi_superseded_by y = None" "vi_supersedes y = vi_id a"
  shows "items_linked (map (\<lambda>z. if z = a then x else if z = b then y else z) xs)"
proof (rule linked_map [OF assms(1)])
  let ?g = "\<lambda>z. if z = a then x else if z = b then y else z"
  have some: "vi_id z \<noteq> None" if "z \<in> set xs" for z using assms(1) that by (simp add: items_linked_def)
  show "\<forall>z\<in>set xs. vi_id (?g z) = vi_id z" using x(1) y(1) by simp
  show "\<forall>z\<in>set xs. vi_superseded_by (?g z) \<noteq> None \<longrightarrow> vi_state (?g z) = superseded_state \<and> \<not> vi_counts (?g z)
      \<and> (\<exists>t\<in>set xs. vi_id t = vi_superseded_by (?g z) \<and> vi_supersedes (?g t) = vi_id z)"
  proof (intro ballI impI)
    fix z assume z: "z \<in> set xs" and l: "vi_superseded_by (?g z) \<noteq> None"
    show "vi_state (?g z) = superseded_state \<and> \<not> vi_counts (?g z) \<and> (\<exists>t\<in>set xs. vi_id t = vi_superseded_by (?g z) \<and> vi_supersedes (?g t) = vi_id z)"
    proof (cases "z = a")
      case True
      then show ?thesis using x y b(1) \<open>a \<noteq> b\<close> by (auto intro!: bexI [of _ b])
    next
      case False
      then have zb: "z \<noteq> b" using l y(2) by auto
      then have "vi_superseded_by z \<noteq> None" using l False by simp
      then obtain t where "t \<in> set xs" "vi_id t = vi_superseded_by z" "vi_supersedes t = vi_id z" "vi_state z = superseded_state" "\<not> vi_counts z"
        using assms(1) z by (auto simp: items_linked_def)
      moreover have "t \<noteq> b" using calculation(3) b(3) some [OF z] by auto
      ultimately show ?thesis using False zb x(2) by (auto intro!: bexI [of _ t])
    qed
  qed
  show "\<forall>z\<in>set xs. vi_supersedes (?g z) \<noteq> None \<longrightarrow> (\<exists>t\<in>set xs. vi_id t = vi_supersedes (?g z) \<and> vi_superseded_by (?g t) = vi_id z)"
  proof (intro ballI impI)
    fix z assume z: "z \<in> set xs" and l: "vi_supersedes (?g z) \<noteq> None"
    show "\<exists>t\<in>set xs. vi_id t = vi_supersedes (?g z) \<and> vi_superseded_by (?g t) = vi_id z"
    proof (cases "z = b")
      case True
      then show ?thesis using x y a(1) \<open>a \<noteq> b\<close> by (auto intro!: bexI [of _ a])
    next
      case False
      then have "vi_supersedes z \<noteq> None" "vi_supersedes (?g z) = vi_supersedes z" using l x(2) by (auto split: if_splits)
      then obtain t where "t \<in> set xs" "vi_id t = vi_supersedes (?g z)" "vi_superseded_by t = vi_id z"
        using assms(1) z by (auto simp: items_linked_def)
      moreover have "t \<noteq> a" "t \<noteq> b" using calculation(3) a(2) b(2) some [OF z] by auto
      ultimately show ?thesis by (auto intro!: bexI [of _ t])
    qed
  qed
qed

lemma pair_mset:
  assumes "distinct (xs @ [c])" and "i < length xs"
  shows "mset (xs[i := p] @ [q]) = mset (map (\<lambda>z. if z = xs ! i then q else if z = c then p else z) (xs @ [c]))"
    and "xs[i := p] @ [q] = map (\<lambda>z. if z = c then q else if z = xs ! i then p else z) (xs @ [c])"
proof -
  have d: "distinct xs" "c \<notin> set xs" "xs ! i \<noteq> c" using assms nth_mem by auto
  have 1: "map (\<lambda>z. if z = xs ! i then v else if z = c then w else z) (xs @ [c]) = xs[i := v] @ [w]" for v w
    using update_as_map [OF d(1) assms(2), of v] d(2,3) by auto
  show "mset (xs[i := p] @ [q]) = mset (map (\<lambda>z. if z = xs ! i then q else if z = c then p else z) (xs @ [c]))"
    unfolding 1 using assms(2) by (simp add: mset_update)
  have "map (\<lambda>z. if z = c then q else if z = xs ! i then p else z) (xs @ [c]) = map (\<lambda>z. if z = xs ! i then p else if z = c then q else z) (xs @ [c])"
    using d(3) by auto
  then show "xs[i := p] @ [q] = map (\<lambda>z. if z = c then q else if z = xs ! i then p else z) (xs @ [c])" unfolding 1 by simp
qed

lemma matched_in:
  assumes "(case found of [] \<Rightarrow> None | m # ms \<Rightarrow> Some (max_key f m ms)) = Some w"
  shows "w \<in> set found"
proof (cases found)
  case (Cons m ms)
  then show ?thesis using assms max_key_in_Cons [of f m ms] by simp
qed (use assms in simp)

lemma best_match_ok:
  assumes "best_match c current rules = Some (i, x, r)"
  shows "i < length current" and "x = current ! i" and "comparable x (ca_item c)"
proof -
  note assms [unfolded best_match_def Let_def]
  from matched_in [OF this] show "i < length current" "x = current ! i" "comparable x (ca_item c)"
    by (auto simp: in_set_enumerate_eq split: if_splits)
qed

text \<open>A candidate nobody links to, with an identifier of its own.\<close>

definition fresh_candidate :: "evidence_item list \<Rightarrow> evidence_item \<Rightarrow> bool" where
  "fresh_candidate current c \<longleftrightarrow> clean_item c \<and> vi_id c \<noteq> None \<and> vi_id c \<notin> vi_id ` set current
     \<and> vi_superseded_by c = None \<and> vi_supersedes c = None"

definition observed :: "evidence_item \<Rightarrow> evidence_item list \<Rightarrow> bool" where
  "observed c xs \<longleftrightarrow> (\<exists>y\<in>set xs. set (vi_sources c) \<inter> set (vi_sources y) \<noteq> {})"

definition step_kept :: "evidence_item \<Rightarrow> evidence_item list \<Rightarrow> evidence_item list \<Rightarrow> bool" where
  "step_kept c xs ys \<longleftrightarrow> items_linked ys \<and> (\<forall>y\<in>set ys. clean_item y) \<and> kept_in xs ys
     \<and> vi_id ` set ys \<subseteq> insert (vi_id c) (vi_id ` set xs) \<and> (vi_sources c \<noteq> [] \<longrightarrow> observed c ys)"

lemma kept_in_update:
  assumes "kept_as (xs ! i) y" and "y \<in> set ys" and "\<forall>x\<in>set xs. x \<noteq> xs ! i \<longrightarrow> x \<in> set ys"
  shows "kept_in xs ys"
  unfolding kept_in_def using assms kept_as_refl by metis

lemma step_merged:
  assumes "items_linked xs" and "\<forall>x\<in>set xs. clean_item x" and "fresh_candidate xs c" and "i < length xs"
    and "merge_observation (xs ! i) c = ok y"
  shows "step_kept c xs (xs[i := y])"
proof -
  let ?x = "xs ! i"
  let ?m = "?x\<lparr>vi_first := min (vi_first ?x) (vi_first c), vi_last := max (vi_last ?x) (vi_last c),
     vi_sources := sort (remdups (vi_sources ?x @ vi_sources c))\<rparr>"
  have clean: "clean_item ?m" using assms(2-4) by (auto simp: clean_item_def fresh_candidate_def)
  note y = rebuild_same [OF assms(5) [unfolded merge_observation_def] clean]
  have links: "vi_id y = vi_id ?x" "vi_superseded_by y = vi_superseded_by ?x" "vi_supersedes y = vi_supersedes ?x"
    "vi_state y = vi_state ?x" "vi_counts y = vi_counts ?x" using y(1) by (simp_all add: same_item_def)
  have kept: "kept_as ?x y" using y(1) by (auto simp: same_item_def kept_as_def)
  have set: "set (xs[i := y]) = insert y (set xs - {?x})" using set_update_distinct [OF linked_distinct [OF assms(1)] assms(4)] .
  have "kept_in xs (xs[i := y])" by (rule kept_in_update [OF kept]) (auto simp: set)
  moreover have "vi_id ` set (xs[i := y]) \<subseteq> vi_id ` set xs" using links(1) assms(4) by (auto simp: set)
  moreover have "observed c (xs[i := y])" if "vi_sources c \<noteq> []"
    using y(1) that by (auto simp: observed_def set same_item_def)
  moreover have "\<forall>z\<in>set (xs[i := y]). clean_item z" using y(2) assms(2) by (auto simp: set)
  ultimately show ?thesis using linked_replace [OF assms(1,4) links] by (auto simp: step_kept_def)
qed

lemma step_linked:
  assumes "items_linked xs" and "\<forall>x\<in>set xs. clean_item x" and "fresh_candidate xs c" and "i < length xs" and "in_force (xs ! i)"
    and v: "if vi_first c \<ge> vi_last (xs ! i) then supersede_items fresh n (xs ! i) c d r = ok (v, m)
       else supersede_items fresh n c (xs ! i) d r = ok (v, m)"
  shows "step_kept c xs (xs[i := su_successor v] @ [su_superseded v])"
proof -
  let ?x = "xs ! i" and ?ys = "xs[i := su_successor v] @ [su_superseded v]"
  have x: "?x \<in> set xs" "vi_superseded_by ?x = None" "vi_id ?x \<noteq> None" "clean_item ?x"
    using assms(1,2,4,5) by (auto simp: in_force_def items_linked_def)
  have c: "clean_item c" "vi_id c \<noteq> None" "vi_superseded_by c = None" "vi_supersedes c = None" "vi_id c \<notin> vi_id ` set xs"
    using assms(3) by (auto simp: fresh_candidate_def)
  have all: "items_linked (xs @ [c])" by (rule links_append [OF assms(1) c(2,5,3,4)])
  have ne: "?x \<noteq> c" using x(1) c(5) by auto
  have set: "set ?ys = insert (su_superseded v) (insert (su_successor v) (set xs - {?x}))"
    using set_update_distinct [OF linked_distinct [OF assms(1)] assms(4), of "su_successor v"] by auto
  have rest: "\<forall>z\<in>set xs. z \<noteq> ?x \<longrightarrow> z \<in> set ?ys" "su_superseded v \<in> set ?ys" "su_successor v \<in> set ?ys" unfolding set by blast+
  obtain u w where ids: "vi_id c = Some u" "vi_id ?x = Some w" using c(2) x(3) by auto
  show ?thesis
  proof (cases "vi_first c \<ge> vi_last ?x")
    case True
    then have s: "supersede_items fresh n ?x c d r = ok (v, m)" using v by simp
    note f = supersede_ok [OF s ids(1) x(4) c(1)]
    have "items_linked (map (\<lambda>z. if z = ?x then su_superseded v else if z = c then su_successor v else z) (xs @ [c]))"
      by (rule linked_pair [OF all _ x(2) _ c(3,4) ne]) (use f(5,6) ids x(1) c(3) in \<open>auto simp: same_item_def\<close>)
    then have "items_linked ?ys" using pair_mset(1) [OF linked_distinct [OF all] assms(4)] linked_mset by blast
    moreover have "kept_as ?x (su_superseded v)" using f(5) x(2) by (auto simp: same_item_def kept_as_def)
    then have "kept_in xs ?ys" using rest(2,1) by (rule kept_in_update)
    moreover have "observed c ?ys" if "vi_sources c \<noteq> []"
      unfolding observed_def by (rule bexI [OF _ rest(3)]) (use f(6) that in \<open>auto simp: same_item_def\<close>)
    moreover have "vi_id ` set ?ys \<subseteq> insert (vi_id c) (vi_id ` set xs)" unfolding set using f(5,6) x(1) by (auto simp: same_item_def)
    moreover have "\<forall>y\<in>set ?ys. clean_item y" unfolding set using f(3,4) assms(2) by blast
    ultimately show ?thesis unfolding step_kept_def by blast
  next
    case False
    then have s: "supersede_items fresh n c ?x d r = ok (v, m)" using v by simp
    note f = supersede_ok [OF s ids(2) c(1) x(4)]
    have sup: "vi_supersedes ?x = None"
    proof (rule ccontr)
      assume "vi_supersedes ?x \<noteq> None"
      then obtain z where "z \<in> set xs" "vi_id z = vi_supersedes ?x" using assms(1) x(1) by (auto simp: items_linked_def)
      then have "vi_supersedes ?x \<noteq> vi_id c" using c(5) by (metis image_eqI)
      then show False using f(1) \<open>vi_supersedes ?x \<noteq> None\<close> by (simp add: may_supersede_def)
    qed
    have "items_linked (map (\<lambda>z. if z = c then su_superseded v else if z = ?x then su_successor v else z) (xs @ [c]))"
      by (rule linked_pair [OF all _ c(3) _ x(2) sup ne [symmetric]]) (use f(5,6) ids x(1,2) c(3) in \<open>auto simp: same_item_def\<close>)
    then have "items_linked ?ys" unfolding pair_mset(2) [OF linked_distinct [OF all] assms(4), symmetric] .
    moreover have "kept_as ?x (su_successor v)" using f(6) x(2) sup by (auto simp: same_item_def kept_as_def)
    then have "kept_in xs ?ys" using rest(3,1) by (rule kept_in_update)
    moreover have "observed c ?ys" if "vi_sources c \<noteq> []"
      unfolding observed_def by (rule bexI [OF _ rest(2)]) (use f(5) that in \<open>auto simp: same_item_def\<close>)
    moreover have "vi_id ` set ?ys \<subseteq> insert (vi_id c) (vi_id ` set xs)" unfolding set using f(5,6) x(1) by (auto simp: same_item_def)
    moreover have "\<forall>y\<in>set ?ys. clean_item y" unfolding set using f(3,4) assms(2) by blast
    ultimately show ?thesis unfolding step_kept_def by blast
  qed
qed

lemma resolve_step_kept:
  assumes "resolve_step fresh rules c (xs, revisions, n) = ok (ys, revisions', m)" and "items_linked xs" and "\<forall>x\<in>set xs. clean_item x"
    and "fresh_candidate xs (ca_item c)"
  shows "step_kept (ca_item c) xs ys"
proof (cases "already_seen (ca_item c) xs")
  case True
  then have "ys = xs" using assms(1) by (simp add: resolve_step_def Let_def)
  then show ?thesis using True assms(2,3) by (auto simp: step_kept_def observed_def already_seen_def list_ex_iff)
next
  case False
  note run = assms(1) [unfolded resolve_step_def prod.case Let_def if_not_P [OF False]]
  show ?thesis
  proof (cases "best_match c xs rules")
    case (Some w)
    obtain i x r where w: "w = (i, x, r)" by (cases w)
    note b = best_match_ok [OF Some [unfolded w]]
    obtain v k d r' where "if vi_first (ca_item c) \<ge> vi_last (xs ! i) then supersede_items fresh n (xs ! i) (ca_item c) d r' = ok (v, k)
       else supersede_items fresh n (ca_item c) (xs ! i) d r' = ok (v, k)" and ys: "ys = xs[i := su_successor v] @ [su_superseded v]"
      using run b(2) unfolding Some w by (auto simp: rbind_ok_iff split: if_splits prod.splits)
    from step_linked [OF assms(2-4) b(1) _ this(1)] b(2,3) show ?thesis unfolding ys by (simp add: comparable_def)
  next
    case None
    note run = run [unfolded None option.case]
    show ?thesis
    proof (cases "find (\<lambda>(i, x). item_identity x = item_identity (ca_item c) \<and> in_force x) (enumerate 0 xs)")
      case None
      then have ys: "ys = xs @ [ca_item c]" using run by simp
      have "kept_in xs ys" unfolding kept_in_def ys
        by (intro ballI, rule_tac x = x in bexI) simp_all
      then show ?thesis using assms(2-4) links_append [OF assms(2)]
        by (auto simp: step_kept_def ys fresh_candidate_def observed_def)
    next
      case (Some ix)
      obtain i x where ix: "ix = (i, x)" by (cases ix)
      have "(i, x) \<in> set (enumerate 0 xs)" using Some unfolding ix by (auto simp: find_Some_iff in_set_conv_nth)
      then have i: "i < length xs" "x = xs ! i" by (simp_all add: in_set_enumerate_eq)
      then obtain y where "merge_observation (xs ! i) (ca_item c) = ok y" "ys = xs[i := y]"
        using run unfolding Some ix by (auto simp: rbind_ok_iff)
      then show ?thesis using step_merged [OF assms(2-4) i(1)] by simp
    qed
  qed
qed

lemma observed_later: "observed c xs \<Longrightarrow> kept_in xs ys \<Longrightarrow> observed c ys"
  unfolding observed_def kept_in_def kept_as_def by blast

lemma resolve_all_kept:
  assumes "resolve_all fresh rules cs (xs, revisions, n) = ok (ys, revisions', m)" and "items_linked xs" and "\<forall>x\<in>set xs. clean_item x"
    and "\<forall>c\<in>set cs. fresh_candidate xs (ca_item c)" and "distinct (map (\<lambda>c. vi_id (ca_item c)) cs)"
  shows "items_linked ys \<and> kept_in xs ys \<and> (\<forall>c\<in>set cs. vi_sources (ca_item c) \<noteq> [] \<longrightarrow> observed (ca_item c) ys)"
  using assms
proof (induction cs arbitrary: xs revisions n)
  case (Cons c cs)
  obtain zs rv k where step: "resolve_step fresh rules c (xs, revisions, n) = ok (zs, rv, k)"
    and rest: "resolve_all fresh rules cs (zs, rv, k) = ok (ys, revisions', m)"
    using Cons.prems(1) by (auto simp: rbind_ok_iff)
  have z: "step_kept (ca_item c) xs zs" using resolve_step_kept [OF step Cons.prems(2,3)] Cons.prems(4) by simp
  then have "items_linked zs" "\<forall>x\<in>set zs. clean_item x" and ids: "vi_id ` set zs \<subseteq> insert (vi_id (ca_item c)) (vi_id ` set xs)"
    and kept: "kept_in xs zs" and seen: "vi_sources (ca_item c) \<noteq> [] \<longrightarrow> observed (ca_item c) zs" by (simp_all add: step_kept_def)
  moreover have "\<forall>c'\<in>set cs. fresh_candidate zs (ca_item c')"
  proof
    fix c' assume c': "c' \<in> set cs"
    have "vi_id (ca_item c) \<notin> (\<lambda>c. vi_id (ca_item c)) ` set cs" using Cons.prems(5) by simp
    then have "vi_id (ca_item c') \<noteq> vi_id (ca_item c)" using imageI [OF c', of "\<lambda>c. vi_id (ca_item c)"] by auto
    then show "fresh_candidate zs (ca_item c')" using Cons.prems(4) c' ids by (auto simp: fresh_candidate_def)
  qed
  ultimately have "items_linked ys \<and> kept_in zs ys \<and> (\<forall>c\<in>set cs. vi_sources (ca_item c) \<noteq> [] \<longrightarrow> observed (ca_item c) ys)"
    using Cons.IH [OF rest] Cons.prems(5) by simp
  then show ?case using kept seen kept_in_trans observed_later by auto
qed simp

definition on_time :: "pyval \<Rightarrow> signal_event \<Rightarrow> bool" where
  "on_time as_of e \<longleftrightarrow> as_of = PNone \<or> (\<exists>d. day_of_value as_of = ok d \<and> sg_date e \<le> d)"

lemma event_candidate_ok:
  assumes "event_candidate printed fresh n e = ok (c, m)" and "fresh n = PUuid u"
  shows "m = n + 1" and "vi_id (ca_item c) = Some u" and "clean_item (ca_item c)" and "vi_superseded_by (ca_item c) = None"
    and "vi_supersedes (ca_item c) = None" and "set (vi_sources (ca_item c)) = {strip (readable_source_id printed e)}"
proof -
  obtain x where mk: "make_item (PUuid (sg_borrower e)) (uuid_arg (sg_facility e)) (PStr (sg_family e)) (PStr (fact_type (Event_fact e)))
       (PDate (sg_date e)) (PDate (sg_date e)) (PInt 1) (PInt 1) PNone PNone (PStr transient_state) (PBool False) PNone PNone
       [PStr (readable_source_id printed e)] (PUuid u) = ok x" and c: "ca_item c = x" and m: "m = n + 1"
    using assms by (auto simp: event_candidate_def new_uuid_def uuid_of_def rbind_ok_iff)
  note facts = make_item_ok [OF mk] and links = make_item_links [OF mk]
  show "m = n + 1" "vi_superseded_by (ca_item c) = None" "vi_supersedes (ca_item c) = None"
    using m links c by (simp_all add: optional_def)
  show "vi_id (ca_item c) = Some u" using facts(9) c by (simp add: optional_def uuid_field_def uuid_of_def)
  have "map PStr [readable_source_id printed e] = [PStr (readable_source_id printed e)]" by simp
  then show src: "set (vi_sources (ca_item c)) = {strip (readable_source_id printed e)}"
    using facts(11) rmap_clean_PStr [of 128 "[readable_source_id printed e]"] c by auto
  show "clean_item (ca_item c)"
    using clean_text_ok [OF facts(3)] clean_text_ok [OF facts(4)] src c
    by (auto simp: clean_item_def clean_identity_def item_identity_def)
qed

lemma event_candidates_ok:
  assumes "incoming_candidates printed fresh as_of n (map Known_event es) = ok (cs, m)" and "\<forall>k. fresh k = PUuid (f k)"
  shows "n \<le> m \<and> map (\<lambda>c. vi_id (ca_item c)) cs = map (\<lambda>k. Some (f k)) [n..<m]
    \<and> (\<forall>c\<in>set cs. clean_item (ca_item c) \<and> vi_superseded_by (ca_item c) = None \<and> vi_supersedes (ca_item c) = None \<and> vi_sources (ca_item c) \<noteq> [])
    \<and> (\<forall>e\<in>set es. on_time as_of e \<longrightarrow> (\<exists>c\<in>set cs. set (vi_sources (ca_item c)) = {strip (readable_source_id printed e)}))"
  using assms(1)
proof (induction es arbitrary: n cs)
  case (Cons e es)
  let ?future = "if as_of = PNone then ok False else rbind (day_of_value as_of) (\<lambda>d. ok (sg_date e > d))"
  obtain future where future: "?future = ok future" using Cons.prems by (auto simp: Let_def rbind_ok_iff)
  have late: "future \<longleftrightarrow> \<not> on_time as_of e" using future by (auto simp: on_time_def rbind_ok_iff split: if_splits)
  show ?case
  proof (cases future)
    case True
    then have "incoming_candidates printed fresh as_of n (map Known_event es) = ok (cs, m)"
      using Cons.prems future by (auto simp: Let_def)
    from Cons.IH [OF this] show ?thesis using True late by simp
  next
    case False
    obtain c k cs' where c: "event_candidate printed fresh n e = ok (c, k)"
      and rest: "incoming_candidates printed fresh as_of k (map Known_event es) = ok (cs', m)" and cs: "cs = c # cs'"
      using Cons.prems future False by (auto simp: Let_def rbind_ok_iff split: prod.splits)
    note f = event_candidate_ok [OF c assms(2) [rule_format]]
    have ih: "k \<le> m" "map (\<lambda>c. vi_id (ca_item c)) cs' = map (\<lambda>k. Some (f k)) [k..<m]"
      "\<forall>c\<in>set cs'. clean_item (ca_item c) \<and> vi_superseded_by (ca_item c) = None \<and> vi_supersedes (ca_item c) = None \<and> vi_sources (ca_item c) \<noteq> []"
      "\<forall>e\<in>set es. on_time as_of e \<longrightarrow> (\<exists>c\<in>set cs'. set (vi_sources (ca_item c)) = {strip (readable_source_id printed e)})"
      using Cons.IH [OF rest] by blast+
    have "[n..<m] = n # [k..<m]" using ih(1) f(1) upt_conv_Cons by simp
    then have "map (\<lambda>c. vi_id (ca_item c)) cs = map (\<lambda>k. Some (f k)) [n..<m]" using ih(2) f(2) cs by simp
    moreover have "vi_sources (ca_item c) \<noteq> []" using f(6) by force
    ultimately show ?thesis using ih f cs by auto
  qed
qed simp

text \<open>
  Resolving a batch of events keeps the ledger whole: it stays well items_linked, each superseded item and its successor
  naming each other; every stored item is still there with its row, identity, sources and links; and every event up to
  the date is a source of some item.
\<close>

theorem supersession_keeps_ledger:
  assumes "resolve_supersession printed fresh existing (map Known_event es) as_of rules = ok b"
    and "rmap (\<lambda>v. rbind (from_item v) rebuild) existing = ok xs" and "items_linked xs"
    and "\<forall>k. fresh k = PUuid (f k)" and "inj f" and "\<forall>k. Some (f k) \<notin> vi_id ` set xs"
  shows "items_linked (sb_items b) \<and> kept_in xs (sb_items b)
    \<and> (\<forall>e\<in>set es. on_time as_of e \<longrightarrow> (\<exists>y\<in>set (sb_items b). strip (readable_source_id printed e) \<in> set (vi_sources y)))"
proof -
  obtain rs cs n ys rv m where cs: "incoming_candidates printed fresh as_of 0 (map Known_event es) = ok (cs, n)"
    and run: "resolve_all fresh rs (sort_key (\<lambda>c. item_sort_key (ca_item c)) cs) (xs, [], n) = ok (ys, rv, m)"
    and b: "sb_items b = sort_key item_sort_key ys"
    using assms(1,2) by (auto simp: resolve_supersession_def rbind_ok_iff split: if_splits)
  let ?cs = "sort_key (\<lambda>c. item_sort_key (ca_item c)) cs"
  note c = event_candidates_ok [OF cs assms(4)]
  have clean: "\<forall>x\<in>set xs. clean_item x"
    using assms(2) from_item_clean rebuild_same(2) by (fastforce dest!: rmap_set simp: rbind_ok_iff clean_item_def)
  have "distinct (map (\<lambda>c. vi_id (ca_item c)) cs)" using c assms(5) by (simp add: distinct_map inj_on_def)
  moreover have "mset (map (\<lambda>c. vi_id (ca_item c)) ?cs) = mset (map (\<lambda>c. vi_id (ca_item c)) cs)" by (metis mset_map mset_sort)
  ultimately have "distinct (map (\<lambda>c. vi_id (ca_item c)) ?cs)" using mset_eq_imp_distinct_iff by blast
  moreover have "fresh_candidate xs (ca_item d)" if d: "d \<in> set ?cs" for d
  proof -
    have "vi_id (ca_item d) \<in> set (map (\<lambda>c. vi_id (ca_item c)) cs)" using d by simp
    then have "vi_id (ca_item d) \<in> set (map (\<lambda>k. Some (f k)) [0..<n])" using c by metis
    then obtain k where "vi_id (ca_item d) = Some (f k)" by auto
    then show ?thesis using c d assms(6) by (simp add: fresh_candidate_def)
  qed
  ultimately have k: "items_linked ys" "kept_in xs ys" "\<forall>d\<in>set cs. vi_sources (ca_item d) \<noteq> [] \<longrightarrow> observed (ca_item d) ys"
    using resolve_all_kept [OF run assms(3) clean] by simp_all
  have "\<exists>y\<in>set (sb_items b). strip (readable_source_id printed e) \<in> set (vi_sources y)" if e: "e \<in> set es" "on_time as_of e" for e
  proof -
    obtain d where d: "d \<in> set cs" "set (vi_sources (ca_item d)) = {strip (readable_source_id printed e)}" using c e by blast
    then have "observed (ca_item d) ys" using k(3) c by blast
    then show ?thesis using d(2) by (auto simp: observed_def b)
  qed
  moreover have "items_linked (sb_items b)" unfolding b by (rule linked_mset [OF k(1)]) simp
  moreover have "kept_in xs (sb_items b)" using k(2) by (simp add: kept_in_def b)
  ultimately show ?thesis by blast
qed

section \<open>The read shows the past only\<close>

lemma read_item_ok:
  assumes "read_item xs trail d x = ok r" and "clean_item x"
  shows "\<exists>st. state_as_of x (trail_of trail (vi_id x)) d = ok st
    \<and> same_item (x\<lparr>vi_last := min (vi_last x) d, vi_state := st, vi_counts := vi_counts x \<and> st \<noteq> superseded_state,
       vi_superseded_by := (if st \<noteq> superseded_state then None else visible_successor xs trail d x),
       vi_supersedes := visible_predecessor xs trail d x\<rparr>) r"
  using assms rebuild_same(1) by (auto simp: read_item_def rbind_ok_iff)

lemma item_with_id_Some: "item_with_id xs u = Some y \<Longrightarrow> y \<in> set xs \<and> vi_id y = Some u"
  by (auto simp: item_with_id_def find_Some_iff)

lemma visible_link:
  assumes "visible_successor xs trail d x = Some u \<or> visible_predecessor xs trail d x = Some u"
  shows "\<exists>y\<in>set xs. vi_id y = Some u \<and> vi_first y \<le> d"
  using assms by (auto simp: visible_successor_def visible_predecessor_def not_less split: option.splits if_splits dest: item_with_id_Some)

lemma rmap_member: "rmap f xs = ok ys \<Longrightarrow> x \<in> set xs \<Longrightarrow> \<exists>y\<in>set ys. f x = ok y"
  by (induction xs arbitrary: ys) auto

lemma read_items_ok:
  assumes "read_items xs trail d = ok rs" and "\<forall>x\<in>set xs. clean_item x"
  shows "map vi_id rs = map vi_id (filter (\<lambda>x. vi_first x \<le> d) (sort_key item_sort_key xs))"
    and "\<forall>r\<in>set rs. \<exists>x\<in>set xs. vi_first x \<le> d \<and> read_item xs trail d x = ok r"
proof -
  let ?L = "filter (\<lambda>x. vi_first x \<le> d) (sort_key item_sort_key xs)"
  have run: "rmap (read_item xs trail d) ?L = ok rs" using assms(1) by (simp add: read_items_def split: if_splits)
  show "\<forall>r\<in>set rs. \<exists>x\<in>set xs. vi_first x \<le> d \<and> read_item xs trail d x = ok r" using rmap_set [OF run] by auto
  have "rmap (read_item xs trail d) L = ok rs \<Longrightarrow> set L \<subseteq> set xs \<Longrightarrow> map vi_id rs = map vi_id L" for L rs
  proof (induction L arbitrary: rs)
    case (Cons x L)
    obtain r rs' where r: "read_item xs trail d x = ok r" "rmap (read_item xs trail d) L = ok rs'" "rs = r # rs'"
      using Cons.prems(1) by (auto simp: rbind_ok_iff)
    have "vi_id r = vi_id x" using read_item_ok [OF r(1)] assms(2) Cons.prems(2) by (auto simp: same_item_def)
    then show ?case using Cons.IH [OF r(2)] Cons.prems(2) r(3) by simp
  qed simp
  from this [OF run] show "map vi_id rs = map vi_id ?L" by auto
qed

text \<open>
  A read at a date shows no future: it has exactly the items first seen by then, none seen later than the date, a
  superseded one counts for nothing, only a superseded one names a successor, and every link leads to an item of the read.
\<close>

theorem read_shows_no_future:
  assumes "point_in_time items transitions as_of = ok rs" and "day_of_value as_of = ok d" and "rmap from_item items = ok xs"
  shows "map vi_id rs = map vi_id (filter (\<lambda>x. vi_first x \<le> d) (sort_key item_sort_key xs))
    \<and> (\<forall>r\<in>set rs. vi_first r \<le> d \<and> vi_last r \<le> d \<and> (vi_state r = superseded_state \<longrightarrow> \<not> vi_counts r)
        \<and> (vi_superseded_by r \<noteq> None \<longrightarrow> vi_state r = superseded_state)
        \<and> (\<forall>u. vi_superseded_by r = Some u \<or> vi_supersedes r = Some u \<longrightarrow> (\<exists>y\<in>set rs. vi_id y = Some u)))"
proof -
  obtain trail where run: "read_items xs trail d = ok rs"
    using assms by (auto simp: point_in_time_def rbind_ok_iff split: if_splits)
  have clean: "\<forall>x\<in>set xs. clean_item x" using assms(3) from_item_clean by (fastforce dest!: rmap_set simp: clean_item_def)
  note ids = read_items_ok(1) [OF run clean]
  have "vi_first r \<le> d \<and> vi_last r \<le> d \<and> (vi_state r = superseded_state \<longrightarrow> \<not> vi_counts r)
        \<and> (vi_superseded_by r \<noteq> None \<longrightarrow> vi_state r = superseded_state)
        \<and> (\<forall>u. vi_superseded_by r = Some u \<or> vi_supersedes r = Some u \<longrightarrow> (\<exists>y\<in>set rs. vi_id y = Some u))" if r: "r \<in> set rs" for r
  proof -
    obtain x where x: "x \<in> set xs" "vi_first x \<le> d" "read_item xs trail d x = ok r" using read_items_ok(2) [OF run clean] r by blast
    obtain st where st: "same_item (x\<lparr>vi_last := min (vi_last x) d, vi_state := st, vi_counts := vi_counts x \<and> st \<noteq> superseded_state,
       vi_superseded_by := (if st \<noteq> superseded_state then None else visible_successor xs trail d x),
       vi_supersedes := visible_predecessor xs trail d x\<rparr>) r" using read_item_ok [OF x(3)] clean x(1) by blast
    have "\<exists>y\<in>set rs. vi_id y = Some u" if "vi_superseded_by r = Some u \<or> vi_supersedes r = Some u" for u
    proof -
      have "visible_successor xs trail d x = Some u \<or> visible_predecessor xs trail d x = Some u"
        using st that by (auto simp: same_item_def split: if_splits)
      from visible_link [OF this] obtain y where "y \<in> set xs" "vi_id y = Some u" "vi_first y \<le> d" by blast
      then have "Some u \<in> set (map vi_id (filter (\<lambda>x. vi_first x \<le> d) (sort_key item_sort_key xs)))" by force
      then show ?thesis unfolding ids [symmetric] by auto
    qed
    moreover have "vi_first r \<le> d" "vi_last r \<le> d" "vi_state r = st" "vi_counts r = (vi_counts x \<and> st \<noteq> superseded_state)"
      "vi_superseded_by r = (if st \<noteq> superseded_state then None else visible_successor xs trail d x)"
      using st x(2) by (simp_all add: same_item_def)
    ultimately show ?thesis by auto
  qed
  then show ?thesis using ids by blast
qed

text \<open>
  Around a supersession the read replays the trail: before its date the old item has the state it had and no
  successor, from the date on it is superseded by the new one. The pressure flag, cleared in the row, is not replayed.
\<close>

theorem read_around_supersession:
  assumes "supersede_items fresh n old new occurred rule = ok (v, m)" and "vi_id new = Some u" and "clean_item old" and "clean_item new"
    and "read_items [su_superseded v, su_successor v] [su_transition v] d = ok rs" and "r \<in> set rs" and "vi_id r = vi_id old"
  shows "if d < su_on v then vi_state r = vi_state old \<and> vi_superseded_by r = None \<and> \<not> vi_counts r
    else vi_state r = superseded_state \<and> vi_superseded_by r = Some u \<and> \<not> vi_counts r"
proof -
  let ?x = "su_superseded v" and ?y = "su_successor v"
  note f = supersede_ok [OF assms(1-4)]
  have ids: "vi_id ?x = vi_id old" "vi_id ?y = Some u" "vi_superseded_by ?x = Some u" "\<not> vi_counts ?x" "vi_id old \<noteq> Some u"
    "vi_id old \<noteq> None" "vi_first ?y = vi_first new"
    using f(1,5,6) assms(2) by (auto simp: same_item_def may_supersede_def)
  have on: "su_on v \<ge> vi_first new" and t: "vt_from (su_transition v) = Some (vi_state old)" "vt_to (su_transition v) = superseded_state"
      "vt_on (su_transition v) = su_on v" "vt_evidence (su_transition v) = vi_id old"
    using assms(1,2) f(1) by (auto simp: supersede_items_def make_evidence_transition_def rbind_ok_iff if_raise_ok_iff not_less simp del: not_None_eq)
  have trail: "trail_of [su_transition v] (vi_id ?x) = [su_transition v]" using ids(1,6) t by (simp add: trail_of_def)
  have clean: "\<forall>x\<in>set [?x, ?y]. clean_item x" using f(3,4) by simp
  obtain z where z: "z \<in> {?x, ?y}" "vi_first z \<le> d" "read_item [?x, ?y] [su_transition v] d z = ok r"
    using read_items_ok(2) [OF assms(5) clean] assms(6) by auto
  have "vi_id z = vi_id r" using read_item_ok [OF z(3)] clean z(1) by (auto simp: same_item_def)
  then have zx: "z = ?x" using z(1) ids(1,2,5) assms(7) by auto
  obtain st where st: "state_as_of ?x [su_transition v] d = ok st" and "vi_state r = st" "\<not> vi_counts r"
      "vi_superseded_by r = (if st \<noteq> superseded_state then None else visible_successor [?x, ?y] [su_transition v] d ?x)"
    using read_item_ok [OF z(3)] clean ids(4) unfolding zx trail by (auto simp: same_item_def)
  moreover have "st = (if d < su_on v then vi_state old else superseded_state)"
    using st t by (auto simp: state_as_of_def split: if_splits)
  moreover have "vi_state old \<noteq> superseded_state" using f(1) by (auto simp: may_supersede_def active_states_def superseded_state_def)
  moreover have "visible_successor [?x, ?y] [su_transition v] d ?x = Some u" if "\<not> d < su_on v"
  proof -
    have "superseded_by_then [su_transition v] d" using that t by (simp add: superseded_by_then_def)
    moreover have "item_with_id [?x, ?y] u = Some ?y" using ids by (simp add: item_with_id_def)
    ultimately show ?thesis using that on ids trail by (simp add: visible_successor_def)
  qed
  ultimately show ?thesis by auto
qed

section \<open>Examples and edge cases\<close>

text \<open>A late event whose winner already superseded an item is not retained: the whole batch is refused.\<close>

lemma late_event_refused:
  assumes "best_match c xs rules = Some (i, x, r)" and "\<not> already_seen (ca_item c) xs" and "vi_first (ca_item c) < vi_last x"
    and "vi_supersedes x \<noteq> None" and "vi_supersedes x \<noteq> vi_id (ca_item c)"
  shows "isl (resolve_step fresh rules c (xs, revisions, n))"
proof -
  have "supersede_items fresh n (ca_item c) x d r' = raise ValueError" for d r'
    using assms(4,5) by (simp add: supersede_items_def may_supersede_def)
  then show ?thesis using assms(1-3) by (cases "reverse_rule r") (simp_all add: resolve_step_def Let_def)
qed

definition demo_signal :: "nat option \<Rightarrow> string \<Rightarrow> string \<Rightarrow> event_id option \<Rightarrow> date \<Rightarrow> signal_event" where
  "demo_signal facility family t i d = \<lparr>sg_borrower = 7, sg_facility = facility, sg_date = d, sg_family = family, sg_event_type = t,
     sg_magnitude = PNone, sg_payload = [], sg_id = i, sg_content_hash = None, sg_evidence_type = t\<rparr>"

definition demo_supply :: "nat \<Rightarrow> pyval" where "demo_supply n = PUuid (100 + n)"

text \<open>An event of a facility without row and content hash has a readable source longer than an item allows.\<close>

lemma readable_source_too_long:
  "event_candidate (\<lambda>v. []) demo_supply 0 (demo_signal (Some 9) ''account_activity'' ''account_activity_change'' None 730010) = raise ValueError"
  by code_simp

end
