(* ===== verification/Certificates.thy ===== *)
theory Certificates
  imports Cure
begin

text \<open>
  The certificates a borrower has to deliver (\<open>domain/certificates/requirements.py\<close>): the lead time that fits a testing
  frequency, and the grouping of open schedule occurrences into requirements.
\<close>

definition certificate_test_basis :: string where "certificate_test_basis = ''certificate''"

definition validate_lead_time :: "string \<Rightarrow> pyval \<Rightarrow> int result" where
  "validate_lead_time frequency lead =
     (if frequency = [] then raise (ValidationError ''frequency'') else
      case plain_int lead of None \<Rightarrow> raise (ValidationError ''lead_time_days'')
      | Some n \<Rightarrow> if n \<le> 0 then raise (ValidationError ''lead_time_days'')
          else if frequency = ''on_event'' then ok n
          else (case lookup frequency_window_days frequency of
              None \<Rightarrow> raise (ValidationError ''frequency'')
            | Some window \<Rightarrow> if n \<ge> window then raise (ValidationError ''lead_time_days'') else ok n))"

record certificate_candidate =
  cc_schedule :: nat
  cc_version :: nat
  cc_borrower :: nat
  cc_due :: date
  cc_frequency :: string
  cc_basis :: string
  cc_existing :: "nat option"

definition make_candidate :: "certificate_candidate \<Rightarrow> certificate_candidate result" where
  "make_candidate c = (if cc_frequency c = [] then raise (ValidationError ''frequency'')
     else if cc_basis c = [] then raise (ValidationError ''test_basis'') else ok c)"

record certificate_requirement =
  ce_borrower :: nat
  ce_due :: date
  ce_raise_on :: date
  ce_schedules :: "nat list"

definition make_requirement :: "certificate_requirement \<Rightarrow> certificate_requirement result" where
  "make_requirement r = (if ce_schedules r = [] then raise (ValidationError ''covenant_schedule_ids'') else ok r)"

definition anchor :: "certificate_requirement \<Rightarrow> nat" where
  "anchor r = ce_schedules r ! 0"

text \<open>\<open>groups.setdefault(key, []).append(schedule_id)\<close>: keys stay in the order of their first member.\<close>

fun add_to_group :: "'k \<Rightarrow> 'v \<Rightarrow> ('k \<times> 'v list) list \<Rightarrow> ('k \<times> 'v list) list" where
  "add_to_group k v [] = [(k, [v])]"
| "add_to_group k v ((k', vs) # gs) = (if k' = k then (k', vs @ [v]) # gs else (k', vs) # add_to_group k v gs)"

definition group_candidates :: "certificate_candidate list \<Rightarrow> ((nat \<times> date) \<times> nat list) list" where
  "group_candidates cs = fold (\<lambda>c gs. add_to_group (cc_borrower c, cc_due c) (cc_schedule c) gs) cs []"

fun raised :: "int \<Rightarrow> date \<Rightarrow> ((nat \<times> date) \<times> nat list) list \<Rightarrow> certificate_requirement list result" where
  "raised lead as_of [] = ok []"
| "raised lead as_of (((b, due), ids) # gs) =
     rbind (add_days due (- lead)) (\<lambda>on.
       if on > as_of then raised lead as_of gs else
       rbind (make_requirement \<lparr>ce_borrower = b, ce_due = due, ce_raise_on = on, ce_schedules = sort ids\<rparr>) (\<lambda>r.
       rbind (raised lead as_of gs) (\<lambda>rs. ok (r # rs))))"

definition requirement_key :: "certificate_requirement \<Rightarrow> date \<times> nat \<times> nat" where
  "requirement_key r = (ce_due r, ce_borrower r, anchor r)"

definition derive_requirements :: "certificate_candidate list \<Rightarrow> pyval \<Rightarrow> date \<Rightarrow> certificate_requirement list result" where
  "derive_requirements candidates lead as_of =
     (let needed = filter (\<lambda>c. cc_basis c = certificate_test_basis) candidates in
      rbind (rmap (\<lambda>c. validate_lead_time (cc_frequency c) lead) needed) (\<lambda>_.
      rbind (case plain_int lead of Some n \<Rightarrow> raised n as_of (group_candidates needed)
             | None \<Rightarrow> if needed = [] then ok [] else raise TypeError) (\<lambda>rs.
      ok (sort_key requirement_key rs))))"

section \<open>Grouping\<close>

lemma lookup_add_to_group:
  "lookup (add_to_group k v gs) k' = (if k' = k then Some ((case lookup gs k of None \<Rightarrow> [] | Some vs \<Rightarrow> vs) @ [v]) else lookup gs k')"
  by (induction gs) (auto split: option.splits)

lemma keys_add_to_group: "map fst (add_to_group k v gs) = (if k \<in> fst ` set gs then map fst gs else map fst gs @ [k])"
  by (induction k v gs rule: add_to_group.induct) auto

lemma distinct_add_to_group: "distinct (map fst gs) \<Longrightarrow> distinct (map fst (add_to_group k v gs))"
  by (simp add: keys_add_to_group)

text \<open>A group holds the occurrences of its borrower and date, in the order of the candidates.\<close>

definition members :: "certificate_candidate list \<Rightarrow> nat \<times> date \<Rightarrow> nat list" where
  "members cs k = map cc_schedule (filter (\<lambda>c. (cc_borrower c, cc_due c) = k) cs)"

lemma group_fold:
  "distinct (map fst gs) \<Longrightarrow> \<forall>k. lookup gs k = (if members ds k = [] then None else Some (members ds k)) \<Longrightarrow>
    (let hs = fold (\<lambda>c gs. add_to_group (cc_borrower c, cc_due c) (cc_schedule c) gs) cs gs in
      distinct (map fst hs) \<and> (\<forall>k. lookup hs k = (if members (ds @ cs) k = [] then None else Some (members (ds @ cs) k))))"
proof (induction cs arbitrary: gs ds)
  case (Cons c cs)
  have "\<forall>k. lookup (add_to_group (cc_borrower c, cc_due c) (cc_schedule c) gs) k =
      (if members (ds @ [c]) k = [] then None else Some (members (ds @ [c]) k))"
    using Cons.prems(2) by (auto simp: lookup_add_to_group members_def split: option.splits)
  from Cons.IH [OF distinct_add_to_group [OF Cons.prems(1)] this] show ?case
    by (simp only: fold_Cons o_apply append_assoc append_Cons append_Nil)
qed simp

lemma group_candidates_exact:
  "distinct (map fst (group_candidates cs))"
  "lookup (group_candidates cs) k = (if members cs k = [] then None else Some (members cs k))"
proof -
  have "\<forall>k. lookup [] k = (if members [] k = [] then None else Some (members [] k))" by (simp add: members_def)
  from group_fold [OF _ this, of cs]
  show "distinct (map fst (group_candidates cs))"
    and "lookup (group_candidates cs) k = (if members cs k = [] then None else Some (members cs k))"
    by (simp_all only: group_candidates_def Let_def append_Nil distinct.simps list.map)
qed

lemma in_group_iff: "(k, ids) \<in> set (group_candidates cs) \<longleftrightarrow> ids = members cs k \<and> ids \<noteq> []"
proof -
  have "(k, ids) \<in> set (group_candidates cs) \<longleftrightarrow> lookup (group_candidates cs) k = Some ids"
    using group_candidates_exact(1) [of cs] by (simp add: lookup_def map_of_eq_Some_iff)
  then show ?thesis by (auto simp: group_candidates_exact(2))
qed

lemma raised_exact:
  "raised n as_of gs = ok rs \<Longrightarrow> \<forall>(k, ids)\<in>set gs. ids \<noteq> [] \<Longrightarrow>
    rs = map (\<lambda>((b, due), ids). \<lparr>ce_borrower = b, ce_due = due, ce_raise_on = due - n, ce_schedules = sort ids\<rparr>)
      (filter (\<lambda>((b, due), ids). due - n \<le> as_of) gs)"
proof (induction n as_of gs arbitrary: rs rule: raised.induct)
  case (2 lead as_of b due ids gs)
  obtain on where on: "add_days due (- lead) = ok on" using "2.prems"(1) by (cases "add_days due (- lead)") auto
  have "on = due - lead" using add_days_ok [OF on] by simp
  then show ?case using "2.prems" "2.IH" on by (auto simp: make_requirement_def split: if_splits)
qed simp

section \<open>Requirements\<close>

lemma lead_time_fits:
  "validate_lead_time frequency (PInt n) = ok m \<Longrightarrow> m = n \<and> 0 < n \<and> (frequency = ''on_event'' \<or>
    (\<exists>window. lookup frequency_window_days frequency = Some window \<and> n < window))"
  by (auto simp: validate_lead_time_def plain_int_def split: if_splits option.splits)

text \<open>The requirement of a borrower and a date.\<close>

definition requirement_of :: "certificate_candidate list \<Rightarrow> int \<Rightarrow> nat \<times> date \<Rightarrow> certificate_requirement" where
  "requirement_of cs n k = \<lparr>ce_borrower = fst k, ce_due = snd k, ce_raise_on = snd k - n, ce_schedules = sort (members cs k)\<rparr>"

lemma raised_set:
  assumes "raised n as_of (group_candidates cs) = ok rs"
  shows "set rs = {requirement_of cs n k | k. members cs k \<noteq> [] \<and> snd k - n \<le> as_of}"
    and "distinct (map (\<lambda>r. (ce_borrower r, ce_due r)) rs)"
proof -
  define gs where "gs = group_candidates cs"
  have "\<forall>(k, ids)\<in>set gs. ids \<noteq> []" by (auto simp: gs_def in_group_iff)
  from raised_exact [OF assms [folded gs_def] this]
  have rs: "rs = map (\<lambda>(k, ids). \<lparr>ce_borrower = fst k, ce_due = snd k, ce_raise_on = snd k - n, ce_schedules = sort ids\<rparr>)
      (filter (\<lambda>(k, ids). snd k - n \<le> as_of) gs)" by (simp add: case_prod_unfold)
  show "set rs = {requirement_of cs n k | k. members cs k \<noteq> [] \<and> snd k - n \<le> as_of}"
    unfolding rs gs_def by (force simp: in_group_iff requirement_of_def)
  have "map (\<lambda>r. (ce_borrower r, ce_due r)) rs = map fst (filter (\<lambda>(k, ids). snd k - n \<le> as_of) gs)"
    unfolding rs by (simp add: case_prod_unfold o_def)
  then show "distinct (map (\<lambda>r. (ce_borrower r, ce_due r)) rs)"
    using group_candidates_exact(1) [of cs] by (simp add: gs_def distinct_map_filter)
qed

text \<open>
  C39: The derived requirements are exactly one for each borrower and due date that an open occurrence on the certificate
  basis has, once its lead time has begun; each covers all those occurrences, oldest first. They come by due date, then
  borrower, and every frequency concerned leaves room for the lead time.
\<close>

theorem requirements_exact:
  assumes "derive_requirements cs (PInt n) as_of = ok rs"
  shows "let needed = filter (\<lambda>c. cc_basis c = certificate_test_basis) cs in
    set rs = {requirement_of needed n k | k. members needed k \<noteq> [] \<and> snd k - n \<le> as_of}
    \<and> distinct (map (\<lambda>r. (ce_borrower r, ce_due r)) rs) \<and> sorted (map requirement_key rs)
    \<and> (\<forall>c\<in>set needed. 0 < n \<and> (cc_frequency c = ''on_event'' \<or>
        (\<exists>window. lookup frequency_window_days (cc_frequency c) = Some window \<and> n < window)))"
proof -
  define needed where "needed = filter (\<lambda>c. cc_basis c = certificate_test_basis) cs"
  obtain ms qs where ms: "rmap (\<lambda>c. validate_lead_time (cc_frequency c) (PInt n)) needed = ok ms"
    and qs: "raised n as_of (group_candidates needed) = ok qs" and rs: "rs = sort_key requirement_key qs"
    using assms by (auto simp: derive_requirements_def needed_def Let_def rbind_ok_iff plain_int_def)
  have "0 < n \<and> (cc_frequency c = ''on_event'' \<or> (\<exists>window. lookup frequency_window_days (cc_frequency c) = Some window \<and> n < window))"
    if c: "c \<in> set needed" for c
  proof -
    obtain m where "validate_lead_time (cc_frequency c) (PInt n) = ok m"
      using bspec [OF conjunct1 [OF ms [unfolded rmap_Inr_iff]] c] ..
    from lead_time_fits [OF this] show ?thesis by blast
  qed
  moreover have "distinct (map (\<lambda>r. (ce_borrower r, ce_due r)) rs)"
  proof -
    have "mset (map (\<lambda>r. (ce_borrower r, ce_due r)) rs) = mset (map (\<lambda>r. (ce_borrower r, ce_due r)) qs)" by (simp add: rs)
    then show ?thesis using raised_set(2) [OF qs] mset_eq_imp_distinct_iff by blast
  qed
  moreover have "set rs = {requirement_of needed n k | k. members needed k \<noteq> [] \<and> snd k - n \<le> as_of}"
    using raised_set(1) [OF qs] by (simp add: rs)
  ultimately show ?thesis by (simp add: needed_def [symmetric] rs)
qed

definition demo_candidates :: "certificate_candidate list" where
  "demo_candidates = [\<lparr>cc_schedule = 9, cc_version = 1, cc_borrower = 5, cc_due = 730100, cc_frequency = ''quarterly'', cc_basis = ''certificate'', cc_existing = None\<rparr>,
    \<lparr>cc_schedule = 4, cc_version = 2, cc_borrower = 5, cc_due = 730100, cc_frequency = ''annual'', cc_basis = ''certificate'', cc_existing = None\<rparr>,
    \<lparr>cc_schedule = 6, cc_version = 3, cc_borrower = 5, cc_due = 730100, cc_frequency = ''annual'', cc_basis = ''standalone'', cc_existing = None\<rparr>]"

lemma demo_requirements: "derive_requirements demo_candidates (PInt 30) 730080
    = ok [\<lparr>ce_borrower = 5, ce_due = 730100, ce_raise_on = 730070, ce_schedules = [4, 9]\<rparr>]"
  by code_simp

theorem requirements_exact_witness:
  "sorted (map requirement_key [\<lparr>ce_borrower = 5, ce_due = 730100, ce_raise_on = 730070, ce_schedules = [4, 9]\<rparr>])"
  using requirements_exact [OF demo_requirements] by (simp add: Let_def)

end
