(* ===== verification/Identifiers.thy ===== *)
theory Identifiers
  imports Py_Values
begin

text \<open>
  Primary keys and readable references (\<open>core/ids.py\<close>). The module state is the last millisecond and the counter; the
  nanoseconds of the clock and the random draws of a call are its arguments. The lock of the module makes the step on
  the state atomic, so the calls of a process are a list in the order in which they took it.
\<close>

section \<open>Minting\<close>

definition sequence_bits :: nat where "sequence_bits = 12"
definition sequence_mask :: int where "sequence_mask = push_bit sequence_bits 1 - 1"
definition random_bits :: nat where "random_bits = 62"

record id_state =
  id_last :: int
  id_sequence :: int

text \<open>What a call reads: the clock in nanoseconds, the draw for the counter, the draw for the tail.\<close>

record id_call =
  ic_clock :: int
  ic_sequence :: int
  ic_random :: int

definition next_stamp :: "id_call \<Rightarrow> id_state \<Rightarrow> id_state" where
  "next_stamp c s =
     (let now = ic_clock c div 1000000 in
      if now > id_last s then \<lparr>id_last = now, id_sequence = ic_sequence c\<rparr>
      else if id_sequence s + 1 > sequence_mask then \<lparr>id_last = id_last s + 1, id_sequence = ic_sequence c\<rparr>
      else s\<lparr>id_sequence := id_sequence s + 1\<rparr>)"

definition id_value :: "int \<Rightarrow> int \<Rightarrow> int \<Rightarrow> int" where
  "id_value stamp sequence random =
     or (or (or (or (push_bit 80 stamp) (push_bit 76 7)) (push_bit 64 (and sequence sequence_mask))) (push_bit 62 2)) random"

text \<open>\<open>UUID(int=value)\<close> refuses what 128 bits do not hold.\<close>

definition new_id :: "id_call \<Rightarrow> id_state \<Rightarrow> int result \<times> id_state" where
  "new_id c s = (let s' = next_stamp c s; v = id_value (id_last s') (id_sequence s') (ic_random c) in
     (if 0 \<le> v \<and> v < 2 ^ 128 then ok v else raise ValueError, s'))"

fun mint :: "id_call list \<Rightarrow> id_state \<Rightarrow> int result list \<times> id_state" where
  "mint [] s = ([], s)"
| "mint (c # cs) s = (case new_id c s of (r, s1) \<Rightarrow> case mint cs s1 of (rs, s2) \<Rightarrow> (r # rs, s2))"

definition human_reference :: "string \<Rightarrow> int \<Rightarrow> string result" where
  "human_reference prefix sequence =
     (if prefix = [] then raise ValueError else if sequence < 1 then raise ValueError
      else ok (prefix @ ''-'' @ padded 6 sequence))"

section \<open>The fields of an identifier\<close>

definition draws_ok :: "id_call \<Rightarrow> bool" where
  "draws_ok c \<longleftrightarrow> 0 \<le> ic_clock c \<and> 0 \<le> ic_sequence c \<and> ic_sequence c < 2 ^ 12 \<and> 0 \<le> ic_random c \<and> ic_random c < 2 ^ 62"

definition stamp_ok :: "id_state \<Rightarrow> bool" where
  "stamp_ok s \<longleftrightarrow> 0 \<le> id_last s \<and> 0 \<le> id_sequence s \<and> id_sequence s < 2 ^ 12"

lemma or_is_plus:
  assumes "(2::int) ^ n dvd a" and "0 \<le> b" and "b < 2 ^ n"
  shows "or a b = a + b"
proof -
  obtain q where a: "a = push_bit n q" using assms(1) by (auto simp: push_bit_eq_mult mult.commute elim!: dvdE)
  have b: "b = take_bit n b" using assms(2,3) by (simp add: take_bit_int_eq_self)
  have "and a b = 0" unfolding a by (subst b, rule bit_eqI) (auto simp: bit_and_iff bit_push_bit_iff bit_take_bit_iff)
  then show ?thesis by (simp add: disjunctive_add_eq_or)
qed

lemma id_value_fields:
  assumes "0 \<le> stamp" and "0 \<le> sequence" and "sequence < 2 ^ 12" and "0 \<le> random" and "random < 2 ^ 62"
  shows "id_value stamp sequence random = stamp * 2 ^ 80 + 7 * 2 ^ 76 + sequence * 2 ^ 64 + 2 * 2 ^ 62 + random"
proof -
  have mask: "and sequence sequence_mask = sequence"
  proof -
    have "sequence_mask = mask 12" by (simp add: sequence_mask_def sequence_bits_def mask_eq_exp_minus_1)
    then have "and sequence sequence_mask = take_bit 12 sequence" by (simp add: take_bit_eq_mask)
    then show ?thesis using assms(2,3) by (simp add: take_bit_int_eq_self)
  qed
  have 1: "or (push_bit 80 stamp) (push_bit 76 7) = stamp * 2 ^ 80 + 7 * 2 ^ 76"
    using or_is_plus [of 80 "push_bit 80 stamp" "push_bit 76 7"] by (simp add: push_bit_eq_mult)
  have 2: "or (stamp * 2 ^ 80 + 7 * 2 ^ 76) (push_bit 64 sequence) = stamp * 2 ^ 80 + 7 * 2 ^ 76 + sequence * 2 ^ 64"
    using or_is_plus [of 76 "stamp * 2 ^ 80 + 7 * 2 ^ 76" "push_bit 64 sequence"] assms(2,3) by (simp add: push_bit_eq_mult)
  have 3: "or (stamp * 2 ^ 80 + 7 * 2 ^ 76 + sequence * 2 ^ 64) (push_bit 62 2)
      = stamp * 2 ^ 80 + 7 * 2 ^ 76 + sequence * 2 ^ 64 + 2 * 2 ^ 62"
    using or_is_plus [of 64 "stamp * 2 ^ 80 + 7 * 2 ^ 76 + sequence * 2 ^ 64" "push_bit 62 2"]
    by (simp add: push_bit_eq_mult dvd_add)
  have 4: "or (stamp * 2 ^ 80 + 7 * 2 ^ 76 + sequence * 2 ^ 64 + 2 * 2 ^ 62) random
      = stamp * 2 ^ 80 + 7 * 2 ^ 76 + sequence * 2 ^ 64 + 2 * 2 ^ 62 + random"
    using or_is_plus [of 62 "stamp * 2 ^ 80 + 7 * 2 ^ 76 + sequence * 2 ^ 64 + 2 * 2 ^ 62" random] assms(4,5)
    by (simp add: dvd_add)
  show ?thesis unfolding id_value_def mask 1 2 3 4 ..
qed

lemma next_stamp_ok: "stamp_ok s \<Longrightarrow> draws_ok c \<Longrightarrow> stamp_ok (next_stamp c s)"
  by (auto simp: stamp_ok_def draws_ok_def next_stamp_def Let_def sequence_mask_def sequence_bits_def)

text \<open>The pair of millisecond and counter grows with every call, whatever the clock does.\<close>

definition earlier :: "id_state \<Rightarrow> id_state \<Rightarrow> bool" where
  "earlier s t \<longleftrightarrow> id_last s < id_last t \<or> id_last s = id_last t \<and> id_sequence s < id_sequence t"

lemma next_stamp_later: "earlier s (next_stamp c s)"
  by (simp add: earlier_def next_stamp_def Let_def)

lemma earlier_trans: "earlier s t \<Longrightarrow> earlier t u \<Longrightarrow> earlier s u"
  by (auto simp: earlier_def)

definition value_of :: "id_state \<Rightarrow> int \<Rightarrow> int" where
  "value_of s random = id_last s * 2 ^ 80 + 7 * 2 ^ 76 + id_sequence s * 2 ^ 64 + 2 * 2 ^ 62 + random"

lemma earlier_value:
  assumes "earlier s t" and "stamp_ok s" and "stamp_ok t" and "0 \<le> x" "x < 2 ^ 62" "0 \<le> y" "y < 2 ^ 62"
  shows "value_of s x < value_of t y"
proof (cases "id_last s < id_last t")
  case True
  then have "(id_last s + 1) * 2 ^ 80 \<le> id_last t * 2 ^ 80" by (intro mult_right_mono) auto
  then show ?thesis using assms by (simp add: value_of_def stamp_ok_def)
next
  case False
  then have "id_last s = id_last t" "id_sequence s + 1 \<le> id_sequence t" using assms(1) by (auto simp: earlier_def)
  then show ?thesis using assms by (simp add: value_of_def)
qed

lemma new_id_ok:
  assumes "stamp_ok s" and "draws_ok c" and "new_id c s = (ok v, s')"
  shows "s' = next_stamp c s" and "v = value_of s' (ic_random c)"
  using assms next_stamp_ok [OF assms(1,2)]
  by (auto simp: new_id_def Let_def id_value_fields stamp_ok_def draws_ok_def value_of_def split: if_splits)

definition minted :: "int result list \<Rightarrow> int list" where
  "minted rs = map projr (filter (\<lambda>r. \<not> isl r) rs)"

lemma minted_Cons [simp]: "minted (ok v # rs) = v # minted rs" "minted (raise e # rs) = minted rs" "minted [] = []"
  by (simp_all add: minted_def)

lemma mint_later:
  assumes "mint cs s = (rs, s')" and "stamp_ok s" and "list_all draws_ok cs" and "v \<in> set (minted rs)"
  shows "\<exists>t x. earlier s t \<and> stamp_ok t \<and> 0 \<le> x \<and> x < 2 ^ 62 \<and> v = value_of t x"
  using assms
proof (induction cs arbitrary: s rs)
  case (Cons c cs)
  obtain r s1 rs1 where n: "new_id c s = (r, s1)" and m: "mint cs s1 = (rs1, s')" and rs: "rs = r # rs1"
    using Cons.prems(1) by (auto split: prod.splits)
  have s1: "s1 = next_stamp c s" using n by (simp add: new_id_def Let_def)
  have ok1: "stamp_ok s1" unfolding s1 using Cons.prems(2,3) by (simp add: next_stamp_ok)
  have later: "earlier s s1" unfolding s1 by (rule next_stamp_later)
  show ?case
  proof (cases "v \<in> set (minted rs1)")
    case True
    then obtain t x where "earlier s1 t" "stamp_ok t" "0 \<le> x" "x < 2 ^ 62" "v = value_of t x"
      using Cons.IH [OF m ok1] Cons.prems(3) by auto
    then show ?thesis using earlier_trans [OF later] by blast
  next
    case False
    then obtain w where r: "r = ok w" "v = w" using Cons.prems(4) rs by (cases r) auto
    then have "v = value_of s1 (ic_random c)"
      using new_id_ok [OF Cons.prems(2) _ n [unfolded r]] Cons.prems(3) by simp
    then show ?thesis using later ok1 Cons.prems(3) by (auto simp: draws_ok_def)
  qed
qed simp

lemma minted_increasing:
  assumes "mint cs s = (rs, s')" and "stamp_ok s" and "list_all draws_ok cs"
  shows "sorted_wrt (<) (minted rs)"
  using assms
proof (induction cs arbitrary: s rs)
  case (Cons c cs)
  obtain r s1 rs1 where n: "new_id c s = (r, s1)" and m: "mint cs s1 = (rs1, s')" and rs: "rs = r # rs1"
    using Cons.prems(1) by (auto split: prod.splits)
  have s1: "s1 = next_stamp c s" using n by (simp add: new_id_def Let_def)
  have ok1: "stamp_ok s1" unfolding s1 using Cons.prems(2,3) by (simp add: next_stamp_ok)
  have rest: "sorted_wrt (<) (minted rs1)" using Cons.IH [OF m ok1] Cons.prems(3) by simp
  show ?case
  proof (cases r)
    case (Inr w)
    have w: "w = value_of s1 (ic_random c)" using new_id_ok [OF Cons.prems(2) _ n [unfolded Inr]] Cons.prems(3) by simp
    have "w < v" if v: "v \<in> set (minted rs1)" for v
    proof -
      obtain t x where "earlier s1 t" "stamp_ok t" "0 \<le> x" "x < 2 ^ 62" "v = value_of t x"
        using mint_later [OF m ok1 _ v] Cons.prems(3) by auto
      then show ?thesis unfolding w using earlier_value [OF _ ok1] Cons.prems(3) by (simp add: draws_ok_def)
    qed
    then show ?thesis using rest Inr rs by simp
  qed (use rest rs in simp)
qed simp

lemma mint_monotone: "mint cs s = (rs, s') \<Longrightarrow> id_last s \<le> id_last s'"
proof (induction cs arbitrary: s rs)
  case (Cons c cs)
  obtain r s1 rs1 where n: "new_id c s = (r, s1)" and m: "mint cs s1 = (rs1, s')" using Cons.prems by (auto split: prod.splits)
  have "id_last s \<le> id_last s1" using n by (auto simp: new_id_def next_stamp_def Let_def)
  then show ?case using Cons.IH [OF m] by simp
qed simp

lemma new_id_succeeds:
  assumes "stamp_ok s" and "draws_ok c" and "new_id c s = (r, s')" and "id_last s' < 2 ^ 48"
  shows "\<exists>v. r = ok v"
proof -
  have s': "s' = next_stamp c s" using assms(3) by (simp add: new_id_def Let_def)
  then have "stamp_ok s'" using next_stamp_ok [OF assms(1,2)] by simp
  then show ?thesis using assms(2,3,4) by (auto simp: new_id_def Let_def s' [symmetric] id_value_fields stamp_ok_def draws_ok_def)
qed

lemma mint_succeeds:
  assumes "mint cs s = (rs, s')" and "stamp_ok s" and "list_all draws_ok cs" and "id_last s' < 2 ^ 48"
  shows "length (minted rs) = length cs"
  using assms
proof (induction cs arbitrary: s rs)
  case (Cons c cs)
  obtain r s1 rs1 where n: "new_id c s = (r, s1)" and m: "mint cs s1 = (rs1, s')" and rs: "rs = r # rs1"
    using Cons.prems(1) by (auto split: prod.splits)
  have "stamp_ok s1" using n Cons.prems(2,3) next_stamp_ok [of s c] by (simp add: new_id_def Let_def)
  moreover have "id_last s1 < 2 ^ 48" using mint_monotone [OF m] Cons.prems(4) by simp
  then obtain v where "r = ok v" using new_id_succeeds [OF Cons.prems(2) _ n] Cons.prems(3) by auto
  ultimately show ?case using Cons.IH [OF m] Cons.prems(3,4) rs by simp
qed simp

text \<open>
  C40: Whatever the clock does, standing still or going back included, the identifiers a process mints are strictly
  increasing in the order of the calls, so no two are equal; and until the millisecond outgrows its 48 bits every call
  returns one.
\<close>

theorem ids_strictly_increasing:
  assumes "mint cs s = (rs, s')" and "stamp_ok s" and "list_all draws_ok cs"
  shows "sorted_wrt (<) (minted rs) \<and> (id_last s' < 2 ^ 48 \<longrightarrow> length (minted rs) = length cs)"
  using minted_increasing [OF assms] mint_succeeds [OF assms] by simp

text \<open>The fields RFC 9562 fixes: version 7 in bits 76 to 79, variant 2 in bits 62 and 63, the millisecond on top.\<close>

lemma id_fields:
  assumes "stamp_ok s" and "draws_ok c" and "new_id c s = (ok v, s')"
  shows "v div 2 ^ 80 = id_last s'" and "v div 2 ^ 76 mod 16 = 7" and "v div 2 ^ 64 mod 2 ^ 12 = id_sequence s'" and "v div 2 ^ 62 mod 4 = 2"
proof -
  have b: "0 \<le> id_sequence s'" "id_sequence s' < 4096" "0 \<le> ic_random c" "ic_random c < 4611686018427387904"
    using next_stamp_ok [OF assms(1,2)] new_id_ok(1) [OF assms] assms(2) by (simp_all add: stamp_ok_def draws_ok_def)
  have v: "v = id_last s' * 1208925819614629174706176 + 528905046081400263933952 + id_sequence s' * 18446744073709551616
      + 9223372036854775808 + ic_random c" using new_id_ok(2) [OF assms] by (simp add: value_of_def)
  show "v div 2 ^ 80 = id_last s'" using v b by simp
  have "v div 2 ^ 76 = id_last s' * 16 + 7"
    by (rule int_div_pos_eq [where r = "v - 75557863725914323419136 * (id_last s' * 16 + 7)"]) (use v b in simp_all)
  then show "v div 2 ^ 76 mod 16 = 7" by simp
  have "v div 2 ^ 64 = (id_last s' * 16 + 7) * 4096 + id_sequence s'"
    by (rule int_div_pos_eq [where r = "v - 18446744073709551616 * ((id_last s' * 16 + 7) * 4096 + id_sequence s')"]) (use v b in simp_all)
  then have "v div 2 ^ 64 mod 4096 = id_sequence s' mod 4096" by (simp only: mod_mult_self3)
  then show "v div 2 ^ 64 mod 2 ^ 12 = id_sequence s'" using b by simp
  have "v div 2 ^ 62 = ((id_last s' * 16 + 7) * 4096 + id_sequence s') * 4 + 2"
    by (rule int_div_pos_eq [where r = "v - 4611686018427387904 * (((id_last s' * 16 + 7) * 4096 + id_sequence s') * 4 + 2)"]) (use v b in simp_all)
  then have "v div 2 ^ 62 mod 4 = 2 mod 4" by (simp only: mod_mult_self3)
  then show "v div 2 ^ 62 mod 4 = 2" by simp
qed

definition demo_calls :: "id_call list" where
  "demo_calls = [\<lparr>ic_clock = 5000000, ic_sequence = 4095, ic_random = 9\<rparr>, \<lparr>ic_clock = 3000000, ic_sequence = 1, ic_random = 3\<rparr>]"

lemma demo_mint: "mint demo_calls \<lparr>id_last = 0, id_sequence = 0\<rparr> = (fst (mint demo_calls \<lparr>id_last = 0, id_sequence = 0\<rparr>),
    \<lparr>id_last = 6, id_sequence = 1\<rparr>)"
  by code_simp

theorem ids_strictly_increasing_witness:
  "sorted_wrt (<) (minted (fst (mint demo_calls \<lparr>id_last = 0, id_sequence = 0\<rparr>))) \<and>
    length (minted (fst (mint demo_calls \<lparr>id_last = 0, id_sequence = 0\<rparr>))) = length demo_calls"
proof -
  have "stamp_ok \<lparr>id_last = 0, id_sequence = 0\<rparr>" "list_all draws_ok demo_calls" by code_simp+
  from ids_strictly_increasing [OF demo_mint this] show ?thesis by simp
qed

end
