(* ===== verification/Spec2Isabelle.thy ===== *)
theory Spec2Isabelle
  imports Covenant_Evaluate Cure Case_Lifecycle Case_Sla Triage_Rank Audit_Chain Ratio_Custom Approvals
    Job_Pipeline Rate_Limit Test_Calendar Sma_Banding Forecast_Crossing
    Forecast_Probability Forecast_Attribution Authentication
    Signal_Materiality Signal_Supersession Certificates Identifiers
begin

text \<open>
  A verification of the domain core of Covenant Radar (\<open>src/src/covenant_radar\<close>), a system
  that tests loan covenants against the ratios of a borrower's statements.

  Layout. \<open>Prelude\<close>, \<open>Decimals\<close>, \<open>Dates\<close> and \<open>Py_Values\<close> model the parts of Python
  and its standard library the program uses. Then one theory per component.
\<close>

end
